(* ===== verification/Prelude.thy ===== *)
theory Prelude
  imports Main "HOL-Library.Char_ord" "HOL-Library.List_Lexorder" "HOL-Library.AList"
    "HOL-Library.Multiset"
begin

text \<open>
  Shared vocabulary of the development.

  A Go \<open>map[string]T\<close> whose iteration order is observed by the code is an association list
  with distinct keys: the list is the order in which \<open>range\<close> happens to visit the entries, so a
  fact about every such list is a fact about every iteration order.  A Go map that is only looked up
  and assigned is an Isabelle map.  Go strings are byte strings (\<open>char list\<close>), compared
  bytewise, which is the lexicographic order of \<open>HOL-Library.List_Lexorder\<close>.
\<close>

named_theorems gomap "lookup, assignment and length of Go maps kept as association lists"
named_theorems node_simps "projections of the handlers that leave a field unchanged"

type_synonym ('k, 'v) gomap = "('k \<times> 'v) list"

abbreviation gm_get :: "('k, 'v) gomap \<Rightarrow> 'k \<Rightarrow> 'v option" where
  "gm_get m k \<equiv> map_of m k"

abbreviation gm_set :: "'k \<Rightarrow> 'v \<Rightarrow> ('k, 'v) gomap \<Rightarrow> ('k, 'v) gomap" where
  "gm_set k v m \<equiv> AList.update k v m"

abbreviation gm_del :: "'k \<Rightarrow> ('k, 'v) gomap \<Rightarrow> ('k, 'v) gomap" where
  "gm_del k m \<equiv> AList.delete k m"

abbreviation gm_wf :: "('k, 'v) gomap \<Rightarrow> bool" where
  "gm_wf m \<equiv> distinct (map fst m)"

text \<open>Reading an absent key of a \<open>map[string]int\<close> yields the zero value.\<close>

definition gm_int :: "('k, int) gomap \<Rightarrow> 'k \<Rightarrow> int" where
  "gm_int m k = (case gm_get m k of Some v \<Rightarrow> v | None \<Rightarrow> 0)"

text \<open>\<open>m[k]++\<close>\<close>

definition gm_incr :: "'k \<Rightarrow> ('k, int) gomap \<Rightarrow> ('k, int) gomap" where
  "gm_incr k m = gm_set k (gm_int m k + 1) m"

lemma gm_get_set [gomap, simp]: "gm_get (gm_set k v m) k' = (if k = k' then Some v else gm_get m k')"
  by (simp add: update_conv')

lemma gm_get_del [gomap, simp]: "gm_get (gm_del k m) k' = (if k = k' then None else gm_get m k')"
  by (simp add: delete_conv')

lemma gm_wf_set [gomap, simp]: "gm_wf m \<Longrightarrow> gm_wf (gm_set k v m)"
  by (rule distinct_update)

lemma gm_wf_del [gomap, simp]: "gm_wf m \<Longrightarrow> gm_wf (gm_del k m)"
  by (rule distinct_delete)

lemma gm_keys_set [gomap]: "fst ` set (gm_set k v m) = insert k (fst ` set m)"
  by (simp add: dom_update)

lemma gm_set_new: "k \<notin> fst ` set m \<Longrightarrow> gm_set k v m = m @ [(k, v)]"
  by (induction m) auto

lemma gm_length_set [gomap]:
  "length (gm_set k v m) = (if k \<in> fst ` set m then length m else Suc (length m))"
  by (induction m) auto

lemma gm_get_None: "gm_get m k = None \<longleftrightarrow> k \<notin> fst ` set m"
  by (simp add: map_of_eq_None_iff)

lemma gm_int_set [gomap, simp]: "gm_int (gm_set k v m) k' = (if k = k' then v else gm_int m k')"
  by (simp add: gm_int_def)

lemma gm_int_incr [gomap, simp]:
  "gm_int (gm_incr k m) k' = (if k = k' then gm_int m k + 1 else gm_int m k')"
  by (simp add: gm_incr_def)

lemma gm_wf_incr [gomap, simp]: "gm_wf m \<Longrightarrow> gm_wf (gm_incr k m)"
  by (simp add: gm_incr_def)

lemma gm_keys_incr [gomap]: "fst ` set (gm_incr k m) = insert k (fst ` set m)"
  by (simp add: gm_incr_def gm_keys_set)

text \<open>Two iteration orders of the same Go map.\<close>

definition gm_same :: "('k, 'v) gomap \<Rightarrow> ('k, 'v) gomap \<Rightarrow> bool" where
  "gm_same m m' \<longleftrightarrow> gm_wf m \<and> gm_wf m' \<and> mset m = mset m'"

lemma gm_same_get: "gm_same m m' \<Longrightarrow> gm_get m k = gm_get m' k"
  by (metis gm_same_def map_of_eqI map_of_inject_set mset_eq_setD)

lemma find_SomeD: "find P xs = Some x \<Longrightarrow> x \<in> set xs \<and> P x"
  by (auto simp: find_Some_iff)

text \<open>Results of fallible Go functions: \<open>Inl\<close> the error, \<open>Inr\<close> the value.\<close>

definition is_ok :: "'e + 'a \<Rightarrow> bool" where
  "is_ok r = (case r of Inl _ \<Rightarrow> False | Inr _ \<Rightarrow> True)"

lemma is_ok_simps [simp]: "is_ok (Inr x)" "\<not> is_ok (Inl e)"
  by (simp_all add: is_ok_def)

text \<open>\<open>strings.HasPrefix\<close>, \<open>strings.HasSuffix\<close> and \<open>strings.Contains\<close>.\<close>

fun has_prefix :: "string \<Rightarrow> string \<Rightarrow> bool" where
  "has_prefix s [] = True"
| "has_prefix [] (p # ps) = False"
| "has_prefix (c # s) (p # ps) = (c = p \<and> has_prefix s ps)"

definition has_suffix :: "string \<Rightarrow> string \<Rightarrow> bool" where
  "has_suffix s p = has_prefix (rev s) (rev p)"

fun contains_str :: "string \<Rightarrow> string \<Rightarrow> bool" where
  "contains_str [] p = (p = [])"
| "contains_str (c # s) p = (has_prefix (c # s) p \<or> contains_str s p)"

lemma has_prefix_iff: "has_prefix s p \<longleftrightarrow> (\<exists>t. s = p @ t)"
  by (induction s p rule: has_prefix.induct) auto

lemma has_suffix_iff: "has_suffix s p \<longleftrightarrow> (\<exists>t. s = t @ p)"
proof -
  have "has_suffix s p \<longleftrightarrow> (\<exists>t. rev s = rev p @ t)"
    by (simp add: has_suffix_def has_prefix_iff)
  also have "\<dots> \<longleftrightarrow> (\<exists>t. s = t @ p)"
    by (metis rev_append rev_rev_ident)
  finally show ?thesis .
qed

lemma contains_str_iff: "contains_str s p \<longleftrightarrow> (\<exists>a b. s = a @ p @ b)"
proof (induction s)
  case Nil
  then show ?case by auto
next
  case (Cons c s)
  have "(\<exists>a b. c # s = a @ p @ b) \<longleftrightarrow> (\<exists>b. c # s = p @ b) \<or> (\<exists>a b. s = a @ p @ b)"
    by (metis append_Cons append_eq_Cons_conv append_self_conv2)
  then show ?case
    by (simp add: Cons.IH has_prefix_iff)
qed

text \<open>\<open>strings.Split(s, sep)\<close> for a one-byte separator.\<close>

fun split_on :: "char \<Rightarrow> string \<Rightarrow> string list" where
  "split_on c [] = [[]]"
| "split_on c (x # xs) =
     (if x = c then [] # split_on c xs
      else (case split_on c xs of [] \<Rightarrow> [[x]] | w # ws \<Rightarrow> (x # w) # ws))"

definition join_with :: "'a list \<Rightarrow> 'a list list \<Rightarrow> 'a list" where
  "join_with sep ws = (case ws of [] \<Rightarrow> [] | w # ws' \<Rightarrow> w @ concat (map (\<lambda>v. sep @ v) ws'))"

lemma split_on_nonempty [simp]: "split_on c s \<noteq> []"
  by (induction s) (auto split: list.splits)

lemma split_on_single: "c \<notin> set s \<Longrightarrow> split_on c s = [s]"
  by (induction s) auto

lemma join_split_on: "join_with [c] (split_on c s) = s"
proof (induction s)
  case Nil
  then show ?case by (simp add: join_with_def)
next
  case (Cons x xs)
  obtain w ws where "split_on c xs = w # ws"
    by (meson list.exhaust split_on_nonempty)
  with Cons.IH show ?case by (auto simp: join_with_def)
qed

text \<open>Incrementing one entry of a finite table of integers adds one to its sum.\<close>

lemma sum_list_map_if_one:
  "distinct ks \<Longrightarrow> k \<in> set ks \<Longrightarrow>
   sum_list (map (\<lambda>x. if x = k then f x + (1::int) else f x) ks) = sum_list (map f ks) + 1"
proof (induction ks)
  case Nil
  then show ?case by simp
next
  case (Cons a ks)
  show ?case
  proof (cases "a = k")
    case True
    with Cons.prems have "map (\<lambda>x. if x = k then f x + 1 else f x) ks = map f ks"
      by auto
    then have "sum_list (map (\<lambda>x. if x = k then f x + 1 else f x) ks) = sum_list (map f ks)"
      by (rule arg_cong)
    with True show ?thesis by simp
  next
    case False
    with Cons show ?thesis by simp
  qed
qed

text \<open>\<open>strings.ToLower\<close>, \<open>strings.TrimSpace\<close> and \<open>strings.EqualFold\<close> on ASCII strings.\<close>

definition lower_char :: "char \<Rightarrow> char" where
  "lower_char c = (if (65::nat) \<le> of_char c \<and> of_char c \<le> (90::nat) then char_of (of_char c + (32::nat)) else c)"

definition to_lower :: "string \<Rightarrow> string" where
  "to_lower s = map lower_char s"

definition is_space :: "char \<Rightarrow> bool" where
  "is_space c \<longleftrightarrow> c = CHR '' '' \<or> ((9::nat) \<le> of_char c \<and> of_char c \<le> (13::nat))"

definition trim_space :: "string \<Rightarrow> string" where
  "trim_space s = rev (dropWhile is_space (rev (dropWhile is_space s)))"

definition equal_fold :: "string \<Rightarrow> string \<Rightarrow> bool" where
  "equal_fold a b \<longleftrightarrow> to_lower a = to_lower b"

definition is_lower_or_digit :: "char \<Rightarrow> bool" where
  "is_lower_or_digit c \<longleftrightarrow> ((97::nat) \<le> of_char c \<and> of_char c \<le> (122::nat)) \<or> ((48::nat) \<le> of_char c \<and> of_char c \<le> (57::nat))"

definition is_alnum :: "char \<Rightarrow> bool" where
  "is_alnum c \<longleftrightarrow> is_lower_or_digit c \<or> ((65::nat) \<le> of_char c \<and> of_char c \<le> (90::nat))"

lemma lower_char_idem [simp]: "lower_char (lower_char c) = lower_char c"
  by (auto simp: lower_char_def of_char_of)

lemma to_lower_idem [simp]: "to_lower (to_lower s) = to_lower s"
  by (simp add: to_lower_def)

lemma is_space_lower [simp]: "is_space (lower_char c) = is_space c"
proof (cases "(65::nat) \<le> of_char c \<and> of_char c \<le> (90::nat)")
  case True
  then have "c \<noteq> CHR '' ''" "\<not> of_char c \<le> (13::nat)" by auto
  moreover have "of_char (lower_char c) = of_char c + (32::nat)"
    using True by (simp add: lower_char_def of_char_of)
  then have "lower_char c \<noteq> CHR '' ''" "\<not> of_char (lower_char c) \<le> (13::nat)"
    using True by auto
  ultimately show ?thesis by (simp add: is_space_def)
qed (auto simp: lower_char_def)

lemma dropWhile_map_lower: "dropWhile is_space (map lower_char s) = map lower_char (dropWhile is_space s)"
  by (induction s) auto

lemma trim_space_lower: "trim_space (to_lower s) = to_lower (trim_space s)"
  by (simp add: trim_space_def to_lower_def dropWhile_map_lower rev_map)

lemma dropWhile_idem: "dropWhile P (dropWhile P xs) = dropWhile P xs"
  by (induction xs) auto

lemma dropWhile_append_last: "\<not> P x \<Longrightarrow> dropWhile P (xs @ [x]) = dropWhile P xs @ [x]"
  by (induction xs) auto

lemma trim_space_idem [simp]: "trim_space (trim_space s) = trim_space s"
proof (cases "dropWhile is_space s")
  case Nil
  have "trim_space s = []" by (simp only: trim_space_def Nil rev.simps dropWhile.simps)
  then show ?thesis by (simp only: trim_space_def rev.simps dropWhile.simps)
next
  case (Cons x xs)
  then have x: "\<not> is_space x"
    using hd_dropWhile[of is_space s] by simp
  have "dropWhile is_space (rev (x # xs)) = dropWhile is_space (rev xs) @ [x]"
    using dropWhile_append_last[where P = is_space and x = x and xs = "rev xs", OF x] by simp
  then show ?thesis
    using x by (simp add: trim_space_def Cons dropWhile_append_last dropWhile_idem)
qed

text \<open>Decimal text of a natural number (\<open>%d\<close>).\<close>

fun dec_nat :: "nat \<Rightarrow> string" where
  "dec_nat n = (if n < 10 then [char_of (48 + n)] else dec_nat (n div 10) @ [char_of (48 + n mod 10)])"

declare dec_nat.simps [simp del]

lemma dec_nat_digits: "set (dec_nat n) \<subseteq> {c. (48::nat) \<le> of_char c \<and> of_char c \<le> (57::nat)}"
proof (induction n rule: dec_nat.induct)
  case (1 n)
  then show ?case
    by (subst dec_nat.simps) (auto simp: of_char_of)
qed

lemma dec_nat_nonempty [simp]: "dec_nat n \<noteq> []"
  by (subst dec_nat.simps) auto

lemma char_of_digit_inj: "m < 10 \<Longrightarrow> n < 10 \<Longrightarrow> char_of (48 + m) = (char_of (48 + n) :: char) \<Longrightarrow> m = (n::nat)"
  by (drule arg_cong[of _ _ "of_char :: char \<Rightarrow> nat"]) (simp add: of_char_of)

lemma dec_nat_inj: "dec_nat m = dec_nat n \<Longrightarrow> m = n"
proof (induction m arbitrary: n rule: dec_nat.induct)
  case (1 m)
  show ?case
  proof (cases "m < 10")
    case True
    then have "length (dec_nat n) = 1" using 1(2) by (metis dec_nat.simps length_Cons length_0_conv One_nat_def list.size(3))
    then have "n < 10" by (metis One_nat_def add_is_1 dec_nat.simps dec_nat_nonempty length_0_conv length_append_singleton nat.inject)
    then show ?thesis
      using True 1(2) by (simp add: dec_nat.simps[of m] dec_nat.simps[of n] char_of_digit_inj)
  next
    case False
    then have m: "dec_nat m = dec_nat (m div 10) @ [char_of (48 + m mod 10)]" by (simp add: dec_nat.simps[of m])
    have "\<not> n < 10"
    proof
      assume "n < 10"
      then have "dec_nat n = [char_of (48 + n)]" by (simp add: dec_nat.simps[of n])
      then show False using m 1(2) by (metis append1_eq_conv append_Nil dec_nat_nonempty)
    qed
    then have n: "dec_nat n = dec_nat (n div 10) @ [char_of (48 + n mod 10)]" by (simp add: dec_nat.simps[of n])
    have "m div 10 = n div 10" and "m mod 10 = n mod 10"
      using 1(1)[OF False, of "n div 10"] 1(2) unfolding m n
      by (simp_all add: char_of_digit_inj)
    then show ?thesis by (metis div_mult_mod_eq)
  qed
qed

end
