(* ===== verification/RateLimiter.thy ===== *)
theory RateLimiter
  imports Prelude
begin

text \<open>
  The per-peer message rate limiter of \<open>election/reputationBasedElection.go\<close>
  (\<open>MessageRateLimiter\<close>, \<open>AllowMessage\<close>).  Instants and durations are integers in
  nanoseconds, as in Go's \<open>time\<close> package; a call reads the clock once (\<open>now\<close>).  Peers are named by
  the text form of their \<open>peer.ID\<close>.
\<close>

abbreviation sec :: "int \<Rightarrow> int" where
  "sec n \<equiv> n * 1000000000"

abbreviation "TypeVote \<equiv> ''vote''"
abbreviation "TypeHeartbeat \<equiv> ''heartbeat''"
abbreviation "TypeReputation \<equiv> ''reputation''"
abbreviation "TypeAnnouncement \<equiv> ''announcement''"
abbreviation "TypeElectionResult \<equiv> ''election_result''"

record rate_limiter =
  lastMessage :: "string \<rightharpoonup> (string \<rightharpoonup> int)"
  violators :: "string \<Rightarrow> int"
  bannedPeers :: "string \<rightharpoonup> int"

definition NewMessageRateLimiter :: rate_limiter where
  "NewMessageRateLimiter =
     \<lparr>lastMessage = Map.empty, violators = (\<lambda>_. 0), bannedPeers = Map.empty\<rparr>"

definition min_interval :: "string \<Rightarrow> int" where
  "min_interval msgType =
     (if msgType = TypeVote then sec 5
      else if msgType = TypeHeartbeat then sec 4
      else if msgType = TypeReputation then sec 25
      else sec 2)"

definition max_violations :: int where
  "max_violations = 10"

definition ban_time :: int where
  "ban_time = sec 120"

text \<open>The part of \<open>AllowMessage\<close> after the ban check.\<close>

definition check_interval :: "int \<Rightarrow> string \<Rightarrow> string \<Rightarrow> rate_limiter \<Rightarrow> bool \<times> rate_limiter" where
  "check_interval now peer msgType rl0 =
     (let rl = (if lastMessage rl0 peer = None
                then rl0\<lparr>lastMessage := (lastMessage rl0)(peer \<mapsto> Map.empty)\<rparr> else rl0);
          inner = the (lastMessage rl peer)
      in case inner msgType of
           Some prev \<Rightarrow>
             if now - prev < min_interval msgType
             then let rl1 = rl\<lparr>violators := (violators rl)(peer := violators rl peer + 1)\<rparr>
                  in (False, if violators rl1 peer \<ge> max_violations
                             then rl1\<lparr>bannedPeers := (bannedPeers rl1)(peer \<mapsto> now + ban_time)\<rparr>
                             else rl1)
             else let rl1 = (if violators rl peer > 0
                             then rl\<lparr>violators := (violators rl)(peer := violators rl peer - 1)\<rparr> else rl)
                  in (True, rl1\<lparr>lastMessage := (lastMessage rl1)(peer \<mapsto> inner(msgType \<mapsto> now))\<rparr>)
         | None \<Rightarrow>
             let rl1 = (if violators rl peer > 0
                        then rl\<lparr>violators := (violators rl)(peer := violators rl peer - 1)\<rparr> else rl)
             in (True, rl1\<lparr>lastMessage := (lastMessage rl1)(peer \<mapsto> inner(msgType \<mapsto> now))\<rparr>))"

definition AllowMessage :: "int \<Rightarrow> string \<Rightarrow> string \<Rightarrow> rate_limiter \<Rightarrow> bool \<times> rate_limiter" where
  "AllowMessage now peer msgType rl =
     (case bannedPeers rl peer of
        Some banUntil \<Rightarrow>
          if now < banUntil then (False, rl)
          else check_interval now peer msgType
                 (rl\<lparr>bannedPeers := (bannedPeers rl)(peer := None),
                     violators := (violators rl)(peer := 0)\<rparr>)
      | None \<Rightarrow> check_interval now peer msgType rl)"

text \<open>A sequence of arrivals, each with its clock reading, and the decisions taken.\<close>

type_synonym arrival = "int \<times> string \<times> string"

fun allow_run :: "arrival list \<Rightarrow> rate_limiter \<Rightarrow> (arrival \<times> bool) list \<times> rate_limiter" where
  "allow_run [] rl = ([], rl)"
| "allow_run ((now, peer, ty) # es) rl =
     (let (ok, rl') = AllowMessage now peer ty rl; (ds, rl'') = allow_run es rl'
      in (((now, peer, ty), ok) # ds, rl''))"

section \<open>Invariant: violations stay below the threshold unless the peer is banned\<close>

definition count_ok :: "int \<Rightarrow> int option \<Rightarrow> bool" where
  "count_ok v b \<longleftrightarrow> 0 \<le> v \<and> (if b = None then v < max_violations else v = max_violations)"

definition rl_inv :: "rate_limiter \<Rightarrow> bool" where
  "rl_inv rl \<longleftrightarrow> (\<forall>p. count_ok (violators rl p) (bannedPeers rl p))"

lemma rl_inv_init: "rl_inv NewMessageRateLimiter"
  by (simp add: rl_inv_def count_ok_def NewMessageRateLimiter_def max_violations_def)

lemma min_interval_pos: "0 < min_interval ty"
  by (simp add: min_interval_def)

lemma check_interval_other:
  "p \<noteq> peer \<Longrightarrow> violators (snd (check_interval now peer ty rl)) p = violators rl p"
  "p \<noteq> peer \<Longrightarrow> bannedPeers (snd (check_interval now peer ty rl)) p = bannedPeers rl p"
  by (auto simp: check_interval_def Let_def split: option.splits)

lemma check_interval_self:
  "count_ok (violators rl peer) (bannedPeers rl peer) \<Longrightarrow> bannedPeers rl peer = None \<Longrightarrow>
   count_ok (violators (snd (check_interval now peer ty rl)) peer)
            (bannedPeers (snd (check_interval now peer ty rl)) peer)"
  by (auto simp: check_interval_def count_ok_def Let_def max_violations_def split: option.splits)

lemma check_interval_inv:
  assumes "rl_inv rl" and "bannedPeers rl peer = None"
  shows "rl_inv (snd (check_interval now peer ty rl))"
proof -
  have "count_ok (violators rl peer) (bannedPeers rl peer)"
    using assms(1) by (simp add: rl_inv_def)
  then have self: "count_ok (violators (snd (check_interval now peer ty rl)) peer)
                 (bannedPeers (snd (check_interval now peer ty rl)) peer)"
    using assms(2) by (rule check_interval_self)
  show ?thesis
    unfolding rl_inv_def
  proof
    fix p
    show "count_ok (violators (snd (check_interval now peer ty rl)) p)
                   (bannedPeers (snd (check_interval now peer ty rl)) p)"
      using assms self by (cases "p = peer") (auto simp: rl_inv_def check_interval_other)
  qed
qed

lemma count_ok_zero: "count_ok 0 None"
  by (simp add: count_ok_def max_violations_def)

lemma rl_inv_unban:
  "rl_inv rl \<Longrightarrow> rl_inv (rl\<lparr>bannedPeers := (bannedPeers rl)(p := None), violators := (violators rl)(p := 0)\<rparr>)"
  using count_ok_zero by (auto simp: rl_inv_def)

lemma AllowMessage_inv: "rl_inv rl \<Longrightarrow> rl_inv (snd (AllowMessage now peer ty rl))"
  by (auto simp: AllowMessage_def intro!: check_interval_inv rl_inv_unban split: option.splits)

lemma allow_run_inv: "rl_inv rl \<Longrightarrow> rl_inv (snd (allow_run es rl))"
proof (induction es arbitrary: rl)
  case Nil
  then show ?case by simp
next
  case (Cons e es)
  obtain n p ty where e: "e = (n, p, ty)" by (metis prod_cases3)
  show ?case
    using Cons.IH[OF AllowMessage_inv[OF Cons.prems, of n p ty]]
    by (simp add: e split_beta Let_def)
qed

text \<open>
  From a fresh limiter, after any sequence of arrivals with any clock readings, a peer's
  violation counter lies between 0 and 10, and it has reached 10 exactly when the peer is in the ban
  table: no path of the limiter leaves a peer at the threshold unbanned or bans it earlier.
\<close>
theorem violations_bounded:
  "0 \<le> violators (snd (allow_run es NewMessageRateLimiter)) p
   \<and> violators (snd (allow_run es NewMessageRateLimiter)) p \<le> 10
   \<and> (violators (snd (allow_run es NewMessageRateLimiter)) p = 10
      \<longleftrightarrow> bannedPeers (snd (allow_run es NewMessageRateLimiter)) p \<noteq> None)"
  using allow_run_inv[OF rl_inv_init, of es]
  by (auto simp: rl_inv_def count_ok_def max_violations_def split: if_splits dest!: spec[of _ p])

section \<open>Spacing of accepted messages\<close>

text \<open>The time recorded for a peer and a message type, if any.\<close>

definition last_of :: "rate_limiter \<Rightarrow> string \<Rightarrow> string \<Rightarrow> int option" where
  "last_of rl p ty = (case lastMessage rl p of None \<Rightarrow> None | Some m \<Rightarrow> m ty)"

lemma check_interval_last:
  "last_of (snd (check_interval now peer ty rl)) p t =
     (if fst (check_interval now peer ty rl) \<and> p = peer \<and> t = ty then Some now else last_of rl p t)"
  by (auto simp: check_interval_def last_of_def Let_def split: option.splits)

lemma check_interval_accept:
  "fst (check_interval now peer ty rl) \<Longrightarrow> last_of rl peer ty = Some l \<Longrightarrow> l + min_interval ty \<le> now"
  by (auto simp: check_interval_def last_of_def Let_def split: option.splits if_splits)

lemma AllowMessage_last:
  "last_of (snd (AllowMessage now peer ty rl)) p t =
     (if fst (AllowMessage now peer ty rl) \<and> p = peer \<and> t = ty then Some now else last_of rl p t)"
  by (simp add: AllowMessage_def check_interval_last split: option.splits) (simp add: last_of_def)

lemma AllowMessage_accept:
  assumes "fst (AllowMessage now peer ty rl)" and "last_of rl peer ty = Some l"
  shows "l + min_interval ty \<le> now"
proof (cases "bannedPeers rl peer")
  case None
  with assms show ?thesis by (auto simp: AllowMessage_def intro: check_interval_accept)
next
  case (Some b)
  with assms(1) have "fst (check_interval now peer ty
      (rl\<lparr>bannedPeers := (bannedPeers rl)(peer := None), violators := (violators rl)(peer := 0)\<rparr>))"
    by (auto simp: AllowMessage_def split: if_splits)
  then show ?thesis
    by (rule check_interval_accept) (use assms(2) in \<open>simp add: last_of_def\<close>)
qed

text \<open>Every accepted arrival of a run lies at least one interval after what was recorded before it.\<close>

lemma allow_run_after:
  assumes "last_of rl p ty = Some l" and "((now, p, ty), True) \<in> set (fst (allow_run es rl))"
  shows "l + min_interval ty \<le> now"
  using assms
proof (induction es arbitrary: rl l)
  case Nil
  then show ?case by simp
next
  case (Cons e es)
  obtain n q u where e: "e = (n, q, u)" by (metis prod_cases3)
  obtain ok rl' where A: "AllowMessage n q u rl = (ok, rl')" by fastforce
  obtain ds rl'' where R: "allow_run es rl' = (ds, rl'')" by fastforce
  have lst: "last_of rl' p ty = (if ok \<and> p = q \<and> ty = u then Some n else Some l)"
    using AllowMessage_last[of n q u rl p ty] Cons.prems(1) by (simp add: A)
  have acc: "ok \<Longrightarrow> p = q \<Longrightarrow> ty = u \<Longrightarrow> l + min_interval ty \<le> n"
    using AllowMessage_accept[of n q u rl l] Cons.prems(1) by (simp add: A)
  from Cons.prems(2) consider "(n, q, u) = (now, p, ty)" "ok" | "((now, p, ty), True) \<in> set ds"
    by (auto simp: e A R)
  then show ?case
  proof cases
    case 1
    with acc show ?thesis by simp
  next
    case 2
    have IH: "l' + min_interval ty \<le> now" if "last_of rl' p ty = Some l'" for l'
      using Cons.IH[OF that] 2 by (simp add: R)
    show ?thesis
      using IH lst acc min_interval_pos[of ty] by (fastforce split: if_splits)
  qed
qed

text \<open>
  Whatever the clock readings, the decisions in between and the bans, two messages of one type
  that the limiter accepts from one peer are at least the type's minimal interval apart (5s for a
  vote, 4s for a heartbeat, 25s for a reputation, 2s otherwise).
\<close>
theorem accepted_spacing:
  assumes "fst (allow_run es rl) = ds1 @ ((t1, p, ty), True) # ds2 @ ((t2, p, ty), True) # ds3"
  shows "t1 + min_interval ty \<le> t2"
  using assms
proof (induction es arbitrary: rl ds1)
  case Nil
  then show ?case by simp
next
  case (Cons e es)
  obtain n q u where e: "e = (n, q, u)" by (metis prod_cases3)
  obtain ok rl' where A: "AllowMessage n q u rl = (ok, rl')" by fastforce
  obtain ds rl'' where R: "allow_run es rl' = (ds, rl'')" by fastforce
  show ?case
  proof (cases ds1)
    case Nil
    with Cons.prems have 1: "ok" "n = t1" "q = p" "u = ty" and 2: "((t2, p, ty), True) \<in> set ds"
      by (auto simp: e A R)
    have "last_of rl' p ty = Some t1"
      using AllowMessage_last[of n q u rl p ty] A 1 by simp
    then show ?thesis
      using allow_run_after[of rl' p ty t1 t2 es] 2 by (simp add: R)
  next
    case (Cons d ds1')
    with Cons.prems have "fst (allow_run es rl') = ds1' @ ((t1, p, ty), True) # ds2 @ ((t2, p, ty), True) # ds3"
      by (simp add: e A R)
    then show ?thesis by (rule Cons.IH)
  qed
qed

theorem accepted_spacing_witness:
  "fst (allow_run [(0, ''p'', TypeHeartbeat), (sec 1, ''p'', TypeHeartbeat), (sec 6, ''p'', TypeHeartbeat)]
         NewMessageRateLimiter)
     = [((0, ''p'', TypeHeartbeat), True), ((sec 1, ''p'', TypeHeartbeat), False),
        ((sec 6, ''p'', TypeHeartbeat), True)]
   \<and> (0::int) + min_interval TypeHeartbeat \<le> sec 6"
proof -
  have run: "fst (allow_run [(0, ''p'', TypeHeartbeat), (sec 1, ''p'', TypeHeartbeat), (sec 6, ''p'', TypeHeartbeat)]
         NewMessageRateLimiter)
     = [] @ ((0, ''p'', TypeHeartbeat), True) # [((sec 1, ''p'', TypeHeartbeat), False)]
        @ ((sec 6, ''p'', TypeHeartbeat), True) # []"
    by (simp add: NewMessageRateLimiter_def AllowMessage_def check_interval_def min_interval_def
        max_violations_def Let_def)
  show ?thesis using accepted_spacing[OF run] run by simp
qed

section \<open>Bans\<close>

lemma banned_rejects:
  "bannedPeers rl p = Some u \<Longrightarrow> now < u \<Longrightarrow> AllowMessage now p ty rl = (False, rl)"
  by (simp add: AllowMessage_def)

lemma unbanned_first_message:
  "bannedPeers rl p = None \<Longrightarrow> last_of rl p ty = None \<Longrightarrow> fst (AllowMessage now p ty rl)"
  by (auto simp: AllowMessage_def check_interval_def last_of_def Let_def split: option.splits)

end
