(* ===== verification/Reputation.thy ===== *)
theory Reputation
  imports Complex_Main Prelude
begin

text \<open>
  Node naming, reputation scoring and candidate selection of
  \<open>election/reputationBasedElection.go\<close>.  \<open>float64\<close> fields are real numbers: the model computes
  the formulas without rounding.  \<open>LeadershipCount\<close>, a Go \<open>int\<close>, is an integer.  The two calls of
  \<open>math/rand\<close> in \<open>selectCandidate\<close> are arguments: the index drawn by \<open>rand.Intn\<close> and the number
  drawn by \<open>rand.Float64\<close>.
\<close>

section \<open>Container names\<close>

definition is_letter :: "char \<Rightarrow> bool" where
  "is_letter c \<longleftrightarrow> (CHR ''a'' \<le> c \<and> c \<le> CHR ''z'') \<or> (CHR ''A'' \<le> c \<and> c \<le> CHR ''Z'')"

definition is_digit :: "char \<Rightarrow> bool" where
  "is_digit c \<longleftrightarrow> CHR ''0'' \<le> c \<and> c \<le> CHR ''9''"

definition looksLikeHash :: "string \<Rightarrow> bool" where
  "looksLikeHash s \<longleftrightarrow>
     \<not> (length s < 5 \<or> length s > 10) \<and>
     list_all (\<lambda>c. is_letter c \<or> is_digit c) s \<and>
     list_ex is_letter s \<and> list_ex (\<lambda>c. \<not> is_letter c \<and> is_digit c) s"

definition extractBaseName :: "string \<Rightarrow> string" where
  "extractBaseName name =
     (let parts = split_on (CHR ''-'') name; n = length parts
      in if n \<ge> 3 then
           let lst = parts ! (n - 1); snd_lst = parts ! (n - 2)
           in if length lst \<ge> 5 \<and> length snd_lst \<ge> 5 \<and> looksLikeHash lst \<and> looksLikeHash snd_lst
              then join_with ''-'' (take (n - 2) parts) else name
         else name)"

text \<open>\<open>env\<close> is the process environment, \<open>hostname\<close> the answer of \<open>os.Hostname\<close>.\<close>

definition getContainerName :: "(string \<Rightarrow> string) \<Rightarrow> string option \<Rightarrow> string" where
  "getContainerName env hostname =
     (if env ''AGENT_NAME'' \<noteq> '''' then extractBaseName (env ''AGENT_NAME'')
      else if env ''POD_NAME'' \<noteq> '''' then extractBaseName (env ''POD_NAME'')
      else if env ''HOSTNAME'' \<noteq> '''' then extractBaseName (env ''HOSTNAME'')
      else case hostname of Some name \<Rightarrow> extractBaseName name | None \<Rightarrow> '''')"

definition isDefaultCoordinatorNode :: "string \<Rightarrow> bool" where
  "isDefaultCoordinatorNode containerName =
     (if containerName = '''' then False
      else if contains_str containerName ''optimusdb1'' then True
      else if has_suffix containerName ''-0'' \<and> contains_str containerName ''optimusdb'' then True
      else has_suffix containerName ''1'')"

definition isValidPeerID :: "string \<Rightarrow> bool" where
  "isValidPeerID s =
     (if length s < 10 \<or> length s > 100 then False
      else if \<not> list_all (\<lambda>c. is_digit c \<or> (CHR ''A'' \<le> c \<and> c \<le> CHR ''Z'') \<or> (CHR ''a'' \<le> c \<and> c \<le> CHR ''z'')) s
      then False
      else if contains_str s ''peer.ID'' \<or> contains_str s ''<'' \<or> contains_str s ''>'' \<or> contains_str s '' ''
      then False else True)"

section \<open>Reputation scores\<close>

record node_reputation =
  NodeID :: string
  Uptime :: real
  LeadershipCount :: int
  Latency :: real
  UserCPU :: real
  SystemCPU :: real
  IdleCPU :: real
  MemoryAvailable :: real
  MemoryAllocationTotal :: real
  MemorySystem :: real
  AvgReadMBs :: real
  AvgWriteMBs :: real
  GeographyScore :: real
  ContainerName :: string

definition cap100 :: "real \<Rightarrow> real" where
  "cap100 x = (if x > 100 then 100 else x)"

definition cpu_score :: "node_reputation \<Rightarrow> real" where
  "cpu_score nr = 100 - cap100 (UserCPU nr + SystemCPU nr)"

definition memory_score :: "node_reputation \<Rightarrow> real" where
  "memory_score nr =
     (if MemorySystem nr > 0
      then 100 - cap100 (MemoryAllocationTotal nr / MemorySystem nr * 100) else 100)"

definition disk_score :: "node_reputation \<Rightarrow> real" where
  "disk_score nr =
     (let diskIO = AvgReadMBs nr + AvgWriteMBs nr
      in if diskIO > 0 then
           let s = 100 - log 10 diskIO * 25;
               s1 = (if s < 0 then 0 else s)
           in cap100 s1
         else 100)"

definition latency_score :: "node_reputation \<Rightarrow> real" where
  "latency_score nr = 100 - cap100 (Latency nr)"

definition uptime_score :: "node_reputation \<Rightarrow> real" where
  "uptime_score nr = cap100 (Uptime nr * 100)"

definition leadership_score :: "node_reputation \<Rightarrow> real" where
  "leadership_score nr = cap100 (of_int (LeadershipCount nr) * 10)"

definition geography_score :: "node_reputation \<Rightarrow> real" where
  "geography_score nr = cap100 (GeographyScore nr * 100)"

definition getReputationWeights :: "string \<Rightarrow> real" where
  "getReputationWeights k =
     (if k = ''uptime'' then 20/100 else if k = ''leadership'' then 10/100
      else if k = ''cpu'' then 20/100 else if k = ''memory'' then 20/100
      else if k = ''disk'' then 10/100 else if k = ''latency'' then 10/100
      else if k = ''geography_score'' then 10/100 else 0)"

definition weighted_sum :: "node_reputation \<Rightarrow> real" where
  "weighted_sum nr =
     (let w = getReputationWeights
      in w ''uptime'' * uptime_score nr + w ''leadership'' * leadership_score nr
         + w ''cpu'' * cpu_score nr + w ''memory'' * memory_score nr
         + w ''disk'' * disk_score nr + w ''latency'' * latency_score nr
         + w ''geography_score'' * geography_score nr)"

definition calculateReputation :: "node_reputation \<Rightarrow> real" where
  "calculateReputation nr =
     (let score = weighted_sum nr
      in if score < 0 then 0 else if score > 100 then 100 else score)"

datatype rep_error =
    InvalidUserCPU | InvalidSystemCPU | InvalidIdleCPU | InvalidMemorySystem
  | InvalidMemoryAllocationTotal | InvalidMemory | InvalidUptime | InvalidGeographyScore
  | InvalidAvgReadMBs | InvalidAvgWriteMBs | InvalidLatency

definition validateReputationData :: "node_reputation \<Rightarrow> rep_error + unit" where
  "validateReputationData rep =
     (if UserCPU rep < 0 \<or> UserCPU rep > 100 then Inl InvalidUserCPU
      else if SystemCPU rep < 0 \<or> SystemCPU rep > 100 then Inl InvalidSystemCPU
      else if IdleCPU rep < 0 \<or> IdleCPU rep > 100 then Inl InvalidIdleCPU
      else if MemorySystem rep < 0 then Inl InvalidMemorySystem
      else if MemoryAllocationTotal rep < 0 then Inl InvalidMemoryAllocationTotal
      else if MemorySystem rep > 0 \<and> MemoryAllocationTotal rep > MemorySystem rep * 2 then Inl InvalidMemory
      else if Uptime rep < 0 \<or> Uptime rep > 1 then Inl InvalidUptime
      else if GeographyScore rep < 0 \<or> GeographyScore rep > 1 then Inl InvalidGeographyScore
      else if AvgReadMBs rep < 0 \<or> AvgReadMBs rep > 10000 then Inl InvalidAvgReadMBs
      else if AvgWriteMBs rep < 0 \<or> AvgWriteMBs rep > 10000 then Inl InvalidAvgWriteMBs
      else if Latency rep < 0 \<or> Latency rep > 1000 then Inl InvalidLatency
      else Inr ())"

named_theorems score_defs "the component scores of a reputation"

lemmas [score_defs] = cpu_score_def memory_score_def disk_score_def latency_score_def
  uptime_score_def leadership_score_def geography_score_def cap100_def

lemma validated_ranges:
  assumes "validateReputationData rep = Inr ()"
  shows "0 \<le> UserCPU rep" "0 \<le> SystemCPU rep" "0 \<le> MemoryAllocationTotal rep"
    "0 \<le> MemorySystem rep" "0 \<le> Uptime rep" "Uptime rep \<le> 1"
    "0 \<le> GeographyScore rep" "GeographyScore rep \<le> 1" "0 \<le> Latency rep"
  using assms by (auto simp: validateReputationData_def split: if_splits)

lemma cap100_range: "0 \<le> x \<Longrightarrow> 0 \<le> cap100 x" "cap100 x \<le> 100" "x \<le> y \<Longrightarrow> cap100 x \<le> cap100 y"
  by (auto simp: cap100_def)

lemma component_ranges:
  assumes v: "validateReputationData rep = Inr ()" and l: "0 \<le> LeadershipCount rep"
  shows "0 \<le> cpu_score rep" "cpu_score rep \<le> 100" "0 \<le> memory_score rep" "memory_score rep \<le> 100"
    "0 \<le> disk_score rep" "disk_score rep \<le> 100" "0 \<le> latency_score rep" "latency_score rep \<le> 100"
    "0 \<le> uptime_score rep" "uptime_score rep \<le> 100" "0 \<le> leadership_score rep"
    "leadership_score rep \<le> 100" "0 \<le> geography_score rep" "geography_score rep \<le> 100"
  using validated_ranges[OF v] l by (auto simp: score_defs Let_def)

lemma weighted_sum_unfold:
  "weighted_sum nr = (20 * uptime_score nr + 10 * leadership_score nr + 20 * cpu_score nr
     + 20 * memory_score nr + 10 * disk_score nr + 10 * latency_score nr + 10 * geography_score nr) / 100"
  by (simp add: weighted_sum_def getReputationWeights_def Let_def field_simps)

text \<open>
  C18.  A reputation report that passes \<open>validateReputationData\<close> and carries a non-negative
  leadership count has a weighted sum already between 0 and 100, so the final clamp of
  \<open>calculateReputation\<close> never changes it: the score of a validated report is the weighted mean of
  its component scores.
\<close>
theorem validated_score_unclamped:
  assumes "validateReputationData rep = Inr ()" and "0 \<le> LeadershipCount rep"
  shows "calculateReputation rep = weighted_sum rep \<and> 0 \<le> weighted_sum rep \<and> weighted_sum rep \<le> 100"
  using component_ranges[OF assms]
  by (simp add: calculateReputation_def weighted_sum_unfold Let_def)

definition sample_rep :: "string \<Rightarrow> string \<Rightarrow> node_reputation" where
  "sample_rep nid cname = \<lparr>NodeID = nid, Uptime = 1, LeadershipCount = 2, Latency = 20, UserCPU = 10,
     SystemCPU = 5, IdleCPU = 85, MemoryAvailable = 100, MemoryAllocationTotal = 50,
     MemorySystem = 100, AvgReadMBs = 0, AvgWriteMBs = 0, GeographyScore = 1/2, ContainerName = cname\<rparr>"

lemma sample_rep_valid: "validateReputationData (sample_rep i c) = Inr ()"
  by (simp add: validateReputationData_def sample_rep_def)

lemma sample_rep_score: "calculateReputation (sample_rep i c) = 72"
  by (simp add: calculateReputation_def weighted_sum_unfold sample_rep_def score_defs Let_def)

theorem validated_score_unclamped_witness:
  "calculateReputation (sample_rep ''n'' ''c'') = weighted_sum (sample_rep ''n'' ''c'') \<and> 0 \<le> weighted_sum (sample_rep ''n'' ''c'')"
  using validated_score_unclamped[OF sample_rep_valid[of "''n''" "''c''"]] by (simp add: sample_rep_def)

lemma calculateReputation_mono: "weighted_sum a \<le> weighted_sum b \<Longrightarrow> calculateReputation a \<le> calculateReputation b"
  by (auto simp: calculateReputation_def Let_def)

lemma disk_level_antimono:
  "l \<le> m \<Longrightarrow> cap100 (if 100 - m * 25 < 0 then 0 else 100 - m * 25)
        \<le> cap100 (if 100 - l * 25 < 0 then 0 else 100 - l * 25)"
  by (rule cap100_range(3)) simp

lemma disk_score_antimono:
  assumes "AvgReadMBs a + AvgWriteMBs a \<le> AvgReadMBs b + AvgWriteMBs b"
  shows "disk_score b \<le> disk_score a"
proof (cases "AvgReadMBs a + AvgWriteMBs a > 0")
  case True
  then have "log 10 (AvgReadMBs a + AvgWriteMBs a) \<le> log 10 (AvgReadMBs b + AvgWriteMBs b)"
    using assms by simp
  from disk_level_antimono[OF this] True assms show ?thesis by (simp only: disk_score_def Let_def if_True) auto
next
  case False
  then show ?thesis by (auto simp: disk_score_def Let_def cap100_def)
qed

text \<open>
  The score is monotone in the load: of two nodes with the same uptime, leadership count,
  geography and memory figures, the one with at most the other's CPU usage, latency and disk traffic
  never scores lower.
\<close>
theorem lighter_load_not_worse:
  assumes "UserCPU a + SystemCPU a \<le> UserCPU b + SystemCPU b" and "Latency a \<le> Latency b"
    and "Uptime a = Uptime b" and "LeadershipCount a = LeadershipCount b"
    and "GeographyScore a = GeographyScore b" and "memory_score a = memory_score b"
    and "AvgReadMBs a + AvgWriteMBs a \<le> AvgReadMBs b + AvgWriteMBs b"
  shows "calculateReputation b \<le> calculateReputation a"
proof (rule calculateReputation_mono)
  have "cpu_score b \<le> cpu_score a" "latency_score b \<le> latency_score a"
    using assms(1,2) by (simp_all add: cpu_score_def latency_score_def cap100_range)
  moreover have "uptime_score a = uptime_score b" "leadership_score a = leadership_score b"
    "geography_score a = geography_score b"
    using assms by (simp_all add: uptime_score_def leadership_score_def geography_score_def)
  ultimately show "weighted_sum b \<le> weighted_sum a"
    using assms(6) disk_score_antimono[OF assms(7)] by (simp add: weighted_sum_unfold)
qed

theorem lighter_load_not_worse_witness:
  "calculateReputation (sample_rep ''b'' ''c''\<lparr>UserCPU := 90\<rparr>) \<le> calculateReputation (sample_rep ''a'' ''c'')"
  by (rule lighter_load_not_worse) (simp_all add: sample_rep_def memory_score_def)

section \<open>Candidate selection\<close>

definition getPreferredCoordinatorPeerID ::
  "string \<Rightarrow> string \<Rightarrow> (string \<rightharpoonup> string) \<Rightarrow> node_reputation list \<Rightarrow> string" where
  "getPreferredCoordinatorPeerID self container peerContainerNames peers =
     (if isDefaultCoordinatorNode container \<and> (\<exists>p \<in> set peers. NodeID p = self) then self
      else case find (\<lambda>p. ContainerName p \<noteq> '''' \<and> isDefaultCoordinatorNode (ContainerName p)) peers of
        Some p \<Rightarrow> NodeID p
      | None \<Rightarrow>
          (case find (\<lambda>p. case peerContainerNames (NodeID p) of
                 Some cname \<Rightarrow> isDefaultCoordinatorNode cname | None \<Rightarrow> False) peers of
             Some p \<Rightarrow> NodeID p
           | None \<Rightarrow> ''''))"

text \<open>The cumulative walk; the result when no prefix reaches the drawn value is \<open>None\<close>.\<close>

fun weighted_pick :: "real \<Rightarrow> real \<Rightarrow> node_reputation list \<Rightarrow> string option" where
  "weighted_pick randVal cumulative [] = None"
| "weighted_pick randVal cumulative (p # ps) =
     (let c = cumulative + calculateReputation p
      in if c \<ge> randVal then Some (NodeID p) else weighted_pick randVal c ps)"

definition fallback_candidate :: "nat \<Rightarrow> real \<Rightarrow> node_reputation list \<Rightarrow> string" where
  "fallback_candidate rand_int rand_float peers =
     (let total = sum_list (map calculateReputation peers)
      in if total \<le> 0 then NodeID (peers ! rand_int)
         else case weighted_pick (rand_float * total) 0 peers of
                Some i \<Rightarrow> i | None \<Rightarrow> NodeID (last peers))"

definition selectCandidate ::
  "string \<Rightarrow> string \<Rightarrow> (string \<rightharpoonup> string) \<Rightarrow> nat \<Rightarrow> real \<Rightarrow> node_reputation list \<Rightarrow> string" where
  "selectCandidate self container peerContainerNames rand_int rand_float peers =
     (if peers = [] then self
      else let preferred = getPreferredCoordinatorPeerID self container peerContainerNames peers
           in if preferred \<noteq> '''' then
                (case find (\<lambda>p. NodeID p = preferred) peers of
                   Some p \<Rightarrow> if calculateReputation p > 10 then preferred
                             else fallback_candidate rand_int rand_float peers
                 | None \<Rightarrow> fallback_candidate rand_int rand_float peers)
              else fallback_candidate rand_int rand_float peers)"

lemma preferred_member:
  "getPreferredCoordinatorPeerID self c pcn peers \<noteq> '''' \<Longrightarrow>
   getPreferredCoordinatorPeerID self c pcn peers \<in> NodeID ` set peers"
  by (auto simp: getPreferredCoordinatorPeerID_def dest!: find_SomeD split: if_splits option.splits)

lemma weighted_pick_member: "weighted_pick r c ps = Some i \<Longrightarrow> i \<in> NodeID ` set ps"
  by (induction r c ps rule: weighted_pick.induct) (auto simp: Let_def split: if_splits)

lemma fallback_candidate_member:
  "peers \<noteq> [] \<Longrightarrow> k < length peers \<Longrightarrow> fallback_candidate k r peers \<in> NodeID ` set peers"
  by (auto simp: fallback_candidate_def Let_def dest: weighted_pick_member split: option.splits)

text \<open>
  Whatever the random numbers are (an index below the number of peers and any float), the vote
  goes to a listed peer, or to the node itself when no peer is listed: a node never votes for an
  identifier it was not given.
\<close>
theorem vote_is_listed:
  assumes "peers \<noteq> [] \<longrightarrow> k < length peers"
  shows "selectCandidate self c pcn k r peers \<in> (if peers = [] then {self} else NodeID ` set peers)"
  using assms preferred_member[of self c pcn peers] fallback_candidate_member[of peers k r]
  by (auto simp: selectCandidate_def Let_def split: option.splits)

theorem vote_is_listed_witness:
  "selectCandidate ''me'' ''x'' Map.empty 0 0 [sample_rep ''a'' ''''] \<in> NodeID ` set [sample_rep ''a'' '''']"
  using vote_is_listed[of "[sample_rep ''a'' '''']" 0 "''me''" "''x''" Map.empty 0] by simp

text \<open>
  When a preferred coordinator is known, is listed once and its score exceeds 10, every node
  with the same view votes for it, whatever the random draws: the choice is deterministic unless the
  preferred node is missing or unhealthy.
\<close>
theorem preferred_coordinator_wins:
  assumes "getPreferredCoordinatorPeerID self c pcn peers = NodeID p" and "NodeID p \<noteq> ''''"
    and "p \<in> set peers" and "\<And>q. q \<in> set peers \<Longrightarrow> NodeID q = NodeID p \<Longrightarrow> q = p"
    and "calculateReputation p > 10"
  shows "selectCandidate self c pcn k r peers = NodeID p"
proof -
  obtain q where q: "find (\<lambda>q. NodeID q = NodeID p) peers = Some q"
    using assms(3) by (cases "find (\<lambda>q. NodeID q = NodeID p) peers") (auto simp: find_None_iff)
  then have "q = p"
    using assms(4) by (auto simp: find_Some_iff)
  with q assms show ?thesis
    by (auto simp: selectCandidate_def Let_def)
qed

theorem preferred_coordinator_wins_witness:
  "selectCandidate ''b'' ''optimusdb2'' Map.empty 1 (1/2)
     [sample_rep ''b'' ''optimusdb2'', sample_rep ''a'' ''optimusdb1''] = ''a''"
proof -
  let ?a = "sample_rep ''a'' ''optimusdb1''" and ?b = "sample_rep ''b'' ''optimusdb2''"
  have pref: "getPreferredCoordinatorPeerID ''b'' ''optimusdb2'' Map.empty [?b, ?a] = NodeID ?a"
    by (simp add: getPreferredCoordinatorPeerID_def sample_rep_def isDefaultCoordinatorNode_def
        has_suffix_def)
  have "selectCandidate ''b'' ''optimusdb2'' Map.empty 1 (1/2) [?b, ?a] = NodeID ?a"
    by (rule preferred_coordinator_wins[OF pref]) (auto simp: sample_rep_score, simp_all add: sample_rep_def)
  then show ?thesis by (simp add: sample_rep_def)
qed

lemma extractBaseName_k8s: "extractBaseName ''optimusdb1-54c9f77c9f-c9c94'' = ''optimusdb1''"
  by code_simp

lemma extractBaseName_statefulset: "extractBaseName ''optimusdb-0'' = ''optimusdb-0''"
  by code_simp

end
