(* ===== verification/Election.thy ===== *)
theory Election
  imports RateLimiter Reputation
begin

text \<open>
  The state of an election node and its handlers, from \<open>election/reputationBasedElection.go\<close>.
  A handler is a function from the node (and the facts of the outside world it reads, \<open>env\<close>) to the
  new node and the list of its effects: messages published and goroutines started.  \<open>None\<close> as the
  result of \<open>handleMessage\<close> is a Go panic.  Go's \<open>int\<close> terms and counters are integers: the model has
  no wrap-around at \<open>2 ^ 63\<close>.  Mutexes: every definition below is one critical section, or a
  sequential composition of critical sections named separately (\<open>begin_term\<close>, \<open>open_vote\<close>,
  \<open>cast_own_vote\<close>; \<open>join_election\<close>, \<open>record_vote\<close>).
\<close>

section \<open>Data\<close>

datatype role = Follower | Coordinator
datatype phase = PhaseIdle | PhaseVoting | PhaseCompleted

record vote_message =
  vm_node :: string
  vm_vote :: string
  vm_election :: string
  vm_term :: int

record heartbeat_message =
  hb_leader :: string
  hb_time :: int
  hb_term :: int

text \<open>A message after \<open>json.Unmarshal\<close>; \<open>Malformed\<close> is one whose payload does not decode.  An
  announcement is decoded into a generic map: its fields may be absent.\<close>

datatype core_message =
    MVote vote_message
  | MHeartbeat heartbeat_message
  | MReputation node_reputation
  | MAnnouncement "string option" "int option"
  | MElectionResult
  | Malformed string
  | MOther string

fun core_type :: "core_message \<Rightarrow> string" where
  "core_type (MVote _) = TypeVote"
| "core_type (MHeartbeat _) = TypeHeartbeat"
| "core_type (MReputation _) = TypeReputation"
| "core_type (MAnnouncement _ _) = TypeAnnouncement"
| "core_type MElectionResult = TypeElectionResult"
| "core_type (Malformed ty) = ty"
| "core_type (MOther ty) = ty"

datatype effect =
    Published core_message
  | GoMeshHealing
  | GoHeartbeats int
  | GoElection "node_reputation list"
  | GoTermCheck

record node =
  self :: string
  containerName :: string
  leader :: string
  nrole :: role
  leadershipCount :: int
  lastHeartbeat :: "int option"
  heartbeatMissed :: int
  votes :: "(string, int) gomap"
  votedNodes :: "(string, string) gomap"
  currentElectionID :: string
  currentTerm :: int
  electionPhase :: phase
  electionDeadline :: int
  peerCount :: int
  isElecting :: bool
  rateLimiter :: rate_limiter
  consecutiveHeartbeatFailures :: int
  requiredConsecutiveFailures :: int
  meshHealthy :: bool
  lastMeshHealingAttempt :: "int option"
  consecutiveEmptyMeshChecks :: int
  consecutiveElectionFailures :: int
  lastMessageFromPeer :: "(string, int) gomap"
  peerContainerNames :: "string \<rightharpoonup> string"
  reputationDB :: "(string, node_reputation) gomap"
  electionLog :: "(string \<times> string \<times> int \<times> (string, int) gomap) list"

text \<open>What a handler reads from outside the node: the clock, libp2p's answers, the outcome of
  publishing (by message type and attempt), \<open>peer.Decode\<close>, whether the SQLite query fails, the random
  numbers, and SHA-256.\<close>

record env =
  now :: int
  listPeers :: "string list"
  discoveredPeers :: "string list"
  publish_ok :: "string \<Rightarrow> nat \<Rightarrow> bool"
  peer_decode :: "string \<Rightarrow> string option"
  query_fails :: bool
  rand_int :: nat
  rand_float :: real
  sha256_hex :: "string list \<Rightarrow> string"

definition heartbeatTimeout :: int where "heartbeatTimeout = sec 15"
definition electionTimeout :: int where "electionTimeout = sec 10"
definition heartbeatRetryLimit :: int where "heartbeatRetryLimit = 3"
definition maxAttempts :: nat where "maxAttempts = 3"

definition NewNode :: "string \<Rightarrow> string \<Rightarrow> node" where
  "NewNode host_id container =
     \<lparr>self = host_id, containerName = container, leader = '''', nrole = Follower, leadershipCount = 0,
      lastHeartbeat = None, heartbeatMissed = 0, votes = [], votedNodes = [], currentElectionID = '''',
      currentTerm = 0, electionPhase = PhaseIdle, electionDeadline = 0, peerCount = 0,
      isElecting = False, rateLimiter = NewMessageRateLimiter, consecutiveHeartbeatFailures = 0,
      requiredConsecutiveFailures = 3, meshHealthy = False, lastMeshHealingAttempt = None,
      consecutiveEmptyMeshChecks = 0, consecutiveElectionFailures = 0, lastMessageFromPeer = [],
      peerContainerNames = Map.empty, reputationDB = [], electionLog = []\<rparr>"

section \<open>Publishing and the reputation database\<close>

text \<open>The retry loop: \<open>left\<close> attempts remain, the next one is number \<open>attempt\<close>.\<close>

fun try_publish :: "(nat \<Rightarrow> bool) \<Rightarrow> nat \<Rightarrow> nat \<Rightarrow> bool" where
  "try_publish ok 0 attempt = False"
| "try_publish ok (Suc left) attempt = (if ok attempt then True else try_publish ok left (attempt + 1))"

definition publishMessage :: "env \<Rightarrow> core_message \<Rightarrow> bool \<times> effect list" where
  "publishMessage e m =
     (if try_publish (publish_ok e (core_type m)) 3 0 then (True, [Published m]) else (False, []))"

definition UpsertReputation :: "node_reputation \<Rightarrow> node \<Rightarrow> node" where
  "UpsertReputation rep n =
     n\<lparr>reputationDB := gm_set (NodeID rep) (rep\<lparr>ContainerName := ''''\<rparr>) (reputationDB n)\<rparr>"

definition QueryAllReputations :: "env \<Rightarrow> node \<Rightarrow> node_reputation list option" where
  "QueryAllReputations e n = (if query_fails e then None else Some (map snd (reputationDB n)))"

definition InsertElectionLog ::
  "string \<Rightarrow> string \<Rightarrow> int \<Rightarrow> (string, int) gomap \<Rightarrow> node \<Rightarrow> node" where
  "InsertElectionLog ident leaderID term vs n =
     (if ident \<in> fst ` set (electionLog n) then n
      else n\<lparr>electionLog := electionLog n @ [(ident, leaderID, term, vs)]\<rparr>)"

definition node_select :: "env \<Rightarrow> node_reputation list \<Rightarrow> node \<Rightarrow> string" where
  "node_select e peers n =
     selectCandidate (self n) (containerName n) (peerContainerNames n) (rand_int e) (rand_float e) peers"

definition hasRecentMessagePeers :: "env \<Rightarrow> int \<Rightarrow> node \<Rightarrow> int" where
  "hasRecentMessagePeers e window n =
     int (length (filter (\<lambda>(_, seen). seen > now e - window) (lastMessageFromPeer n)))"

definition isLeaderEmpty :: "node \<Rightarrow> bool" where
  "isLeaderEmpty n \<longleftrightarrow>
     leader n = '''' \<or> leader n = ''<peer.ID  >'' \<or> leader n = ''<peer.ID >'' \<or> leader n = ''<peer.ID>''
     \<or> length (leader n) < 10"

section \<open>Leader announcements, heartbeats, stepping down\<close>

definition handleAnnouncement :: "env \<Rightarrow> string \<Rightarrow> int \<Rightarrow> node \<Rightarrow> node" where
  "handleAnnouncement e leaderID term n =
     (case peer_decode e leaderID of
        None \<Rightarrow> n
      | Some pid \<Rightarrow>
          (if leaderID = self n
           then n\<lparr>nrole := Coordinator, leader := pid, leadershipCount := leadershipCount n + 1\<rparr>
           else n\<lparr>nrole := Follower, leader := pid, lastHeartbeat := Some (now e),
                  heartbeatMissed := 0, consecutiveHeartbeatFailures := 0\<rparr>)
          \<lparr>currentTerm := term\<rparr>)"

definition announceLeader :: "env \<Rightarrow> string \<Rightarrow> int \<Rightarrow> node \<Rightarrow> node \<times> effect list" where
  "announceLeader e leaderID term n =
     (case publishMessage e (MAnnouncement (Some leaderID) (Some term)) of
        (False, fx) \<Rightarrow> (n, fx)
      | (True, fx) \<Rightarrow>
          (handleAnnouncement e leaderID term n,
           fx @ (if leaderID = self n then [GoHeartbeats term] else [])))"

definition stepDownLocked :: "env \<Rightarrow> string \<Rightarrow> int \<Rightarrow> node \<Rightarrow> node" where
  "stepDownLocked e newLeaderID term n =
     (let n1 = n\<lparr>nrole := Follower, currentTerm := term, lastHeartbeat := Some (now e),
                 heartbeatMissed := 0, consecutiveHeartbeatFailures := 0\<rparr>
      in case peer_decode e newLeaderID of None \<Rightarrow> n1 | Some pid \<Rightarrow> n1\<lparr>leader := pid\<rparr>)"

definition handleHeartbeat :: "env \<Rightarrow> heartbeat_message \<Rightarrow> node \<Rightarrow> node" where
  "handleHeartbeat e hb n =
     (case nrole n of
        Coordinator \<Rightarrow>
          (if hb_leader hb \<noteq> self n then
             (if hb_term hb > currentTerm n then stepDownLocked e (hb_leader hb) (hb_term hb) n
              else if hb_term hb = currentTerm n \<and> hb_leader hb < self n
                   then stepDownLocked e (hb_leader hb) (hb_term hb) n
              else n)
           else n)
      | Follower \<Rightarrow>
          (let n1 = n\<lparr>lastHeartbeat := Some (now e), heartbeatMissed := 0,
                      consecutiveHeartbeatFailures := 0\<rparr>
           in case peer_decode e (hb_leader hb) of
                None \<Rightarrow> n1
              | Some pid \<Rightarrow>
                  (let n2 = n1\<lparr>leader := pid\<rparr>
                   in if hb_term hb > currentTerm n2 then n2\<lparr>currentTerm := hb_term hb\<rparr> else n2)))"

text \<open>One tick of \<open>sendHeartbeats\<close>: \<open>None\<close> when the loop ends.\<close>

fun heartbeat_attempts :: "env \<Rightarrow> heartbeat_message \<Rightarrow> nat \<Rightarrow> bool \<times> effect list" where
  "heartbeat_attempts e hb 0 = (False, [])"
| "heartbeat_attempts e hb (Suc left) =
     (case publishMessage e (MHeartbeat hb) of
        (True, fx) \<Rightarrow> (True, fx)
      | (False, fx) \<Rightarrow> (case heartbeat_attempts e hb left of (ok, fx') \<Rightarrow> (ok, fx @ fx')))"

definition sendHeartbeats_tick :: "env \<Rightarrow> int \<Rightarrow> node \<Rightarrow> effect list option" where
  "sendHeartbeats_tick e term n =
     (if nrole n \<noteq> Coordinator then None
      else (let hb = \<lparr>hb_leader = self n, hb_time = now e div 1000000000, hb_term = term\<rparr>
            in case heartbeat_attempts e hb 3 of
                 (True, fx) \<Rightarrow> Some fx
               | (False, fx) \<Rightarrow> Some (fx @ [GoMeshHealing])))"

section \<open>Counting votes\<close>

fun best_candidate :: "(string, int) gomap \<Rightarrow> string \<times> int \<Rightarrow> string \<times> int" where
  "best_candidate [] acc = acc"
| "best_candidate ((cand, cnt) # vs) (winner, maxVotes) =
     best_candidate vs
       (if cnt > maxVotes \<or> (cnt = maxVotes \<and> cand < winner) then (cand, cnt) else (winner, maxVotes))"

text \<open>Go's \<open>/\<close> on the non-negative peer count is \<open>div\<close>.\<close>

definition required_votes :: "int \<Rightarrow> int" where
  "required_votes n =
     (if n = 1 then 1
      else if n \<le> 3 then (let r = (n + 1) div 2 in if r < 2 then 2 else r)
      else if n \<le> 8 then (n + 1) div 2
      else (let r = (n * 3) div 10 in if r < 3 then 3 else r))"

definition determineWinner :: "node \<Rightarrow> string" where
  "determineWinner n =
     (if votes n = [] then ''''
      else case best_candidate (votes n) ('''', 0) of
        (winner, maxVotes) \<Rightarrow>
          (let required = required_votes (peerCount n)
           in if int (length (votedNodes n)) \<ge> required \<and> maxVotes \<ge> required then winner else ''''))"

section \<open>Voting\<close>

definition record_into :: "string \<Rightarrow> string \<Rightarrow> node \<Rightarrow> node" where
  "record_into voter cand n =
     n\<lparr>votedNodes := gm_set voter cand (votedNodes n), votes := gm_incr cand (votes n)\<rparr>"

definition self_reputation :: "string \<Rightarrow> node_reputation" where
  "self_reputation i =
     \<lparr>NodeID = i, Uptime = 1, LeadershipCount = 0, Latency = 0, UserCPU = 0, SystemCPU = 0, IdleCPU = 0,
      MemoryAvailable = 0, MemoryAllocationTotal = 0, MemorySystem = 0, AvgReadMBs = 0, AvgWriteMBs = 0,
      GeographyScore = 1/2, ContainerName = ''''\<rparr>"

definition shouldJoin :: "vote_message \<Rightarrow> node \<Rightarrow> bool" where
  "shouldJoin v n \<longleftrightarrow> electionPhase n = PhaseIdle \<or> vm_term v > currentTerm n
     \<or> (vm_term v = currentTerm n \<and> vm_election v \<noteq> currentElectionID n)"

text \<open>The first critical section of \<open>handleVote\<close>, and the vote published after it.\<close>

definition join_election :: "env \<Rightarrow> vote_message \<Rightarrow> node \<Rightarrow> node \<times> effect list" where
  "join_election e v n =
     (if shouldJoin v n then
        (let n1 = n\<lparr>electionPhase := PhaseVoting, currentElectionID := vm_election v,
                    currentTerm := vm_term v, electionDeadline := now e + electionTimeout,
                    votes := [], votedNodes := []\<rparr>;
             peers = (case QueryAllReputations e n1 of
                        Some (p # ps) \<Rightarrow> p # ps | _ \<Rightarrow> [self_reputation (self n1)]);
             selected = node_select e peers n1;
             own = \<lparr>vm_node = self n1, vm_vote = selected, vm_election = vm_election v, vm_term = vm_term v\<rparr>
         in (record_into (vm_node own) (vm_vote own) n1, snd (publishMessage e (MVote own))))
      else (n, []))"

definition record_vote :: "vote_message \<Rightarrow> node \<Rightarrow> node" where
  "record_vote v n =
     (if electionPhase n \<noteq> PhaseVoting \<or> vm_election v \<noteq> currentElectionID n \<or> vm_term v \<noteq> currentTerm n
      then n
      else if gm_get (votedNodes n) (vm_node v) = None then record_into (vm_node v) (vm_vote v) n
      else n)"

definition handleVote :: "env \<Rightarrow> vote_message \<Rightarrow> node \<Rightarrow> node \<times> effect list" where
  "handleVote e v n = (case join_election e v n of (n1, fx) \<Rightarrow> (record_vote v n1, fx))"

section \<open>Running an election\<close>

definition promoteAsDefaultCoordinator :: "env \<Rightarrow> (int \<Rightarrow> string) \<Rightarrow> node \<Rightarrow> node \<times> effect list" where
  "promoteAsDefaultCoordinator e log_id n =
     (let n1 = n\<lparr>currentTerm := currentTerm n + 1, electionPhase := PhaseCompleted\<rparr>;
          term = currentTerm n1
      in case announceLeader e (self n1) term n1 of
           (n2, fx) \<Rightarrow> (InsertElectionLog (log_id term) (self n2) term [(self n2, 1)] n2, fx))"

fun best_reputation :: "node_reputation list \<Rightarrow> (node_reputation option \<times> real) \<Rightarrow> (node_reputation option \<times> real)" where
  "best_reputation [] acc = acc"
| "best_reputation (p # ps) (best, maxScore) =
     (let score = calculateReputation p
      in best_reputation ps (if score > maxScore then (Some p, score) else (best, maxScore)))"

definition fallbackElection :: "env \<Rightarrow> node \<Rightarrow> node \<times> effect list" where
  "fallbackElection e n =
     (case QueryAllReputations e n of
        None \<Rightarrow> announceLeader e (self n) (currentTerm n + 1) n
      | Some [] \<Rightarrow> announceLeader e (self n) (currentTerm n + 1) n
      | Some peers \<Rightarrow>
          (case best_reputation peers (None, -1) of
             (Some best, _) \<Rightarrow> announceLeader e (NodeID best) (currentTerm n + 1) n
           | (None, _) \<Rightarrow> announceLeader e '''' (currentTerm n + 1) n))"

definition trulyIsolated :: "env \<Rightarrow> node \<Rightarrow> bool" where
  "trulyIsolated e n \<longleftrightarrow> listPeers e = [] \<and> hasRecentMessagePeers e (sec 60) n = 0"

text \<open>The part of \<open>StartElection\<close> before the retry loop: \<open>True\<close> when the loop is entered.\<close>

definition start_guard :: "env \<Rightarrow> (int \<Rightarrow> string) \<Rightarrow> node \<Rightarrow> bool \<times> node \<times> effect list" where
  "start_guard e log_id n =
     (if trulyIsolated e n \<and> discoveredPeers e \<noteq> [] then
        (let n1 = n\<lparr>consecutiveElectionFailures := consecutiveElectionFailures n + 1\<rparr>
         in if isDefaultCoordinatorNode (containerName n1) \<and> consecutiveElectionFailures n1 \<ge> 2
            then (case promoteAsDefaultCoordinator e log_id n1 of
                    (n2, fx) \<Rightarrow> (False, n2, GoMeshHealing # fx))
            else (False, n1, [GoMeshHealing]))
      else if isElecting n then (False, n, [])
      else (True, n\<lparr>isElecting := True\<rparr>, []))"

definition begin_term :: "env \<Rightarrow> node \<Rightarrow> int \<times> node" where
  "begin_term e n =
     (let n1 = n\<lparr>currentTerm := currentTerm n + 1, peerCount := int (length (discoveredPeers e)) + 1\<rparr>
      in (currentTerm n1, n1))"

definition open_vote :: "env \<Rightarrow> string \<Rightarrow> node \<Rightarrow> node" where
  "open_vote e electionID n =
     n\<lparr>currentElectionID := electionID, electionPhase := PhaseVoting,
       electionDeadline := now e + electionTimeout, votes := [], votedNodes := []\<rparr>"

definition cast_own_vote :: "env \<Rightarrow> string \<Rightarrow> int \<Rightarrow> node_reputation list \<Rightarrow> node \<Rightarrow> node \<times> effect list" where
  "cast_own_vote e electionID term peers n =
     (let peers1 = (if peers = [] then [(self_reputation (self n))\<lparr>Uptime := 0, GeographyScore := 0\<rparr>] else peers);
          v = \<lparr>vm_node = self n, vm_vote = node_select e peers1 n, vm_election = electionID, vm_term = term\<rparr>
      in (record_into (vm_node v) (vm_vote v) n, snd (publishMessage e (MVote v))))"


definition itoa :: "int \<Rightarrow> string" where
  "itoa i = (if i < 0 then ''-'' @ dec_nat (nat (- i)) else dec_nat (nat i))"

text \<open>\<open>hashPeerList\<close> hashes the sorted peer list; the election identifier is built from the term, the
  attempt and the first eight characters of the hash.\<close>

definition hashPeerList :: "(string list \<Rightarrow> string) \<Rightarrow> string list \<Rightarrow> string" where
  "hashPeerList h peerIDs = h (sort peerIDs)"

definition election_id :: "env \<Rightarrow> int \<Rightarrow> nat \<Rightarrow> node \<Rightarrow> string" where
  "election_id e term attempt n =
     ''cluster-term'' @ itoa term @ ''-attempt'' @ itoa (int attempt) @ ''-peers''
     @ take 8 (hashPeerList (sha256_hex e) (sort (self n # discoveredPeers e)))"

definition finalizeElectionInline :: "env \<Rightarrow> int \<Rightarrow> string \<Rightarrow> node \<Rightarrow> string \<times> node \<times> effect list" where
  "finalizeElectionInline e term electionID n =
     (if currentElectionID n \<noteq> electionID \<or> currentTerm n \<noteq> term then ('''', n, [])
      else (let n1 = n\<lparr>electionPhase := PhaseCompleted\<rparr>; winner = determineWinner n1; vs = votes n1
            in if winner = '''' then ('''', n1, [])
               else case announceLeader e winner term n1 of
                      (n2, fx) \<Rightarrow> (winner, InsertElectionLog electionID winner term vs n2, fx)))"

text \<open>What follows one attempt: \<open>Inl\<close> to retry, \<open>Inr\<close> when \<open>StartElection\<close> returns (the deferred
  store clears \<open>isElecting\<close>).\<close>

definition after_attempt ::
  "env \<Rightarrow> (int \<Rightarrow> string) \<Rightarrow> nat \<Rightarrow> string \<Rightarrow> node \<Rightarrow> node + (node \<times> effect list)" where
  "after_attempt e log_id attempt winner n =
     (if winner \<noteq> '''' then Inr (n\<lparr>consecutiveElectionFailures := 0, isElecting := False\<rparr>, [])
      else if attempt + 1 < maxAttempts then Inl n
      else (let n1 = n\<lparr>consecutiveElectionFailures := consecutiveElectionFailures n + 1\<rparr>
            in case (if isDefaultCoordinatorNode (containerName n1) \<and> consecutiveElectionFailures n1 \<ge> 2
                     then promoteAsDefaultCoordinator e log_id n1 else fallbackElection e n1) of
                 (n2, fx) \<Rightarrow> Inr (n2\<lparr>isElecting := False\<rparr>, fx)))"

section \<open>Failure detection and mesh health\<close>

text \<open>One tick of \<open>CheckLeaderFailure\<close>; \<open>True\<close> when the tick goes on to the random back-off.\<close>

definition CheckLeaderFailure_tick ::
  "env \<Rightarrow> (int \<Rightarrow> string) \<Rightarrow> node \<Rightarrow> bool \<times> node \<times> effect list" where
  "CheckLeaderFailure_tick e log_id n =
     (if nrole n = Coordinator then (False, n\<lparr>consecutiveHeartbeatFailures := 0\<rparr>, [])
      else case lastHeartbeat n of
        None \<Rightarrow> (False, n\<lparr>lastHeartbeat := Some (now e)\<rparr>, [])
      | Some t \<Rightarrow>
          (if now e - t > heartbeatTimeout then
             (let n1 = n\<lparr>heartbeatMissed := heartbeatMissed n + 1,
                         consecutiveHeartbeatFailures := consecutiveHeartbeatFailures n + 1\<rparr>
              in if heartbeatMissed n1 \<ge> heartbeatRetryLimit
                    \<and> consecutiveHeartbeatFailures n1 \<ge> requiredConsecutiveFailures n1 then
                   (if trulyIsolated e n1 \<and> discoveredPeers e \<noteq> [] then
                      (let n2 = n1\<lparr>consecutiveElectionFailures := consecutiveElectionFailures n1 + 1\<rparr>;
                           n3 = n2\<lparr>heartbeatMissed := 0, consecutiveHeartbeatFailures := 0\<rparr>
                       in if isDefaultCoordinatorNode (containerName n2) \<and> consecutiveElectionFailures n2 \<ge> 2
                          then (case promoteAsDefaultCoordinator e log_id n3 of (n4, fx) \<Rightarrow> (False, n4, fx))
                          else (False, n3, [GoMeshHealing]))
                    else (True, n1\<lparr>heartbeatMissed := 0, consecutiveHeartbeatFailures := 0\<rparr>, []))
                 else (False, n1, []))
           else (False, n\<lparr>heartbeatMissed := 0, consecutiveHeartbeatFailures := 0\<rparr>, [])))"

definition after_backoff :: "env \<Rightarrow> node \<Rightarrow> effect list" where
  "after_backoff e n =
     (if isElecting n then []
      else [GoElection (case QueryAllReputations e n of Some ps \<Rightarrow> ps | None \<Rightarrow> [])])"

text \<open>\<open>emergencyMeshHealing\<close>: the cooldown, and what it stores after connecting and publishing the
  refresh messages; \<open>after\<close> is the answer of \<open>ListPeers\<close> at the end.\<close>

definition emergencyMeshHealing :: "env \<Rightarrow> string list \<Rightarrow> node \<Rightarrow> node \<times> effect list" where
  "emergencyMeshHealing e after n =
     (if (case lastMeshHealingAttempt n of Some t \<Rightarrow> now e - t < sec 30 | None \<Rightarrow> False) then (n, [])
      else (let n1 = n\<lparr>lastMeshHealingAttempt := Some (now e)\<rparr>;
                n2 = (if length after > length (listPeers e)
                      then n1\<lparr>meshHealthy := True, consecutiveEmptyMeshChecks := 0\<rparr>
                      else if after = []
                      then n1\<lparr>meshHealthy := False,
                              consecutiveEmptyMeshChecks := consecutiveEmptyMeshChecks n1 + 1\<rparr>
                      else n1\<lparr>meshHealthy := (length after > 0)\<rparr>)
            in (n2, if after \<noteq> [] \<and> currentTerm n2 > 15 \<and> isLeaderEmpty n2 then [GoTermCheck] else [])))"

definition checkMeshHealth :: "env \<Rightarrow> node \<Rightarrow> node \<times> effect list" where
  "checkMeshHealth e n =
     (let meshSize = length (listPeers e); discoveredSize = length (discoveredPeers e);
          (n1, fx) =
            (if hasRecentMessagePeers e (sec 60) n > 0
             then (n\<lparr>consecutiveEmptyMeshChecks := 0, meshHealthy := True\<rparr>, [])
             else if meshSize = 0 \<and> discoveredSize > 0 then
               (let n2 = n\<lparr>consecutiveEmptyMeshChecks := consecutiveEmptyMeshChecks n + 1\<rparr>
                in if consecutiveEmptyMeshChecks n2 \<ge> 2
                   then (n2\<lparr>consecutiveEmptyMeshChecks := 0\<rparr>, [GoMeshHealing]) else (n2, []))
             else if meshSize > 0
             then (n\<lparr>consecutiveEmptyMeshChecks := 0, meshHealthy := True\<rparr>, [])
             else (n, []))
      in (n1, fx @ (if currentTerm n1 > 15 \<and> meshSize = 0 \<and> discoveredSize > 0 then [GoTermCheck] else [])))"

text \<open>The loop of \<open>checkTermDivergence\<close> that estimates the cluster's term.\<close>

fun cluster_term :: "string \<Rightarrow> node_reputation list \<Rightarrow> int \<Rightarrow> int \<Rightarrow> int" where
  "cluster_term me [] maxLeadership clusterTerm = clusterTerm"
| "cluster_term me (p # ps) maxLeadership clusterTerm =
     (if NodeID p \<noteq> me \<and> LeadershipCount p > maxLeadership
      then cluster_term me ps (LeadershipCount p)
             (if LeadershipCount p * 3 > 30 then 30 else LeadershipCount p * 3)
      else cluster_term me ps maxLeadership clusterTerm)"

definition checkTermDivergence :: "env \<Rightarrow> node \<Rightarrow> node \<times> effect list" where
  "checkTermDivergence e n =
     (if currentTerm n > 15 \<and> listPeers e = [] \<and> discoveredPeers e \<noteq> [] \<and> isLeaderEmpty n then
        (let t = (case QueryAllReputations e n of
                    Some peers \<Rightarrow> cluster_term (self n) peers 0 1 | None \<Rightarrow> 1)
         in (n\<lparr>currentTerm := (if t < 1 then 1 else t), electionPhase := PhaseIdle, votes := [],
               votedNodes := [], nrole := Follower, leader := '''', lastHeartbeat := Some (now e),
               heartbeatMissed := 0, consecutiveHeartbeatFailures := 0\<rparr>, [GoMeshHealing]))
      else (n, []))"

definition validateStartupTerm :: "env \<Rightarrow> node \<Rightarrow> node \<times> effect list" where
  "validateStartupTerm e n =
     (if currentTerm n > 15 \<and> discoveredPeers e \<noteq> [] \<and> listPeers e = []
      then checkTermDivergence e n else (n, []))"

section \<open>Receiving messages\<close>

definition handleReputation :: "node_reputation \<Rightarrow> node \<Rightarrow> node" where
  "handleReputation rep n =
     (let n1 = (if ContainerName rep \<noteq> '''' \<and> NodeID rep \<noteq> ''''
                then n\<lparr>peerContainerNames := (peerContainerNames n)(NodeID rep \<mapsto> ContainerName rep)\<rparr> else n)
      in if NodeID rep \<noteq> self n then
           (case validateReputationData rep of Inl _ \<Rightarrow> n1 | Inr _ \<Rightarrow> UpsertReputation rep n1)
         else n1)"

text \<open>The dispatch of \<open>handleMessage\<close> once the rate limiter has accepted the message.\<close>

fun dispatch :: "env \<Rightarrow> core_message \<Rightarrow> node \<Rightarrow> (node \<times> effect list) option" where
  "dispatch e (MVote v) n = Some (handleVote e v n)"
| "dispatch e (MHeartbeat hb) n = Some (handleHeartbeat e hb n, [])"
| "dispatch e (MReputation rep) n = Some (handleReputation rep n, [])"
| "dispatch e (MAnnouncement ldr term) n =
     (case term of
        None \<Rightarrow> None
      | Some t \<Rightarrow> Some (handleAnnouncement e (case ldr of Some l \<Rightarrow> l | None \<Rightarrow> '''') t n, []))"
| "dispatch e MElectionResult n = Some (n, [])"
| "dispatch e (Malformed ty) n = Some (n, [])"
| "dispatch e (MOther ty) n = Some (n, [])"

definition handleMessage :: "env \<Rightarrow> core_message \<Rightarrow> string \<Rightarrow> node \<Rightarrow> (node \<times> effect list) option" where
  "handleMessage e m sender n =
     (case AllowMessage (now e) sender (core_type m) (rateLimiter n) of
        (ok, rl) \<Rightarrow>
          (let n1 = n\<lparr>rateLimiter := rl\<rparr> in if ok then dispatch e m n1 else Some (n1, [])))"

text \<open>One iteration of the listener loop; \<open>None\<close> for \<open>m\<close> is a message that is not JSON.\<close>

definition note_sender :: "env \<Rightarrow> string \<Rightarrow> node \<Rightarrow> node" where
  "note_sender e sender n =
     (if sender \<noteq> self n
      then n\<lparr>lastMessageFromPeer := gm_set sender (now e) (lastMessageFromPeer n)\<rparr> else n)"

definition receive :: "env \<Rightarrow> core_message option \<Rightarrow> string \<Rightarrow> node \<Rightarrow> (node \<times> effect list) option" where
  "receive e m sender n =
     (case m of
        None \<Rightarrow> Some (note_sender e sender n, [])
      | Some c \<Rightarrow> handleMessage e c sender (note_sender e sender n))"

text \<open>\<open>sha256_u64\<close> stands for the first eight bytes of the digest of the sorted identifiers, read
  big-endian.\<close>

definition selectInitiatorDeterministic :: "(string list \<Rightarrow> nat) \<Rightarrow> string list \<Rightarrow> string" where
  "selectInitiatorDeterministic sha256_u64 peerIDs =
     (if peerIDs = [] then ''''
      else (let sorted_ids = sort peerIDs
            in sorted_ids ! (sha256_u64 sorted_ids mod length sorted_ids)))"

end
