(* ===== verification/ElectionWinner.thy ===== *)
theory ElectionWinner
  imports Election
begin

text \<open>
  Counting votes: what \<open>determineWinner\<close> returns, that it does not depend on the iteration order of
  the Go map of votes, that the vote counters agree with the recorded ballots, and for which cluster
  sizes its quorum rules out two winners of one election.
\<close>

section \<open>The best candidate\<close>

definition better :: "string \<times> int \<Rightarrow> string \<times> int \<Rightarrow> bool" where
  "better x y \<longleftrightarrow> snd x > snd y \<or> (snd x = snd y \<and> fst x < fst y)"

lemma better_total: "\<not> better x y \<Longrightarrow> \<not> better y x \<Longrightarrow> x = y"
  by (auto simp: better_def prod_eq_iff)

lemma better_trans: "\<not> better x y \<Longrightarrow> \<not> better y z \<Longrightarrow> \<not> better x z"
  by (auto simp: better_def)

lemma better_irrefl [simp]: "\<not> better x x"
  by (simp add: better_def)

lemma best_candidate_Cons:
  "best_candidate (x # vs) acc = best_candidate vs (if better x acc then x else acc)"
  by (cases x; cases acc) (simp add: better_def)

lemma best_candidate_best:
  "best_candidate vs acc \<in> insert acc (set vs) \<and>
   (\<forall>x \<in> insert acc (set vs). \<not> better x (best_candidate vs acc))"
proof (induction vs arbitrary: acc)
  case Nil
  then show ?case by simp
next
  case (Cons x vs)
  let ?b = "if better x acc then x else acc"
  from Cons.IH[of ?b] have mem: "best_candidate vs ?b \<in> insert ?b (set vs)"
    and best: "\<forall>y \<in> insert ?b (set vs). \<not> better y (best_candidate vs ?b)" by auto
  have "\<not> better x ?b" "\<not> better acc ?b"
    by (auto simp: better_def)
  moreover have "\<not> better ?b (best_candidate vs ?b)"
    using best by simp
  ultimately have "\<not> better x (best_candidate vs ?b)" "\<not> better acc (best_candidate vs ?b)"
    by (meson better_trans)+
  with mem best show ?case
    by (auto simp only: best_candidate_Cons split: if_splits) auto
qed

lemma best_candidate_cong:
  assumes "set vs = set vs'"
  shows "best_candidate vs acc = best_candidate vs' acc"
  using best_candidate_best[of vs acc] best_candidate_best[of vs' acc] assms
  by (intro better_total) auto

text \<open>
  The winner does not depend on the order in which Go iterates over the map of votes: two nodes
  (or two runs) holding the same counts decide the same winner.
\<close>
theorem winner_order_independent:
  assumes "mset vs = mset (votes n)"
  shows "determineWinner (n\<lparr>votes := vs\<rparr>) = determineWinner n"
proof -
  have "vs = [] \<longleftrightarrow> votes n = []"
    using assms by auto
  moreover have "best_candidate vs ('''', 0) = best_candidate (votes n) ('''', 0)"
    using assms by (intro best_candidate_cong) (rule mset_eq_setD)
  ultimately show ?thesis
    by (simp add: determineWinner_def)
qed

definition sample_node :: "string \<Rightarrow> (string, int) gomap \<Rightarrow> (string, string) gomap \<Rightarrow> int \<Rightarrow> node" where
  "sample_node i vs vn k = (NewNode i ''c'')\<lparr>votes := vs, votedNodes := vn, peerCount := k\<rparr>"

theorem winner_order_independent_witness:
  "determineWinner ((sample_node ''n'' [(''b'', 2), (''a'', 2)] [] 2)\<lparr>votes := [(''a'', 2), (''b'', 2)]\<rparr>)
   = determineWinner (sample_node ''n'' [(''b'', 2), (''a'', 2)] [] 2)"
  by (rule winner_order_independent) (simp add: sample_node_def)

lemma determineWinner_cases:
  assumes "determineWinner n \<noteq> ''''"
  obtains m where "best_candidate (votes n) ('''', 0) = (determineWinner n, m)"
    "required_votes (peerCount n) \<le> m" "required_votes (peerCount n) \<le> int (length (votedNodes n))"
  using assms by (auto simp: determineWinner_def Let_def split: if_splits prod.splits)

lemma required_votes_pos: "0 < required_votes k"
  by (auto simp: required_votes_def Let_def)

lemma winner_obtain:
  assumes "gm_wf (votes n)" and "determineWinner n = w" and "w \<noteq> ''''"
  obtains m where "gm_get (votes n) w = Some m" "gm_int (votes n) w = m"
    "required_votes (peerCount n) \<le> m" "required_votes (peerCount n) \<le> int (length (votedNodes n))"
    "\<And>x. x \<in> set (votes n) \<Longrightarrow> \<not> better x (w, m)"
proof -
  obtain m where m: "best_candidate (votes n) ('''', 0) = (w, m)"
    and req: "required_votes (peerCount n) \<le> m" "required_votes (peerCount n) \<le> int (length (votedNodes n))"
    using determineWinner_cases[of n] assms(2,3) by metis
  from best_candidate_best[of "votes n" "('''', 0)"] assms(3)
  have mem: "(w, m) \<in> set (votes n)" and best: "\<And>x. x \<in> set (votes n) \<Longrightarrow> \<not> better x (w, m)"
    by (auto simp: m)
  then have "gm_get (votes n) w = Some m"
    using assms(1) by simp
  with req best that show thesis
    by (simp add: gm_int_def)
qed

lemma winner_votes:
  "gm_wf (votes n) \<Longrightarrow> determineWinner n = w \<Longrightarrow> w \<noteq> '''' \<Longrightarrow>
   required_votes (peerCount n) \<le> gm_int (votes n) w"
  by (metis winner_obtain)

text \<open>
  C5.  A declared winner is a candidate of the map with the highest count, the smallest identifier
  among those with that count, and both its count and the number of voters reach the quorum for the
  known cluster size.
\<close>
theorem winner_sound:
  assumes "gm_wf (votes n)" and "determineWinner n = w" and "w \<noteq> ''''"
  shows "gm_get (votes n) w = Some (gm_int (votes n) w)
    \<and> required_votes (peerCount n) \<le> gm_int (votes n) w
    \<and> required_votes (peerCount n) \<le> int (length (votedNodes n))
    \<and> (\<forall>c k. gm_get (votes n) c = Some k \<longrightarrow>
         k < gm_int (votes n) w \<or> (k = gm_int (votes n) w \<and> w \<le> c))"
proof -
  obtain m where w: "gm_get (votes n) w = Some m" "gm_int (votes n) w = m"
    and req: "required_votes (peerCount n) \<le> m" "required_votes (peerCount n) \<le> int (length (votedNodes n))"
    and best: "\<And>x. x \<in> set (votes n) \<Longrightarrow> \<not> better x (w, m)"
    using winner_obtain[OF assms] by metis
  have "k < m \<or> (k = m \<and> w \<le> c)" if "gm_get (votes n) c = Some k" for c k
  proof -
    from that have "\<not> better (c, k) (w, m)"
      by (intro best) (rule map_of_SomeD)
    then show ?thesis
      by (auto simp: better_def)
  qed
  with req w show ?thesis by blast
qed

theorem winner_sound_witness:
  "determineWinner (sample_node ''n'' [(''b'', 1), (''a'', 2)] [(''x'', ''a''), (''y'', ''a''), (''z'', ''b'')] 3) = ''a''
   \<and> required_votes 3 \<le> 2"
proof -
  let ?n = "sample_node ''n'' [(''b'', 1), (''a'', 2)] [(''x'', ''a''), (''y'', ''a''), (''z'', ''b'')] 3"
  have w: "determineWinner ?n = ''a''"
    by (simp add: determineWinner_def sample_node_def required_votes_def)
  have "gm_wf (votes ?n)" by (simp add: sample_node_def)
  from winner_sound[OF this w] w show ?thesis
    by (simp add: sample_node_def gm_int_def)
qed

section \<open>Ballots and counters\<close>

definition tally :: "(string, string) gomap \<Rightarrow> string \<Rightarrow> int" where
  "tally vn c = int (count_list (map snd vn) c)"

definition counts_ok :: "node \<Rightarrow> bool" where
  "counts_ok n \<longleftrightarrow> gm_wf (votes n) \<and> gm_wf (votedNodes n)
     \<and> (\<forall>c. gm_int (votes n) c = tally (votedNodes n) c)"

lemma tally_append [simp]: "tally (a @ b) c = tally a c + tally b c"
  by (simp add: tally_def)

lemma tally_Nil [simp]: "tally [] c = 0"
  by (simp add: tally_def)

lemma tally_Cons [simp]: "tally ((v, d) # vn) c = (if d = c then 1 else 0) + tally vn c"
  by (simp add: tally_def)

lemma gm_int_Nil [simp]: "gm_int [] c = 0"
  by (simp add: gm_int_def)

lemma counts_ok_cleared: "votes n = [] \<Longrightarrow> votedNodes n = [] \<Longrightarrow> counts_ok n"
  by (simp add: counts_ok_def)

lemma counts_ok_record_into:
  assumes "counts_ok n" and "gm_get (votedNodes n) v = None"
  shows "counts_ok (record_into v c n)"
proof -
  have new: "gm_set v c (votedNodes n) = votedNodes n @ [(v, c)]"
    using assms(2) by (simp add: gm_set_new gm_get_None)
  have "gm_wf (gm_set v c (votedNodes n))"
    using assms(1) by (simp add: counts_ok_def)
  with assms(1) show ?thesis
    by (auto simp: counts_ok_def record_into_def new)
qed

lemma counts_ok_record_vote: "counts_ok n \<Longrightarrow> counts_ok (record_vote v n)"
  by (simp add: record_vote_def counts_ok_record_into)

lemma counts_ok_join: "counts_ok n \<Longrightarrow> counts_ok (fst (join_election e v n))"
  by (simp add: join_election_def Let_def split_beta counts_ok_cleared counts_ok_record_into)

text \<open>The voters of a candidate, and their number.\<close>

definition voters_for :: "node \<Rightarrow> string \<Rightarrow> string set" where
  "voters_for n c = {v. gm_get (votedNodes n) v = Some c}"

lemma card_voters_list:
  "gm_wf vn \<Longrightarrow> int (card {v. (v, c) \<in> set vn}) = tally vn c"
proof (induction vn)
  case Nil
  then show ?case by simp
next
  case (Cons x vn)
  obtain v d where x: "x = (v, d)" by (cases x)
  have fresh: "(v, c) \<notin> set vn"
    using Cons.prems by (auto simp: x image_iff)
  have fin: "finite {u. (u, c) \<in> set vn}"
    by (rule finite_subset[of _ "fst ` set vn"]) force+
  have eq: "{u. (u, c) \<in> set (x # vn)} =
        (if d = c then insert v {u. (u, c) \<in> set vn} else {u. (u, c) \<in> set vn})"
    by (auto simp: x)
  have "int (card {u. (u, c) \<in> set vn}) = tally vn c"
    using Cons by simp
  then show ?case
    unfolding eq using fresh fin by (simp add: x)
qed

lemma counts_ok_voters: "counts_ok n \<Longrightarrow> gm_int (votes n) c = int (card (voters_for n c))"
  using card_voters_list[of "votedNodes n" c] by (simp add: counts_ok_def voters_for_def)

text \<open>
  Every vote counts once: from a node whose counters agree with its recorded ballots, handling any
  vote message (joining the sender's election or not) leads to a node in which the counter of every
  candidate is again the number of distinct voters recorded for it.
\<close>
theorem handleVote_counts_voters:
  assumes "counts_ok n"
  shows "gm_int (votes (fst (handleVote e v n))) c = int (card (voters_for (fst (handleVote e v n)) c))"
proof (rule counts_ok_voters)
  show "counts_ok (fst (handleVote e v n))"
    using counts_ok_record_vote[OF counts_ok_join[OF assms]]
    by (simp add: handleVote_def split_beta)
qed

definition sample_env :: env where
  "sample_env = \<lparr>now = sec 100, listPeers = [''p''], discoveredPeers = [], publish_ok = (\<lambda>_ _. True),
     peer_decode = Some, query_fails = False, rand_int = 0, rand_float = 0, sha256_hex = (\<lambda>_. ''0123456789'')\<rparr>"

definition ballot :: "string \<Rightarrow> string \<Rightarrow> string \<Rightarrow> int \<Rightarrow> vote_message" where
  "ballot i c el t = \<lparr>vm_node = i, vm_vote = c, vm_election = el, vm_term = t\<rparr>"

theorem handleVote_counts_voters_witness:
  "gm_int (votes (fst (handleVote sample_env (ballot ''a'' ''n'' ''e1'' 1) (NewNode ''n'' ''c'')))) ''n''
   = int (card (voters_for (fst (handleVote sample_env (ballot ''a'' ''n'' ''e1'' 1) (NewNode ''n'' ''c''))) ''n''))"
  by (rule handleVote_counts_voters) (simp add: counts_ok_def NewNode_def)

lemma not_join_again: "\<not> shouldJoin v (fst (join_election e v n))"
  by (simp add: join_election_def shouldJoin_def record_into_def Let_def)

lemma shouldJoin_record_vote [simp]: "shouldJoin v (record_vote w n) = shouldJoin v n"
  by (simp add: shouldJoin_def record_vote_def record_into_def)

lemma record_vote_idem [simp]: "record_vote v (record_vote v n) = record_vote v n"
  by (simp add: record_vote_def record_into_def)

lemma handleVote_not_join: "\<not> shouldJoin v n \<Longrightarrow> handleVote e v n = (record_vote v n, [])"
  by (simp add: handleVote_def join_election_def)

lemma fst_handleVote: "fst (handleVote e v n) = record_vote v (fst (join_election e v n))"
  by (simp add: handleVote_def split_beta)

text \<open>
  Handling the same vote message again changes nothing: a duplicate of a vote just handled is
  not counted again, does not make the node rejoin, and publishes nothing.
\<close>
theorem duplicate_vote_ignored:
  "handleVote e v (fst (handleVote e' v n)) = (fst (handleVote e' v n), [])"
proof -
  have "\<not> shouldJoin v (fst (handleVote e' v n))"
    by (simp add: fst_handleVote not_join_again)
  then show ?thesis
    by (simp add: handleVote_not_join) (simp add: fst_handleVote)
qed

section \<open>Quorums\<close>

lemma required_votes_small:
  "k \<in> {1, 2, 3, 4, 5, 6, 7, 8} \<Longrightarrow> k < 2 * required_votes k \<longleftrightarrow> k \<in> {1, 2, 3, 5, 7}"
  by (auto simp: required_votes_def)

lemma required_votes_large: "8 < k \<Longrightarrow> 2 * required_votes k \<le> k"
  by (auto simp: required_votes_def Let_def)

text \<open>
  For which cluster sizes the quorum is a majority (so that two quorums always share a voter):
  exactly 1, 2, 3, 5 and 7.  For 4, 6 and 8 peers two disjoint halves both reach the quorum, and from
  9 peers on three in ten suffice.
\<close>
theorem quorum_is_majority_iff:
  "1 \<le> k \<Longrightarrow> (k < 2 * required_votes k) \<longleftrightarrow> k \<in> {1, 2, 3, 5, 7}"
proof (cases "k \<le> 8")
  case True
  moreover assume "1 \<le> k"
  ultimately have "k \<in> {1, 2, 3, 4, 5, 6, 7, 8}" by auto
  then show ?thesis by (rule required_votes_small)
next
  case False
  then show ?thesis using required_votes_large[of k] by auto
qed

theorem quorum_is_majority_iff_witness: "(5::int) < 2 * required_votes 5 \<and> \<not> (9::int) < 2 * required_votes 9"
  using quorum_is_majority_iff[of 5] quorum_is_majority_iff[of 9] by simp

text \<open>Every voter recorded by both nodes is recorded with the same candidate.\<close>

definition consistent_ballots :: "node \<Rightarrow> node \<Rightarrow> bool" where
  "consistent_ballots a b \<longleftrightarrow>
     (\<forall>v c d. gm_get (votedNodes a) v = Some c \<longrightarrow> gm_get (votedNodes b) v = Some d \<longrightarrow> c = d)"



text \<open>
  Agreement fails for four peers: two nodes of one four-peer cluster with consistent ballots (the
  four voters voted once each, the same to everyone) declare two different winners, each with the two
  votes the quorum asks for.
\<close>
theorem four_peers_two_winners:
  "\<exists>a b. counts_ok a \<and> counts_ok b \<and> peerCount a = 4 \<and> peerCount b = 4
     \<and> consistent_ballots a b
     \<and> dom (gm_get (votedNodes a)) \<union> dom (gm_get (votedNodes b)) \<subseteq> {''w'', ''x'', ''y'', ''z''}
     \<and> determineWinner a = ''w'' \<and> determineWinner b = ''y''"
proof -
  let ?a = "sample_node ''w'' [(''w'', 2)] [(''w'', ''w''), (''x'', ''w'')] 4"
  let ?b = "sample_node ''y'' [(''y'', 2)] [(''y'', ''y''), (''z'', ''y'')] 4"
  have "counts_ok ?a" "counts_ok ?b"
    by (auto simp: counts_ok_def sample_node_def gm_int_def)
  moreover have "determineWinner ?a = ''w''" "determineWinner ?b = ''y''"
    by (simp_all add: sample_node_def determineWinner_def required_votes_def)
  ultimately show ?thesis
    by (intro exI[of _ ?a] exI[of _ ?b]) (auto simp: sample_node_def consistent_ballots_def split: if_splits)
qed

end
