(* ===== verification/ElectionSafety.thy ===== *)
theory ElectionSafety
  imports ElectionWinner
begin

text \<open>
  The election protocol of one node as a step relation: any number of goroutines may call
  \<open>StartElection\<close>, while the listener handles messages and the tickers check the leader and the mesh.
  Every step is one critical section of the code, so the relation contains the interleavings in which
  a message is handled between two sections of a running election.  The lemmas below show what survives
  every interleaving: one election loop at a time, counters that exceed the recorded ballots by at most
  one, and loops that end after their three attempts.
\<close>

section \<open>The system\<close>

text \<open>Where a goroutine stands in \<open>StartElection\<close>.\<close>

datatype pc =
    Outside
  | Looping nat "node_reputation list"
  | TermTaken nat "node_reputation list" int
  | VoteOpen nat "node_reputation list" int string
  | Waiting nat "node_reputation list" int string
  | Decided nat "node_reputation list" string

record sys =
  nd :: node
  pcs :: "nat \<Rightarrow> pc"
  pending :: "vote_message option"

definition init_sys :: "string \<Rightarrow> string \<Rightarrow> sys" where
  "init_sys host_id container =
     \<lparr>nd = NewNode host_id container, pcs = (\<lambda>_. Outside), pending = None\<rparr>"

text \<open>What the listener does before the first critical section of \<open>handleVote\<close>: \<open>Some (v, n)\<close> when
  the message is a vote that the rate limiter lets through, \<open>n\<close> the node after those two updates.\<close>

definition accepted_vote :: "env \<Rightarrow> core_message option \<Rightarrow> string \<Rightarrow> node \<Rightarrow> (vote_message \<times> node) option" where
  "accepted_vote e m sender n =
     (case m of
        Some (MVote v) \<Rightarrow>
          (case AllowMessage (now e) sender TypeVote (rateLimiter (note_sender e sender n)) of
             (ok, rl) \<Rightarrow> if ok then Some (v, (note_sender e sender n)\<lparr>rateLimiter := rl\<rparr>) else None)
      | _ \<Rightarrow> None)"

inductive step :: "sys \<Rightarrow> sys \<Rightarrow> bool" where
  start_refused:
    "pcs s i = Outside \<Longrightarrow> start_guard e log_id (nd s) = (False, n, fx) \<Longrightarrow> step s (s\<lparr>nd := n\<rparr>)"
| start_entered:
    "pcs s i = Outside \<Longrightarrow> start_guard e log_id (nd s) = (True, n, fx) \<Longrightarrow> a < maxAttempts \<Longrightarrow>
     step s (s\<lparr>nd := n, pcs := (pcs s)(i := Looping a ps)\<rparr>)"
| take_term:
    "pcs s i = Looping a ps \<Longrightarrow> begin_term e (nd s) = (t, n) \<Longrightarrow>
     step s (s\<lparr>nd := n, pcs := (pcs s)(i := TermTaken a ps t)\<rparr>)"
| open_ballot:
    "pcs s i = TermTaken a ps t \<Longrightarrow> el = election_id e t a (nd s) \<Longrightarrow>
     step s (s\<lparr>nd := open_vote e el (nd s), pcs := (pcs s)(i := VoteOpen a ps t el)\<rparr>)"
| cast_ballot:
    "pcs s i = VoteOpen a ps t el \<Longrightarrow> cast_own_vote e el t ps (nd s) = (n, fx) \<Longrightarrow>
     step s (s\<lparr>nd := n, pcs := (pcs s)(i := Waiting a ps t el)\<rparr>)"
| finalize:
    "pcs s i = Waiting a ps t el \<Longrightarrow> finalizeElectionInline e t el (nd s) = (w, n, fx) \<Longrightarrow>
     step s (s\<lparr>nd := n, pcs := (pcs s)(i := Decided a ps w)\<rparr>)"
| retry:
    "pcs s i = Decided a ps w \<Longrightarrow> after_attempt e log_id a w (nd s) = Inl n \<Longrightarrow>
     step s (s\<lparr>nd := n, pcs := (pcs s)(i := Looping (a + 1) ps)\<rparr>)"
| finish:
    "pcs s i = Decided a ps w \<Longrightarrow> after_attempt e log_id a w (nd s) = Inr (n, fx) \<Longrightarrow>
     step s (s\<lparr>nd := n, pcs := (pcs s)(i := Outside)\<rparr>)"
| vote_first:
    "pending s = None \<Longrightarrow> accepted_vote e m sender (nd s) = Some (v, n) \<Longrightarrow>
     step s (s\<lparr>nd := fst (join_election e v n), pending := Some v\<rparr>)"
| vote_second:
    "pending s = Some v \<Longrightarrow> step s (s\<lparr>nd := record_vote v (nd s), pending := None\<rparr>)"
| other_message:
    "pending s = None \<Longrightarrow> accepted_vote e m sender (nd s) = None \<Longrightarrow>
     receive e m sender (nd s) = Some (n, fx) \<Longrightarrow> step s (s\<lparr>nd := n\<rparr>)"
| failure_tick:
    "CheckLeaderFailure_tick e log_id (nd s) = (b, n, fx) \<Longrightarrow> step s (s\<lparr>nd := n\<rparr>)"
| healing:
    "emergencyMeshHealing e after (nd s) = (n, fx) \<Longrightarrow> step s (s\<lparr>nd := n\<rparr>)"
| mesh_tick:
    "checkMeshHealth e (nd s) = (n, fx) \<Longrightarrow> step s (s\<lparr>nd := n\<rparr>)"
| divergence:
    "checkTermDivergence e (nd s) = (n, fx) \<Longrightarrow> step s (s\<lparr>nd := n\<rparr>)"

inductive reachable :: "string \<Rightarrow> string \<Rightarrow> sys \<Rightarrow> bool" for host_id container where
  reach_init: "reachable host_id container (init_sys host_id container)"
| reach_step: "reachable host_id container s \<Longrightarrow> step s s' \<Longrightarrow> reachable host_id container s'"

inductive_cases step_elim: "step s s'"
inductive_simps reachable_unfold: "reachable h c s"

section \<open>What the handlers leave alone\<close>

definition keeps :: "node \<Rightarrow> node \<Rightarrow> bool" where
  "keeps n n' \<longleftrightarrow> self n' = self n \<and> isElecting n' = isElecting n
     \<and> ((votes n' = votes n \<and> votedNodes n' = votedNodes n) \<or> (votes n' = [] \<and> votedNodes n' = []))"

lemma keeps_refl [node_simps, simp]: "keeps n n"
  by (simp add: keeps_def)

lemma keeps_trans: "keeps a b \<Longrightarrow> keeps b c \<Longrightarrow> keeps a c"
  by (auto simp: keeps_def)

lemma keepsI:
  "self n' = self n \<Longrightarrow> isElecting n' = isElecting n \<Longrightarrow> votes n' = votes n \<Longrightarrow>
   votedNodes n' = votedNodes n \<Longrightarrow> keeps n n'"
  by (simp add: keeps_def)

lemma keeps_handleAnnouncement [node_simps]: "keeps n (handleAnnouncement e l t n)"
  by (rule keepsI) (simp_all add: handleAnnouncement_def split: option.split)

lemma keeps_announceLeader [node_simps]: "keeps n (fst (announceLeader e l t n))"
  by (simp add: announceLeader_def split_beta node_simps split: prod.split bool.split)

lemma keeps_stepDown [node_simps]: "keeps n (stepDownLocked e l t n)"
  by (rule keepsI) (simp_all add: stepDownLocked_def Let_def split: option.split)

lemma keeps_heartbeat [node_simps]: "keeps n (handleHeartbeat e hb n)"
proof (cases "nrole n")
  case Follower
  then show ?thesis
    by (intro keepsI) (simp_all add: handleHeartbeat_def Let_def split: option.split)
next
  case Coordinator
  then show ?thesis
    by (simp add: handleHeartbeat_def node_simps)
qed

lemma keeps_log [node_simps]: "keeps n (InsertElectionLog a b c d n)"
  by (rule keepsI) (simp_all add: InsertElectionLog_def)

lemma keeps_promote [node_simps]: "keeps n (fst (promoteAsDefaultCoordinator e log_id n))"
proof -
  let ?n1 = "n\<lparr>currentTerm := currentTerm n + 1, electionPhase := PhaseCompleted\<rparr>"
  let ?n2 = "fst (announceLeader e (self ?n1) (currentTerm ?n1) ?n1)"
  have "keeps n ?n1" by (rule keepsI) simp_all
  moreover have "keeps ?n1 ?n2" by (rule node_simps)
  moreover have "keeps ?n2 (fst (promoteAsDefaultCoordinator e log_id n))"
    unfolding promoteAsDefaultCoordinator_def Let_def by (simp add: split_beta node_simps)
  ultimately show ?thesis by (meson keeps_trans)
qed

lemma keeps_fallback [node_simps]: "keeps n (fst (fallbackElection e n))"
  by (simp add: fallbackElection_def node_simps split: option.split list.split prod.split)

lemma keeps_finalize [node_simps]: "keeps n (fst (snd (finalizeElectionInline e t el n)))"
proof -
  let ?n1 = "n\<lparr>electionPhase := PhaseCompleted\<rparr>"
  let ?w = "determineWinner ?n1"
  let ?n2 = "fst (announceLeader e ?w t ?n1)"
  have 1: "keeps n ?n1" by (rule keepsI) simp_all
  have 2: "keeps ?n1 ?n2" by (rule node_simps)
  have "keeps n (InsertElectionLog el ?w t (votes ?n1) ?n2)"
    by (rule keeps_trans[OF keeps_trans[OF 1 2]]) (rule node_simps)
  with 1 show ?thesis
    by (simp add: finalizeElectionInline_def Let_def split_beta)
qed

lemma keeps_reputation [node_simps]: "keeps n (handleReputation rep n)"
  by (rule keepsI) (simp_all add: handleReputation_def UpsertReputation_def Let_def split: sum.split)

lemma keeps_dispatch:
  "dispatch e m n = Some (n', fx) \<Longrightarrow> (\<And>v. m \<noteq> MVote v) \<Longrightarrow> keeps n n'"
  by (cases m) (auto simp: node_simps split: option.splits)

lemma keeps_note [node_simps]: "keeps n (note_sender e sender n)"
  by (rule keepsI) (simp_all add: note_sender_def)

lemma keeps_limiter [node_simps]: "keeps n (n\<lparr>rateLimiter := rl\<rparr>)"
  by (rule keepsI) simp_all

lemma keeps_handleMessage:
  assumes "handleMessage e c sender n = Some (n', fx)"
    and "\<And>v. c = MVote v \<Longrightarrow> \<not> fst (AllowMessage (now e) sender TypeVote (rateLimiter n))"
  shows "keeps n n'"
proof (cases "AllowMessage (now e) sender (core_type c) (rateLimiter n)")
  case (Pair ok rl)
  show ?thesis
  proof (cases ok)
    case True
    have "c \<noteq> MVote v" for v
      using assms(2)[of v] Pair True by auto
    moreover have "dispatch e c (n\<lparr>rateLimiter := rl\<rparr>) = Some (n', fx)"
      using assms(1) Pair True by (simp add: handleMessage_def)
    ultimately show ?thesis
      using keeps_trans[OF keeps_limiter keeps_dispatch] by blast
  next
    case False
    then have "n' = n\<lparr>rateLimiter := rl\<rparr>"
      using assms(1) Pair by (simp add: handleMessage_def)
    then show ?thesis by (simp add: node_simps)
  qed
qed

lemma keeps_receive_other:
  assumes "receive e m sender n = Some (n', fx)" and "accepted_vote e m sender n = None"
  shows "keeps n n'"
proof (cases m)
  case None
  with assms(1) show ?thesis by (simp add: receive_def) (metis keeps_note)
next
  case (Some c)
  let ?n1 = "note_sender e sender n"
  have "handleMessage e c sender ?n1 = Some (n', fx)"
    using assms(1) Some by (simp add: receive_def)
  moreover have "\<not> fst (AllowMessage (now e) sender TypeVote (rateLimiter ?n1))" if "c = MVote v" for v
    using assms(2) Some that by (simp add: accepted_vote_def split_beta split: if_splits)
  ultimately have "keeps ?n1 n'" by (rule keeps_handleMessage)
  then show ?thesis by (rule keeps_trans[OF keeps_note])
qed

lemma keeps_accepted: "accepted_vote e m sender n = Some (v, n') \<Longrightarrow> keeps n n'"
  by (auto simp: accepted_vote_def split_beta node_simps
      intro: keeps_trans[OF keeps_note keeps_limiter]
      split: option.splits core_message.splits if_splits)

lemma keeps_promote_trans: "keeps n m \<Longrightarrow> keeps n (fst (promoteAsDefaultCoordinator e log_id m))"
  using keeps_promote keeps_trans by blast

lemma keeps_if: "(b \<Longrightarrow> keeps n x) \<Longrightarrow> (\<not> b \<Longrightarrow> keeps n y) \<Longrightarrow> keeps n (if b then x else y)"
  by simp

lemmas projections = if_distrib[of fst] if_distrib[of snd] split_beta Let_def

lemma keeps_failure_tick:
  assumes "CheckLeaderFailure_tick e log_id n = (b, n', fx)"
  shows "keeps n n'"
proof -
  have "keeps n (fst (snd (CheckLeaderFailure_tick e log_id n)))"
    unfolding CheckLeaderFailure_tick_def
    by (cases "lastHeartbeat n")
      (simp_all only: projections option.case fst_conv snd_conv,
        (intro keeps_if keeps_promote_trans keeps_refl; simp add: keepsI)+)
  with assms show ?thesis by simp
qed

lemma keeps_healing: "keeps n (fst (emergencyMeshHealing e after n))"
  by (simp add: emergencyMeshHealing_def projections keeps_def)

lemma keeps_mesh_tick: "keeps n (fst (checkMeshHealth e n))"
  unfolding checkMeshHealth_def projections fst_conv snd_conv
  by (intro keeps_if) (simp_all add: keepsI)

lemma keeps_divergence: "checkTermDivergence e n = (n', fx) \<Longrightarrow> keeps n n'"
  by (auto simp: checkTermDivergence_def Let_def keeps_def split: if_splits)

text \<open>The same facts in the shape the step rules have them.\<close>

lemma keeps_begin_term: "begin_term e n = (t, n') \<Longrightarrow> keeps n n'"
  by (auto simp: begin_term_def Let_def intro: keepsI)

lemma keeps_open_vote_flag [simp]:
  "isElecting (open_vote e el n) = isElecting n" "self (open_vote e el n) = self n"
  by (simp_all add: open_vote_def)

lemma keeps_finalize_eq: "finalizeElectionInline e t el n = (w, n', fx) \<Longrightarrow> keeps n n'"
  using keeps_finalize[of n e t el] by simp

lemma keeps_retry: "after_attempt e log_id a w n = Inl n' \<Longrightarrow> keeps n n'"
  by (simp add: after_attempt_def Let_def split_beta split: if_splits)

definition keeps_ballots :: "node \<Rightarrow> node \<Rightarrow> bool" where
  "keeps_ballots n n' \<longleftrightarrow> self n' = self n
     \<and> ((votes n' = votes n \<and> votedNodes n' = votedNodes n) \<or> (votes n' = [] \<and> votedNodes n' = []))"

lemma keeps_imp_ballots: "keeps n n' \<Longrightarrow> keeps_ballots n n'"
  by (simp add: keeps_def keeps_ballots_def)

lemma finish_effect:
  assumes "after_attempt e log_id a w n = Inr (n', fx)"
  shows "\<not> isElecting n' \<and> keeps_ballots n n'"
proof (cases "w = ''''")
  case False
  with assms show ?thesis
    by (auto simp: after_attempt_def keeps_ballots_def)
next
  case True
  let ?n1 = "n\<lparr>consecutiveElectionFailures := consecutiveElectionFailures n + 1\<rparr>"
  obtain m where m: "n' = m\<lparr>isElecting := False\<rparr>" and "keeps ?n1 m"
    using assms True keeps_promote[of ?n1 e log_id] keeps_fallback[of ?n1 e]
    by (auto simp: after_attempt_def Let_def split_beta split: if_splits)
  then show ?thesis
    by (simp add: keeps_def keeps_ballots_def)
qed

lemma start_refused_effect: "start_guard e log_id n = (False, n', fx) \<Longrightarrow> keeps n n'"
  by (auto simp: start_guard_def Let_def split_beta intro: keepsI
      intro!: keeps_promote_trans split: if_splits)

lemma start_entered_effect:
  "start_guard e log_id n = (True, n', fx) \<Longrightarrow>
   \<not> isElecting n \<and> isElecting n' \<and> keeps_ballots n n'"
  by (auto simp: start_guard_def Let_def split_beta keeps_ballots_def split: if_splits)

lemma cast_effect [simp]:
  "isElecting (fst (cast_own_vote e el t ps n)) = isElecting n"
  "self (fst (cast_own_vote e el t ps n)) = self n"
  by (simp_all add: cast_own_vote_def record_into_def Let_def)

lemma join_effect [simp]:
  "isElecting (fst (join_election e v n)) = isElecting n" "self (fst (join_election e v n)) = self n"
  by (simp_all add: join_election_def record_into_def Let_def)

lemma record_effect [simp]:
  "isElecting (record_vote v n) = isElecting n" "self (record_vote v n) = self n"
  by (simp_all add: record_vote_def record_into_def)

section \<open>One election at a time\<close>

definition one_election :: "sys \<Rightarrow> bool" where
  "one_election s \<longleftrightarrow> (isElecting (nd s) \<longleftrightarrow> (\<exists>i. pcs s i \<noteq> Outside))
     \<and> (\<forall>i j. pcs s i \<noteq> Outside \<longrightarrow> pcs s j \<noteq> Outside \<longrightarrow> i = j)"

lemma one_election_quiet:
  "one_election s \<Longrightarrow> pcs s' = pcs s \<Longrightarrow> isElecting (nd s') = isElecting (nd s) \<Longrightarrow> one_election s'"
  by (simp add: one_election_def)

lemma one_election_move:
  "one_election s \<Longrightarrow> pcs s i \<noteq> Outside \<Longrightarrow> p \<noteq> Outside \<Longrightarrow> pcs s' = (pcs s)(i := p) \<Longrightarrow>
   isElecting (nd s') = isElecting (nd s) \<Longrightarrow> one_election s'"
  unfolding one_election_def by (metis fun_upd_apply)

lemma one_election_step:
  assumes "step s s'" and "one_election s"
  shows "one_election s'"
  using assms(1)
proof cases
  case (start_refused i e log_id n fx)
  then show ?thesis
    using one_election_quiet[OF assms(2)] start_refused_effect by (simp add: keeps_def)
next
  case (start_entered i e log_id n fx a ps)
  then have "\<not> isElecting (nd s)" "isElecting n"
    using start_entered_effect by blast+
  moreover from this have "pcs s j = Outside" for j
    using assms(2) by (auto simp: one_election_def)
  ultimately show ?thesis
    using start_entered by (auto simp: one_election_def)
next
  case (finish i a ps w e log_id n fx)
  then have "\<not> isElecting n"
    using finish_effect by blast
  moreover have "pcs s j = Outside" if "j \<noteq> i" for j
    using assms(2) finish that unfolding one_election_def by (metis pc.distinct(9))
  ultimately show ?thesis
    using finish by (auto simp: one_election_def)
next
  case (take_term i a ps e t n)
  then show ?thesis
    by (intro one_election_move[OF assms(2)]) (auto dest: keeps_begin_term simp: keeps_def)
next
  case (open_ballot i a ps t el e)
  then show ?thesis
    by (intro one_election_move[OF assms(2), where i = i]) auto
next
  case (cast_ballot i a ps t el e n fx)
  then show ?thesis
    using cast_effect(1)[of e el t ps "nd s"] by (intro one_election_move[OF assms(2), where i = i]) auto
next
  case (finalize i a ps t el e w n fx)
  then show ?thesis
    by (intro one_election_move[OF assms(2), where i = i]) (auto dest: keeps_finalize_eq simp: keeps_def)
next
  case (retry i a ps w e log_id n)
  then show ?thesis
    by (intro one_election_move[OF assms(2), where i = i]) (auto dest: keeps_retry simp: keeps_def)
next
  case (vote_first e m sender v n)
  then show ?thesis
    by (intro one_election_quiet[OF assms(2)]) (auto dest: keeps_accepted simp: keeps_def)
next
  case (vote_second v)
  then show ?thesis by (intro one_election_quiet[OF assms(2)]) auto
next
  case (other_message e m sender n fx)
  then show ?thesis
    by (intro one_election_quiet[OF assms(2)]) (auto dest: keeps_receive_other simp: keeps_def)
next
  case (failure_tick e log_id b n fx)
  then show ?thesis
    by (intro one_election_quiet[OF assms(2)]) (auto dest: keeps_failure_tick simp: keeps_def)
next
  case (healing e after n fx)
  then show ?thesis
    using keeps_healing[of "nd s" e after]
    by (intro one_election_quiet[OF assms(2)]) (auto simp: keeps_def)
next
  case (mesh_tick e n fx)
  then show ?thesis
    using keeps_mesh_tick[of "nd s" e]
    by (intro one_election_quiet[OF assms(2)]) (auto simp: keeps_def)
next
  case (divergence e n fx)
  then show ?thesis
    by (intro one_election_quiet[OF assms(2)]) (auto dest: keeps_divergence simp: keeps_def)
qed

lemma one_election_reachable: "reachable h c s \<Longrightarrow> one_election s"
proof (induction rule: reachable.induct)
  case reach_init
  then show ?case by (simp add: one_election_def init_sys_def NewNode_def)
next
  case (reach_step s s')
  then show ?case using one_election_step by blast
qed

text \<open>
  C1.  At most one election loop runs: in every reachable state, whatever the number of goroutines
  that called \<open>StartElection\<close> and the interleaving with the message handlers, at most one of them is
  past the compare-and-swap, and the flag \<open>isElecting\<close> is set exactly while there is one.
\<close>
theorem at_most_one_election:
  assumes "reachable h c s"
  shows "(isElecting (nd s) \<longleftrightarrow> (\<exists>i. pcs s i \<noteq> Outside))
    \<and> (\<forall>i j. pcs s i \<noteq> Outside \<longrightarrow> pcs s j \<noteq> Outside \<longrightarrow> i = j)"
  using one_election_reachable[OF assms] by (simp add: one_election_def)

section \<open>Counters and ballots under interleaving\<close>

definition surplus :: "node \<Rightarrow> string option \<Rightarrow> bool" where
  "surplus n x \<longleftrightarrow> gm_wf (votes n) \<and> gm_wf (votedNodes n)
     \<and> (\<forall>c. gm_int (votes n) c = tally (votedNodes n) c + (if x = Some c then 1 else 0))"

lemma surplus_None [simp]: "surplus n None \<longleftrightarrow> counts_ok n"
  by (simp add: surplus_def counts_ok_def)

lemma surplus_ballots:
  "keeps_ballots n n' \<Longrightarrow> surplus n x \<Longrightarrow> surplus n' x \<or> surplus n' None"
  by (auto simp: keeps_ballots_def surplus_def counts_ok_def)

lemma tally_set_present:
  "gm_wf vn \<Longrightarrow> gm_get vn v = Some d \<Longrightarrow>
   tally (gm_set v c vn) x = tally vn x + (if c = x then 1 else 0) - (if d = x then 1 else 0)"
proof (induction vn)
  case Nil
  then show ?case by simp
next
  case (Cons p vn)
  then show ?case by (cases p) (auto split: if_splits)
qed

lemma tally_set_absent:
  "gm_get vn v = None \<Longrightarrow> tally (gm_set v c vn) x = tally vn x + (if c = x then 1 else 0)"
  by (simp add: gm_set_new gm_get_None)

lemma surplus_record_new:
  assumes "surplus n x" and "gm_get (votedNodes n) v = None"
  shows "surplus (record_into v c n) x"
  using assms by (auto simp: surplus_def record_into_def tally_set_absent)

lemma surplus_record_again:
  assumes "counts_ok n" and "gm_get (votedNodes n) v = Some d"
  shows "surplus (record_into v c n) (Some d)"
  using assms by (auto simp: surplus_def counts_ok_def record_into_def tally_set_present
      simp del: map_of_eq_Some_iff)

lemma surplus_record_vote: "surplus n x \<Longrightarrow> surplus (record_vote v n) x"
  by (simp add: record_vote_def surplus_record_new)

lemma surplus_join: "surplus n x \<Longrightarrow> surplus (fst (join_election e v n)) x \<or> counts_ok (fst (join_election e v n))"
  by (simp add: join_election_def Let_def split_beta counts_ok_cleared counts_ok_record_into)

lemma surplus_cast: "counts_ok n \<Longrightarrow> \<exists>x. surplus (fst (cast_own_vote e el t ps n)) x"
proof -
  assume ok: "counts_ok n"
  let ?c = "node_select e (if ps = [] then [(self_reputation (self n))\<lparr>Uptime := 0, GeographyScore := 0\<rparr>] else ps) n"
  have "fst (cast_own_vote e el t ps n) = record_into (self n) ?c n"
    by (simp add: cast_own_vote_def Let_def)
  moreover have "\<exists>x. surplus (record_into (self n) ?c n) x"
  proof (cases "gm_get (votedNodes n) (self n)")
    case None
    then show ?thesis using counts_ok_record_into[OF ok None] by (metis surplus_None)
  next
    case (Some d)
    then show ?thesis using surplus_record_again[OF ok] by blast
  qed
  ultimately show ?thesis by metis
qed

definition counting :: "sys \<Rightarrow> bool" where
  "counting s \<longleftrightarrow> (\<exists>x. surplus (nd s) x)
     \<and> (\<forall>i a ps t el. pcs s i = VoteOpen a ps t el \<longrightarrow> counts_ok (nd s))"

lemma counting_keeps:
  assumes "counting s" and "keeps_ballots (nd s) (nd s')"
    and "\<And>i a ps t el. pcs s' i = VoteOpen a ps t el \<Longrightarrow> pcs s i = VoteOpen a ps t el"
  shows "counting s'"
  using assms surplus_ballots unfolding counting_def by (metis surplus_None)

lemma counting_same_pcs:
  assumes "counting s" and "pcs s' = pcs s" and "\<And>x. surplus (nd s) x \<Longrightarrow> surplus (nd s') x \<or> counts_ok (nd s')"
  shows "counting s'"
  using assms unfolding counting_def by (metis surplus_None)

lemma counting_step:
  assumes "step s s'" and "one_election s" and "counting s"
  shows "counting s'"
  using assms(1)
proof cases
  case (start_refused i e log_id n fx)
  then show ?thesis
    by (intro counting_keeps[OF assms(3)]) (auto dest: start_refused_effect intro: keeps_imp_ballots)
next
  case (start_entered i e log_id n fx a ps)
  then show ?thesis
    by (intro counting_keeps[OF assms(3)]) (auto dest: start_entered_effect split: if_splits)
next
  case (finish i a ps w e log_id n fx)
  then show ?thesis
    by (intro counting_keeps[OF assms(3)]) (auto dest: finish_effect split: if_splits)
next
  case (take_term i a ps e t n)
  then show ?thesis
    by (intro counting_keeps[OF assms(3)])
      (auto dest: keeps_begin_term intro: keeps_imp_ballots split: if_splits)
next
  case (open_ballot i a ps t el e)
  then have "counts_ok (nd s')"
    by (simp add: open_vote_def counts_ok_cleared)
  then show ?thesis unfolding counting_def by (metis surplus_None)
next
  case (cast_ballot i a ps t el e n fx)
  then have "counts_ok (nd s)"
    using assms(3) unfolding counting_def by blast
  then obtain x where "surplus (nd s') x"
    using surplus_cast[of "nd s" e el t ps] cast_ballot by auto
  moreover have "pcs s' j \<noteq> VoteOpen b qs u el'" for j b qs u el'
    using assms(2) cast_ballot unfolding one_election_def by (auto split: if_splits)
  ultimately show ?thesis unfolding counting_def by blast
next
  case (finalize i a ps t el e w n fx)
  then show ?thesis
    by (intro counting_keeps[OF assms(3)])
      (auto dest: keeps_finalize_eq intro: keeps_imp_ballots split: if_splits)
next
  case (retry i a ps w e log_id n)
  then show ?thesis
    by (intro counting_keeps[OF assms(3)])
      (auto dest: keeps_retry intro: keeps_imp_ballots split: if_splits)
next
  case (vote_first e m sender v n)
  have "surplus n x \<or> counts_ok n" if "surplus (nd s) x" for x
    using surplus_ballots[OF keeps_imp_ballots[OF keeps_accepted[OF vote_first(3)]] that] by simp
  then show ?thesis
    using vote_first surplus_join[of n _ e v] surplus_join[of n None e v]
    by (intro counting_same_pcs[OF assms(3)]) auto
next
  case (vote_second v)
  then show ?thesis
    by (intro counting_same_pcs[OF assms(3)]) (auto intro: surplus_record_vote)
next
  case (other_message e m sender n fx)
  then show ?thesis
    by (intro counting_keeps[OF assms(3)]) (auto dest: keeps_receive_other intro: keeps_imp_ballots)
next
  case (failure_tick e log_id b n fx)
  then show ?thesis
    by (intro counting_keeps[OF assms(3)]) (auto dest: keeps_failure_tick intro: keeps_imp_ballots)
next
  case (healing e after n fx)
  then show ?thesis
    using keeps_healing[of "nd s" e after]
    by (intro counting_keeps[OF assms(3)]) (auto intro: keeps_imp_ballots)
next
  case (mesh_tick e n fx)
  then show ?thesis
    using keeps_mesh_tick[of "nd s" e]
    by (intro counting_keeps[OF assms(3)]) (auto intro: keeps_imp_ballots)
next
  case (divergence e n fx)
  then show ?thesis
    by (intro counting_keeps[OF assms(3)]) (auto dest: keeps_divergence intro: keeps_imp_ballots)
qed

lemma counting_reachable: "reachable h c s \<Longrightarrow> counting s"
proof (induction rule: reachable.induct)
  case reach_init
  then show ?case
    by (auto simp: counting_def init_sys_def NewNode_def surplus_def intro!: exI[of _ None])
next
  case (reach_step s s')
  then show ?case using counting_step one_election_reachable by blast
qed

lemma tally_voters: "gm_wf (votedNodes n) \<Longrightarrow> tally (votedNodes n) c = int (card (voters_for n c))"
  using card_voters_list[of "votedNodes n" c] by (simp add: voters_for_def)

text \<open>
  C2.  However the message handlers interleave with a running election, the counters of a reachable
  node exceed its recorded ballots by at most one vote in all: for every candidate the counter is the
  number of its distinct voters, except that one candidate may have one vote more.
\<close>
theorem counters_off_by_at_most_one:
  assumes "reachable h c s"
  shows "\<exists>x. \<forall>d. gm_int (votes (nd s)) d
           = int (card (voters_for (nd s) d)) + (if x = Some d then 1 else 0)"
proof -
  obtain x where "surplus (nd s) x"
    using counting_reachable[OF assms] by (auto simp: counting_def)
  then show ?thesis
    by (auto simp: surplus_def tally_voters)
qed

text \<open>
  A winner declared in a reachable state has the support the quorum asks for, less at most one
  voter counted twice.
\<close>
theorem winner_supported:
  assumes "reachable h c s" and "determineWinner (nd s) = w" and "w \<noteq> ''''"
  shows "required_votes (peerCount (nd s)) - 1 \<le> int (card (voters_for (nd s) w))"
proof -
  obtain x where x: "surplus (nd s) x"
    using counting_reachable[OF assms(1)] by (auto simp: counting_def)
  then have "required_votes (peerCount (nd s)) \<le> gm_int (votes (nd s)) w"
    using winner_votes[OF _ assms(2,3)] by (simp add: surplus_def)
  with x show ?thesis
    by (auto simp: surplus_def tally_voters split: if_splits)
qed

section \<open>A run in which the node's own vote counts twice\<close>

lemma select_single:
  assumes "rand_int e = 0"
  shows "node_select e [p] n = NodeID p"
proof -
  have "fallback_candidate (rand_int e) r [p] = NodeID p" for r
    using assms by (simp add: fallback_candidate_def Let_def)
  then show ?thesis
    using preferred_member[of "self n" "containerName n" "peerContainerNames n" "[p]"]
    by (auto simp: node_select_def selectCandidate_def Let_def)
qed

definition race_env :: env where
  "race_env = sample_env\<lparr>discoveredPeers := [''a'']\<rparr>"

definition race_vote :: vote_message where
  "race_vote = ballot ''a'' ''a'' ''e2'' 5"

text \<open>The node of the run after \<open>open_vote\<close>, after joining the other election, and at the end.\<close>

definition race_entered :: node where
  "race_entered = (NewNode ''n'' ''c'')\<lparr>isElecting := True\<rparr>"

definition race_term :: node where
  "race_term = snd (begin_term race_env race_entered)"

definition race_opened :: node where
  "race_opened = open_vote race_env (election_id race_env 1 0 race_term) race_term"

definition race_accepted :: node where
  "race_accepted = (note_sender race_env ''a'' race_opened)
     \<lparr>rateLimiter := snd (AllowMessage (sec 100) ''a'' TypeVote NewMessageRateLimiter)\<rparr>"

definition race_joined :: node where
  "race_joined = fst (join_election race_env race_vote race_accepted)"

definition race_recorded :: node where
  "race_recorded = record_vote race_vote race_joined"

definition race_final :: node where
  "race_final = fst (cast_own_vote race_env (election_id race_env 1 0 race_term) 1 [] race_recorded)"

lemma node_select_self [simp]:
  "node_select race_env [p] n = NodeID p"
  by (rule select_single) (simp add: race_env_def sample_env_def)

lemmas race_defs = race_entered_def race_term_def race_opened_def race_accepted_def race_joined_def
  race_vote_def ballot_def NewNode_def begin_term_def open_vote_def note_sender_def

lemma race_env_simps [simp]:
  "discoveredPeers race_env = [''a'']" "listPeers race_env = [''p'']"
  "query_fails race_env = False" "now race_env = sec 100"
  by (simp_all add: race_env_def sample_env_def)

lemma first_vote_allowed: "fst (AllowMessage (sec 100) ''a'' TypeVote NewMessageRateLimiter)"
  by (simp add: AllowMessage_def check_interval_def NewMessageRateLimiter_def Let_def)

lemma race_accepts:
  "accepted_vote race_env (Some (MVote race_vote)) ''a'' race_opened = Some (race_vote, race_accepted)"
proof -
  have "rateLimiter (note_sender race_env ''a'' race_opened) = NewMessageRateLimiter"
    by (simp add: race_defs Let_def)
  then show ?thesis
    using first_vote_allowed by (simp add: accepted_vote_def split_beta race_accepted_def)
qed

lemma race_joined_fields:
  "votes race_joined = [(''n'', 1)]" "votedNodes race_joined = [(''n'', ''n'')]"
  "peerCount race_joined = 2" "self race_joined = ''n''" "electionPhase race_joined = PhaseVoting"
  "currentElectionID race_joined = ''e2''" "currentTerm race_joined = 5"
  by (simp_all add: race_defs join_election_def shouldJoin_def record_into_def Let_def
      QueryAllReputations_def self_reputation_def gm_incr_def)

lemma race_recorded_fields:
  "votes race_recorded = [(''n'', 1), (''a'', 1)]" "votedNodes race_recorded = [(''n'', ''n''), (''a'', ''a'')]"
  "peerCount race_recorded = 2" "self race_recorded = ''n''"
  by (simp_all add: race_recorded_def record_vote_def record_into_def race_joined_fields race_vote_def
      ballot_def gm_incr_def gm_int_def)

lemma race_final_fields:
  "votes race_final = [(''n'', 2), (''a'', 1)]" "votedNodes race_final = [(''n'', ''n''), (''a'', ''a'')]"
  "peerCount race_final = 2"
  by (simp_all add: race_final_def cast_own_vote_def record_into_def race_recorded_fields Let_def
      self_reputation_def gm_incr_def gm_int_def)

text \<open>The system states of the run.\<close>

definition race_sys :: "node \<Rightarrow> pc \<Rightarrow> vote_message option \<Rightarrow> sys" where
  "race_sys n p v = \<lparr>nd = n, pcs = (\<lambda>_. Outside)(0 := p), pending = v\<rparr>"

lemma race_sys_nd [simp]: "nd (race_sys n p v) = n"
  by (simp add: race_sys_def)

lemma race_begin: "begin_term race_env race_entered = (1, race_term)"
  by (simp add: race_term_def begin_term_def Let_def race_entered_def NewNode_def)

lemma race_prefix:
  "reachable ''n'' ''c'' (race_sys race_opened (VoteOpen 0 [] 1 (election_id race_env 1 0 race_term)) None)"
proof -
  let ?el = "election_id race_env 1 0 race_term"
  have "start_guard race_env (\<lambda>_. []) (NewNode ''n'' ''c'') = (True, race_entered, [])"
    by (simp add: start_guard_def trulyIsolated_def race_entered_def NewNode_def)
  then have "step (init_sys ''n'' ''c'') (race_sys race_entered (Looping 0 []) None)"
    using start_entered[of "init_sys ''n'' ''c''" 0 race_env "\<lambda>_. []" race_entered "[]" 0 "[]"]
    by (simp add: race_sys_def init_sys_def maxAttempts_def)
  moreover have "step (race_sys race_entered (Looping 0 []) None) (race_sys race_term (TermTaken 0 [] 1) None)"
    using take_term[of "race_sys race_entered (Looping 0 []) None" 0 0 "[]" race_env 1 race_term]
    by (simp add: race_sys_def race_begin)
  moreover have "step (race_sys race_term (TermTaken 0 [] 1) None) (race_sys race_opened (VoteOpen 0 [] 1 ?el) None)"
    using open_ballot[of "race_sys race_term (TermTaken 0 [] 1) None" 0 0 "[]" 1 ?el race_env]
    by (simp add: race_sys_def race_opened_def)
  ultimately show ?thesis
    by (meson reach_init reach_step)
qed

lemma race_reachable:
  "reachable ''n'' ''c'' (race_sys race_final (Waiting 0 [] 1 (election_id race_env 1 0 race_term)) None)"
proof -
  let ?el = "election_id race_env 1 0 race_term"
  have "step (race_sys race_opened (VoteOpen 0 [] 1 ?el) None) (race_sys race_joined (VoteOpen 0 [] 1 ?el) (Some race_vote))"
    using vote_first[of "race_sys race_opened (VoteOpen 0 [] 1 ?el) None" race_env "Some (MVote race_vote)" "''a''"
        race_vote race_accepted] race_accepts
    by (simp add: race_sys_def race_joined_def)
  moreover have "step (race_sys race_joined (VoteOpen 0 [] 1 ?el) (Some race_vote)) (race_sys race_recorded (VoteOpen 0 [] 1 ?el) None)"
    using vote_second[of "race_sys race_joined (VoteOpen 0 [] 1 ?el) (Some race_vote)" race_vote]
    by (simp add: race_sys_def race_recorded_def)
  moreover have "step (race_sys race_recorded (VoteOpen 0 [] 1 ?el) None) (race_sys race_final (Waiting 0 [] 1 ?el) None)"
    using cast_ballot[of "race_sys race_recorded (VoteOpen 0 [] 1 ?el) None" 0 0 "[]" 1 ?el race_env race_final
        "snd (cast_own_vote race_env ?el 1 [] race_recorded)"]
    by (simp add: race_sys_def race_final_def)
  ultimately show ?thesis
    using race_prefix by (meson reach_step)
qed

text \<open>
  C9.  The bound of one surplus vote is reached: a vote of a newer term that arrives between the two
  critical sections of \<open>StartElection\<close> makes the node join that election and vote there; its own vote
  for the abandoned election is then counted in the new one.  In a two-node cluster the node ends up
  with two votes for itself from one voter, which is a quorum.
\<close>
theorem own_vote_can_count_twice:
  "\<exists>s. reachable ''n'' ''c'' s \<and> gm_int (votes (nd s)) ''n'' = 2 \<and> voters_for (nd s) ''n'' = {''n''}
     \<and> determineWinner (nd s) = ''n'' \<and> required_votes (peerCount (nd s)) = 2"
proof -
  have "voters_for race_final ''n'' = {''n''}"
    by (auto simp: voters_for_def race_final_fields split: if_splits)
  moreover have "determineWinner race_final = ''n''" "required_votes (peerCount race_final) = 2"
    "gm_int (votes race_final) ''n'' = 2"
    by (simp_all add: determineWinner_def required_votes_def race_final_fields gm_int_def)
  ultimately show ?thesis
    using race_reachable by (metis race_sys_nd)
qed

theorem at_most_one_election_witness:
  "isElecting (nd (race_sys race_final (Waiting 0 [] 1 (election_id race_env 1 0 race_term)) None))"
proof -
  have "pcs (race_sys n (Waiting 0 [] 1 el) None) 0 \<noteq> Outside" for n el
    by (simp add: race_sys_def)
  then show ?thesis
    using at_most_one_election[OF race_reachable] by blast
qed

theorem counters_off_by_at_most_one_witness:
  "\<exists>x. \<forall>d. gm_int (votes race_final) d
     = int (card (voters_for race_final d)) + (if x = Some d then 1 else 0)"
  using counters_off_by_at_most_one[OF race_reachable] by (simp only: race_sys_nd)

theorem winner_supported_witness:
  "1 \<le> int (card (voters_for race_final ''n''))"
proof -
  have w: "determineWinner race_final = ''n''" and r: "required_votes (peerCount race_final) = 2"
    by (simp_all add: determineWinner_def required_votes_def race_final_fields)
  have "required_votes (peerCount race_final) - 1 \<le> int (card (voters_for race_final ''n''))"
    using winner_supported[OF race_reachable, unfolded race_sys_nd, OF w] by blast
  then show ?thesis unfolding r by linarith
qed

end
