(* ===== verification/ElectionLeader.thy ===== *)
theory ElectionLeader
  imports ElectionSafety
begin

text \<open>
  Leadership: how two coordinators that hear each other resolve the conflict, when the failure detector
  fires, what the repair of a diverged term may install, and that the retry loop of \<open>StartElection\<close>
  ends.
\<close>

section \<open>Two coordinators\<close>

definition precedes :: "int \<times> string \<Rightarrow> int \<times> string \<Rightarrow> bool" where
  "precedes x y \<longleftrightarrow> fst x > fst y \<or> (fst x = fst y \<and> snd x < snd y)"

definition claim_of :: "node \<Rightarrow> int \<times> string" where
  "claim_of n = (currentTerm n, self n)"

definition heartbeat_of :: "int \<Rightarrow> node \<Rightarrow> heartbeat_message" where
  "heartbeat_of t n = \<lparr>hb_leader = self n, hb_time = t, hb_term = currentTerm n\<rparr>"

lemma precedes_total: "x \<noteq> y \<Longrightarrow> precedes x y \<longleftrightarrow> \<not> precedes y x"
  by (cases x; cases y) (auto simp: precedes_def)

lemma stepDown_fields [simp]:
  "nrole (stepDownLocked e l t n) = Follower" "currentTerm (stepDownLocked e l t n) = t"
  "lastHeartbeat (stepDownLocked e l t n) = Some (now e)"
  "peer_decode e l = Some p \<Longrightarrow> leader (stepDownLocked e l t n) = p"
  by (simp_all add: stepDownLocked_def Let_def split: option.split)

lemma coordinator_hears:
  assumes "nrole n = Coordinator" and "self m \<noteq> self n"
  shows "handleHeartbeat e (heartbeat_of t m) n
    = (if precedes (claim_of m) (claim_of n) then stepDownLocked e (self m) (currentTerm m) n else n)"
  using assms by (simp add: handleHeartbeat_def heartbeat_of_def precedes_def claim_of_def)

text \<open>
  Split brain is resolved by heartbeats: when two distinct coordinators each hear the other's
  heartbeat, exactly one of them steps down, the one with the smaller term or, at equal terms, the
  larger identifier; it takes over the term of the other, which is left unchanged.
\<close>
theorem heartbeats_resolve_split_brain:
  assumes "nrole a = Coordinator" "nrole b = Coordinator" "self a \<noteq> self b"
  shows "(handleHeartbeat e (heartbeat_of t b) a = a
           \<and> nrole (handleHeartbeat e' (heartbeat_of t' a) b) = Follower
           \<and> currentTerm (handleHeartbeat e' (heartbeat_of t' a) b) = currentTerm a
           \<and> precedes (claim_of a) (claim_of b))
       \<or> (handleHeartbeat e' (heartbeat_of t' a) b = b
           \<and> nrole (handleHeartbeat e (heartbeat_of t b) a) = Follower
           \<and> currentTerm (handleHeartbeat e (heartbeat_of t b) a) = currentTerm b
           \<and> precedes (claim_of b) (claim_of a))"
proof -
  have "claim_of a \<noteq> claim_of b"
    using assms(3) by (simp add: claim_of_def)
  from precedes_total[OF this] show ?thesis
    using assms by (cases "precedes (claim_of a) (claim_of b)") (simp_all add: coordinator_hears)
qed

definition coordinator_at :: "string \<Rightarrow> int \<Rightarrow> node" where
  "coordinator_at i t = (NewNode i ''c'')\<lparr>nrole := Coordinator, currentTerm := t\<rparr>"

theorem heartbeats_resolve_split_brain_witness:
  "nrole (handleHeartbeat sample_env (heartbeat_of 0 (coordinator_at ''a'' 3)) (coordinator_at ''b'' 3)) = Follower"
  using heartbeats_resolve_split_brain[of "coordinator_at ''a'' 3" "coordinator_at ''b'' 3" sample_env 0 sample_env 0]
  by (simp add: coordinator_at_def NewNode_def precedes_def claim_of_def)

section \<open>The failure detector\<close>

datatype detector_event = Tick env | Beat env heartbeat_message

fun detector_step :: "(int \<Rightarrow> string) \<Rightarrow> detector_event \<Rightarrow> node \<Rightarrow> bool \<times> node" where
  "detector_step log_id (Tick e) n = (case CheckLeaderFailure_tick e log_id n of (b, n', _) \<Rightarrow> (b, n'))"
| "detector_step log_id (Beat e hb) n = (False, handleHeartbeat e hb n)"

fun detector_run :: "(int \<Rightarrow> string) \<Rightarrow> detector_event list \<Rightarrow> node \<Rightarrow> node" where
  "detector_run log_id [] n = n"
| "detector_run log_id (ev # evs) n = detector_run log_id evs (snd (detector_step log_id ev n))"

definition silent :: "detector_event list \<Rightarrow> int" where
  "silent evs = int (length (takeWhile (\<lambda>ev. case ev of Tick _ \<Rightarrow> True | Beat _ _ \<Rightarrow> False) (rev evs)))"

definition detector_inv :: "node \<Rightarrow> int \<Rightarrow> bool" where
  "detector_inv n k \<longleftrightarrow> (nrole n = Follower \<longrightarrow> 0 \<le> heartbeatMissed n \<and> heartbeatMissed n \<le> k)"

lemma silent_snoc [simp]:
  "silent (evs @ [Tick e]) = silent evs + 1" "silent (evs @ [Beat e hb]) = 0"
  by (simp_all add: silent_def)

lemma detector_run_snoc [simp]:
  "detector_run log_id (evs @ [ev]) n = snd (detector_step log_id ev (detector_run log_id evs n))"
  by (induction evs arbitrary: n) simp_all

lemma announce_self:
  "nrole (fst (announceLeader e (self n) t n)) = Coordinator
   \<or> heartbeatMissed (fst (announceLeader e (self n) t n)) = heartbeatMissed n"
  by (simp add: announceLeader_def handleAnnouncement_def split_beta split: bool.split option.split prod.split)

lemma promote_missed:
  "nrole (fst (promoteAsDefaultCoordinator e log_id n)) = Coordinator
   \<or> heartbeatMissed (fst (promoteAsDefaultCoordinator e log_id n)) = heartbeatMissed n"
  using announce_self[of e "n\<lparr>currentTerm := currentTerm n + 1, electionPhase := PhaseCompleted\<rparr>" "currentTerm n + 1"]
  by (simp add: promoteAsDefaultCoordinator_def InsertElectionLog_def Let_def split_beta)

lemma detector_inv_beat: "detector_inv (handleHeartbeat e hb n) 0 \<or> nrole n = Coordinator"
  by (cases "nrole n") (auto simp: handleHeartbeat_def detector_inv_def Let_def split: option.split)

lemma detector_inv_beat_coordinator:
  "nrole n = Coordinator \<Longrightarrow> detector_inv (handleHeartbeat e hb n) 0"
  by (auto simp: handleHeartbeat_def detector_inv_def stepDownLocked_def Let_def split: option.split)

lemma tick_follower:
  assumes "nrole n = Follower" and "lastHeartbeat n = Some t"
  shows "CheckLeaderFailure_tick e log_id n =
    (let n1 = n\<lparr>heartbeatMissed := heartbeatMissed n + 1,
                consecutiveHeartbeatFailures := consecutiveHeartbeatFailures n + 1\<rparr>;
         n2 = n1\<lparr>consecutiveElectionFailures := consecutiveElectionFailures n1 + 1\<rparr>;
         clear = (\<lambda>m. m\<lparr>heartbeatMissed := 0, consecutiveHeartbeatFailures := 0\<rparr>)
     in if now e - t \<le> heartbeatTimeout then (False, clear n, [])
        else if heartbeatMissed n1 < heartbeatRetryLimit
             \<or> consecutiveHeartbeatFailures n1 < requiredConsecutiveFailures n1 then (False, n1, [])
        else if trulyIsolated e n1 \<and> discoveredPeers e \<noteq> [] then
          (if isDefaultCoordinatorNode (containerName n2) \<and> consecutiveElectionFailures n2 \<ge> 2
           then (False, fst (promoteAsDefaultCoordinator e log_id (clear n2)),
                 snd (promoteAsDefaultCoordinator e log_id (clear n2)))
           else (False, clear n2, [GoMeshHealing]))
        else (True, clear n1, []))"
  using assms by (simp add: CheckLeaderFailure_tick_def Let_def split_beta not_less not_le)

lemma detector_inv_tick:
  assumes "detector_inv n k" and "0 \<le> k"
  shows "detector_inv (fst (snd (CheckLeaderFailure_tick e log_id n))) (k + 1)"
proof (cases "nrole n")
  case Coordinator
  then show ?thesis by (simp add: CheckLeaderFailure_tick_def detector_inv_def)
next
  case Follower
  show ?thesis
  proof (cases "lastHeartbeat n")
    case None
    with Follower assms show ?thesis by (simp add: CheckLeaderFailure_tick_def detector_inv_def)
  next
    case (Some t)
    let ?n3 = "n\<lparr>consecutiveElectionFailures := consecutiveElectionFailures n + 1,
                 heartbeatMissed := 0, consecutiveHeartbeatFailures := 0\<rparr>"
    have "detector_inv (fst (promoteAsDefaultCoordinator e log_id ?n3)) (k + 1)"
      using promote_missed[of e log_id ?n3] assms(2) by (auto simp: detector_inv_def)
    with assms Follower show ?thesis
      by (simp add: tick_follower[OF Follower Some] Let_def detector_inv_def)
  qed
qed

lemma silent_nonneg: "0 \<le> silent evs"
  by (simp add: silent_def)

lemma detector_inv_run:
  "detector_inv (detector_run log_id evs (NewNode h c)) (silent evs)"
proof (induction evs rule: rev_induct)
  case Nil
  then show ?case by (simp add: detector_inv_def NewNode_def silent_def)
next
  case (snoc ev evs)
  show ?case
  proof (cases ev)
    case (Tick e)
    then show ?thesis
      using detector_inv_tick[OF snoc silent_nonneg, of e log_id] by (simp add: split_beta)
  next
    case (Beat e hb)
    then show ?thesis
      using detector_inv_beat detector_inv_beat_coordinator by fastforce
  qed
qed

text \<open>
  C8.  The failure detector does not fire early: when a tick of \<open>CheckLeaderFailure\<close> goes on to the
  back-off before an election, the last heartbeat is more than 15 seconds old and at least the two
  ticks before it were not separated by any heartbeat: three silent ticks in a row.
\<close>
theorem detection_needs_three_silent_ticks:
  assumes "fst (detector_step log_id (Tick e) (detector_run log_id evs (NewNode h c)))"
  shows "2 \<le> silent evs \<and>
    (\<exists>t. lastHeartbeat (detector_run log_id evs (NewNode h c)) = Some t \<and> now e - t > sec 15)"
proof -
  let ?n = "detector_run log_id evs (NewNode h c)"
  have fired: "fst (CheckLeaderFailure_tick e log_id ?n)"
    using assms by (simp add: split_beta)
  then have f: "nrole ?n = Follower"
    by (cases "nrole ?n") (auto simp: CheckLeaderFailure_tick_def)
  moreover obtain t where t: "lastHeartbeat ?n = Some t"
    using fired f by (cases "lastHeartbeat ?n") (auto simp: CheckLeaderFailure_tick_def)
  ultimately have "now e - t > heartbeatTimeout" "heartbeatMissed ?n + 1 \<ge> heartbeatRetryLimit"
    using fired by (auto simp: tick_follower Let_def split: if_splits)
  with detector_inv_run[of log_id evs h c] f t show ?thesis
    by (auto simp: detector_inv_def heartbeatTimeout_def heartbeatRetryLimit_def)
qed

definition tick_at :: "int \<Rightarrow> detector_event" where
  "tick_at t = Tick (sample_env\<lparr>now := sec t\<rparr>)"

lemma node_exhausted:
  "heartbeatMissed n = 0 \<Longrightarrow> consecutiveHeartbeatFailures n = 0 \<Longrightarrow>
   n\<lparr>heartbeatMissed := 0, consecutiveHeartbeatFailures := 0\<rparr> = n"
  by simp

lemma silent_run:
  "fst (detector_step log_id (tick_at 130) (detector_run log_id [tick_at 100, tick_at 120, tick_at 125] (NewNode h c)))"
  by (simp add: tick_at_def CheckLeaderFailure_tick_def NewNode_def Let_def sample_env_def
      heartbeatTimeout_def heartbeatRetryLimit_def trulyIsolated_def)

theorem detection_needs_three_silent_ticks_witness:
  "2 \<le> silent [tick_at 100, tick_at 120, tick_at 125]"
  using detection_needs_three_silent_ticks[OF silent_run[unfolded tick_at_def[of 130]]] by blast

fun detector_fires :: "(int \<Rightarrow> string) \<Rightarrow> detector_event list \<Rightarrow> node \<Rightarrow> bool" where
  "detector_fires log_id [] n = False"
| "detector_fires log_id (ev # evs) n =
     (case detector_step log_id ev n of (b, n') \<Rightarrow> b \<or> detector_fires log_id evs n')"

lemma late_tick:
  assumes "nrole n = Follower" "lastHeartbeat n = Some t" "now e - t > sec 15" "listPeers e \<noteq> []"
    "requiredConsecutiveFailures n = 3"
  shows "detector_step log_id (Tick e) n =
    (if heartbeatMissed n \<ge> 2 \<and> consecutiveHeartbeatFailures n \<ge> 2
     then (True, n\<lparr>heartbeatMissed := 0, consecutiveHeartbeatFailures := 0\<rparr>)
     else (False, n\<lparr>heartbeatMissed := heartbeatMissed n + 1,
                   consecutiveHeartbeatFailures := consecutiveHeartbeatFailures n + 1\<rparr>))"
  using assms(3-5)
  by (auto simp: tick_follower[OF assms(1,2)] Let_def trulyIsolated_def heartbeatTimeout_def
      heartbeatRetryLimit_def)



section \<open>Terms\<close>

lemma cluster_term_bounds:
  "0 \<le> m \<Longrightarrow> 1 \<le> t \<Longrightarrow> t \<le> 30 \<Longrightarrow> 1 \<le> cluster_term me ps m t \<and> cluster_term me ps m t \<le> 30"
  by (induction me ps m t rule: cluster_term.induct) (simp_all add: Let_def)

text \<open>
  Repairing a diverged term: either the node is left as it was, or its term (above 15 before)
  becomes one between 1 and 30, it becomes a follower without a leader and outside any election, its
  ballots are cleared and mesh healing is started.
\<close>
theorem term_reset_sound:
  "checkTermDivergence e n = (n, []) \<or>
   (15 < currentTerm n \<and> snd (checkTermDivergence e n) = [GoMeshHealing]
    \<and> 1 \<le> currentTerm (fst (checkTermDivergence e n)) \<and> currentTerm (fst (checkTermDivergence e n)) \<le> 30
    \<and> nrole (fst (checkTermDivergence e n)) = Follower \<and> leader (fst (checkTermDivergence e n)) = ''''
    \<and> electionPhase (fst (checkTermDivergence e n)) = PhaseIdle
    \<and> votes (fst (checkTermDivergence e n)) = [] \<and> votedNodes (fst (checkTermDivergence e n)) = [])"
  using cluster_term_bounds[of 0 1 "self n"]
  by (simp add: checkTermDivergence_def Let_def split: option.split)

text \<open>
  An announcement is believed whatever its term: the listener of any node that is not the
  announced leader and can decode its identifier drops to follower and takes over the term, even when
  it is lower than its own, and even when it was coordinator.
\<close>
theorem announcement_overrides_term:
  assumes "peer_decode e l = Some p" and "l \<noteq> self n"
    and "AllowMessage (now e) sender TypeAnnouncement (rateLimiter n) = (True, rl)"
  shows "\<exists>n'. handleMessage e (MAnnouncement (Some l) (Some t)) sender n = Some (n', [])
     \<and> nrole n' = Follower \<and> leader n' = p \<and> currentTerm n' = t \<and> lastHeartbeat n' = Some (now e)"
  using assms by (simp add: handleMessage_def handleAnnouncement_def)

theorem announcement_overrides_term_witness:
  "\<exists>n'. handleMessage sample_env (MAnnouncement (Some ''b'') (Some 2)) ''b'' (coordinator_at ''a'' 9) = Some (n', [])
     \<and> nrole n' = Follower \<and> leader n' = ''b'' \<and> currentTerm n' = 2 \<and> lastHeartbeat n' = Some (now sample_env)"
proof -
  have "fst (AllowMessage (now sample_env) ''b'' TypeAnnouncement (rateLimiter (coordinator_at ''a'' 9)))"
    by (simp add: AllowMessage_def check_interval_def coordinator_at_def NewNode_def NewMessageRateLimiter_def Let_def)
  then obtain rl where "AllowMessage (now sample_env) ''b'' TypeAnnouncement (rateLimiter (coordinator_at ''a'' 9)) = (True, rl)"
    by (cases "AllowMessage (now sample_env) ''b'' TypeAnnouncement (rateLimiter (coordinator_at ''a'' 9))") simp
  then show ?thesis
    by (intro announcement_overrides_term) (simp_all add: sample_env_def coordinator_at_def NewNode_def)
qed

text \<open>
  C11.  Which messages crash the listener: \<open>handleMessage\<close> panics exactly on an announcement that the
  rate limiter lets through and that has no numeric term.
\<close>
theorem listener_panic_iff:
  "handleMessage e m sender n = None \<longleftrightarrow>
   (\<exists>l. m = MAnnouncement l None) \<and> fst (AllowMessage (now e) sender TypeAnnouncement (rateLimiter n))"
  by (cases m) (auto simp: handleMessage_def split_beta Let_def split: option.splits)

section \<open>The retry loop ends\<close>

fun attempt_of :: "pc \<Rightarrow> nat" where
  "attempt_of Outside = 0"
| "attempt_of (Looping a ps) = a"
| "attempt_of (TermTaken a ps t) = a"
| "attempt_of (VoteOpen a ps t el) = a"
| "attempt_of (Waiting a ps t el) = a"
| "attempt_of (Decided a ps w) = a"

text \<open>Five critical sections per attempt remain, of at most three attempts.\<close>

fun work :: "pc \<Rightarrow> nat" where
  "work Outside = 0"
| "work (Looping a ps) = 5 * (maxAttempts - a)"
| "work (TermTaken a ps t) = 5 * (maxAttempts - a) - 1"
| "work (VoteOpen a ps t el) = 5 * (maxAttempts - a) - 2"
| "work (Waiting a ps t el) = 5 * (maxAttempts - a) - 3"
| "work (Decided a ps w) = 5 * (maxAttempts - a) - 4"

definition attempts_ok :: "sys \<Rightarrow> bool" where
  "attempts_ok s \<longleftrightarrow> (\<forall>i. attempt_of (pcs s i) < maxAttempts)"

lemma attempts_okI: "attempts_ok s \<Longrightarrow> attempt_of p < maxAttempts \<Longrightarrow> pcs s' = (pcs s)(i := p) \<Longrightarrow> attempts_ok s'"
  by (simp add: attempts_ok_def)

lemma attempts_okD: "attempts_ok s \<Longrightarrow> attempt_of (pcs s i) < maxAttempts"
  by (simp add: attempts_ok_def)

lemma retry_attempt: "after_attempt e log_id a w n = Inl n' \<Longrightarrow> a + 1 < maxAttempts"
  by (simp add: after_attempt_def Let_def split_beta split: if_splits)

lemma attempts_ok_step:
  assumes "step s s'" and ok: "attempts_ok s"
  shows "attempts_ok s'"
  using assms(1)
proof cases
  case (start_entered i e log_id n fx a ps)
  then show ?thesis by (intro attempts_okI[OF ok, where p = "Looping a ps"]) auto
next
  case (take_term i a ps e t n)
  then show ?thesis
    using attempts_okD[OF ok, of i] by (intro attempts_okI[OF ok, where p = "TermTaken a ps t"]) auto
next
  case (open_ballot i a ps t el e)
  then show ?thesis
    using attempts_okD[OF ok, of i] by (intro attempts_okI[OF ok, where p = "VoteOpen a ps t el"]) auto
next
  case (cast_ballot i a ps t el e n fx)
  then show ?thesis
    using attempts_okD[OF ok, of i] by (intro attempts_okI[OF ok, where p = "Waiting a ps t el"]) auto
next
  case (finalize i a ps t el e w n fx)
  then show ?thesis
    using attempts_okD[OF ok, of i] by (intro attempts_okI[OF ok, where p = "Decided a ps w"]) auto
next
  case (retry i a ps w e log_id n)
  then show ?thesis
    using retry_attempt by (intro attempts_okI[OF ok, where p = "Looping (a + 1) ps"]) auto
next
  case (finish i a ps w e log_id n fx)
  then show ?thesis
    using ok by (simp add: attempts_ok_def maxAttempts_def)
qed (use ok in \<open>simp_all add: attempts_ok_def\<close>)

lemma attempts_ok_reachable: "reachable h c s \<Longrightarrow> attempts_ok s"
proof (induction rule: reachable.induct)
  case reach_init
  then show ?case by (simp add: attempts_ok_def init_sys_def maxAttempts_def)
next
  case (reach_step s s')
  then show ?case using attempts_ok_step by blast
qed

lemma work_step:
  assumes "step s s'" and "attempts_ok s" and "pcs s i \<noteq> Outside"
  shows "pcs s' i = pcs s i \<or> work (pcs s' i) < work (pcs s i)"
  using assms(1)
proof cases
  case (start_entered j e log_id n fx a ps)
  then show ?thesis using assms(3) by auto
next
  case (take_term j a ps e t n)
  then show ?thesis using attempts_okD[OF assms(2), of j] by auto
next
  case (open_ballot j a ps t el e)
  then show ?thesis using attempts_okD[OF assms(2), of j] by auto
next
  case (cast_ballot j a ps t el e n fx)
  then show ?thesis using attempts_okD[OF assms(2), of j] by auto
next
  case (finalize j a ps t el e w n fx)
  then show ?thesis using attempts_okD[OF assms(2), of j] by auto
next
  case (retry j a ps w e log_id n)
  then show ?thesis using attempts_okD[OF assms(2), of j] by auto
next
  case (finish j a ps w e log_id n fx)
  then show ?thesis using attempts_okD[OF assms(2), of j] by auto
qed simp_all

lemma moved_witness: "step s s' \<Longrightarrow> pcs s' i \<noteq> p \<Longrightarrow> \<exists>s'. step s s' \<and> pcs s' i \<noteq> p"
  by blast

lemma work_enabled:
  assumes "pcs s i \<noteq> Outside"
  shows "\<exists>s'. step s s' \<and> pcs s' i \<noteq> pcs s i"
proof (cases "pcs s i")
  case Outside
  with assms show ?thesis by simp
next
  case (Looping a ps)
  show ?thesis
    by (rule exI, rule conjI, rule take_term[OF Looping prod.collapse[symmetric]]) (simp add: Looping)
next
  case (TermTaken a ps t)
  show ?thesis
    by (rule exI, rule conjI, rule open_ballot[OF TermTaken refl]) (simp add: TermTaken)
next
  case (VoteOpen a ps t el)
  show ?thesis
    by (rule exI, rule conjI, rule cast_ballot[OF VoteOpen prod.collapse[symmetric]]) (simp add: VoteOpen)
next
  case (Waiting a ps t el)
  obtain w n fx where "finalizeElectionInline sample_env t el (nd s) = (w, n, fx)"
    by (metis prod.collapse)
  from finalize[OF Waiting this] show ?thesis
    by (rule moved_witness) (simp add: Waiting)
next
  case (Decided a ps w)
  show ?thesis
  proof (cases "after_attempt sample_env (\<lambda>_. []) a w (nd s)")
    case (Inl n)
    from retry[OF Decided this] show ?thesis
      by (rule moved_witness) (simp add: Decided)
  next
    case (Inr r)
    then obtain n fx where "after_attempt sample_env (\<lambda>_. []) a w (nd s) = Inr (n, fx)"
      by (cases r) auto
    from finish[OF Decided this] show ?thesis
      by (rule moved_witness) (simp add: Decided)
  qed
qed

text \<open>
  C3.  \<open>StartElection\<close> ends: in every reachable state a goroutine inside it can take its next step,
  no step of the others moves it, and each of its own steps decreases the number of critical sections
  left, at most fifteen (three attempts of five).
\<close>
theorem election_loop_ends:
  assumes "reachable h c s" and "pcs s i \<noteq> Outside"
  shows "(\<exists>s'. step s s' \<and> pcs s' i \<noteq> pcs s i) \<and> work (pcs s i) \<le> 15
    \<and> (\<forall>s'. step s s' \<longrightarrow> pcs s' i = pcs s i \<or> work (pcs s' i) < work (pcs s i))"
proof -
  have "work p \<le> 15" for p by (cases p) (auto simp: maxAttempts_def)
  then show ?thesis
    using work_enabled[OF assms(2)] work_step[OF _ attempts_ok_reachable[OF assms(1)] assms(2)] by blast
qed

theorem election_loop_ends_witness:
  "work (pcs (race_sys race_final (Waiting 0 [] 1 (election_id race_env 1 0 race_term)) None) 0) \<le> 15"
proof -
  have "pcs (race_sys n (Waiting 0 [] 1 el) None) 0 \<noteq> Outside" for n el
    by (simp add: race_sys_def)
  then show ?thesis
    using election_loop_ends[OF race_reachable] by blast
qed

section \<open>Choosing an initiator\<close>

text \<open>
  The initiator is a function of the set of peers: every peer that knows the same identifiers, in
  whatever order, computes the same initiator, and it is one of them.
\<close>
theorem initiator_deterministic:
  assumes "mset ps = mset qs" and "ps \<noteq> []"
  shows "selectInitiatorDeterministic h ps = selectInitiatorDeterministic h qs
    \<and> selectInitiatorDeterministic h ps \<in> set ps"
proof -
  have s: "sort ps = sort qs"
    using assms(1) by (metis properties_for_sort mset_sort sorted_sort)
  have "qs \<noteq> []" "set qs = set ps" using assms mset_eq_setD by auto
  moreover have "h (sort ps) mod length (sort ps) < length (sort ps)"
    using assms(2) by simp
  then have "sort ps ! (h (sort ps) mod length (sort ps)) \<in> set (sort ps)"
    by (rule nth_mem)
  ultimately show ?thesis
    using assms(2) s by (simp add: selectInitiatorDeterministic_def Let_def)
qed

theorem initiator_deterministic_witness:
  "selectInitiatorDeterministic length [''b'', ''a''] = selectInitiatorDeterministic length [''a'', ''b'']"
  using initiator_deterministic[of "[''b'', ''a'']" "[''a'', ''b'']" length] by simp

end
