(* ===== verification/Json.thy ===== *)
theory Json
  imports Complex_Main Prelude
begin

text \<open>
  Documents and query conditions, from \<open>app/service.go\<close> and \<open>app/query_fastpath.go\<close>.

  A document is what \<open>encoding/json\<close> makes of its stored bytes, plus the native Go \<open>int\<close> that documents
  built in the process may hold.  A JSON object is a Go map: an association list whose order is the
  iteration order.  Finite \<open>float64\<close> numbers are reals; infinities and NaN only arise from
  \<open>strconv.ParseFloat\<close> on strings.  \<open>regexp.MatchString\<close> (\<open>None\<close> when the pattern does not compile) and
  \<open>strconv.ParseFloat\<close> are parameters, collected in \<open>golib\<close>.  A type assertion that panics is \<open>None\<close>.
\<close>

section \<open>Values\<close>

datatype go_float = Fin real | PosInf | NegInf | NaN

datatype json =
    JNull
  | JBool bool
  | JInt int
  | JNum real
  | JStr string
  | JArr "json list"
  | JObj "(string \<times> json) list"

type_synonym document = "(string, json) gomap"

record golib =
  parse_float :: "string \<Rightarrow> go_float option"
  regex_match :: "string \<Rightarrow> string \<Rightarrow> bool option"

text \<open>\<open>reflect.DeepEqual\<close>.  \<open>JNull\<close> is Go's \<open>nil\<close>.\<close>

fun deep_equal :: "json \<Rightarrow> json \<Rightarrow> bool"
  and deep_equal_list :: "json list \<Rightarrow> json list \<Rightarrow> bool"
  and deep_equal_fields :: "(string \<times> json) list \<Rightarrow> (string \<times> json) list \<Rightarrow> bool" where
  "deep_equal (JArr xs) w = (case w of JArr ys \<Rightarrow> length xs = length ys \<and> deep_equal_list xs ys | _ \<Rightarrow> False)"
| "deep_equal (JObj o1) w = (case w of JObj o2 \<Rightarrow> length o1 = length o2 \<and> deep_equal_fields o1 o2 | _ \<Rightarrow> False)"
| "deep_equal JNull w = (w = JNull)"
| "deep_equal (JBool b) w = (w = JBool b)"
| "deep_equal (JInt i) w = (w = JInt i)"
| "deep_equal (JNum x) w = (w = JNum x)"
| "deep_equal (JStr s) w = (w = JStr s)"
| "deep_equal_list [] ys = True"
| "deep_equal_list (x # xs) ys = (case ys of [] \<Rightarrow> False | y # ys' \<Rightarrow> deep_equal x y \<and> deep_equal_list xs ys')"
| "deep_equal_fields [] o2 = True"
| "deep_equal_fields ((k, v) # o1) o2 =
     ((case gm_get o2 k of None \<Rightarrow> False | Some w \<Rightarrow> deep_equal v w) \<and> deep_equal_fields o1 o2)"

text \<open>\<open>getNestedValue\<close>: an absent key and a stored \<open>nil\<close> both end the walk with \<open>nil\<close>.\<close>

fun nested :: "json \<Rightarrow> string list \<Rightarrow> json" where
  "nested v [] = v"
| "nested v (k # ks) =
     (case v of
        JObj fs \<Rightarrow> (case gm_get fs k of None \<Rightarrow> JNull | Some w \<Rightarrow> if w = JNull then JNull else nested w ks)
      | _ \<Rightarrow> JNull)"

definition getNestedValue :: "document \<Rightarrow> string \<Rightarrow> json" where
  "getNestedValue data path = nested (JObj data) (split_on (CHR ''.'') path)"

section \<open>Operators\<close>

fun float_less :: "go_float \<Rightarrow> go_float \<Rightarrow> bool" where
  "float_less NaN b = False"
| "float_less a NaN = False"
| "float_less (Fin x) (Fin y) = (x < y)"
| "float_less NegInf b = (b \<noteq> NegInf)"
| "float_less a PosInf = (a \<noteq> PosInf)"
| "float_less a b = False"

fun float_equal :: "go_float \<Rightarrow> go_float \<Rightarrow> bool" where
  "float_equal NaN b = False"
| "float_equal a b = (a = b)"

definition toFloat64 :: "golib \<Rightarrow> json \<Rightarrow> go_float" where
  "toFloat64 lib v =
     (case v of
        JInt i \<Rightarrow> Fin (of_int i)
      | JNum x \<Rightarrow> Fin x
      | JStr s \<Rightarrow> (case parse_float lib s of Some f \<Rightarrow> f | None \<Rightarrow> Fin 0)
      | _ \<Rightarrow> Fin 0)"

definition compareNumeric :: "golib \<Rightarrow> json \<Rightarrow> json \<Rightarrow> string \<Rightarrow> bool" where
  "compareNumeric lib value threshold operator =
     (let v = toFloat64 lib value; t = toFloat64 lib threshold
      in if operator = ''>='' then float_less t v \<or> float_equal t v
         else if operator = ''<='' then float_less v t \<or> float_equal v t
         else if operator = ''>'' then float_less t v
         else if operator = ''<'' then float_less v t
         else False)"

definition arrayContains :: "json \<Rightarrow> json \<Rightarrow> bool" where
  "arrayContains arr item =
     (case arr of
        JArr xs \<Rightarrow> list_ex (\<lambda>x. deep_equal x item) xs
      | JStr s \<Rightarrow> (case item of JStr i \<Rightarrow> contains_str s i | _ \<Rightarrow> False)
      | _ \<Rightarrow> False)"

definition arrayContainsAll :: "json \<Rightarrow> json \<Rightarrow> bool" where
  "arrayContainsAll arr items = (case items of JArr xs \<Rightarrow> list_all (arrayContains arr) xs | _ \<Rightarrow> False)"

definition valueInArray :: "json \<Rightarrow> json \<Rightarrow> bool" where
  "valueInArray value arr = arrayContains arr value"

definition matchesRegex :: "golib \<Rightarrow> json \<Rightarrow> string \<Rightarrow> bool" where
  "matchesRegex lib value pattern =
     (case value of JStr s \<Rightarrow> (case regex_match lib pattern s of Some b \<Rightarrow> b | None \<Rightarrow> False) | _ \<Rightarrow> False)"

text \<open>One operator of a condition; an operator it does not know is ignored.\<close>

definition operator_holds :: "golib \<Rightarrow> json \<Rightarrow> string \<Rightarrow> json \<Rightarrow> bool option" where
  "operator_holds lib value op opValue =
     (if op = ''$gte'' then Some (compareNumeric lib value opValue ''>='')
      else if op = ''$lte'' then Some (compareNumeric lib value opValue ''<='')
      else if op = ''$gt'' then Some (compareNumeric lib value opValue ''>'')
      else if op = ''$lt'' then Some (compareNumeric lib value opValue ''<'')
      else if op = ''$contains'' then Some (arrayContains value opValue)
      else if op = ''$all'' then Some (arrayContainsAll value opValue)
      else if op = ''$in'' then Some (valueInArray value opValue)
      else if op = ''$regex'' then
        (case opValue of JStr p \<Rightarrow> Some (matchesRegex lib value p) | _ \<Rightarrow> None)
      else if op = ''$exists'' then
        (case opValue of JBool b \<Rightarrow> Some ((value \<noteq> JNull) = b) | _ \<Rightarrow> None)
      else if op = ''$ne'' then Some (\<not> deep_equal value opValue)
      else Some True)"

text \<open>A conjunction evaluated left to right, stopping at the first false conjunct (or panic).\<close>

fun all_lazy :: "('a \<Rightarrow> bool option) \<Rightarrow> 'a list \<Rightarrow> bool option" where
  "all_lazy p [] = Some True"
| "all_lazy p (x # xs) =
     (case p x of None \<Rightarrow> None | Some False \<Rightarrow> Some False | Some True \<Rightarrow> all_lazy p xs)"

fun ex_lazy :: "('a \<Rightarrow> bool option) \<Rightarrow> 'a list \<Rightarrow> bool option" where
  "ex_lazy p [] = Some False"
| "ex_lazy p (x # xs) =
     (case p x of None \<Rightarrow> None | Some True \<Rightarrow> Some True | Some False \<Rightarrow> ex_lazy p xs)"

definition matchesCondition :: "golib \<Rightarrow> json \<Rightarrow> json \<Rightarrow> bool option" where
  "matchesCondition lib value condition =
     (case condition of
        JObj ops \<Rightarrow> all_lazy (\<lambda>(op, ov). operator_holds lib value op ov) ops
      | _ \<Rightarrow> Some (deep_equal value condition))"

section \<open>Filters\<close>

definition filter_matches :: "golib \<Rightarrow> document \<Rightarrow> document \<Rightarrow> bool option" where
  "filter_matches lib record flt =
     all_lazy (\<lambda>(key, val).
       let recordValue = getNestedValue record key
       in case val of JObj _ \<Rightarrow> matchesCondition lib recordValue val
                    | _ \<Rightarrow> Some (deep_equal recordValue val)) flt"

definition criteriaFilter :: "golib \<Rightarrow> document list \<Rightarrow> json \<Rightarrow> bool option" where
  "criteriaFilter lib criteria doc =
     (case doc of
        JObj record \<Rightarrow> ex_lazy (filter_matches lib record) criteria
      | _ \<Rightarrow> Some False)"

text \<open>\<open>matchesCriteriaEnhanced\<close>, with \<open>$and\<close> and \<open>$or\<close> over nested criteria.\<close>

fun enhanced :: "golib \<Rightarrow> document \<Rightarrow> (string \<times> json) list \<Rightarrow> bool option"
  and enhanced_value :: "golib \<Rightarrow> document \<Rightarrow> string \<Rightarrow> json \<Rightarrow> bool option"
  and enhanced_all :: "golib \<Rightarrow> document \<Rightarrow> json list \<Rightarrow> bool option"
  and enhanced_any :: "golib \<Rightarrow> document \<Rightarrow> json list \<Rightarrow> bool option"
  and enhanced_obj :: "golib \<Rightarrow> document \<Rightarrow> json \<Rightarrow> bool option" where
  "enhanced lib doc [] = Some True"
| "enhanced lib doc ((path, condition) # rest) =
     (case enhanced_value lib doc path condition of
        None \<Rightarrow> None | Some False \<Rightarrow> Some False | Some True \<Rightarrow> enhanced lib doc rest)"
| "enhanced_value lib doc path (JArr conds) =
     (if path = ''$and'' then enhanced_all lib doc conds
      else if path = ''$or'' then enhanced_any lib doc conds
      else matchesCondition lib (getNestedValue doc path) (JArr conds))"
| "enhanced_value lib doc path condition =
     (if path = ''$and'' \<or> path = ''$or'' then Some False
      else matchesCondition lib (getNestedValue doc path) condition)"
| "enhanced_all lib doc [] = Some True"
| "enhanced_all lib doc (c # cs) =
     (case enhanced_obj lib doc c of
        None \<Rightarrow> None | Some False \<Rightarrow> Some False | Some True \<Rightarrow> enhanced_all lib doc cs)"
| "enhanced_any lib doc [] = Some False"
| "enhanced_any lib doc (c # cs) =
     (case enhanced_obj lib doc c of
        None \<Rightarrow> None | Some True \<Rightarrow> Some True | Some False \<Rightarrow> enhanced_any lib doc cs)"
| "enhanced_obj lib doc (JObj fs) = enhanced lib doc fs"
| "enhanced_obj lib doc c = Some False"

definition matchesCriteriaEnhanced :: "golib \<Rightarrow> document \<Rightarrow> document \<Rightarrow> bool option" where
  "matchesCriteriaEnhanced lib doc criteria = enhanced lib doc criteria"

section \<open>Criteria with a fast path\<close>

definition idOnlyFilter :: "document \<Rightarrow> string option" where
  "idOnlyFilter flt =
     (if length flt \<noteq> 1 then None
      else case gm_get flt ''_id'' of Some (JStr s) \<Rightarrow> Some s | _ \<Rightarrow> None)"

definition idOnlyCriteria :: "document list \<Rightarrow> string option" where
  "idOnlyCriteria criteria = (case criteria of [flt] \<Rightarrow> idOnlyFilter flt | _ \<Rightarrow> None)"

definition plain_key :: "string \<Rightarrow> bool" where
  "plain_key k \<longleftrightarrow> k \<noteq> '''' \<and> CHR ''.'' \<notin> set k"

fun string_equalities :: "document \<Rightarrow> (string, string) gomap" where
  "string_equalities [] = []"
| "string_equalities ((k, v) # rest) =
     (case v of
        JStr s \<Rightarrow> if plain_key k then (k, s) # string_equalities rest else string_equalities rest
      | _ \<Rightarrow> string_equalities rest)"

definition indexableEqualities :: "document list \<Rightarrow> (string, string) gomap" where
  "indexableEqualities criteria = (case criteria of [flt] \<Rightarrow> string_equalities flt | _ \<Rightarrow> [])"

definition exactEqualities :: "document list \<Rightarrow> (string, string) gomap option" where
  "exactEqualities criteria =
     (case criteria of
        [flt] \<Rightarrow>
          (if flt \<noteq> [] \<and> list_all (\<lambda>(k, v). case v of JStr _ \<Rightarrow> plain_key k | _ \<Rightarrow> False) flt
           then Some (string_equalities flt) else None)
      | _ \<Rightarrow> None)"

section \<open>Facts about conditions\<close>

lemma all_lazy_total:
  "(\<And>x. x \<in> set xs \<Longrightarrow> p x \<noteq> None) \<Longrightarrow> all_lazy p xs = Some (\<forall>x \<in> set xs. p x = Some True)"
proof (induction xs)
  case (Cons x xs)
  then obtain b where "p x = Some b" by fastforce
  with Cons show ?case by (cases b) simp_all
qed simp

lemma ex_lazy_total:
  "(\<And>x. x \<in> set xs \<Longrightarrow> p x \<noteq> None) \<Longrightarrow> ex_lazy p xs = Some (\<exists>x \<in> set xs. p x = Some True)"
proof (induction xs)
  case (Cons x xs)
  then obtain b where "p x = Some b" by fastforce
  with Cons show ?case by (cases b) simp_all
qed simp

lemma all_lazy_TrueD: "all_lazy p xs = Some True \<Longrightarrow> x \<in> set xs \<Longrightarrow> p x = Some True"
  by (induction xs) (auto split: option.splits bool.splits)

lemma all_lazy_TrueI: "(\<And>x. x \<in> set xs \<Longrightarrow> p x = Some True) \<Longrightarrow> all_lazy p xs = Some True"
  by (induction xs) auto

lemma all_lazy_True_iff: "all_lazy p xs = Some True \<longleftrightarrow> (\<forall>x \<in> set xs. p x = Some True)"
  using all_lazy_TrueD all_lazy_TrueI by metis

lemma deep_equal_str [simp]: "deep_equal v (JStr s) \<longleftrightarrow> v = JStr s"
  by (cases v) auto

lemma nested_plain:
  "getNestedValue data k = (if CHR ''.'' \<notin> set k then (case gm_get data k of Some w \<Rightarrow> w | None \<Rightarrow> JNull)
     else getNestedValue data k)"
  by (simp add: getNestedValue_def split_on_single split: option.split)

text \<open>The operators whose argument has a type the code asserts without checking.\<close>

definition typed_operator :: "string \<times> json \<Rightarrow> bool" where
  "typed_operator p = (case p of (op, ov) \<Rightarrow>
     (op = ''$regex'' \<longrightarrow> (\<exists>s. ov = JStr s)) \<and> (op = ''$exists'' \<longrightarrow> (\<exists>b. ov = JBool b)))"

definition typed_filter :: "document \<Rightarrow> bool" where
  "typed_filter flt = (\<forall>(k, v) \<in> set flt. case v of JObj ops \<Rightarrow> list_all typed_operator ops | _ \<Rightarrow> True)"

lemma if_Some_chain: "(if b then Some x else y) \<noteq> None \<longleftrightarrow> b \<or> y \<noteq> None"
  by simp

lemma operator_holds_typed:
  assumes "typed_operator (op, ov)"
  shows "operator_holds lib v op ov \<noteq> None"
proof (cases "op = ''$regex''")
  case True
  then obtain s where "ov = JStr s" using assms by (auto simp: typed_operator_def)
  with True show ?thesis by (simp add: operator_holds_def)
next
  case regex: False
  show ?thesis
  proof (cases "op = ''$exists''")
    case True
    then obtain b where "ov = JBool b" using assms by (auto simp: typed_operator_def)
    with True show ?thesis by (simp add: operator_holds_def)
  next
    case False
    show ?thesis
      unfolding operator_holds_def if_not_P[OF regex] if_not_P[OF False] if_Some_chain by simp
  qed
qed

lemma matchesCondition_typed:
  assumes "case c of JObj ops \<Rightarrow> list_all typed_operator ops | _ \<Rightarrow> True"
  shows "matchesCondition lib v c \<noteq> None"
proof (cases c)
  case (JObj ops)
  have "operator_holds lib v (fst p) (snd p) \<noteq> None" if "p \<in> set ops" for p
  proof -
    have "typed_operator (fst p, snd p)"
      using assms JObj that by (simp add: list_all_iff)
    then show ?thesis by (rule operator_holds_typed)
  qed
  then have "all_lazy (\<lambda>(op, ov). operator_holds lib v op ov) ops \<noteq> None"
    by (subst all_lazy_total) (simp_all only: split_beta option.distinct not_False_eq_True)
  then show ?thesis
    using JObj by (simp add: matchesCondition_def)
qed (simp_all only: matchesCondition_def json.case option.distinct not_False_eq_True)

lemma condition_typed:
  assumes "typed_filter flt" and "(k, v) \<in> set flt"
  shows "(case v of JObj _ \<Rightarrow> matchesCondition lib w v | _ \<Rightarrow> Some (deep_equal w v)) \<noteq> None"
proof -
  have "case v of JObj ops \<Rightarrow> list_all typed_operator ops | _ \<Rightarrow> True"
    using assms by (auto simp: typed_filter_def)
  from matchesCondition_typed[OF this] show ?thesis
    by (cases v) simp_all
qed

definition condition_holds :: "golib \<Rightarrow> document \<Rightarrow> string \<times> json \<Rightarrow> bool" where
  "condition_holds lib record p = (case p of (key, val) \<Rightarrow>
     (case val of
        JObj ops \<Rightarrow> \<forall>(op, ov) \<in> set ops. operator_holds lib (getNestedValue record key) op ov = Some True
      | _ \<Rightarrow> deep_equal (getNestedValue record key) val))"

lemma matchesCondition_obj:
  "matchesCondition lib v (JObj ops) = Some True \<longleftrightarrow> (\<forall>(op, ov) \<in> set ops. operator_holds lib v op ov = Some True)"
  by (simp add: matchesCondition_def all_lazy_True_iff split_beta)

lemma filter_matches_True:
  "filter_matches lib record flt = Some True \<longleftrightarrow> (\<forall>p \<in> set flt. condition_holds lib record p)"
  unfolding filter_matches_def all_lazy_True_iff
  by (rule ball_cong[OF refl])
    (simp add: condition_holds_def split_beta matchesCondition_obj Let_def split: json.split)

lemma filter_matches_typed: "typed_filter flt \<Longrightarrow> filter_matches lib record flt \<noteq> None"
proof -
  assume "typed_filter flt"
  then have "all_lazy (\<lambda>(key, val).
       let recordValue = getNestedValue record key
       in case val of JObj _ \<Rightarrow> matchesCondition lib recordValue val
                    | _ \<Rightarrow> Some (deep_equal recordValue val)) flt \<noteq> None"
    using condition_typed[of flt] by (subst all_lazy_total) (auto simp: Let_def)
  then show ?thesis by (simp only: filter_matches_def) blast
qed

lemma criteriaFilter_typed:
  assumes "list_all typed_filter criteria"
  shows "criteriaFilter lib criteria (JObj record) =
    Some (\<exists>flt \<in> set criteria. \<forall>p \<in> set flt. condition_holds lib record p)"
proof -
  have "criteriaFilter lib criteria (JObj record) =
      Some (\<exists>flt \<in> set criteria. filter_matches lib record flt = Some True)"
    using assms ex_lazy_total[of criteria "filter_matches lib record"] filter_matches_typed[of _ lib "record"]
    by (simp add: criteriaFilter_def list_all_iff)
  then show ?thesis by (simp only: filter_matches_True)
qed

text \<open>
  C35.  A query is an OR of ANDs, whatever the iteration order: for criteria whose \<open>$regex\<close> arguments
  are strings and whose \<open>$exists\<close> arguments are booleans the filter never panics, it accepts a document
  exactly when all conditions of one of the filters hold, and it gives the same answer on any
  reordering of the filters and of the conditions within them.
\<close>
theorem criteria_or_of_ands:
  assumes "list_all typed_filter criteria"
    and "set ` set criteria' = set ` set criteria"
  shows "criteriaFilter lib criteria (JObj record) =
      Some (\<exists>flt \<in> set criteria. \<forall>p \<in> set flt. condition_holds lib record p)
    \<and> criteriaFilter lib criteria' (JObj record) = criteriaFilter lib criteria (JObj record)"
proof -
  have ex: "(\<exists>flt \<in> set cs. P (set flt)) \<longleftrightarrow> (\<exists>x \<in> set ` set cs. P x)" for cs :: "document list" and P
    by auto
  have ty: "list_all typed_filter cs \<longleftrightarrow> (\<forall>x \<in> set ` set cs. \<forall>(k, v) \<in> x.
      case v of JObj ops \<Rightarrow> list_all typed_operator ops | _ \<Rightarrow> True)" for cs
    by (auto simp: list_all_iff typed_filter_def)
  have "list_all typed_filter criteria'"
    using assms ty by metis
  then show ?thesis
    using assms ex[of criteria "\<lambda>x. \<forall>p \<in> x. condition_holds lib record p"]
      ex[of criteria' "\<lambda>x. \<forall>p \<in> x. condition_holds lib record p"]
    by (simp add: criteriaFilter_typed)
qed

definition plain_lib :: golib where
  "plain_lib = \<lparr>parse_float = (\<lambda>_. None), regex_match = (\<lambda>p s. Some (contains_str s p))\<rparr>"

theorem criteria_or_of_ands_witness:
  "criteriaFilter plain_lib [[(''a'', JStr ''x''), (''b.c'', JObj [(''$gte'', JNum 3)])]]
     (JObj [(''b'', JObj [(''c'', JNum 4)]), (''a'', JStr ''x'')])
   = criteriaFilter plain_lib [[(''b.c'', JObj [(''$gte'', JNum 3)]), (''a'', JStr ''x'')]]
     (JObj [(''b'', JObj [(''c'', JNum 4)]), (''a'', JStr ''x'')])"
proof -
  have "list_all typed_filter [[(''b.c'', JObj [(''$gte'', JNum 3)]), (''a'', JStr ''x'')]]"
    by (simp add: typed_filter_def typed_operator_def)
  then show ?thesis
    by (rule conjunct2[OF criteria_or_of_ands]) auto
qed

definition known_operators :: "string list" where
  "known_operators = [''$gte'', ''$lte'', ''$gt'', ''$lt'', ''$contains'', ''$all'', ''$in'', ''$regex'',
     ''$exists'', ''$ne'']"

lemma operator_holds_unknown: "op \<notin> set known_operators \<Longrightarrow> operator_holds lib v op ov = Some True"
  by (simp only: known_operators_def list.set insert_iff de_Morgan_disj operator_holds_def if_False)

text \<open>
  C37.  A condition that is an object is never compared with the stored value: its keys are read as
  operators and unknown ones are ignored, so an object without a known operator, such as
  \<open>{"x": 1}\<close> or a misspelt operator, is satisfied by every document, even one without the field.
\<close>
theorem object_condition_matches_all:
  assumes "\<forall>(op, ov) \<in> set ops. op \<notin> set known_operators"
  shows "criteriaFilter lib [[(key, JObj ops)]] (JObj doc) = Some True"
proof -
  have "all_lazy (\<lambda>(op, ov). operator_holds lib v op ov) ops = Some True" for v
    using assms by (intro all_lazy_TrueI) (auto simp: operator_holds_unknown)
  then show ?thesis
    by (simp add: criteriaFilter_def filter_matches_def matchesCondition_def Let_def)
qed

theorem object_condition_matches_all_witness:
  "criteriaFilter plain_lib [[(''position'', JObj [(''x'', JNum 1)])]] (JObj [(''position'', JObj [(''x'', JNum 2)])]) = Some True"
  by (rule object_condition_matches_all) (simp add: known_operators_def)

text \<open>
  C36.  Queries and modifications select the same documents: on a criterion without \<open>$and\<close> and \<open>$or\<close>
  the matcher used by updates and deletes and the filter used by queries agree, panics included.
\<close>
theorem update_selects_what_query_selects:
  assumes "\<forall>(k, v) \<in> set flt. k \<noteq> ''$and'' \<and> k \<noteq> ''$or''"
  shows "matchesCriteriaEnhanced lib doc flt = criteriaFilter lib [flt] (JObj doc)"
proof -
  have val: "enhanced_value lib doc k v =
      (case v of JObj _ \<Rightarrow> matchesCondition lib (getNestedValue doc k) v
               | _ \<Rightarrow> Some (deep_equal (getNestedValue doc k) v))" if "k \<noteq> ''$and''" "k \<noteq> ''$or''" for k v
    using that by (cases v) (simp_all add: matchesCondition_def)
  have "enhanced lib doc flt = filter_matches lib doc flt"
    using assms
  proof (induction flt)
    case Nil
    then show ?case by (simp add: filter_matches_def)
  next
    case (Cons p flt)
    obtain k v where p: "p = (k, v)" by (cases p)
    with Cons.prems have "k \<noteq> ''$and''" "k \<noteq> ''$or''" by simp_all
    from val[OF this, of v] Cons show ?case
      by (simp add: p filter_matches_def Let_def cong: option.case_cong bool.case_cong)
  qed
  then show ?thesis
    by (simp add: matchesCriteriaEnhanced_def criteriaFilter_def split: option.split bool.split)
qed

theorem update_selects_what_query_selects_witness:
  "matchesCriteriaEnhanced plain_lib [(''a'', JInt 1)] [(''a'', JInt 1)]
   = criteriaFilter plain_lib [[(''a'', JInt 1)]] (JObj [(''a'', JInt 1)])"
  by (rule update_selects_what_query_selects) simp

section \<open>Facts about the fast-path criteria\<close>

lemma string_equalities_get:
  "gm_wf flt \<Longrightarrow> gm_get (string_equalities flt) k = Some s \<longleftrightarrow> plain_key k \<and> gm_get flt k = Some (JStr s)"
proof (induction flt)
  case Nil
  then show ?case by simp
next
  case (Cons p flt)
  obtain j v where p: "p = (j, v)" by (cases p)
  have "gm_get flt j = None"
    using Cons.prems by (simp add: p gm_get_None)
  with Cons show ?case
    by (cases v) (auto simp: p)
qed

lemma string_equalities_hold:
  assumes "gm_wf flt" and "\<forall>p \<in> set flt. condition_holds lib record p"
    and "gm_get (string_equalities flt) k = Some s"
  shows "gm_get record k = Some (JStr s)"
proof -
  have k: "plain_key k" and "gm_get flt k = Some (JStr s)"
    using assms(1,3) string_equalities_get by blast+
  then have "condition_holds lib record (k, JStr s)"
    using assms(2) map_of_SomeD by fast
  then have "getNestedValue record k = JStr s"
    by (simp add: condition_holds_def)
  then show ?thesis
    using k nested_plain[of "record" k] by (auto simp: plain_key_def split: option.splits)
qed

lemma string_equalities_mem:
  "(k, s) \<in> set (string_equalities flt) \<longleftrightarrow> (k, JStr s) \<in> set flt \<and> plain_key k"
  by (induction flt rule: string_equalities.induct) (auto split: json.splits if_splits)

lemma string_equalities_keys: "fst ` set (string_equalities flt) \<subseteq> fst ` set flt"
  by (force simp: string_equalities_mem)

lemma string_equalities_wf: "gm_wf flt \<Longrightarrow> gm_wf (string_equalities flt)"
proof (induction flt rule: string_equalities.induct)
  case (2 k v flt)
  then show ?case
    using string_equalities_keys[of flt] by (cases v) auto
qed simp

end
