(* ===== verification/DocIndex.thy ===== *)
theory DocIndex
  imports Json
begin

text \<open>
  The index of the patched document store (\<open>third_party/go-orbit-db/stores/documentstore/index.go\<close>):
  the key index, the Lamport clock of the entry that last wrote each key, the hashes of the entries
  already applied, and the field indexes.  Stored documents are byte strings; \<open>dec\<close> is
  \<open>json.Unmarshal\<close> into an \<open>interface{}\<close> (\<open>None\<close> when the bytes are not JSON).  A log entry is what
  \<open>operation.ParseOperation\<close> makes of it, \<open>None\<close> when that fails.  A set of keys is a list without
  repetitions, in the order in which Go iterates over it.  The cache of decoded documents is not part
  of this model: it returns what decoding the stored bytes returns.
\<close>

section \<open>State\<close>

record stamp =
  st_time :: int
  st_id :: string

datatype operation =
    OpPutAll "(string \<times> string) list"
  | OpPut "string option" string
  | OpDel "string option"
  | OpOther

record entry =
  e_hash :: string
  e_stamp :: stamp
  e_op :: "operation option"

record doc_index =
  index :: "(string, string) gomap"
  clocks :: "string \<rightharpoonup> stamp"
  seen :: "string set"
  indexed_fields :: "string list"
  byField :: "string \<rightharpoonup> (string \<rightharpoonup> string list)"
  fieldVals :: "string \<rightharpoonup> (string, string) gomap"
  fieldsOff :: bool

definition newDocumentIndex :: "string list \<Rightarrow> doc_index" where
  "newDocumentIndex env_fields =
     \<lparr>index = [], clocks = Map.empty, seen = {}, indexed_fields = env_fields,
      byField = (\<lambda>f. if f \<in> set env_fields then Some Map.empty else None),
      fieldVals = Map.empty, fieldsOff = False\<rparr>"

text \<open>\<open>newer\<close>: later time, or equal times and a larger writer identifier (\<open>bytes.Compare\<close>).\<close>

definition newer :: "stamp option \<Rightarrow> stamp \<Rightarrow> bool" where
  "newer cur st =
     (case cur of
        None \<Rightarrow> True
      | Some c \<Rightarrow> if st_time st \<noteq> st_time c then st_time st > st_time c else st_id st > st_id c)"

section \<open>Field indexes\<close>

text \<open>The string values of the indexed fields; a JSON \<open>null\<close> decodes into an empty map.\<close>

definition string_at :: "document \<Rightarrow> string \<Rightarrow> string option" where
  "string_at obj f = (case gm_get obj f of Some (JStr s) \<Rightarrow> Some s | _ \<Rightarrow> None)"

definition stringFields :: "(string \<Rightarrow> json option) \<Rightarrow> string list \<Rightarrow> string \<Rightarrow> (string, string) gomap option" where
  "stringFields dec fs raw =
     (case dec raw of
        Some (JObj obj) \<Rightarrow>
          Some (foldl (\<lambda>out f. case string_at obj f of Some s \<Rightarrow> gm_set f s out | None \<Rightarrow> out) [] fs)
      | Some JNull \<Rightarrow> Some []
      | _ \<Rightarrow> None)"

definition drop_key :: "string \<Rightarrow> string \<Rightarrow> string \<Rightarrow> (string \<rightharpoonup> (string \<rightharpoonup> string list)) \<Rightarrow> (string \<rightharpoonup> (string \<rightharpoonup> string list))" where
  "drop_key key f v bf =
     (case bf f of
        None \<Rightarrow> bf
      | Some vals \<Rightarrow>
          (case vals v of
             None \<Rightarrow> bf
           | Some ks \<Rightarrow>
               (let ks' = removeAll key ks
                in bf(f \<mapsto> vals(v := (if ks' = [] then None else Some ks'))))))"

definition unindexFields :: "string \<Rightarrow> doc_index \<Rightarrow> doc_index" where
  "unindexFields key i =
     (case fieldVals i key of
        None \<Rightarrow> i
      | Some old \<Rightarrow>
          i\<lparr>byField := foldl (\<lambda>bf (f, v). drop_key key f v bf) (byField i) old,
            fieldVals := (fieldVals i)(key := None)\<rparr>)"

text \<open>Assigning into the value map of a field that is not indexed would be a panic in Go; the fields
  come from \<open>stringFields\<close>, which only names indexed ones.\<close>

definition add_key :: "string \<Rightarrow> string \<Rightarrow> string \<Rightarrow> (string \<rightharpoonup> (string \<rightharpoonup> string list)) \<Rightarrow> (string \<rightharpoonup> (string \<rightharpoonup> string list))" where
  "add_key key f v bf =
     (case bf f of
        None \<Rightarrow> bf
      | Some vals \<Rightarrow>
          bf(f \<mapsto> vals(v \<mapsto> List.insert key (case vals v of Some ks \<Rightarrow> ks | None \<Rightarrow> []))))"

definition setKey :: "(string \<Rightarrow> json option) \<Rightarrow> string \<Rightarrow> string \<Rightarrow> doc_index \<Rightarrow> doc_index" where
  "setKey dec key raw i0 =
     (let i = i0\<lparr>index := gm_set key raw (index i0)\<rparr>
      in if indexed_fields i = [] \<or> fieldsOff i then i
         else let i1 = unindexFields key i
              in case stringFields dec (indexed_fields i1) raw of
                   None \<Rightarrow> i1\<lparr>fieldsOff := True, byField := Map.empty, fieldVals := Map.empty\<rparr>
                 | Some [] \<Rightarrow> i1
                 | Some vals \<Rightarrow>
                     i1\<lparr>fieldVals := (fieldVals i1)(key \<mapsto> vals),
                        byField := foldl (\<lambda>bf (f, v). add_key key f v bf) (byField i1) vals\<rparr>)"

definition delKey :: "string \<Rightarrow> doc_index \<Rightarrow> doc_index" where
  "delKey key i0 =
     (let i = i0\<lparr>index := gm_del key (index i0)\<rparr>
      in if indexed_fields i \<noteq> [] \<and> \<not> fieldsOff i then unindexFields key i else i)"

section \<open>Applying log entries\<close>

text \<open>Writing one key under the stamp of its entry: \<open>Some raw\<close> stores, \<open>None\<close> deletes.\<close>

definition write_key :: "(string \<Rightarrow> json option) \<Rightarrow> stamp \<Rightarrow> string \<Rightarrow> string option \<Rightarrow> doc_index \<Rightarrow> doc_index" where
  "write_key dec st k val i =
     (if newer (clocks i k) st
      then (case val of Some raw \<Rightarrow> setKey dec k raw i | None \<Rightarrow> delKey k i)
             \<lparr>clocks := (clocks i)(k \<mapsto> st)\<rparr>
      else i)"

fun put_all :: "(string \<Rightarrow> json option) \<Rightarrow> stamp \<Rightarrow> (string \<times> string) list \<Rightarrow> doc_index \<Rightarrow> doc_index" where
  "put_all dec st [] i = i"
| "put_all dec st ((k, raw) # docs) i =
     put_all dec st docs (if k = '''' then i else write_key dec st k (Some raw) i)"

definition apply_entry :: "(string \<Rightarrow> json option) \<Rightarrow> entry \<Rightarrow> doc_index \<Rightarrow> bool \<times> doc_index" where
  "apply_entry dec e i =
     (if e_hash e \<in> seen i then (True, i)
      else case e_op e of
        None \<Rightarrow> (False, i)
      | Some item \<Rightarrow>
          (let i1 = (case item of
                 OpPutAll docs \<Rightarrow> put_all dec (e_stamp e) docs i
               | OpPut key raw \<Rightarrow>
                   (case key of None \<Rightarrow> i | Some k \<Rightarrow> if k = '''' then i else write_key dec (e_stamp e) k (Some raw) i)
               | OpDel key \<Rightarrow>
                   (case key of None \<Rightarrow> i | Some k \<Rightarrow> if k = '''' then i else write_key dec (e_stamp e) k None i)
               | OpOther \<Rightarrow> i)
           in (True, i1\<lparr>seen := insert (e_hash e) (seen i1)\<rparr>)))"

text \<open>The loop over entries, stopping at the first one that does not parse.\<close>

fun apply_entries :: "(string \<Rightarrow> json option) \<Rightarrow> entry list \<Rightarrow> doc_index \<Rightarrow> bool \<times> doc_index" where
  "apply_entries dec [] i = (True, i)"
| "apply_entries dec (e # es) i =
     (case apply_entry dec e i of (ok, i') \<Rightarrow> if ok then apply_entries dec es i' else (False, i'))"

definition UpdateIndex :: "(string \<Rightarrow> json option) \<Rightarrow> entry list \<Rightarrow> entry list \<Rightarrow> doc_index \<Rightarrow> bool \<times> doc_index" where
  "UpdateIndex dec oplog entries i =
     (if entries \<noteq> [] then apply_entries dec entries i else apply_entries dec oplog i)"

section \<open>Reading\<close>

definition Keys :: "doc_index \<Rightarrow> string list" where
  "Keys i = map fst (index i)"

definition index_Get :: "doc_index \<Rightarrow> string \<Rightarrow> string option" where
  "index_Get i key = gm_get (index i) key"

definition hasKey :: "doc_index \<Rightarrow> string \<Rightarrow> bool" where
  "hasKey i key \<longleftrightarrow> gm_get (index i) key \<noteq> None"

definition keysByField :: "doc_index \<Rightarrow> string \<Rightarrow> string \<Rightarrow> string list option" where
  "keysByField i field val =
     (if fieldsOff i then None
      else case byField i field of
        None \<Rightarrow> None
      | Some vals \<Rightarrow> Some (case vals val of Some ks \<Rightarrow> ks | None \<Rightarrow> []))"

text \<open>The key set of every equality on an indexed field.\<close>

fun equality_sets :: "doc_index \<Rightarrow> (string, string) gomap \<Rightarrow> string list list" where
  "equality_sets i [] = []"
| "equality_sets i ((f, v) # eqs) =
     (case byField i f of
        None \<Rightarrow> equality_sets i eqs
      | Some vals \<Rightarrow> (case vals v of Some ks \<Rightarrow> ks | None \<Rightarrow> []) # equality_sets i eqs)"

text \<open>The index of the first smallest set, and the keys of that set that are in all the others.\<close>

fun smallest_from :: "string list list \<Rightarrow> nat \<Rightarrow> nat \<Rightarrow> string list list \<Rightarrow> nat" where
  "smallest_from all_sets best j [] = best"
| "smallest_from all_sets best j (s # ss) =
     smallest_from all_sets (if length s < length (all_sets ! best) then j else best) (j + 1) ss"

definition intersect_sets :: "string list list \<Rightarrow> string list" where
  "intersect_sets sets =
     (let smallest = smallest_from sets 0 0 sets
      in filter (\<lambda>k. \<forall>j < length sets. j \<noteq> smallest \<longrightarrow> k \<in> set (sets ! j)) (sets ! smallest))"

definition keysByFields :: "doc_index \<Rightarrow> (string, string) gomap \<Rightarrow> string list option" where
  "keysByFields i eqs =
     (if fieldsOff i then None
      else let sets = equality_sets i eqs in if sets = [] then None else Some (intersect_sets sets))"

definition rawsByFields :: "doc_index \<Rightarrow> (string, string) gomap \<Rightarrow> string list option" where
  "rawsByFields i eqs =
     (if fieldsOff i \<or> eqs = [] then None
      else if \<exists>(f, v) \<in> set eqs. byField i f = None then None
      else Some (List.map_filter (index_Get i) (intersect_sets (equality_sets i eqs))))"

section \<open>Last writer wins\<close>

text \<open>What the index says of a key: the stamp of its last writer, and the stored bytes (\<open>None\<close> after a
  deletion).\<close>

type_synonym cell = "(stamp \<times> string option) option"

definition cell :: "doc_index \<Rightarrow> string \<Rightarrow> cell" where
  "cell i k = (case clocks i k of None \<Rightarrow> None | Some st \<Rightarrow> Some (st, gm_get (index i) k))"

definition cells_ok :: "doc_index \<Rightarrow> bool" where
  "cells_ok i \<longleftrightarrow> (\<forall>k. clocks i k = None \<longrightarrow> gm_get (index i) k = None)"

text \<open>Stamps are ordered by time, then by writer.\<close>

instantiation stamp_ext :: (linorder) linorder
begin

definition less_stamp_ext :: "'a stamp_scheme \<Rightarrow> 'a stamp_scheme \<Rightarrow> bool" where
  "less_stamp_ext a b \<longleftrightarrow> st_time a < st_time b
     \<or> (st_time a = st_time b \<and> (st_id a < st_id b \<or> (st_id a = st_id b \<and> stamp.more a < stamp.more b)))"

definition less_eq_stamp_ext :: "'a stamp_scheme \<Rightarrow> 'a stamp_scheme \<Rightarrow> bool" where
  "less_eq_stamp_ext a b \<longleftrightarrow> a < b \<or> a = b"

instance
proof
  fix a b c :: "'a stamp_scheme"
  show "(a < b) = (a \<le> b \<and> \<not> b \<le> a)" by (auto simp: less_stamp_ext_def less_eq_stamp_ext_def)
  show "a \<le> a" by (simp add: less_eq_stamp_ext_def)
  show "a \<le> b \<Longrightarrow> b \<le> c \<Longrightarrow> a \<le> c" by (auto simp: less_stamp_ext_def less_eq_stamp_ext_def)
  show "a \<le> b \<Longrightarrow> b \<le> a \<Longrightarrow> a = b" by (auto simp: less_stamp_ext_def less_eq_stamp_ext_def)
  show "a \<le> b \<or> b \<le> a" by (cases a; cases b) (auto simp: less_stamp_ext_def less_eq_stamp_ext_def)
qed

end

lemma stamp_less_iff: "(a :: stamp) < b \<longleftrightarrow> st_time a < st_time b \<or> (st_time a = st_time b \<and> st_id a < st_id b)"
  by (simp add: less_stamp_ext_def)

definition upd_cell :: "stamp \<Rightarrow> string option \<Rightarrow> cell \<Rightarrow> cell" where
  "upd_cell st v c =
     (case c of None \<Rightarrow> Some (st, v) | Some (st', v') \<Rightarrow> if st' < st then Some (st, v) else c)"

lemma newer_stamp: "newer (Some c) st \<longleftrightarrow> c < st" "newer None st"
  by (auto simp: newer_def stamp_less_iff)

lemma upd_cell_commute:
  assumes "s \<noteq> t"
  shows "upd_cell s v (upd_cell t w c) = upd_cell t w (upd_cell s v c)"
  using assms by (auto simp: upd_cell_def split: option.split)

lemma index_unindexFields [simp]:
  "index (unindexFields k i) = index i" "clocks (unindexFields k i) = clocks i"
  "seen (unindexFields k i) = seen i" "indexed_fields (unindexFields k i) = indexed_fields i"
  "fieldsOff (unindexFields k i) = fieldsOff i"
  by (simp_all add: unindexFields_def split: option.split)

lemma setKey_fields [simp]:
  "index (setKey dec k raw i) = gm_set k raw (index i)" "clocks (setKey dec k raw i) = clocks i"
  "seen (setKey dec k raw i) = seen i" "indexed_fields (setKey dec k raw i) = indexed_fields i"
  by (simp_all add: setKey_def Let_def split: option.split list.split)

lemma delKey_fields [simp]:
  "index (delKey k i) = gm_del k (index i)" "clocks (delKey k i) = clocks i"
  "seen (delKey k i) = seen i" "indexed_fields (delKey k i) = indexed_fields i"
  by (simp_all add: delKey_def Let_def)

lemma write_key_frame [simp]:
  "seen (write_key dec st k v i) = seen i" "indexed_fields (write_key dec st k v i) = indexed_fields i"
  by (simp_all add: write_key_def split: option.split)

lemma cell_write_key:
  "cell (write_key dec st k v i) k' = (if k' = k then upd_cell st v (cell i k) else cell i k')"
  by (auto simp: cell_def write_key_def upd_cell_def newer_stamp split: option.splits)

lemma cells_ok_write_key: "cells_ok i \<Longrightarrow> cells_ok (write_key dec st k v i)"
  by (auto simp: cells_ok_def write_key_def split: option.split)

lemma put_all_frame [simp]:
  "seen (put_all dec st docs i) = seen i" "indexed_fields (put_all dec st docs i) = indexed_fields i"
  by (induction dec st docs i rule: put_all.induct) auto

lemma cells_ok_put_all: "cells_ok i \<Longrightarrow> cells_ok (put_all dec st docs i)"
  by (induction dec st docs i rule: put_all.induct) (auto simp: cells_ok_write_key)

text \<open>The writes of an operation, one per key; of repeated keys in one entry the first counts, as the
  second finds its own stamp.\<close>

fun writes :: "operation \<Rightarrow> (string \<times> string option) list" where
  "writes (OpPutAll docs) = map (\<lambda>(k, raw). (k, Some raw)) docs"
| "writes (OpPut (Some k) raw) = [(k, Some raw)]"
| "writes (OpDel (Some k)) = [(k, None)]"
| "writes _ = []"

definition entry_write :: "entry \<Rightarrow> string \<Rightarrow> string option option" where
  "entry_write e k = (if k = '''' then None
     else case e_op e of None \<Rightarrow> None | Some item \<Rightarrow> gm_get (writes item) k)"

definition upd_cells :: "entry \<Rightarrow> (string \<Rightarrow> cell) \<Rightarrow> string \<Rightarrow> cell" where
  "upd_cells e A k = (case entry_write e k of None \<Rightarrow> A k | Some v \<Rightarrow> upd_cell (e_stamp e) v (A k))"

lemma upd_cell_same_stamp: "upd_cell st w (upd_cell st v c) = upd_cell st v c"
  by (auto simp: upd_cell_def split: option.splits)

lemma cell_put_all:
  "cell (put_all dec st docs i) k =
   (case (if k = '''' then None else gm_get docs k) of
      None \<Rightarrow> cell i k | Some raw \<Rightarrow> upd_cell st (Some raw) (cell i k))"
proof (induction dec st docs i rule: put_all.induct)
  case (2 dec st j raw docs i)
  then show ?case
    by (auto simp: cell_write_key upd_cell_same_stamp split: option.splits)
qed simp

lemma gm_get_map_Some: "gm_get (map (\<lambda>(k, raw). (k, Some raw)) docs) k = map_option Some (gm_get docs k)"
  by (induction docs) auto

lemma cell_seen [simp]: "cell (i\<lparr>seen := s\<rparr>) = cell i"
  by (rule ext) (simp add: cell_def split: option.split)

lemma cell_apply_entry:
  "e_hash e \<notin> seen i \<Longrightarrow> cell (snd (apply_entry dec e i)) = upd_cells e (cell i)"
proof (rule ext)
  fix k
  assume new: "e_hash e \<notin> seen i"
  show "cell (snd (apply_entry dec e i)) k = upd_cells e (cell i) k"
  proof (cases "e_op e")
    case None
    with new show ?thesis by (simp add: apply_entry_def upd_cells_def entry_write_def)
  next
    case (Some item)
    show ?thesis
    proof (cases item)
      case (OpPutAll docs)
      with new Some show ?thesis
        by (simp add: apply_entry_def upd_cells_def entry_write_def cell_put_all gm_get_map_Some Let_def
            split: option.split)
    next
      case (OpPut key raw)
      with new Some show ?thesis
        by (cases key) (simp_all add: apply_entry_def upd_cells_def entry_write_def cell_write_key Let_def)
    next
      case (OpDel key)
      with new Some show ?thesis
        by (cases key) (simp_all add: apply_entry_def upd_cells_def entry_write_def cell_write_key Let_def)
    next
      case OpOther
      with new Some show ?thesis
        by (simp add: apply_entry_def upd_cells_def entry_write_def Let_def)
    qed
  qed
qed

lemma apply_entry_seen_again: "e_hash e \<in> seen i \<Longrightarrow> apply_entry dec e i = (True, i)"
  by (simp add: apply_entry_def)

lemma apply_entry_ok:
  assumes "e_op e \<noteq> None"
  shows "fst (apply_entry dec e i)" and "seen (snd (apply_entry dec e i)) = insert (e_hash e) (seen i)"
  using assms
  by (auto simp: apply_entry_def Let_def insert_absorb split: operation.split option.split)

lemma cells_ok_apply: "cells_ok i \<Longrightarrow> cells_ok (snd (apply_entry dec e i))"
proof -
  have s: "cells_ok (j\<lparr>seen := x\<rparr>) = cells_ok j" for j x
    by (simp add: cells_ok_def)
  assume "cells_ok i"
  then show ?thesis
    by (auto simp: apply_entry_def Let_def s cells_ok_put_all cells_ok_write_key split: operation.split option.split)
qed

text \<open>Log entries as the code relies on them: they parse, a hash names one entry, and two entries that
  write the same key have different stamps (one writer never reuses a Lamport time).\<close>

definition log_ok :: "entry set \<Rightarrow> bool" where
  "log_ok E \<longleftrightarrow> (\<forall>e \<in> E. e_op e \<noteq> None) \<and> inj_on e_hash E
     \<and> (\<forall>e \<in> E. \<forall>e' \<in> E. \<forall>k. e \<noteq> e' \<longrightarrow> entry_write e k \<noteq> None \<longrightarrow> entry_write e' k \<noteq> None \<longrightarrow>
          e_stamp e \<noteq> e_stamp e')"

lemma log_ok_subset: "log_ok E \<Longrightarrow> F \<subseteq> E \<Longrightarrow> log_ok F"
  unfolding log_ok_def by (meson inj_on_subset subsetD)

lemma upd_cells_commute:
  assumes "log_ok E" "e \<in> E" "e' \<in> E"
  shows "upd_cells e \<circ> upd_cells e' = upd_cells e' \<circ> upd_cells e"
proof (cases "e = e'")
  case False
  show ?thesis
  proof (rule ext, rule ext)
    fix A k
    have "entry_write e k = None \<or> entry_write e' k = None \<or> e_stamp e \<noteq> e_stamp e'"
      using assms False unfolding log_ok_def by metis
    then show "(upd_cells e \<circ> upd_cells e') A k = (upd_cells e' \<circ> upd_cells e) A k"
      by (auto simp: upd_cells_def upd_cell_commute split: option.split)
  qed
qed simp

lemma apply_entries_snoc:
  "\<forall>e \<in> set es. e_op e \<noteq> None \<Longrightarrow>
   apply_entries dec (es @ [e]) i = apply_entry dec e (snd (apply_entries dec es i))"
proof (induction es arbitrary: i)
  case Nil
  then show ?case by (auto split: prod.split)
next
  case (Cons d es)
  then show ?case
    using apply_entry_ok(1)[of d dec i] by (simp add: split_beta)
qed

text \<open>The cells after a sequence of entries are those of its distinct entries, applied in some order.\<close>

lemma apply_entries_cells:
  assumes "log_ok (set es)"
  shows "seen (snd (apply_entries dec es (newDocumentIndex fs))) = e_hash ` set es
    \<and> cells_ok (snd (apply_entries dec es (newDocumentIndex fs)))
    \<and> (\<exists>xs. distinct xs \<and> set xs = set es
         \<and> cell (snd (apply_entries dec es (newDocumentIndex fs))) = fold upd_cells xs (\<lambda>_. None))"
  using assms
proof (induction es rule: rev_induct)
  case Nil
  have "cell (newDocumentIndex fs) = (\<lambda>_. None)"
    by (rule ext) (simp add: cell_def newDocumentIndex_def)
  then show ?case
    by (auto simp: newDocumentIndex_def cells_ok_def)
next
  case (snoc e es)
  let ?i = "snd (apply_entries dec es (newDocumentIndex fs))"
  have ok: "log_ok (set es)"
    using snoc.prems by (rule log_ok_subset) auto
  from snoc.IH[OF this] obtain xs where IH: "seen ?i = e_hash ` set es" "cells_ok ?i"
    and xs: "distinct xs" "set xs = set es" "cell ?i = fold upd_cells xs (\<lambda>_. None)" by blast
  have snoc': "apply_entries dec (es @ [e]) (newDocumentIndex fs) = apply_entry dec e ?i"
    using ok by (intro apply_entries_snoc) (simp add: log_ok_def)
  have op: "e_op e \<noteq> None" using snoc.prems by (simp add: log_ok_def)
  have mem: "e_hash e \<in> seen ?i \<longleftrightarrow> e \<in> set es"
    using snoc.prems IH(1) by (auto simp: log_ok_def inj_on_def)
  have "\<exists>xs. distinct xs \<and> set xs = set (es @ [e]) \<and> cell (snd (apply_entry dec e ?i)) = fold upd_cells xs (\<lambda>_. None)"
  proof (cases "e \<in> set es")
    case True
    then show ?thesis
      using xs mem by (intro exI[of _ xs]) (auto simp: apply_entry_seen_again)
  next
    case False
    then show ?thesis
      using xs mem by (intro exI[of _ "xs @ [e]"]) (auto simp: cell_apply_entry)
  qed
  then show ?case
    using apply_entry_ok(2)[OF op] IH cells_ok_apply[OF IH(2)] by (simp add: snoc')
qed

lemma cells_same_log:
  assumes "log_ok (set es)" and "set es' = set es"
  shows "cell (snd (apply_entries dec es (newDocumentIndex fs)))
       = cell (snd (apply_entries dec' es' (newDocumentIndex fs')))"
proof -
  obtain xs where xs: "distinct xs" "set xs = set es"
    "cell (snd (apply_entries dec es (newDocumentIndex fs))) = fold upd_cells xs (\<lambda>_. None)"
    using apply_entries_cells[OF assms(1), of dec fs] by blast
  obtain ys where ys: "distinct ys" "set ys = set es'"
    "cell (snd (apply_entries dec' es' (newDocumentIndex fs'))) = fold upd_cells ys (\<lambda>_. None)"
    using apply_entries_cells[of es' dec' fs'] assms by metis
  have "mset xs = mset ys"
    using xs(1,2) ys(1,2) assms(2) by (metis set_eq_iff_mset_eq_distinct)
  then have "fold upd_cells xs = fold upd_cells ys"
    using upd_cells_commute[OF assms(1)] xs(2) by (intro fold_multiset_equiv) auto
  then show ?thesis
    using xs(3) ys(3) by simp
qed

lemma cells_determine:
  "cells_ok i \<Longrightarrow> cells_ok j \<Longrightarrow> cell i = cell j \<Longrightarrow> clocks i = clocks j \<and> gm_get (index i) = gm_get (index j)"
proof -
  assume ok: "cells_ok i" "cells_ok j" and same: "cell i = cell j"
  have "clocks i k = clocks j k \<and> gm_get (index i) k = gm_get (index j) k" for k
    using fun_cong[OF same, of k] ok
    by (cases "clocks i k"; cases "clocks j k") (simp_all add: cell_def cells_ok_def)
  then show ?thesis by (simp add: fun_eq_iff)
qed

text \<open>
  C15.  Replicas converge: two stores that have applied the same set of log entries, in any order and
  with any repetitions, hold the same document under every key and the same clocks, provided a hash
  names one entry and two entries writing one key never carry the same stamp.
\<close>
theorem replicas_converge:
  assumes "log_ok (set es)" and "set es' = set es"
  shows "let i = snd (UpdateIndex dec es [] (newDocumentIndex fs));
             j = snd (UpdateIndex dec es' [] (newDocumentIndex fs))
         in gm_get (index i) = gm_get (index j) \<and> clocks i = clocks j \<and> seen i = seen j"
proof -
  have ok: "log_ok (set es')" using assms by simp
  show ?thesis
    using cells_determine[OF _ _ cells_same_log[OF assms], of dec fs dec fs]
      apply_entries_cells[OF assms(1), of dec fs] apply_entries_cells[OF ok, of dec fs] assms(2)
    by (auto simp: UpdateIndex_def Let_def)
qed

theorem replicas_converge_witness:
  "let a = \<lparr>e_hash = ''h1'', e_stamp = \<lparr>st_time = 1, st_id = ''p''\<rparr>, e_op = Some (OpPut (Some ''k'') ''old'')\<rparr>;
       b = \<lparr>e_hash = ''h2'', e_stamp = \<lparr>st_time = 2, st_id = ''q''\<rparr>, e_op = Some (OpPutAll [(''k'', ''new''), (''j'', ''x'')])\<rparr>
   in gm_get (index (snd (UpdateIndex (\<lambda>_. Some JNull) [a, b] [] (newDocumentIndex [])))) ''k''
    = gm_get (index (snd (UpdateIndex (\<lambda>_. Some JNull) [b, a, b] [] (newDocumentIndex [])))) ''k''"
proof -
  let ?a = "\<lparr>e_hash = ''h1'', e_stamp = \<lparr>st_time = 1, st_id = ''p''\<rparr>, e_op = Some (OpPut (Some ''k'') ''old'')\<rparr>"
  let ?b = "\<lparr>e_hash = ''h2'', e_stamp = \<lparr>st_time = 2, st_id = ''q''\<rparr>, e_op = Some (OpPutAll [(''k'', ''new''), (''j'', ''x'')])\<rparr>"
  have "log_ok (set [?a, ?b])"
    by (simp add: log_ok_def)
  moreover have "set [?b, ?a, ?b] = set [?a, ?b]" by auto
  ultimately have "gm_get (index (snd (UpdateIndex (\<lambda>_. Some JNull) [?a, ?b] [] (newDocumentIndex []))))
    = gm_get (index (snd (UpdateIndex (\<lambda>_. Some JNull) [?b, ?a, ?b] [] (newDocumentIndex []))))"
    using replicas_converge[of "[?a, ?b]" "[?b, ?a, ?b]" "\<lambda>_. Some JNull" "[]"] unfolding Let_def by blast
  then show ?thesis unfolding Let_def by (rule fun_cong)
qed

section \<open>The field indexes are exact\<close>

definition field_keys :: "(string \<rightharpoonup> (string \<rightharpoonup> string list)) \<Rightarrow> string \<Rightarrow> string \<Rightarrow> string list" where
  "field_keys bf f v =
     (case bf f of None \<Rightarrow> [] | Some vals \<Rightarrow> (case vals v of None \<Rightarrow> [] | Some ks \<Rightarrow> ks))"

lemma field_keys_drop:
  "field_keys (drop_key key f v bf) f' v' =
   (if f' = f \<and> v' = v then removeAll key (field_keys bf f v) else field_keys bf f' v')"
  by (auto simp: field_keys_def drop_key_def Let_def split: option.split)

lemma dom_drop [simp]: "dom (drop_key key f v bf) = dom bf"
  by (auto simp: drop_key_def Let_def split: option.splits)

lemma field_keys_add:
  "f \<in> dom bf \<Longrightarrow> field_keys (add_key key f v bf) f' v' =
   (if f' = f \<and> v' = v then List.insert key (field_keys bf f v) else field_keys bf f' v')"
  by (auto simp: field_keys_def add_key_def split: option.split)

lemma distinct_add:
  "distinct (field_keys bf f' v') \<Longrightarrow> distinct (field_keys (add_key key f v bf) f' v')"
  by (cases "bf f") (auto simp: field_keys_add[OF domI], simp add: add_key_def)

lemma dom_add [simp]: "dom (add_key key f v bf) = dom bf"
  by (auto simp: add_key_def split: option.splits)

lemma field_keys_drop_all:
  "set (field_keys (foldl (\<lambda>bf (f, v). drop_key key f v bf) bf vals) f v) =
   set (field_keys bf f v) - (if (f, v) \<in> set vals then {key} else {})"
  "distinct (field_keys bf f v) \<Longrightarrow> distinct (field_keys (foldl (\<lambda>bf (f, v). drop_key key f v bf) bf vals) f v)"
  "dom (foldl (\<lambda>bf (f, v). drop_key key f v bf) bf vals) = dom bf"
  by (induction vals arbitrary: bf) (auto simp: field_keys_drop distinct_removeAll split: prod.splits)

lemma field_keys_add_all:
  assumes "fst ` set vals \<subseteq> dom bf"
  shows "set (field_keys (foldl (\<lambda>bf (f, v). add_key key f v bf) bf vals) f v) =
     set (field_keys bf f v) \<union> (if (f, v) \<in> set vals then {key} else {})"
  using assms
  by (induction vals arbitrary: bf) (auto simp: field_keys_add[OF domI] split: prod.splits if_splits)

lemma distinct_add_all:
  "distinct (field_keys bf f v) \<Longrightarrow> distinct (field_keys (foldl (\<lambda>bf (f, v). add_key key f v bf) bf vals) f v)"
  by (induction vals arbitrary: bf) (auto simp: distinct_add)

lemma dom_add_all: "dom (foldl (\<lambda>bf (f, v). add_key key f v bf) bf vals) = dom bf"
  by (induction vals arbitrary: bf) (simp_all add: split_beta)

lemma string_at_Some [simp]: "string_at obj f = Some s \<longleftrightarrow> gm_get obj f = Some (JStr s)"
  by (auto simp: string_at_def split: option.splits json.splits)

lemma fold_string_fields:
  "gm_wf acc \<Longrightarrow>
   gm_wf (foldl (\<lambda>out f. case string_at obj f of Some s \<Rightarrow> gm_set f s out | None \<Rightarrow> out) acc fs)"
  "gm_get (foldl (\<lambda>out f. case string_at obj f of Some s \<Rightarrow> gm_set f s out | None \<Rightarrow> out) acc fs) f =
   (if f \<in> set fs \<and> string_at obj f \<noteq> None then string_at obj f else gm_get acc f)"
  by (induction fs arbitrary: acc) (auto simp del: string_at_Some split: option.split)

lemma stringFields_get:
  assumes "stringFields dec fs raw = Some vals"
  shows "gm_wf vals" and "gm_get vals f = Some v \<longleftrightarrow>
    f \<in> set fs \<and> (\<exists>obj. dec raw = Some (JObj obj) \<and> gm_get obj f = Some (JStr v))"
proof -
  consider (obj) obj where "dec raw = Some (JObj obj)"
      "vals = foldl (\<lambda>out f. case string_at obj f of Some s \<Rightarrow> gm_set f s out | None \<Rightarrow> out) [] fs"
    | (null) "dec raw = Some JNull" "vals = []"
    using assms by (auto simp: stringFields_def split: option.splits json.splits)
  then have "gm_wf vals \<and> (gm_get vals f = Some v \<longleftrightarrow>
    f \<in> set fs \<and> (\<exists>obj. dec raw = Some (JObj obj) \<and> gm_get obj f = Some (JStr v)))"
  proof cases
    case obj
    then show ?thesis
      using fold_string_fields(1)[of "[]" obj fs] fold_string_fields(2)[of obj "[]" fs f] by auto
  qed simp
  then show "gm_wf vals" and "gm_get vals f = Some v \<longleftrightarrow>
    f \<in> set fs \<and> (\<exists>obj. dec raw = Some (JObj obj) \<and> gm_get obj f = Some (JStr v))" by blast+
qed

text \<open>The fields of a stored document as the index keeps them (\<open>None\<close> when it keeps none).\<close>

definition kept_fields :: "(string \<Rightarrow> json option) \<Rightarrow> string list \<Rightarrow> string option \<Rightarrow> (string, string) gomap option" where
  "kept_fields dec fs raw =
     (case raw of None \<Rightarrow> None
      | Some b \<Rightarrow> (case stringFields dec fs b of Some (p # ps) \<Rightarrow> Some (p # ps) | _ \<Rightarrow> None))"

definition fields_ok :: "(string \<Rightarrow> json option) \<Rightarrow> doc_index \<Rightarrow> bool" where
  "fields_ok dec i \<longleftrightarrow> dom (byField i) \<subseteq> set (indexed_fields i) \<and> (indexed_fields i \<noteq> [] \<and> \<not> fieldsOff i \<longrightarrow>
     dom (byField i) = set (indexed_fields i)
     \<and> (\<forall>k raw. gm_get (index i) k = Some raw \<longrightarrow> stringFields dec (indexed_fields i) raw \<noteq> None)
     \<and> (\<forall>k. fieldVals i k = kept_fields dec (indexed_fields i) (gm_get (index i) k))
     \<and> (\<forall>f v. distinct (field_keys (byField i) f v)
          \<and> set (field_keys (byField i) f v) = {k. \<exists>vals. fieldVals i k = Some vals \<and> (f, v) \<in> set vals}))"

lemma kept_fields_mem:
  assumes "kept_fields dec fs raw = Some vals"
  shows "fst ` set vals \<subseteq> set fs"
    and "(f, v) \<in> set vals \<longleftrightarrow>
      f \<in> set fs \<and> (\<exists>b obj. raw = Some b \<and> dec b = Some (JObj obj) \<and> gm_get obj f = Some (JStr v))"
proof -
  obtain b where b: "raw = Some b" "stringFields dec fs b = Some vals"
    using assms by (auto simp: kept_fields_def split: option.splits list.splits)
  have mem: "(g, w) \<in> set vals \<longleftrightarrow> gm_get vals g = Some w" for g w
    using stringFields_get(1)[OF b(2)] by simp
  show "fst ` set vals \<subseteq> set fs"
    using mem stringFields_get(2)[OF b(2)] by auto
  show "(f, v) \<in> set vals \<longleftrightarrow>
      f \<in> set fs \<and> (\<exists>b obj. raw = Some b \<and> dec b = Some (JObj obj) \<and> gm_get obj f = Some (JStr v))"
    unfolding mem using stringFields_get(2)[OF b(2)] b(1) by simp
qed

lemma unindex_ok:
  assumes "fields_ok dec i" and "indexed_fields i \<noteq> []" and "\<not> fieldsOff i"
  shows "dom (byField (unindexFields k i)) = set (indexed_fields i)"
    and "fieldVals (unindexFields k i) = (fieldVals i)(k := None)"
    and "distinct (field_keys (byField (unindexFields k i)) f v)"
    and "set (field_keys (byField (unindexFields k i)) f v)
       = {j. \<exists>vals. ((fieldVals i)(k := None)) j = Some vals \<and> (f, v) \<in> set vals}"
proof -
  have d: "dom (byField i) = set (indexed_fields i)"
    and s: "distinct (field_keys (byField i) f v)"
      "set (field_keys (byField i) f v) = {k. \<exists>vals. fieldVals i k = Some vals \<and> (f, v) \<in> set vals}" for f v
    using assms by (simp_all add: fields_ok_def)
  show "dom (byField (unindexFields k i)) = set (indexed_fields i)"
    using d by (cases "fieldVals i k") (simp_all add: unindexFields_def field_keys_drop_all)
  show "fieldVals (unindexFields k i) = (fieldVals i)(k := None)"
    by (cases "fieldVals i k") (auto simp: unindexFields_def)
  show "distinct (field_keys (byField (unindexFields k i)) f v)"
    using s by (cases "fieldVals i k") (simp_all add: unindexFields_def field_keys_drop_all)
  show "set (field_keys (byField (unindexFields k i)) f v)
       = {j. \<exists>vals. ((fieldVals i)(k := None)) j = Some vals \<and> (f, v) \<in> set vals}"
    using s by (cases "fieldVals i k") (auto simp: unindexFields_def field_keys_drop_all)
qed

lemma fields_ok_irrelevant [simp]:
  "fields_ok dec (i\<lparr>clocks := c\<rparr>) = fields_ok dec i" "fields_ok dec (i\<lparr>seen := s\<rparr>) = fields_ok dec i"
  by (simp_all add: fields_ok_def)

lemma unindex_index:
  "unindexFields k (i\<lparr>index := m\<rparr>) = (unindexFields k i)\<lparr>index := m\<rparr>"
  by (simp add: unindexFields_def split: option.split)

lemma fields_ok_delKey:
  assumes ok: "fields_ok dec i"
  shows "fields_ok dec (delKey k i)"
proof (cases "indexed_fields i \<noteq> [] \<and> \<not> fieldsOff i")
  case True
  let ?j = "unindexFields k i"
  have j: "delKey k i = ?j\<lparr>index := gm_del k (index i)\<rparr>"
    using True by (simp add: delKey_def unindex_index)
  note u = unindex_ok[OF ok conjunct1[OF True] conjunct2[OF True], of k]
  have "\<forall>k. fieldVals i k = kept_fields dec (indexed_fields i) (gm_get (index i) k)"
    "\<forall>k raw. gm_get (index i) k = Some raw \<longrightarrow> stringFields dec (indexed_fields i) raw \<noteq> None"
    using ok True by (simp_all add: fields_ok_def)
  then show ?thesis
    unfolding fields_ok_def j using u by (simp add: kept_fields_def)
next
  case False
  with ok show ?thesis by (cases "fieldsOff i") (simp_all add: delKey_def fields_ok_def)
qed

lemma fields_ok_setKey:
  assumes ok: "fields_ok dec i"
  shows "fields_ok dec (setKey dec k raw i)"
proof (cases "indexed_fields i \<noteq> [] \<and> \<not> fieldsOff i")
  case False
  with ok show ?thesis by (cases "fieldsOff i") (simp_all add: setKey_def fields_ok_def)
next
  case True
  let ?fs = "indexed_fields i" and ?j = "unindexFields k i"
  note u = unindex_ok[OF ok conjunct1[OF True] conjunct2[OF True], of k]
  have fv: "\<forall>k. fieldVals i k = kept_fields dec ?fs (gm_get (index i) k)"
    and good: "\<forall>k raw. gm_get (index i) k = Some raw \<longrightarrow> stringFields dec ?fs raw \<noteq> None"
    using ok True by (simp_all add: fields_ok_def)
  show ?thesis
  proof (cases "stringFields dec ?fs raw")
    case None
    with True show ?thesis by (simp add: setKey_def unindex_index Let_def fields_ok_def)
  next
    case (Some vals)
    show ?thesis
    proof (cases vals)
      case Nil
      with True Some have "setKey dec k raw i = ?j\<lparr>index := gm_set k raw (index i)\<rparr>"
        by (simp add: setKey_def unindex_index Let_def)
      then show ?thesis
        unfolding fields_ok_def using u fv good Some Nil by (simp add: kept_fields_def)
    next
      case (Cons p ps)
      let ?bf = "foldl (\<lambda>bf (f, v). add_key k f v bf) (byField ?j) vals"
      have j: "setKey dec k raw i = ?j\<lparr>index := gm_set k raw (index i), fieldVals := (fieldVals ?j)(k \<mapsto> vals), byField := ?bf\<rparr>"
        using True Some Cons by (simp add: setKey_def unindex_index Let_def)
      have kept: "kept_fields dec ?fs (Some raw) = Some vals"
        using Some Cons by (simp add: kept_fields_def)
      then have sub: "fst ` set vals \<subseteq> dom (byField ?j)"
        using kept_fields_mem(1) u(1) by metis
      note a = field_keys_add_all[OF sub, where key = k]
      have "set (field_keys ?bf f v) = {j. \<exists>w. ((fieldVals i)(k \<mapsto> vals)) j = Some w \<and> (f, v) \<in> set w}" for f v
        unfolding a u(4) by auto
      moreover have "distinct (field_keys ?bf f v)" for f v
        using distinct_add_all u(3) by blast
      ultimately show ?thesis
        unfolding fields_ok_def j using u(1,2) fv good Some kept by (simp add: dom_add_all)
    qed
  qed
qed

lemma fields_ok_write_key: "fields_ok dec i \<Longrightarrow> fields_ok dec (write_key dec st k v i)"
  by (simp add: write_key_def fields_ok_setKey fields_ok_delKey split: option.split)

lemma fields_ok_put_all: "fields_ok dec i \<Longrightarrow> fields_ok dec (put_all dec st docs i)"
  by (induction dec st docs i rule: put_all.induct) (simp_all add: fields_ok_write_key)

lemma fields_ok_apply_entry: "fields_ok dec i \<Longrightarrow> fields_ok dec (snd (apply_entry dec e i))"
  by (simp add: apply_entry_def Let_def fields_ok_put_all fields_ok_write_key split: option.split operation.split)

lemma fields_ok_apply_entries: "fields_ok dec i \<Longrightarrow> fields_ok dec (snd (apply_entries dec es i))"
proof (induction es arbitrary: i)
  case (Cons e es)
  from Cons.IH[OF fields_ok_apply_entry[OF Cons.prems, of e]] show ?case
    using fields_ok_apply_entry[OF Cons.prems, of e] by (cases "apply_entry dec e i") simp
qed simp

lemma fields_ok_new: "fields_ok dec (newDocumentIndex fs)"
proof -
  have "dom (byField (newDocumentIndex fs)) = set fs"
    by (auto simp: newDocumentIndex_def split: if_splits)
  moreover have "field_keys (byField (newDocumentIndex fs)) f v = []" for f v
    by (simp add: field_keys_def newDocumentIndex_def)
  ultimately show ?thesis
    by (simp add: fields_ok_def) (simp add: newDocumentIndex_def kept_fields_def)
qed

lemma gm_wf_write_key: "gm_wf (index i) \<Longrightarrow> gm_wf (index (write_key dec st k v i))"
  by (simp add: write_key_def split: option.split)

lemma gm_wf_put_all: "gm_wf (index i) \<Longrightarrow> gm_wf (index (put_all dec st docs i))"
  by (induction dec st docs i rule: put_all.induct) (simp_all add: gm_wf_write_key)

lemma gm_wf_apply_entry: "gm_wf (index i) \<Longrightarrow> gm_wf (index (snd (apply_entry dec e i)))"
  by (simp add: apply_entry_def Let_def gm_wf_put_all gm_wf_write_key split: option.split operation.split)

lemma fields_apply_entry [simp]: "indexed_fields (snd (apply_entry dec e i)) = indexed_fields i"
  by (simp add: apply_entry_def Let_def split: option.split operation.split)

lemma apply_entries_frame:
  "gm_wf (index i) \<Longrightarrow> gm_wf (index (snd (apply_entries dec es i)))
   \<and> indexed_fields (snd (apply_entries dec es i)) = indexed_fields i"
proof (induction es arbitrary: i)
  case (Cons e es)
  from Cons.IH[OF gm_wf_apply_entry[OF Cons.prems, of dec e]] show ?case
    using gm_wf_apply_entry[OF Cons.prems, of dec e] fields_apply_entry[of dec e i]
    by (cases "apply_entry dec e i") simp
qed simp

text \<open>A store is what applying log entries to the empty index gives.\<close>

definition loaded :: "(string \<Rightarrow> json option) \<Rightarrow> string list \<Rightarrow> entry list \<Rightarrow> doc_index" where
  "loaded dec fs es = snd (UpdateIndex dec es [] (newDocumentIndex fs))"

definition field_is :: "(string \<Rightarrow> json option) \<Rightarrow> string \<Rightarrow> string \<Rightarrow> string \<Rightarrow> bool" where
  "field_is dec f v raw \<longleftrightarrow> (\<exists>obj. dec raw = Some (JObj obj) \<and> gm_get obj f = Some (JStr v))"

lemma field_keys_exact:
  assumes ok: "fields_ok dec i" "\<not> fieldsOff i" and f': "byField i f \<noteq> None"
  shows "distinct (field_keys (byField i) f v)"
    and "set (field_keys (byField i) f v) = {k. \<exists>raw. index_Get i k = Some raw \<and> field_is dec f v raw}"
proof -
  have f: "f \<in> set (indexed_fields i)"
    using ok(1) f' by (auto simp: fields_ok_def)
  then have on: "indexed_fields i \<noteq> [] \<and> \<not> fieldsOff i" using ok(2) by auto
  then have fv: "\<And>k. fieldVals i k = kept_fields dec (indexed_fields i) (gm_get (index i) k)"
    and set: "set (field_keys (byField i) f v) = {k. \<exists>vals. fieldVals i k = Some vals \<and> (f, v) \<in> set vals}"
    and dist: "distinct (field_keys (byField i) f v)"
    and good: "\<And>k raw. gm_get (index i) k = Some raw \<Longrightarrow> stringFields dec (indexed_fields i) raw \<noteq> None"
    using ok(1) by (simp_all add: fields_ok_def)
  show "distinct (field_keys (byField i) f v)"
    by (rule dist)
  have "(\<exists>vals. fieldVals i k = Some vals \<and> (f, v) \<in> set vals)
      \<longleftrightarrow> (\<exists>raw. index_Get i k = Some raw \<and> field_is dec f v raw)" for k
  proof
    assume "\<exists>vals. fieldVals i k = Some vals \<and> (f, v) \<in> set vals"
    then show "\<exists>raw. index_Get i k = Some raw \<and> field_is dec f v raw"
      using kept_fields_mem(2) fv unfolding index_Get_def field_is_def by metis
  next
    assume "\<exists>raw. index_Get i k = Some raw \<and> field_is dec f v raw"
    then obtain raw where raw: "gm_get (index i) k = Some raw" "field_is dec f v raw"
      by (auto simp: index_Get_def)
    obtain vals where vals: "stringFields dec (indexed_fields i) raw = Some vals"
      using good[OF raw(1)] by blast
    have "gm_get vals f = Some v"
      using stringFields_get(2)[OF vals] f raw(2) by (simp add: field_is_def)
    then have "(f, v) \<in> set vals" by (rule map_of_SomeD)
    moreover have "fieldVals i k = Some vals"
      using fv[of k] raw(1) vals \<open>(f, v) \<in> set vals\<close> by (cases vals) (auto simp: kept_fields_def)
    ultimately show "\<exists>vals. fieldVals i k = Some vals \<and> (f, v) \<in> set vals" by blast
  qed
  then show "set (field_keys (byField i) f v) = {k. \<exists>raw. index_Get i k = Some raw \<and> field_is dec f v raw}"
    using set by simp
qed

lemma UpdateIndex_loaded: "UpdateIndex dec es [] i = apply_entries dec es i"
  by (simp add: UpdateIndex_def)

lemma loaded_ok:
  "fields_ok dec (loaded dec fs es)" "gm_wf (index (loaded dec fs es))" "indexed_fields (loaded dec fs es) = fs"
  using fields_ok_apply_entries[OF fields_ok_new, of dec es fs] apply_entries_frame[of "newDocumentIndex fs" dec es]
  by (simp_all add: loaded_def UpdateIndex_loaded) (simp_all add: newDocumentIndex_def)

section \<open>Intersections and exact answers\<close>

lemma smallest_from_bound: "best < length sets \<Longrightarrow> j + length ss \<le> length sets \<Longrightarrow> smallest_from sets best j ss < length sets"
  by (induction sets best j ss rule: smallest_from.induct) auto

lemma intersect_sets_spec:
  assumes "sets \<noteq> []"
  shows "set (intersect_sets sets) = (\<Inter>s \<in> set sets. set s)"
    and "\<forall>s \<in> set sets. distinct s \<Longrightarrow> distinct (intersect_sets sets)"
proof -
  let ?m = "smallest_from sets 0 0 sets"
  have m: "?m < length sets"
    using assms by (intro smallest_from_bound) auto
  have "k \<in> set (intersect_sets sets) \<longleftrightarrow> (\<forall>j < length sets. k \<in> set (sets ! j))" for k
    using m by (auto simp: intersect_sets_def Let_def)
  moreover have "(\<forall>j < length sets. k \<in> set (sets ! j)) \<longleftrightarrow> (\<forall>s \<in> set sets. k \<in> set s)" for k
    by (metis in_set_conv_nth)
  ultimately show "set (intersect_sets sets) = (\<Inter>s \<in> set sets. set s)"
    by (intro set_eqI) simp
  show "distinct (intersect_sets sets)" if "\<forall>s \<in> set sets. distinct s"
    using that m by (simp add: intersect_sets_def Let_def)
qed

lemma equality_sets_map:
  "equality_sets i eqs = map (\<lambda>(f, v). field_keys (byField i) f v) (filter (\<lambda>(f, v). byField i f \<noteq> None) eqs)"
  by (induction i eqs rule: equality_sets.induct) (auto simp: field_keys_def split: option.split)

lemma equality_sets_set:
  "set (equality_sets i eqs) = (\<lambda>(f, v). field_keys (byField i) f v) ` {(f, v) \<in> set eqs. byField i f \<noteq> None}"
  unfolding equality_sets_map set_map set_filter by (rule image_cong) auto

lemma equality_sets_nonempty: "equality_sets i eqs = [] \<longleftrightarrow> (\<forall>(f, v) \<in> set eqs. byField i f = None)"
  by (induction i eqs rule: equality_sets.induct) (auto split: option.splits)

lemma keysByFields_spec:
  assumes ok: "fields_ok dec i" and ks: "keysByFields i eqs = Some ks"
  shows "distinct ks"
    and "set ks = {k. \<forall>(f, v) \<in> set eqs. byField i f \<noteq> None \<longrightarrow>
                        (\<exists>raw. index_Get i k = Some raw \<and> field_is dec f v raw)}"
    and "\<exists>(f, v) \<in> set eqs. byField i f \<noteq> None"
proof -
  have on: "\<not> fieldsOff i" and ne: "equality_sets i eqs \<noteq> []" and eq: "ks = intersect_sets (equality_sets i eqs)"
    using ks by (auto simp: keysByFields_def Let_def split: if_splits)
  note ex = field_keys_exact[OF ok on]
  have "\<forall>s \<in> set (equality_sets i eqs). distinct s"
    unfolding equality_sets_set using ex(1) by auto
  then show "distinct ks"
    using intersect_sets_spec(2)[OF ne] eq by simp
  show "\<exists>(f, v) \<in> set eqs. byField i f \<noteq> None"
    using ne unfolding equality_sets_nonempty by blast
  have "set ks = (\<Inter>(f, v) \<in> {(f, v) \<in> set eqs. byField i f \<noteq> None}. set (field_keys (byField i) f v))"
    unfolding eq intersect_sets_spec(1)[OF ne] equality_sets_set by auto
  also have "\<dots> = {k. \<forall>(f, v) \<in> set eqs. byField i f \<noteq> None \<longrightarrow>
                        (\<exists>raw. index_Get i k = Some raw \<and> field_is dec f v raw)}"
    using ex(2) by fastforce
  finally show "set ks = {k. \<forall>(f, v) \<in> set eqs. byField i f \<noteq> None \<longrightarrow>
                        (\<exists>raw. index_Get i k = Some raw \<and> field_is dec f v raw)}" .
qed

text \<open>The stored bytes under a set of keys that a predicate selects are the selected stored bytes.\<close>

lemma selected_raws:
  assumes "distinct ks" and "gm_wf m" and "set ks = {k. \<exists>raw. gm_get m k = Some raw \<and> P raw}"
  shows "mset (List.map_filter (gm_get m) ks) = mset (filter P (map snd m))"
proof -
  let ?sel = "filter (\<lambda>(k, raw). P raw) m"
  have wf: "distinct (map fst ?sel)"
    using assms(2) by (induction m) auto
  have "set (map fst ?sel) = set ks"
    using assms(2,3) by force
  then have "mset ks = mset (map fst ?sel)"
    using wf assms(1) set_eq_iff_mset_eq_distinct by blast
  moreover have "List.map_filter (gm_get m) xs = map (the \<circ> gm_get m) xs" if "set xs \<subseteq> fst ` set m" for xs
    using that by (induction xs) (auto simp: map_filter_simps dest!: weak_map_of_SomeI)
  moreover have "set ks \<subseteq> fst ` set m"
    using assms(3) by (force dest: map_of_SomeD)
  ultimately have "mset (List.map_filter (gm_get m) ks) = image_mset (the \<circ> gm_get m) (mset (map fst ?sel))"
    by simp
  also have "\<dots> = mset (map (the \<circ> gm_get m \<circ> fst) ?sel)"
    by (simp add: multiset.map_comp)
  also have "map (the \<circ> gm_get m \<circ> fst) ?sel = map snd ?sel"
    using assms(2) by auto
  also have "map snd ?sel = filter P (map snd m)"
    by (induction m) auto
  finally show ?thesis .
qed

lemma rawsByFields_spec:
  assumes ok: "fields_ok dec i" and wf: "gm_wf (index i)" and raws: "rawsByFields i eqs = Some raws"
  shows "mset raws = mset (filter (\<lambda>raw. \<forall>(f, v) \<in> set eqs. field_is dec f v raw) (map snd (index i)))"
proof -
  have on: "\<not> fieldsOff i" and ne: "eqs \<noteq> []" and all: "\<forall>(f, v) \<in> set eqs. byField i f \<noteq> None"
    and eq: "raws = List.map_filter (index_Get i) (intersect_sets (equality_sets i eqs))"
    using raws by (auto simp: rawsByFields_def split: if_splits)
  have ne': "equality_sets i eqs \<noteq> []"
    using ne all unfolding equality_sets_nonempty by (cases eqs) auto
  then have "keysByFields i eqs = Some (intersect_sets (equality_sets i eqs))"
    using on by (simp add: keysByFields_def Let_def)
  note k = keysByFields_spec[OF ok this]
  obtain f0 v0 where f0: "(f0, v0) \<in> set eqs" using ne by (cases eqs) auto
  have "(\<forall>(f, v) \<in> set eqs. byField i f \<noteq> None \<longrightarrow> (\<exists>raw. index_Get i k = Some raw \<and> field_is dec f v raw))
      \<longleftrightarrow> (\<exists>raw. gm_get (index i) k = Some raw \<and> (\<forall>(f, v) \<in> set eqs. field_is dec f v raw))" for k
  proof (cases "gm_get (index i) k")
    case None
    then show ?thesis using bspec[OF all f0] f0 by (auto simp: index_Get_def intro!: bexI[OF _ f0])
  next
    case (Some raw)
    then show ?thesis using all by (simp add: index_Get_def split_beta)
  qed
  then have "set (intersect_sets (equality_sets i eqs)) =
      {k. \<exists>raw. gm_get (index i) k = Some raw \<and> (\<forall>(f, v) \<in> set eqs. field_is dec f v raw)}"
    unfolding k(2) by (rule Collect_cong)
  from selected_raws[OF k(1) wf this] show ?thesis
    by (simp add: eq index_Get_def[abs_def])
qed

text \<open>
  C16.  The field indexes are exact after any sequence of log entries: the keys found for a field and
  a value are, without repetitions, the keys of exactly the stored documents that decode to an object
  with that string under that field.
\<close>
theorem field_indexes_exact:
  assumes "keysByField (loaded dec fs es) f v = Some ks"
  shows "distinct ks \<and> set ks = {k. \<exists>raw. index_Get (loaded dec fs es) k = Some raw \<and> field_is dec f v raw}"
proof -
  have "\<not> fieldsOff (loaded dec fs es)" "byField (loaded dec fs es) f \<noteq> None"
    "ks = field_keys (byField (loaded dec fs es)) f v"
    using assms by (auto simp: keysByField_def field_keys_def split: if_splits option.splits)
  then show ?thesis using field_keys_exact[OF loaded_ok(1)] by simp
qed

text \<open>
  A query answered from the field indexes alone is exact: when every field of the equalities is
  indexed, the stored documents returned without decoding are exactly those that decode to an object
  satisfying all the equalities.
\<close>
theorem raw_answers_exact:
  assumes "rawsByFields (loaded dec fs es) eqs = Some raws"
  shows "mset raws = mset (filter (\<lambda>raw. list_all (\<lambda>(f, v). field_is dec f v raw) eqs) (map snd (index (loaded dec fs es))))"
  using rawsByFields_spec[OF loaded_ok(1,2) assms] by (simp add: list_all_iff)

text \<open>A store with one indexed field and two documents, for the two statements above.\<close>

definition two_docs :: "doc_index" where
  "two_docs = loaded (\<lambda>raw. Some (JObj [(''v'', JStr raw)])) [''v'']
     [\<lparr>e_hash = ''h1'', e_stamp = \<lparr>st_time = 1, st_id = ''p''\<rparr>, e_op = Some (OpPut (Some ''k'') ''x'')\<rparr>,
      \<lparr>e_hash = ''h2'', e_stamp = \<lparr>st_time = 2, st_id = ''p''\<rparr>, e_op = Some (OpPut (Some ''j'') ''x'')\<rparr>]"

lemma two_docs_fields:
  "fieldsOff two_docs = False" "byField two_docs = [''v'' \<mapsto> [''x'' \<mapsto> [''j'', ''k'']]]"
  by (simp_all add: two_docs_def loaded_def UpdateIndex_def newDocumentIndex_def apply_entry_def write_key_def
      newer_def setKey_def unindexFields_def stringFields_def string_at_def add_key_def Let_def fun_eq_iff)

theorem field_indexes_exact_witness:
  "keysByField two_docs ''v'' ''x'' = Some [''j'', ''k'']
   \<and> {k. \<exists>raw. index_Get two_docs k = Some raw \<and> field_is (\<lambda>raw. Some (JObj [(''v'', JStr raw)])) ''v'' ''x'' raw}
     = {''j'', ''k''}"
proof -
  have ks: "keysByField two_docs ''v'' ''x'' = Some [''j'', ''k'']"
    by (simp add: keysByField_def two_docs_fields)
  from field_indexes_exact[OF this[unfolded two_docs_def]] ks show ?thesis
    by (simp add: two_docs_def[symmetric])
qed

theorem raw_answers_exact_witness:
  "\<exists>raws. rawsByFields two_docs [(''v'', ''x'')] = Some raws
     \<and> mset raws = mset (filter (\<lambda>raw. raw = ''x'') (map snd (index two_docs)))"
proof -
  obtain raws where r: "rawsByFields two_docs [(''v'', ''x'')] = Some raws"
    by (simp add: rawsByFields_def two_docs_fields)
  from raw_answers_exact[OF this[unfolded two_docs_def]] r show ?thesis
    by (auto simp: field_is_def two_docs_def[symmetric])
qed

end
