(* ===== verification/DocStore.thy ===== *)
theory DocStore
  imports DocIndex
begin

text \<open>
  The patched document store (\<open>stores/documentstore/document.go\<close>, \<open>AddOperation\<close> of
  \<open>stores/basestore/base_store.go\<close>): writing documents through the operation log and reading them
  back.  What lies outside the repository is data of the state: \<open>json.Marshal\<close> and \<open>json.Unmarshal\<close>
  (\<open>marshal\<close>, \<open>unmarshal\<close>), and, for the \<open>n\<close>-th append to the IPFS log, whether it and the write of the
  head cache succeed (\<open>outcome\<close>) and the hash of the new entry (\<open>hash_at\<close>).  The log gives every
  appended entry a Lamport time above all the times it holds.

  The interface the writers of \<open>app\<close> rely on is the locale \<open>doc_writer\<close>, interpreted here on the
  store.
\<close>

section \<open>The store\<close>

datatype append_outcome = Appended | AppendFails | CacheFails

record docstore =
  ix :: doc_index
  marshal :: "json \<Rightarrow> string option"
  unmarshal :: "string \<Rightarrow> json option"
  oplog :: "entry list"
  log_time :: int
  log_id :: string
  appends :: nat
  outcome :: "nat \<Rightarrow> append_outcome"
  hash_at :: "nat \<Rightarrow> string"

definition MapKeyExtractor :: "string \<Rightarrow> json \<Rightarrow> string option" where
  "MapKeyExtractor keyField obj =
     (case obj of JObj mapped \<Rightarrow> (case gm_get mapped keyField of Some (JStr key) \<Rightarrow> Some key | _ \<Rightarrow> None) | _ \<Rightarrow> None)"

text \<open>\<open>AddOperation\<close>: append, write the local head to the cache, apply the new entry to the index.\<close>

definition AddOperation :: "operation \<Rightarrow> docstore \<Rightarrow> bool \<times> docstore" where
  "AddOperation item s =
     (let n = appends s; s1 = s\<lparr>appends := n + 1\<rparr>
      in case outcome s n of
           AppendFails \<Rightarrow> (False, s1)
         | oc \<Rightarrow>
             (let e = \<lparr>e_hash = hash_at s n, e_stamp = \<lparr>st_time = log_time s + 1, st_id = log_id s\<rparr>,
                       e_op = Some item\<rparr>;
                  s2 = s1\<lparr>oplog := oplog s @ [e], log_time := log_time s + 1\<rparr>
              in if oc = CacheFails then (False, s2)
                 else case UpdateIndex (unmarshal s) (oplog s2) [e] (ix s) of
                        (ok, i) \<Rightarrow> (ok, s2\<lparr>ix := i\<rparr>)))"

definition render :: "docstore \<Rightarrow> json \<Rightarrow> (string \<times> string) option" where
  "render s d =
     (case MapKeyExtractor ''_id'' d of
        None \<Rightarrow> None
      | Some key \<Rightarrow> (case marshal s d of None \<Rightarrow> None | Some data \<Rightarrow> Some (key, data)))"

definition store_Put :: "json \<Rightarrow> docstore \<Rightarrow> bool \<times> docstore" where
  "store_Put d s =
     (case render s d of
        None \<Rightarrow> (False, s)
      | Some (key, data) \<Rightarrow> AddOperation (OpPut (Some key) data) s)"

text \<open>The loop of \<open>PutAll\<close> that builds the map of documents; \<open>None\<close> when one has no key or does not
  marshal.\<close>

fun collect_docs :: "docstore \<Rightarrow> json list \<Rightarrow> (string, string) gomap \<Rightarrow> (string, string) gomap option" where
  "collect_docs s [] toAdd = Some toAdd"
| "collect_docs s (d # ds) toAdd =
     (case render s d of None \<Rightarrow> None | Some (key, data) \<Rightarrow> collect_docs s ds (gm_set key data toAdd))"

definition store_PutAll :: "json list \<Rightarrow> docstore \<Rightarrow> bool \<times> docstore" where
  "store_PutAll ds s =
     (case collect_docs s ds [] of
        None \<Rightarrow> (False, s)
      | Some toAdd \<Rightarrow> AddOperation (OpPutAll toAdd) s)"

definition store_Delete :: "string \<Rightarrow> docstore \<Rightarrow> bool \<times> docstore" where
  "store_Delete key s =
     (if index_Get (ix s) key = None then (False, s) else AddOperation (OpDel (Some key)) s)"

definition GetRaw :: "docstore \<Rightarrow> string \<Rightarrow> string option" where
  "GetRaw s key = index_Get (ix s) key"

definition HasKey :: "docstore \<Rightarrow> string \<Rightarrow> bool" where
  "HasKey s key = hasKey (ix s) key"

text \<open>\<open>Get\<close> with the default options: exact, case-sensitive; a key with a space is compared, its dots
  replaced by spaces, with every key of the store.  \<open>None\<close> is a decoding error.\<close>

definition dots_to_spaces :: "string \<Rightarrow> string" where
  "dots_to_spaces = map (\<lambda>c. if c = CHR ''.'' then CHR '' '' else c)"

definition store_Get :: "docstore \<Rightarrow> string \<Rightarrow> json list option" where
  "store_Get s key0 =
     (let multi = (CHR '' '' \<in> set key0); key = (if multi then dots_to_spaces key0 else key0)
      in if \<not> multi then
           (case index_Get (ix s) key of
              None \<Rightarrow> Some []
            | Some raw \<Rightarrow> (case unmarshal s raw of None \<Rightarrow> None | Some d \<Rightarrow> Some [d]))
         else those (map (\<lambda>(k, raw). unmarshal s raw) (filter (\<lambda>(k, raw). k = key) (index (ix s)))))"

text \<open>Scanning keys with a filter; \<open>None\<close> when a document does not decode or the filter panics.\<close>

fun filterKeys :: "docstore \<Rightarrow> string list \<Rightarrow> (json \<Rightarrow> bool option) \<Rightarrow> json list option" where
  "filterKeys s [] flt = Some []"
| "filterKeys s (k # ks) flt =
     (case index_Get (ix s) k of
        None \<Rightarrow> filterKeys s ks flt
      | Some raw \<Rightarrow>
          (case unmarshal s raw of
             None \<Rightarrow> None
           | Some d \<Rightarrow>
               (case flt d of
                  None \<Rightarrow> None
                | Some keep \<Rightarrow>
                    map_option (\<lambda>ds. if keep then d # ds else ds) (filterKeys s ks flt))))"

definition store_Query :: "docstore \<Rightarrow> (json \<Rightarrow> bool option) \<Rightarrow> json list option" where
  "store_Query s flt = filterKeys s (Keys (ix s)) flt"

text \<open>\<open>QueryIndexed\<close>: \<open>None\<close> when no field of the equalities is indexed.\<close>

definition QueryIndexed :: "docstore \<Rightarrow> (string, string) gomap \<Rightarrow> (json \<Rightarrow> bool option) \<Rightarrow> json list option option" where
  "QueryIndexed s eqs flt =
     (case keysByFields (ix s) eqs of None \<Rightarrow> None | Some keys \<Rightarrow> Some (filterKeys s keys flt))"

fun rawMatches :: "docstore \<Rightarrow> string list \<Rightarrow> (json \<Rightarrow> bool option) \<Rightarrow> string list option" where
  "rawMatches s [] flt = Some []"
| "rawMatches s (k # ks) flt =
     (case index_Get (ix s) k of
        None \<Rightarrow> rawMatches s ks flt
      | Some raw \<Rightarrow>
          (case unmarshal s raw of
             None \<Rightarrow> None
           | Some d \<Rightarrow>
               (case flt d of
                  None \<Rightarrow> None
                | Some keep \<Rightarrow>
                    map_option (\<lambda>rs. if keep then raw # rs else rs) (rawMatches s ks flt))))"

definition QueryRaw :: "docstore \<Rightarrow> (string, string) gomap \<Rightarrow> (json \<Rightarrow> bool option) \<Rightarrow> string list option" where
  "QueryRaw s eqs flt =
     (case keysByFields (ix s) eqs of
        Some keys \<Rightarrow> rawMatches s (if eqs = [] then Keys (ix s) else keys) flt
      | None \<Rightarrow> rawMatches s (Keys (ix s)) flt)"

definition QueryRawExact :: "docstore \<Rightarrow> (string, string) gomap \<Rightarrow> string list option" where
  "QueryRawExact s eqs = rawsByFields (ix s) eqs"

text \<open>Entries arriving from other replicas.\<close>

definition replicate_entries :: "entry list \<Rightarrow> docstore \<Rightarrow> bool \<times> docstore" where
  "replicate_entries es s =
     (let s1 = s\<lparr>oplog := oplog s @ es, log_time := foldl (\<lambda>t e. max t (st_time (e_stamp e))) (log_time s) es\<rparr>
      in case UpdateIndex (unmarshal s) (oplog s1) [] (ix s) of (ok, i) \<Rightarrow> (ok, s1\<lparr>ix := i\<rparr>))"

section \<open>The writer's view of a store\<close>

text \<open>Storing a rendered document; a document whose key is empty is acknowledged but not stored.\<close>

definition keep :: "string \<times> string \<Rightarrow> (string \<rightharpoonup> string) \<Rightarrow> (string \<rightharpoonup> string)" where
  "keep kv m = (if fst kv = '''' then m else m(fst kv \<mapsto> snd kv))"

definition keep_all :: "('d \<Rightarrow> (string \<times> string) option) \<Rightarrow> 'd list \<Rightarrow> (string \<rightharpoonup> string) \<Rightarrow> (string \<rightharpoonup> string)" where
  "keep_all rnd ds m = foldl (\<lambda>m d. case rnd d of Some kv \<Rightarrow> keep kv m | None \<Rightarrow> m) m ds"

lemma keep_all_Nil [simp]: "keep_all rnd [] m = m"
  by (simp add: keep_all_def)

lemma keep_all_Cons [simp]: "keep_all rnd (d # ds) m = keep_all rnd ds (case rnd d of Some kv \<Rightarrow> keep kv m | None \<Rightarrow> m)"
  by (simp add: keep_all_def)

lemma keep_all_append [simp]: "keep_all rnd (ds @ ds') m = keep_all rnd ds' (keep_all rnd ds m)"
  by (simp add: keep_all_def)

locale doc_writer =
  fixes put :: "'d \<Rightarrow> 's \<Rightarrow> bool \<times> 's"
    and put_all :: "'d list \<Rightarrow> 's \<Rightarrow> bool \<times> 's"
    and rnd :: "'s \<Rightarrow> 'd \<Rightarrow> (string \<times> string) option"
    and content :: "'s \<Rightarrow> string \<rightharpoonup> string"
    and inv :: "'s \<Rightarrow> bool"
  assumes put_done: "inv s \<Longrightarrow> put d s = (True, s') \<Longrightarrow> inv s' \<and> rnd s' = rnd s \<and> content s' = keep_all (rnd s) [d] (content s)"
    and put_refused: "inv s \<Longrightarrow> put d s = (False, s') \<Longrightarrow> inv s' \<and> rnd s' = rnd s \<and> content s' = content s"
    and put_all_done: "inv s \<Longrightarrow> put_all ds s = (True, s') \<Longrightarrow> inv s' \<and> rnd s' = rnd s \<and> content s' = keep_all (rnd s) ds (content s)"
    and put_all_refused: "inv s \<Longrightarrow> put_all ds s = (False, s') \<Longrightarrow> inv s' \<and> rnd s' = rnd s \<and> content s' = content s"

section \<open>The store implements the interface\<close>

definition content :: "docstore \<Rightarrow> string \<rightharpoonup> string" where
  "content s = gm_get (index (ix s))"

text \<open>The hashes of future appends are new, and no clock of the index is ahead of the log.\<close>

definition store_inv :: "docstore \<Rightarrow> bool" where
  "store_inv s \<longleftrightarrow> inj (hash_at s) \<and> (\<forall>n \<ge> appends s. hash_at s n \<notin> seen (ix s))
     \<and> (\<forall>k st. clocks (ix s) k = Some st \<longrightarrow> st_time st \<le> log_time s) \<and> cells_ok (ix s)"

lemma cell_Some_iff: "cell i k = Some (st, v) \<longleftrightarrow> clocks i k = Some st \<and> gm_get (index i) k = v"
  by (auto simp: cell_def split: option.split)

lemma cell_None_iff: "cell i k = None \<longleftrightarrow> clocks i k = None"
  by (simp add: cell_def split: option.split)

lemma newest_entry:
  assumes new: "e_hash e \<notin> seen i" and "cells_ok i"
    and later: "\<And>k st. clocks i k = Some st \<Longrightarrow> st_time st < st_time (e_stamp e)"
    and i': "i' = snd (apply_entry dec e i)"
  shows "gm_get (index i') k = (case entry_write e k of None \<Rightarrow> gm_get (index i) k | Some v \<Rightarrow> v)"
    and "clocks i' k = (case entry_write e k of None \<Rightarrow> clocks i k | Some v \<Rightarrow> Some (e_stamp e))"
proof -
  have ok': "cells_ok i'" unfolding i' by (rule cells_ok_apply) fact
  have c: "cell i' k = upd_cells e (cell i) k"
    unfolding i' cell_apply_entry[OF new] ..
  show "gm_get (index i') k = (case entry_write e k of None \<Rightarrow> gm_get (index i) k | Some v \<Rightarrow> v)"
    and "clocks i' k = (case entry_write e k of None \<Rightarrow> clocks i k | Some v \<Rightarrow> Some (e_stamp e))"
  proof (atomize (full), cases "entry_write e k")
    case None
    then have "cell i' k = cell i k" using c by (simp add: upd_cells_def)
    then show "gm_get (index i') k = (case entry_write e k of None \<Rightarrow> gm_get (index i) k | Some v \<Rightarrow> v)
      \<and> clocks i' k = (case entry_write e k of None \<Rightarrow> clocks i k | Some v \<Rightarrow> Some (e_stamp e))"
      using None ok' assms(2) by (cases "clocks i k"; cases "clocks i' k") (auto simp: cell_def cells_ok_def)
  next
    case (Some v)
    have "upd_cell (e_stamp e) v (cell i k) = Some (e_stamp e, v)"
      using later[of k] by (auto simp: upd_cell_def cell_Some_iff stamp_less_iff split: option.split)
    then have "cell i' k = Some (e_stamp e, v)" using c Some by (simp add: upd_cells_def)
    then show "gm_get (index i') k = (case entry_write e k of None \<Rightarrow> gm_get (index i) k | Some v \<Rightarrow> v)
      \<and> clocks i' k = (case entry_write e k of None \<Rightarrow> clocks i k | Some v \<Rightarrow> Some (e_stamp e))"
      using Some by (simp add: cell_Some_iff)
  qed
qed

lemma AddOperation_spec:
  assumes inv: "store_inv s" and add: "AddOperation item s = (ok, s')"
  shows "store_inv s' \<and> marshal s' = marshal s \<and>
    content s' = (if ok then (\<lambda>k. case (if k = '''' then None else gm_get (writes item) k) of
                                    None \<Rightarrow> content s k | Some v \<Rightarrow> v)
                  else content s)"
proof -
  let ?e = "\<lparr>e_hash = hash_at s (appends s), e_stamp = \<lparr>st_time = log_time s + 1, st_id = log_id s\<rparr>, e_op = Some item\<rparr>"
  let ?i' = "snd (apply_entry (unmarshal s) ?e (ix s))"
  have new: "e_hash ?e \<notin> seen (ix s)" and okc: "cells_ok (ix s)"
    and later: "\<And>k st. clocks (ix s) k = Some st \<Longrightarrow> st_time st < st_time (e_stamp ?e)"
    using inv by (auto simp: store_inv_def less_le_not_le zless_iff_Suc_zadd) fastforce+
  note eff = newest_entry[OF new okc later refl, where dec = "unmarshal s"]
  have ew: "entry_write ?e k = (if k = '''' then None else gm_get (writes item) k)" for k
    by (simp add: entry_write_def)
  have inv1: "store_inv (s\<lparr>appends := appends s + 1\<rparr>)"
    "store_inv (s\<lparr>appends := appends s + 1, oplog := l, log_time := log_time s + 1\<rparr>)" for l
    using inv by (fastforce simp: store_inv_def)+
  show ?thesis
  proof (cases "outcome s (appends s)")
    case Appended
    have seen': "seen ?i' = insert (hash_at s (appends s)) (seen (ix s))"
      using apply_entry_ok(2)[of ?e "unmarshal s" "ix s"] by simp
    have upd: "UpdateIndex (unmarshal s) l [?e] (ix s) = (True, ?i')" for l
      using apply_entry_ok(1)[of ?e "unmarshal s" "ix s"] by (simp add: UpdateIndex_def split_beta)
    have s': "ok" "s' = s\<lparr>appends := appends s + 1, oplog := oplog s @ [?e], log_time := log_time s + 1, ix := ?i'\<rparr>"
      using add Appended by (simp_all add: AddOperation_def Let_def upd)
    have inj: "inj (hash_at s)" using inv by (simp add: store_inv_def)
    have "hash_at s n \<notin> seen ?i'" if "appends s + 1 \<le> n" for n
      using inv that injD[OF inj, of n "appends s"] unfolding seen' by (auto simp: store_inv_def)
    moreover have "st_time st \<le> log_time s + 1" if "clocks ?i' k = Some st" for k st
      using that later[of k st] eff(2)[where k = k] by (auto split: option.splits)
    ultimately have "store_inv s'"
      using inj cells_ok_apply[OF okc] by (simp add: s' store_inv_def)
    moreover have "content s' = (\<lambda>k. case (if k = '''' then None else gm_get (writes item) k) of
                                    None \<Rightarrow> content s k | Some v \<Rightarrow> v)"
      unfolding content_def s' using eff(1) ew by (intro ext) simp
    ultimately show ?thesis using s' by simp
  next
    case AppendFails
    then show ?thesis
      using add inv1 by (auto simp: AddOperation_def Let_def content_def)
  next
    case CacheFails
    then show ?thesis
      using add inv1 by (auto simp: AddOperation_def Let_def content_def)
  qed
qed

lemma render_marshal: "marshal s' = marshal s \<Longrightarrow> render s' = render s"
  by (rule ext) (simp add: render_def split: option.split)

lemma collect_docs_keep:
  "collect_docs s ds acc = Some m \<Longrightarrow> gm_wf acc \<Longrightarrow>
   gm_wf m \<and> (\<lambda>k. if k = '''' then x k else case gm_get m k of Some v \<Rightarrow> Some v | None \<Rightarrow> x k)
       = keep_all (render s) ds (\<lambda>k. if k = '''' then x k else case gm_get acc k of Some v \<Rightarrow> Some v | None \<Rightarrow> x k)"
proof (induction ds arbitrary: acc)
  case Nil
  then show ?case by auto
next
  case (Cons d ds)
  then obtain key data where r: "render s d = Some (key, data)" "collect_docs s ds (gm_set key data acc) = Some m"
    by (auto split: option.splits)
  have "(\<lambda>k. if k = '''' then x k else case gm_get (gm_set key data acc) k of Some v \<Rightarrow> Some v | None \<Rightarrow> x k)
      = keep (key, data) (\<lambda>k. if k = '''' then x k else case gm_get acc k of Some v \<Rightarrow> Some v | None \<Rightarrow> x k)"
    by (rule ext) (simp add: keep_def)
  with Cons.IH[OF r(2) gm_wf_set[OF Cons.prems(2)]] show ?case
    by (simp add: r(1))
qed

lemma store_Put_spec:
  assumes "store_inv s" and "store_Put d s = (ok, s')"
  shows "store_inv s' \<and> render s' = render s
    \<and> content s' = (if ok then keep_all (render s) [d] (content s) else content s)"
proof (cases "render s d")
  case None
  with assms show ?thesis by (simp add: store_Put_def)
next
  case (Some kv)
  obtain key data where kv: "kv = (key, data)" by (cases kv)
  then have "AddOperation (OpPut (Some key) data) s = (ok, s')"
    using assms(2) Some by (simp add: store_Put_def)
  note add = AddOperation_spec[OF assms(1) this]
  have "(\<lambda>k. case (if k = '''' then None else gm_get (writes (OpPut (Some key) data)) k) of None \<Rightarrow> content s k | Some v \<Rightarrow> v)
      = keep (key, data) (content s)"
    by (rule ext) (simp add: keep_def)
  then show ?thesis
    using add render_marshal[of s' s] by (cases ok) (simp_all add: Some kv)
qed

lemma store_PutAll_spec:
  assumes "store_inv s" and "store_PutAll ds s = (ok, s')"
  shows "store_inv s' \<and> render s' = render s
    \<and> content s' = (if ok then keep_all (render s) ds (content s) else content s)"
proof (cases "collect_docs s ds []")
  case None
  with assms show ?thesis by (simp add: store_PutAll_def)
next
  case (Some m)
  then have "AddOperation (OpPutAll m) s = (ok, s')"
    using assms(2) by (simp add: store_PutAll_def)
  note add = AddOperation_spec[OF assms(1) this]
  have "(\<lambda>k. case (if k = '''' then None else gm_get (writes (OpPutAll m)) k) of None \<Rightarrow> content s k | Some v \<Rightarrow> v)
      = (\<lambda>k. if k = '''' then content s k else case gm_get m k of Some v \<Rightarrow> Some v | None \<Rightarrow> content s k)"
    by (rule ext) (simp add: gm_get_map_Some split: option.split)
  also have "\<dots> = keep_all (render s) ds (content s)"
  proof -
    have start: "(\<lambda>k. if k = '''' then content s k else case gm_get [] k of Some v \<Rightarrow> Some v | None \<Rightarrow> content s k) = content s"
      by (rule ext) simp
    show ?thesis
      using collect_docs_keep[OF Some, of "content s"] unfolding start by simp
  qed
  finally show ?thesis
    using add render_marshal[of s' s] by (cases ok) simp_all
qed

interpretation store_writer: doc_writer store_Put store_PutAll render content store_inv
proof
  show "store_inv s' \<and> render s' = render s \<and> content s' = keep_all (render s) [d] (content s)"
    if "store_inv s" "store_Put d s = (True, s')" for s d s'
    using store_Put_spec[OF that] by simp
  show "store_inv s' \<and> render s' = render s \<and> content s' = content s"
    if "store_inv s" "store_Put d s = (False, s')" for s d s'
    using store_Put_spec[OF that] by simp
  show "store_inv s' \<and> render s' = render s \<and> content s' = keep_all (render s) ds (content s)"
    if "store_inv s" "store_PutAll ds s = (True, s')" for s ds s'
    using store_PutAll_spec[OF that] by simp
  show "store_inv s' \<and> render s' = render s \<and> content s' = content s"
    if "store_inv s" "store_PutAll ds s = (False, s')" for s ds s'
    using store_PutAll_spec[OF that] by simp
qed

text \<open>A store just opened on an empty log, all of whose appends succeed.\<close>

definition empty_store :: "(json \<Rightarrow> string option) \<Rightarrow> (string \<Rightarrow> json option) \<Rightarrow> string list \<Rightarrow> docstore" where
  "empty_store enc dec fs =
     \<lparr>ix = newDocumentIndex fs, marshal = enc, unmarshal = dec, oplog = [], log_time = 0, log_id = ''peer'',
      appends = 0, outcome = (\<lambda>_. Appended), hash_at = (\<lambda>n. replicate n (CHR ''h''))\<rparr>"

lemma empty_store_inv: "store_inv (empty_store enc dec fs)"
proof -
  have "inj (\<lambda>n. replicate n (CHR ''h''))"
    by (rule inj_on_inverseI[of _ length]) simp
  then show ?thesis
    by (simp add: store_inv_def empty_store_def newDocumentIndex_def cells_ok_def)
qed

lemma empty_store_simps [simp]:
  "content (empty_store enc dec fs) = Map.empty" "marshal (empty_store enc dec fs) = enc"
  "unmarshal (empty_store enc dec fs) = dec" "ix (empty_store enc dec fs) = newDocumentIndex fs"
  "outcome (empty_store enc dec fs) n = Appended"
  by (auto simp: content_def empty_store_def newDocumentIndex_def)

definition doc :: "string \<Rightarrow> string \<Rightarrow> json" where
  "doc i v = JObj [(''_id'', JStr i), (''v'', JStr v)]"

definition sample_enc :: "json \<Rightarrow> string option" where
  "sample_enc d = (case d of JObj fs \<Rightarrow> (case gm_get fs ''v'' of Some (JStr s) \<Rightarrow> Some s | _ \<Rightarrow> None) | _ \<Rightarrow> None)"

end
