(* ===== verification/Stores.thy ===== *)
theory Stores
  imports DocStore
begin

text \<open>
  The registry of document stores (\<open>app/service.go\<close>, "DYNAMIC DOCUMENT STORE REGISTRY"): the stores
  opened at boot, the stores created by naming them, and the addresses kept in the configuration file
  so that a restart reopens the same logs.

  A pointer that is nil, or points to a nil interface, is \<open>None\<close>.  What OrbitDB answers when it is
  asked to open an address, whether the configuration file can be written, and the flag
  \<open>-dynamic-stores\<close> are the fields of \<open>env\<close>.  An opened store is given as it is after \<open>Load\<close>, whose
  error the code only logs.  Strings are ASCII.
\<close>

section \<open>State\<close>

record open_store =
  documents :: docstore
  address :: string

datatype open_outcome = OpenFails | NotDocStore | Opened open_store

record env =
  FlagDynamicStores :: bool
  open_db :: "string \<Rightarrow> string \<Rightarrow> open_outcome"
  save_ok :: bool

text \<open>\<open>config_addrs\<close> is \<open>Config.DynamicStoreAddrs\<close> (\<open>None\<close> when \<open>Config\<close> is nil; loading a configuration
  always makes the map), \<open>config_file\<close> the addresses in the file on disk.\<close>

record kb =
  builtin :: "(string, open_store option) gomap"
  DynamicStores :: "(string, open_store option) gomap"
  config_addrs :: "(string, string) gomap option"
  config_file :: "(string, string) gomap"
  orbit_up :: bool

datatype name_error = EmptyName | ReservedName | InvalidName

datatype store_error =
    EventLogStore
  | UnknownStore "string list"
  | CreationDisabled
  | BadName name_error
  | NotInitialised
  | OpenError
  | NotADocumentStore
  | BuiltinStore
  | NotOpen

datatype StoreMode = StoreLookup | StoreCreate

section \<open>Names\<close>

definition DefaultStoreName :: string where
  "DefaultStoreName = ''dsswres''"

definition reservedStoreNames :: "string list" where
  "reservedStoreNames = [''contributions'', ''sqlite'', ''manifest'', ''orbitdb'']"

text \<open>The pattern \<open>^[a-z0-9][a-z0-9_-]{1,62}$\<close>.\<close>

definition storeNamePattern :: "string \<Rightarrow> bool" where
  "storeNamePattern name =
     (case name of
        [] \<Rightarrow> False
      | c # cs \<Rightarrow> is_lower_or_digit c \<and> 1 \<le> length cs \<and> length cs \<le> 62
          \<and> list_all (\<lambda>x. is_lower_or_digit x \<or> x = CHR ''_'' \<or> x = CHR ''-'') cs)"

definition ValidateStoreName :: "string \<Rightarrow> name_error option" where
  "ValidateStoreName name =
     (if name = '''' then Some EmptyName
      else if name \<in> set reservedStoreNames then Some ReservedName
      else if \<not> storeNamePattern name then Some InvalidName
      else None)"

definition normal_name :: "string \<Rightarrow> string" where
  "normal_name dstype = to_lower (trim_space dstype)"

definition store_name :: "string \<Rightarrow> string" where
  "store_name dstype = (if normal_name dstype = '''' then DefaultStoreName else normal_name dstype)"

section \<open>Reading the registry\<close>

definition live :: "(string, open_store option) gomap \<Rightarrow> (string, open_store) gomap" where
  "live m = List.map_filter (\<lambda>(n, p). map_option (Pair n) p) m"

definition builtinDocStores :: "kb \<Rightarrow> (string, open_store) gomap" where
  "builtinDocStores kb = live (builtin kb)"

definition IsBuiltinStore :: "kb \<Rightarrow> string \<Rightarrow> bool" where
  "IsBuiltinStore kb name \<longleftrightarrow> gm_get (builtinDocStores kb) (normal_name name) \<noteq> None"

definition AllDocStores :: "kb \<Rightarrow> (string, open_store) gomap" where
  "AllDocStores kb = foldl (\<lambda>m (n, s). gm_set n s m) (builtinDocStores kb) (live (DynamicStores kb))"

definition KnownStoreNames :: "kb \<Rightarrow> string list" where
  "KnownStoreNames kb = sort (map fst (AllDocStores kb))"

definition ListStores :: "kb \<Rightarrow> (string \<times> string \<times> string) list" where
  "ListStores kb =
     map (\<lambda>name. (name, if gm_get (builtinDocStores kb) name \<noteq> None then ''builtin'' else ''dynamic'',
                   case gm_get (AllDocStores kb) name of Some s \<Rightarrow> address s | None \<Rightarrow> ''''))
       (KnownStoreNames kb)"

definition open_dynamic :: "kb \<Rightarrow> string \<Rightarrow> open_store option" where
  "open_dynamic kb name = (case gm_get (DynamicStores kb) name of Some p \<Rightarrow> p | None \<Rightarrow> None)"

text \<open>The store a resolved name stands for: the built-in one, else the dynamic one.\<close>

definition store_of :: "kb \<Rightarrow> string \<Rightarrow> open_store option" where
  "store_of kb name =
     (case gm_get (builtinDocStores kb) name of Some s \<Rightarrow> Some s | None \<Rightarrow> open_dynamic kb name)"

section \<open>Operations\<close>

text \<open>\<open>saveConfigBestEffort\<close> and \<open>persistDynamicAddrLocked\<close>.\<close>

definition saveConfig :: "env \<Rightarrow> kb \<Rightarrow> kb" where
  "saveConfig env kb =
     (if save_ok env then (case config_addrs kb of Some a \<Rightarrow> kb\<lparr>config_file := a\<rparr> | None \<Rightarrow> kb) else kb)"

definition persistDynamicAddrLocked :: "env \<Rightarrow> string \<Rightarrow> string \<Rightarrow> kb \<Rightarrow> kb" where
  "persistDynamicAddrLocked env name addr kb =
     (case config_addrs kb of
        None \<Rightarrow> kb
      | Some addrs \<Rightarrow>
          if addr = '''' \<or> gm_get addrs name = Some addr then kb
          else saveConfig env (kb\<lparr>config_addrs := Some (gm_set name addr addrs)\<rparr>))"

definition persisted_addr :: "kb \<Rightarrow> string \<Rightarrow> string" where
  "persisted_addr kb name =
     (case config_addrs kb of
        None \<Rightarrow> name
      | Some addrs \<Rightarrow> (case gm_get addrs name of Some a \<Rightarrow> if a \<noteq> '''' then a else name | None \<Rightarrow> name))"

definition EnsureDocStore :: "env \<Rightarrow> string \<Rightarrow> kb \<Rightarrow> (store_error + open_store) \<times> kb" where
  "EnsureDocStore env name0 kb =
     (let name = normal_name name0
      in case gm_get (builtinDocStores kb) name of
           Some s \<Rightarrow> (Inr s, kb)
         | None \<Rightarrow>
             (case ValidateStoreName name of
                Some e \<Rightarrow> (Inl (BadName e), kb)
              | None \<Rightarrow>
                  if \<not> orbit_up kb then (Inl NotInitialised, kb)
                  else (case open_dynamic kb name of
                     Some s \<Rightarrow> (Inr s, kb)
                   | None \<Rightarrow>
                       (case open_db env (persisted_addr kb name) name of
                          OpenFails \<Rightarrow> (Inl OpenError, kb)
                        | NotDocStore \<Rightarrow> (Inl NotADocumentStore, kb)
                        | Opened s \<Rightarrow>
                            (Inr s, persistDynamicAddrLocked env name (address s)
                                      (kb\<lparr>DynamicStores := gm_set name (Some s) (DynamicStores kb)\<rparr>))))))"

text \<open>\<open>ResolveDocStore\<close> returns the store and its name.\<close>

definition ResolveDocStore :: "env \<Rightarrow> string \<Rightarrow> StoreMode \<Rightarrow> kb \<Rightarrow> (store_error + open_store \<times> string) \<times> kb" where
  "ResolveDocStore env dstype mode kb =
     (let name = store_name dstype
      in if name = ''contributions'' then (Inl EventLogStore, kb)
         else case gm_get (builtinDocStores kb) name of
           Some s \<Rightarrow> (Inr (s, name), kb)
         | None \<Rightarrow>
             (case open_dynamic kb name of
                Some s \<Rightarrow> (Inr (s, name), kb)
              | None \<Rightarrow>
                  if mode \<noteq> StoreCreate then (Inl (UnknownStore (KnownStoreNames kb)), kb)
                  else if \<not> FlagDynamicStores env then (Inl CreationDisabled, kb)
                  else (case EnsureDocStore env name kb of
                     (Inl e, kb') \<Rightarrow> (Inl e, kb')
                   | (Inr s, kb') \<Rightarrow> (Inr (s, name), kb'))))"

definition DropDynamicStore :: "env \<Rightarrow> string \<Rightarrow> kb \<Rightarrow> store_error option \<times> kb" where
  "DropDynamicStore env name0 kb =
     (let name = normal_name name0
      in if IsBuiltinStore kb name then (Some BuiltinStore, kb)
         else case gm_get (DynamicStores kb) name of
           None \<Rightarrow> (Some NotOpen, kb)
         | Some _ \<Rightarrow>
             (let kb1 = kb\<lparr>DynamicStores := gm_del name (DynamicStores kb)\<rparr>
              in (None, case config_addrs kb1 of
                          None \<Rightarrow> kb1
                        | Some addrs \<Rightarrow> saveConfig env (kb1\<lparr>config_addrs := Some (gm_del name addrs)\<rparr>))))"

fun restore_all :: "env \<Rightarrow> string list \<Rightarrow> kb \<Rightarrow> nat \<times> kb" where
  "restore_all env [] kb = (0, kb)"
| "restore_all env (name # names) kb =
     (case EnsureDocStore env name kb of
        (Inl e, kb') \<Rightarrow> restore_all env names kb'
      | (Inr s, kb') \<Rightarrow> (case restore_all env names kb' of (n, kb'') \<Rightarrow> (n + 1, kb'')))"

definition RestoreDynamicStores :: "env \<Rightarrow> kb \<Rightarrow> nat \<times> kb" where
  "RestoreDynamicStores env kb =
     (case config_addrs kb of
        None \<Rightarrow> (0, kb)
      | Some addrs \<Rightarrow> restore_all env (sort (map fst addrs)) kb)"

section \<open>The registry invariant\<close>

text \<open>Dynamic stores have valid names that no live built-in store has.\<close>

definition registry_ok :: "kb \<Rightarrow> bool" where
  "registry_ok kb \<longleftrightarrow> gm_wf (builtin kb) \<and> gm_wf (DynamicStores kb)
     \<and> (\<forall>n. gm_get (DynamicStores kb) n \<noteq> None \<longrightarrow>
          gm_get (builtinDocStores kb) n = None \<and> ValidateStoreName n = None)"

lemma live_Nil [simp]: "live [] = []"
  by (simp add: live_def map_filter_simps)

lemma live_Cons: "live ((n, p) # m) = (case p of None \<Rightarrow> live m | Some s \<Rightarrow> (n, s) # live m)"
  by (simp add: live_def map_filter_simps split: option.split)

lemma live_keys: "fst ` set (live m) \<subseteq> fst ` set m"
proof (induction m)
  case (Cons q m)
  then show ?case by (cases q; cases "snd q") (simp_all add: live_Cons subset_insertI2 insert_mono)
qed simp

lemma live_wf: "gm_wf m \<Longrightarrow> gm_wf (live m)"
proof (induction m)
  case (Cons q m)
  obtain j p where q: "q = (j, p)" by (cases q)
  have "j \<notin> fst ` set (live m)"
    using Cons.prems live_keys[of m] by (auto simp: q)
  with Cons show ?case by (cases p) (simp_all add: q live_Cons)
qed simp

lemma live_get: "gm_wf m \<Longrightarrow> gm_get (live m) n = (case gm_get m n of Some p \<Rightarrow> p | None \<Rightarrow> None)"
proof (induction m)
  case (Cons q m)
  obtain j p where q: "q = (j, p)" by (cases q)
  have "j \<notin> fst ` set (live m)"
    using Cons.prems live_keys[of m] by (auto simp: q)
  then have "gm_get (live m) j = None" by (simp only: gm_get_None not_False_eq_True)
  moreover have "gm_get m j = None" using Cons.prems by (simp add: q gm_get_None)
  ultimately show ?case using Cons by (cases p) (auto simp: q live_Cons)
qed simp

lemma overlay_get:
  "gm_get (foldl (\<lambda>m (n, s). gm_set n s m) b d) n = (case gm_get (rev d) n of Some s \<Rightarrow> Some s | None \<Rightarrow> gm_get b n)"
  by (induction d arbitrary: b) (auto simp: map_add_def split: option.splits)

lemma overlay_wf: "gm_wf b \<Longrightarrow> gm_wf (foldl (\<lambda>m (n, s). gm_set n s m) b d)"
  by (induction d arbitrary: b) auto

lemma map_of_rev_distinct: "gm_wf m \<Longrightarrow> gm_get (rev m) = gm_get m"
  by (rule map_of_inject_set[THEN iffD2]) (simp_all add: rev_map[symmetric])

lemma registry_okD:
  assumes "registry_ok kb"
  shows "gm_wf (builtinDocStores kb)" "gm_get (live (DynamicStores kb)) n = open_dynamic kb n"
    "gm_get (AllDocStores kb) n = store_of kb n" "gm_wf (AllDocStores kb)"
    "open_dynamic kb n = Some s \<Longrightarrow> gm_get (builtinDocStores kb) n = None \<and> ValidateStoreName n = None"
proof -
  have wf: "gm_wf (builtin kb)" "gm_wf (DynamicStores kb)"
    and dj: "\<And>n. gm_get (DynamicStores kb) n \<noteq> None \<Longrightarrow> gm_get (builtinDocStores kb) n = None \<and> ValidateStoreName n = None"
    using assms by (auto simp: registry_ok_def)
  show b: "gm_wf (builtinDocStores kb)" using live_wf[OF wf(1)] by (simp add: builtinDocStores_def)
  show d: "gm_get (live (DynamicStores kb)) n = open_dynamic kb n" for n
    using live_get[OF wf(2)] by (simp add: open_dynamic_def)
  show e: "open_dynamic kb n = Some s \<Longrightarrow> gm_get (builtinDocStores kb) n = None \<and> ValidateStoreName n = None" for n s
    using dj[of n] by (auto simp: open_dynamic_def split: option.splits)
  show "gm_wf (AllDocStores kb)" using overlay_wf[OF b] by (simp add: AllDocStores_def)
  have "gm_get (rev (live (DynamicStores kb))) n = open_dynamic kb n"
    using live_wf[OF wf(2)] d[of n] by (simp add: map_of_rev_distinct)
  then show "gm_get (AllDocStores kb) n = store_of kb n"
    using e by (auto simp: AllDocStores_def overlay_get store_of_def split: option.split)
qed

lemma persist_frame [simp]:
  "builtin (persistDynamicAddrLocked env n a kb) = builtin kb"
  "DynamicStores (persistDynamicAddrLocked env n a kb) = DynamicStores kb"
  "orbit_up (persistDynamicAddrLocked env n a kb) = orbit_up kb"
  by (simp_all add: persistDynamicAddrLocked_def saveConfig_def split: option.split)

lemma save_frame [simp]:
  "builtin (saveConfig env kb) = builtin kb" "DynamicStores (saveConfig env kb) = DynamicStores kb"
  "config_addrs (saveConfig env kb) = config_addrs kb"
  by (simp_all add: saveConfig_def split: option.split)

lemma store_of_cong:
  "builtin kb' = builtin kb \<Longrightarrow> DynamicStores kb' = DynamicStores kb \<Longrightarrow> store_of kb' = store_of kb"
  by (rule ext) (simp add: store_of_def builtinDocStores_def open_dynamic_def cong: option.case_cong)

lemma registry_ok_cong:
  "builtin kb' = builtin kb \<Longrightarrow> DynamicStores kb' = DynamicStores kb \<Longrightarrow> registry_ok kb' = registry_ok kb"
  by (simp add: registry_ok_def builtinDocStores_def)

text \<open>What \<open>EnsureDocStore\<close> does: nothing, or one new dynamic store under the name.\<close>

lemma EnsureDocStore_cases:
  assumes "EnsureDocStore env name0 kb = (r, kb')"
  obtains (error) e where "r = Inl e" "kb' = kb"
    | (present) s where "r = Inr s" "kb' = kb" "store_of kb (normal_name name0) = Some s"
    | (created) s where "r = Inr s" "open_db env (persisted_addr kb (normal_name name0)) (normal_name name0) = Opened s"
        "store_of kb (normal_name name0) = None" "ValidateStoreName (normal_name name0) = None" "orbit_up kb"
        "kb' = persistDynamicAddrLocked env (normal_name name0) (address s)
                 (kb\<lparr>DynamicStores := gm_set (normal_name name0) (Some s) (DynamicStores kb)\<rparr>)"
  using assms
  by (auto simp: EnsureDocStore_def store_of_def Let_def split: option.splits if_splits open_outcome.splits)

lemma created_stores:
  assumes "store_of kb n = None"
  shows "store_of (persistDynamicAddrLocked env n a (kb\<lparr>DynamicStores := gm_set n (Some s) (DynamicStores kb)\<rparr>))
       = (store_of kb)(n \<mapsto> s)"
proof -
  have "store_of (persistDynamicAddrLocked env n a (kb\<lparr>DynamicStores := gm_set n (Some s) (DynamicStores kb)\<rparr>))
      = store_of (kb\<lparr>DynamicStores := gm_set n (Some s) (DynamicStores kb)\<rparr>)"
    by (rule store_of_cong) simp_all
  also have "\<dots> = (store_of kb)(n \<mapsto> s)"
    using assms by (auto simp: store_of_def open_dynamic_def builtinDocStores_def fun_eq_iff split: option.split)
  finally show ?thesis .
qed

lemma EnsureDocStore_spec:
  assumes "EnsureDocStore env name0 kb = (r, kb')" and "registry_ok kb"
  shows "registry_ok kb' \<and> (\<forall>n. n \<noteq> normal_name name0 \<longrightarrow> store_of kb' n = store_of kb n)
    \<and> (case r of Inl e \<Rightarrow> kb' = kb
       | Inr s \<Rightarrow> store_of kb' (normal_name name0) = Some s \<and> (store_of kb (normal_name name0) \<noteq> None \<longrightarrow> kb' = kb))"
  using assms(1)
proof (cases rule: EnsureDocStore_cases)
  case (created s)
  let ?n = "normal_name name0" and ?kb = "kb\<lparr>DynamicStores := gm_set (normal_name name0) (Some s) (DynamicStores kb)\<rparr>"
  have "registry_ok ?kb"
    using assms(2) created(3,4) by (auto simp: registry_ok_def store_of_def builtinDocStores_def split: option.splits)
  then have "registry_ok kb'"
    unfolding created(6) by (subst registry_ok_cong[where kb = ?kb]) simp_all
  then show ?thesis
    using created_stores[OF created(3)] created(1,3,6) by simp
qed (use assms(2) in simp_all)

lemma normal_store_name: "normal_name (store_name dstype) = store_name dstype"
proof -
  have "normal_name (normal_name d) = normal_name d" for d
    by (simp add: normal_name_def trim_space_lower)
  moreover have "normal_name DefaultStoreName = DefaultStoreName"
    by code_simp
  ultimately show ?thesis by (simp add: store_name_def)
qed

lemma ResolveDocStore_eq:
  "ResolveDocStore env dstype mode kb =
     (if store_name dstype = ''contributions'' then (Inl EventLogStore, kb)
      else case store_of kb (store_name dstype) of
        Some s \<Rightarrow> (Inr (s, store_name dstype), kb)
      | None \<Rightarrow>
          if mode \<noteq> StoreCreate then (Inl (UnknownStore (KnownStoreNames kb)), kb)
          else if \<not> FlagDynamicStores env then (Inl CreationDisabled, kb)
          else (case EnsureDocStore env (store_name dstype) kb of
             (Inl e, kb') \<Rightarrow> (Inl e, kb') | (Inr s, kb') \<Rightarrow> (Inr (s, store_name dstype), kb')))"
  by (simp add: ResolveDocStore_def Let_def store_of_def split: option.split)

lemma ResolveDocStore_spec:
  assumes "registry_ok kb" and "ResolveDocStore env dstype mode kb = (r, kb')"
  shows "registry_ok kb' \<and> (\<forall>n. n \<noteq> store_name dstype \<longrightarrow> store_of kb' n = store_of kb n)
    \<and> (case r of
         Inl e \<Rightarrow> kb' = kb
       | Inr (s, name) \<Rightarrow> name = store_name dstype \<and> name \<noteq> ''contributions'' \<and> store_of kb' name = Some s
           \<and> (store_of kb name \<noteq> None \<longrightarrow> kb' = kb) \<and> (store_of kb name = None \<longrightarrow> mode = StoreCreate))"
proof (cases "store_name dstype = ''contributions'' \<or> store_of kb (store_name dstype) \<noteq> None \<or> mode \<noteq> StoreCreate \<or> \<not> FlagDynamicStores env")
  case True
  then show ?thesis
    using assms by (cases "store_of kb (store_name dstype)") (auto simp: ResolveDocStore_eq split: if_splits)
next
  case False
  obtain q kb1 where e: "EnsureDocStore env (store_name dstype) kb = (q, kb1)"
    by (cases "EnsureDocStore env (store_name dstype) kb")
  have "ResolveDocStore env dstype mode kb = (case q of Inl e \<Rightarrow> (Inl e, kb1) | Inr s \<Rightarrow> (Inr (s, store_name dstype), kb1))"
    using False by (simp add: ResolveDocStore_eq e)
  with assms(2) have "(r, kb') = (case q of Inl e \<Rightarrow> (Inl e, kb1) | Inr s \<Rightarrow> (Inr (s, store_name dstype), kb1))" by simp
  with False EnsureDocStore_spec[OF e assms(1)] show ?thesis
    by (cases q) (auto simp: normal_store_name)
qed

lemma resolve_present:
  "store_of kb (store_name dstype) = Some s \<Longrightarrow> store_name dstype \<noteq> ''contributions'' \<Longrightarrow>
   ResolveDocStore env dstype mode kb = (Inr (s, store_name dstype), kb)"
  by (simp add: ResolveDocStore_eq)

text \<open>
  C12.  A request is never redirected: resolving a name answers with the store of that very name (or of
  the documented default when it is empty), changes no other store, creates one only when none is open
  under the name and creation was asked for, changes nothing on an error, and resolving the name
  again, in any mode and whatever OrbitDB would now answer, gives the same store and changes nothing.
\<close>
theorem resolve_never_redirects:
  assumes "registry_ok kb" and "ResolveDocStore env dstype mode kb = (r, kb')"
  shows "(\<forall>n. n \<noteq> store_name dstype \<longrightarrow> store_of kb' n = store_of kb n)
    \<and> (case r of
         Inl e \<Rightarrow> kb' = kb
       | Inr (s, name) \<Rightarrow> name = store_name dstype \<and> store_of kb' name = Some s
           \<and> (store_of kb name = Some s \<or> store_of kb name = None \<and> mode = StoreCreate)
           \<and> ResolveDocStore env' dstype mode' kb' = (Inr (s, name), kb'))"
  using ResolveDocStore_spec[OF assms]
  by (auto simp: resolve_present split: sum.split)

section \<open>Sequences of operations\<close>

datatype registry_op = Resolve env string StoreMode | Ensure env string | Drop env string | Restore env

fun registry_step :: "kb \<Rightarrow> registry_op \<Rightarrow> kb" where
  "registry_step kb (Resolve env d mode) = snd (ResolveDocStore env d mode kb)"
| "registry_step kb (Ensure env n) = snd (EnsureDocStore env n kb)"
| "registry_step kb (Drop env n) = snd (DropDynamicStore env n kb)"
| "registry_step kb (Restore env) = snd (RestoreDynamicStores env kb)"

definition registry_run :: "kb \<Rightarrow> registry_op list \<Rightarrow> kb" where
  "registry_run kb ops = foldl registry_step kb ops"

lemma EnsureDocStore_frame:
  assumes "EnsureDocStore env n kb = (r, kb')"
  shows "builtin kb' = builtin kb \<and> orbit_up kb' = orbit_up kb"
  using assms by (cases rule: EnsureDocStore_cases) simp_all

lemma restore_all_ok:
  "registry_ok kb \<Longrightarrow> registry_ok (snd (restore_all env names kb)) \<and> builtin (snd (restore_all env names kb)) = builtin kb"
proof (induction env names kb rule: restore_all.induct)
  case (2 env name names kb)
  obtain r kb' where e: "EnsureDocStore env name kb = (r, kb')" by (cases "EnsureDocStore env name kb")
  note s = EnsureDocStore_spec[OF e 2(3)] EnsureDocStore_frame[OF e]
  show ?case
    using s 2(1)[OF e[symmetric]] 2(2)[OF e[symmetric]] by (cases r) (auto simp: e split: prod.split)
qed simp

lemma registry_step_ok:
  assumes "registry_ok kb"
  shows "registry_ok (registry_step kb op) \<and> builtin (registry_step kb op) = builtin kb"
proof (cases op)
  case (Resolve env d mode)
  obtain r kb' where e: "ResolveDocStore env d mode kb = (r, kb')" by (cases "ResolveDocStore env d mode kb")
  have "builtin kb' = builtin kb"
    using e EnsureDocStore_frame[of env "store_name d" kb]
    by (auto simp: ResolveDocStore_def Let_def split: option.splits if_splits prod.splits sum.splits)
  with Resolve e ResolveDocStore_spec[OF assms e] show ?thesis by simp
next
  case (Ensure env n)
  obtain r kb' where e: "EnsureDocStore env n kb = (r, kb')" by (cases "EnsureDocStore env n kb")
  with Ensure EnsureDocStore_spec[OF e assms] EnsureDocStore_frame[OF e] show ?thesis by simp
next
  case (Drop env n)
  let ?k = "kb\<lparr>DynamicStores := gm_del (normal_name n) (DynamicStores kb)\<rparr>"
  have k: "registry_ok ?k" "builtin ?k = builtin kb"
    using assms by (auto simp: registry_ok_def builtinDocStores_def)
  moreover have "snd (DropDynamicStore env n kb) = kb \<or> snd (DropDynamicStore env n kb) = ?k
      \<or> (\<exists>a. snd (DropDynamicStore env n kb) = saveConfig env (?k\<lparr>config_addrs := a\<rparr>))"
    by (auto simp: DropDynamicStore_def Let_def split: option.split)
  moreover have "registry_ok (saveConfig env (?k\<lparr>config_addrs := a\<rparr>)) = registry_ok ?k" for a
    by (rule registry_ok_cong) simp_all
  ultimately show ?thesis using Drop assms by auto
next
  case (Restore env)
  with restore_all_ok[OF assms] assms show ?thesis
    by (simp add: RestoreDynamicStores_def split: option.split)
qed

lemma registry_run_ok: "registry_ok kb \<Longrightarrow> registry_ok (registry_run kb ops) \<and> builtin (registry_run kb ops) = builtin kb"
  unfolding registry_run_def
  by (induction ops arbitrary: kb) (auto simp: registry_step_ok)

text \<open>
  After any sequence of resolving, creating, dropping and restoring stores, the listing is the
  truth: it is sorted without repetitions, a name is listed exactly when it resolves to a store, with
  the address of the store it resolves to, and every listed name that is not a built-in store is a
  valid directory name.
\<close>
theorem listing_is_resolution:
  assumes "gm_wf (builtin kb)" and "DynamicStores kb = []"
  shows "let kb' = registry_run kb ops
         in sorted (KnownStoreNames kb') \<and> distinct (KnownStoreNames kb')
          \<and> set (KnownStoreNames kb') = {n. store_of kb' n \<noteq> None}
          \<and> set (ListStores kb') \<subseteq> {(n, kind, addr). \<exists>s. store_of kb' n = Some s \<and> addr = address s
               \<and> (if kind = ''builtin'' then gm_get (builtinDocStores kb) n = Some s else ValidateStoreName n = None)}"
proof -
  have "registry_ok kb" using assms by (simp add: registry_ok_def)
  note run = registry_run_ok[OF this, of ops]
  note ok = registry_okD[OF conjunct1[OF run]]
  let ?k = "registry_run kb ops"
  have b: "builtinDocStores ?k = builtinDocStores kb" using run by (simp add: builtinDocStores_def)
  have names: "n \<in> set (KnownStoreNames ?k) \<longleftrightarrow> store_of ?k n \<noteq> None" for n
    using ok(3)[of n] by (metis KnownStoreNames_def gm_get_None set_map set_sort)
  moreover have "distinct (KnownStoreNames ?k)" "sorted (KnownStoreNames ?k)"
    using ok(4) by (simp_all add: KnownStoreNames_def)
  moreover have "(n, kind, addr) \<in> set (ListStores ?k) \<Longrightarrow> \<exists>s. store_of ?k n = Some s \<and> addr = address s
      \<and> (if kind = ''builtin'' then gm_get (builtinDocStores kb) n = Some s else ValidateStoreName n = None)" for n kind addr
    using names[of n] ok(5)[of n]
    by (auto simp: ListStores_def ok(3) b store_of_def split: option.splits if_splits)
  ultimately show ?thesis by (auto simp: Let_def split del: if_split)
qed

section \<open>Restarts\<close>

text \<open>The registry of a node started with the configuration file on disk.\<close>

definition restarted :: "(string, open_store option) gomap \<Rightarrow> (string, string) gomap \<Rightarrow> kb" where
  "restarted boot file = \<lparr>builtin = boot, DynamicStores = [], config_addrs = Some file, config_file = file, orbit_up = True\<rparr>"

definition awaiting :: "env \<Rightarrow> string \<Rightarrow> open_store \<Rightarrow> kb \<Rightarrow> bool" where
  "awaiting env name s kb \<longleftrightarrow> gm_get (builtinDocStores kb) name = None \<and> orbit_up kb
     \<and> (\<exists>addrs. config_addrs kb = Some addrs \<and> gm_get addrs name = Some (address s))
     \<and> open_db env (address s) name = Opened s \<and> address s \<noteq> ''''
     \<and> open_dynamic kb name \<in> {None, Some s}"

lemma awaiting_persist:
  assumes "awaiting env name s kb" and "n \<noteq> name"
  shows "awaiting env name s (persistDynamicAddrLocked env n a (kb\<lparr>DynamicStores := gm_set n (Some t) (DynamicStores kb)\<rparr>))"
proof -
  have "builtinDocStores (persistDynamicAddrLocked env n a k) = builtinDocStores k" for k
    by (simp add: builtinDocStores_def)
  then show ?thesis
    using assms
    by (auto simp: awaiting_def open_dynamic_def builtinDocStores_def persistDynamicAddrLocked_def
        saveConfig_def split: option.splits)
qed

lemma awaiting_own:
  assumes "awaiting env name s kb"
  shows "awaiting env name s (persistDynamicAddrLocked env name (address s) (kb\<lparr>DynamicStores := gm_set name (Some s) (DynamicStores kb)\<rparr>))"
  using assms
  by (auto simp: awaiting_def open_dynamic_def builtinDocStores_def persistDynamicAddrLocked_def)

lemma awaiting_Ensure:
  assumes "awaiting env name s kb" and "EnsureDocStore env n kb = (r, kb')"
  shows "awaiting env name s kb'"
  using assms(2)
proof (cases rule: EnsureDocStore_cases)
  case (created t)
  show ?thesis
  proof (cases "normal_name n = name")
    case True
    then have "persisted_addr kb (normal_name n) = address s"
      using assms(1) by (auto simp: awaiting_def persisted_addr_def)
    then have "t = s"
      using created(2) True assms(1) by (simp add: awaiting_def)
    then show ?thesis using awaiting_own[OF assms(1)] created(6) True by simp
  next
    case False
    then show ?thesis using awaiting_persist[OF assms(1)] created(6) by simp
  qed
qed (use assms(1) in simp_all)

lemma awaiting_restores:
  "awaiting env name s kb \<Longrightarrow> ValidateStoreName name = None \<Longrightarrow> normal_name name = name \<Longrightarrow>
   awaiting env name s (snd (restore_all env names kb))
   \<and> (name \<in> set names \<or> open_dynamic kb name = Some s \<longrightarrow> open_dynamic (snd (restore_all env names kb)) name = Some s)"
proof (induction env names kb rule: restore_all.induct)
  case (2 env n names kb)
  obtain r kb' where e: "EnsureDocStore env n kb = (r, kb')" by (cases "EnsureDocStore env n kb")
  note aw = awaiting_Ensure[OF 2(3) e]
  have IH: "awaiting env name s (snd (restore_all env names kb'))
     \<and> (name \<in> set names \<or> open_dynamic kb' name = Some s \<longrightarrow> open_dynamic (snd (restore_all env names kb')) name = Some s)"
    using 2(1)[OF e[symmetric]] 2(2)[OF e[symmetric]] aw 2(4,5) by (cases r) auto
  have out: "snd (restore_all env (n # names) kb) = snd (restore_all env names kb')"
    by (cases r) (simp_all add: e split: prod.split)
  have "open_dynamic kb' name = Some s" if "n = name \<or> open_dynamic kb name = Some s"
  proof (cases "open_dynamic kb name")
    case (Some t)
    then have "t = s" using 2(3) by (auto simp: awaiting_def)
    from e show ?thesis
    proof (cases rule: EnsureDocStore_cases)
      case (created u)
      then have "open_dynamic kb' (normal_name n) = Some u" "store_of kb (normal_name n) = None"
        by (simp_all add: open_dynamic_def)
      moreover have "store_of kb name \<noteq> None"
        using Some 2(3) by (simp add: store_of_def awaiting_def)
      ultimately show ?thesis
        using created(6) Some \<open>t = s\<close> by (auto simp: open_dynamic_def)
    qed (use Some \<open>t = s\<close> in simp_all)
  next
    case None
    with that have n: "n = name" by simp
    have "EnsureDocStore env name kb = (Inr s, persistDynamicAddrLocked env name (address s)
        (kb\<lparr>DynamicStores := gm_set name (Some s) (DynamicStores kb)\<rparr>))"
      using 2(3-5) None by (auto simp: EnsureDocStore_def awaiting_def persisted_addr_def)
    then show ?thesis using e n by (auto simp: open_dynamic_def)
  qed
  then show ?case
    unfolding out using IH by auto
qed simp

text \<open>
  C13.  A store created by naming it survives a restart: if the address of the new store could be
  written to the configuration file, a node restarted from that file with the same built-in stores
  reopens the store under its name, provided OrbitDB opens the recorded address as a document store
  of that address, and however the other recorded stores fare.
\<close>
theorem created_store_survives_restart:
  assumes "registry_ok kb" and "config_addrs kb = Some (config_file kb)" and "save_ok env"
    and "store_of kb (store_name dstype) = None"
    and "ResolveDocStore env dstype StoreCreate kb = (Inr (s, name), kb')" and "address s \<noteq> ''''"
    and "open_db env' (address s) name = Opened s'" and "address s' = address s"
  shows "store_of (snd (RestoreDynamicStores env' (restarted (builtin kb) (config_file kb')))) name = Some s'"
proof -
  let ?kb = "restarted (builtin kb) (config_file kb')"
  have name: "name = store_name dstype" "normal_name name = name"
    using ResolveDocStore_spec[OF assms(1,5)] normal_store_name by auto
  have "EnsureDocStore env name kb = (Inr s, kb')"
    using assms(4,5) name(1)
    by (auto simp: ResolveDocStore_eq split: if_splits prod.splits sum.splits)
  then obtain "ValidateStoreName name = None"
    "kb' = persistDynamicAddrLocked env name (address s) (kb\<lparr>DynamicStores := gm_set name (Some s) (DynamicStores kb)\<rparr>)"
    using assms(4) name by (cases rule: EnsureDocStore_cases) auto
  note kb' = this
  have on_disk: "gm_get (config_file kb') name = Some (address s)"
    using assms(2,3,6) by (simp add: kb'(2) persistDynamicAddrLocked_def saveConfig_def)
  have bs: "gm_get (builtinDocStores kb) name = None"
    using assms(4) name(1) by (simp add: store_of_def split: option.splits)
  have aw: "awaiting env' name s' ?kb"
    using on_disk bs assms(6,7,8)
    by (simp add: awaiting_def restarted_def builtinDocStores_def open_dynamic_def)
  have "name \<in> set (sort (map fst (config_file kb')))"
    using on_disk by (metis gm_get_None option.distinct(1) set_map set_sort)
  then have "open_dynamic (snd (RestoreDynamicStores env' ?kb)) name = Some s'"
    and "gm_get (builtinDocStores (snd (RestoreDynamicStores env' ?kb))) name = None"
    using awaiting_restores[OF aw kb'(1) name(2), of "sort (map fst (config_file kb'))"]
    by (simp_all add: RestoreDynamicStores_def restarted_def awaiting_def)
  then show ?thesis by (simp add: store_of_def)
qed

section \<open>The interface of the registry\<close>

text \<open>Writing back a store that a handler has changed: in Go the handler changes it in place.\<close>

definition set_store :: "string \<Rightarrow> open_store \<Rightarrow> kb \<Rightarrow> kb" where
  "set_store name s kb =
     (if gm_get (builtinDocStores kb) name \<noteq> None then kb\<lparr>builtin := gm_set name (Some s) (builtin kb)\<rparr>
      else kb\<lparr>DynamicStores := gm_set name (Some s) (DynamicStores kb)\<rparr>)"

text \<open>What a handler of a store-addressed request relies on.\<close>

locale store_registry =
  fixes resolve :: "string \<Rightarrow> 'k \<Rightarrow> ('e + 's \<times> string) \<times> 'k"
    and lookup :: "'k \<Rightarrow> string \<Rightarrow> 's option"
    and update :: "string \<Rightarrow> 's \<Rightarrow> 'k \<Rightarrow> 'k"
    and inv :: "'k \<Rightarrow> bool"
  assumes resolved: "inv kb \<Longrightarrow> resolve d kb = (Inr (s, n), kb') \<Longrightarrow>
      inv kb' \<and> lookup kb' n = Some s \<and> (\<forall>m. m \<noteq> n \<longrightarrow> lookup kb' m = lookup kb m)
      \<and> (lookup kb n \<noteq> None \<longrightarrow> kb' = kb)"
    and refused: "inv kb \<Longrightarrow> resolve d kb = (Inl e, kb') \<Longrightarrow> kb' = kb"
    and updated: "inv kb \<Longrightarrow> lookup kb n \<noteq> None \<Longrightarrow> inv (update n s kb) \<and> lookup (update n s kb) = (lookup kb)(n \<mapsto> s)"

text \<open>A request on one store: resolve it, let the handler change it.\<close>

definition on_store ::
  "(string \<Rightarrow> 'k \<Rightarrow> ('e + 's \<times> string) \<times> 'k) \<Rightarrow> (string \<Rightarrow> 's \<Rightarrow> 'k \<Rightarrow> 'k) \<Rightarrow> string
   \<Rightarrow> (string \<Rightarrow> 's \<Rightarrow> 'r \<times> 's) \<Rightarrow> 'k \<Rightarrow> ('e + 'r) \<times> 'k" where
  "on_store resolve update dstype handler kb =
     (case resolve dstype kb of
        (Inl e, kb1) \<Rightarrow> (Inl e, kb1)
      | (Inr (s, n), kb1) \<Rightarrow> (case handler n s of (r, s') \<Rightarrow> (Inr r, update n s' kb1)))"

context store_registry
begin

lemma on_store_refused:
  assumes "inv kb" and "on_store resolve update d h kb = (Inl e, kb')"
  shows "kb' = kb"
  using assms(2) refused[OF assms(1), of d]
  by (auto simp: on_store_def split: prod.splits sum.splits)

lemma on_store_done:
  assumes "inv kb" and "on_store resolve update d h kb = (Inr r, kb')"
  obtains s n s' kb1 where "resolve d kb = (Inr (s, n), kb1)" "h n s = (r, s')" "inv kb'"
    "lookup kb' = (lookup kb)(n \<mapsto> s')" "lookup kb n = Some s \<or> lookup kb n = None" "kb' = update n s' kb1"
proof -
  obtain s n s' kb1 where r: "resolve d kb = (Inr (s, n), kb1)" "h n s = (r, s')" "kb' = update n s' kb1"
    using assms(2) by (auto simp: on_store_def split: prod.splits sum.splits)
  note k = resolved[OF assms(1) r(1)]
  then have u: "inv kb'" "lookup kb' = (lookup kb1)(n \<mapsto> s')"
    using updated[of kb1 n s'] r(3) by auto
  have "lookup kb' = (lookup kb)(n \<mapsto> s')"
    unfolding u(2) using k by auto
  moreover have "lookup kb n = Some s \<or> lookup kb n = None"
    using k by (cases "lookup kb n") auto
  ultimately show thesis using that[OF r(1,2) u(1) _ _ r(3)] by blast
qed

end

lemma live_set: "gm_get (live m) n = Some t \<Longrightarrow> gm_wf m \<Longrightarrow> gm_get (live (gm_set n (Some s) m)) k = (if k = n then Some s else gm_get (live m) k)"
  by (simp add: live_get)

lemma set_store_ok:
  assumes "registry_ok kb" and "store_of kb n \<noteq> None"
  shows "registry_ok (set_store n s kb) \<and> store_of (set_store n s kb) = (store_of kb)(n \<mapsto> s)"
proof (cases "gm_get (builtinDocStores kb) n")
  case (Some t)
  have wf: "gm_wf (builtin kb)" using assms(1) by (simp add: registry_ok_def)
  have b: "gm_get (builtinDocStores (set_store n s kb)) k = (if k = n then Some s else gm_get (builtinDocStores kb) k)" for k
    using live_set[OF _ wf] Some by (simp add: set_store_def builtinDocStores_def)
  have d: "DynamicStores (set_store n s kb) = DynamicStores kb" "builtin (set_store n s kb) = gm_set n (Some s) (builtin kb)"
    using Some by (simp_all add: set_store_def)
  have "gm_get (DynamicStores kb) n = None"
    using assms(1) Some unfolding registry_ok_def by (metis option.distinct(1))
  then show ?thesis
    using assms(1) by (auto simp: registry_ok_def b d store_of_def open_dynamic_def[of "set_store n s kb"]
        open_dynamic_def[of kb] fun_eq_iff cong: option.case_cong)
next
  case None
  obtain t where t: "open_dynamic kb n = Some t"
    using assms(2) None by (auto simp: store_of_def)
  have b: "builtinDocStores (set_store n s kb) = builtinDocStores kb"
    using None by (simp add: set_store_def builtinDocStores_def)
  have d: "DynamicStores (set_store n s kb) = gm_set n (Some s) (DynamicStores kb)" "builtin (set_store n s kb) = builtin kb"
    using None by (simp_all add: set_store_def)
  have "gm_get (DynamicStores kb) n \<noteq> None"
    using t by (auto simp: open_dynamic_def split: option.splits)
  then show ?thesis
    using assms(1) None by (auto simp: registry_ok_def b d store_of_def open_dynamic_def fun_eq_iff split: option.split)
qed

interpretation registry: store_registry "\<lambda>d kb. ResolveDocStore env d StoreCreate kb" store_of set_store registry_ok
  for env
proof
  show "registry_ok kb' \<and> store_of kb' n = Some s \<and> (\<forall>m. m \<noteq> n \<longrightarrow> store_of kb' m = store_of kb m)
      \<and> (store_of kb n \<noteq> None \<longrightarrow> kb' = kb)"
    if "registry_ok kb" "ResolveDocStore env d StoreCreate kb = (Inr (s, n), kb')" for kb d s n kb'
    using ResolveDocStore_spec[OF that] by auto
  show "kb' = kb" if "registry_ok kb" "ResolveDocStore env d StoreCreate kb = (Inl e, kb')" for kb d e kb'
    using ResolveDocStore_spec[OF that] by simp
  show "registry_ok (set_store n s kb) \<and> store_of (set_store n s kb) = (store_of kb)(n \<mapsto> s)"
    if "registry_ok kb" "store_of kb n \<noteq> None" for kb n s
    by (rule set_store_ok[OF that])
qed

section \<open>Examples\<close>

definition sample_open :: "string \<Rightarrow> open_store" where
  "sample_open addr = \<lparr>documents = empty_store (\<lambda>_. None) (\<lambda>_. None) [], address = addr\<rparr>"

definition sample_env :: env where
  "sample_env = \<lparr>FlagDynamicStores = True, open_db = (\<lambda>addr name. Opened (sample_open ''zdpu'')), save_ok = True\<rparr>"

definition booted :: kb where
  "booted = \<lparr>builtin = [(''dsswres'', Some (sample_open ''zdpa'')), (''whoiswho'', None)], DynamicStores = [],
     config_addrs = Some [], config_file = [], orbit_up = True\<rparr>"

lemma booted_ok: "registry_ok booted"
  by (simp add: registry_ok_def booted_def)

lemma trust_name: "store_name '' KBtrust'' = ''kbtrust''" "normal_name ''kbtrust'' = ''kbtrust''" "ValidateStoreName ''kbtrust'' = None"
  by code_simp+

lemma booted_store: "store_of booted ''kbtrust'' = None"
  by (simp add: store_of_def booted_def builtinDocStores_def live_Cons open_dynamic_def)

lemma booted_resolve:
  "ResolveDocStore sample_env '' KBtrust'' StoreCreate booted =
     (Inr (sample_open ''zdpu'', ''kbtrust''),
      booted\<lparr>DynamicStores := [(''kbtrust'', Some (sample_open ''zdpu''))], config_addrs := Some [(''kbtrust'', ''zdpu'')],
             config_file := [(''kbtrust'', ''zdpu'')]\<rparr>)"
  by (simp add: ResolveDocStore_eq trust_name booted_store)
    (simp add: EnsureDocStore_def trust_name booted_def builtinDocStores_def live_Cons open_dynamic_def sample_env_def
      persistDynamicAddrLocked_def saveConfig_def sample_open_def Let_def trust_name)

theorem resolve_never_redirects_witness:
  "store_of (snd (ResolveDocStore sample_env '' KBtrust'' StoreCreate booted)) ''dsswres'' = store_of booted ''dsswres''"
  using resolve_never_redirects[OF booted_ok booted_resolve] by (simp add: booted_resolve trust_name)

theorem listing_is_resolution_witness:
  "set (KnownStoreNames (registry_run booted [Resolve sample_env '' KBtrust'' StoreCreate])) = {''dsswres'', ''kbtrust''}"
proof -
  have "gm_wf (builtin booted)" "DynamicStores booted = []" by (simp_all add: booted_def)
  from listing_is_resolution[OF this, of "[Resolve sample_env '' KBtrust'' StoreCreate]"]
  have "set (KnownStoreNames (registry_run booted [Resolve sample_env '' KBtrust'' StoreCreate]))
      = {n. store_of (registry_run booted [Resolve sample_env '' KBtrust'' StoreCreate]) n \<noteq> None}"
    unfolding Let_def by blast
  also have "\<dots> = {''dsswres'', ''kbtrust''}"
    unfolding registry_run_def foldl.simps registry_step.simps booted_resolve snd_conv
    by (auto simp: store_of_def builtinDocStores_def live_Cons open_dynamic_def booted_def split: if_splits)
  finally show ?thesis .
qed

theorem created_store_survives_restart_witness:
  "store_of (snd (RestoreDynamicStores sample_env
     (restarted (builtin booted) (config_file (snd (ResolveDocStore sample_env '' KBtrust'' StoreCreate booted)))))) ''kbtrust''
   = Some (sample_open ''zdpu'')"
proof -
  have "config_addrs booted = Some (config_file booted)" "save_ok sample_env" "address (sample_open ''zdpu'') \<noteq> ''''"
    "open_db sample_env (address (sample_open ''zdpu'')) ''kbtrust'' = Opened (sample_open ''zdpu'')"
    by (simp_all add: booted_def sample_env_def sample_open_def)
  note this' = this
  have "store_of booted (store_name '' KBtrust'') = None" by (simp add: trust_name booted_store)
  from created_store_survives_restart[OF booted_ok this'(1,2) this booted_resolve this'(3,4) refl]
  show ?thesis by (simp add: booted_resolve)
qed

end
