(* ===== verification/Batch.thy ===== *)
theory Batch
  imports DocStore "HOL-Library.Sublist"
begin

text \<open>
  Writing documents in groups: \<open>app/batch_put.go\<close>, \<open>app/group_commit.go\<close>, and the queue of
  \<open>app/lineage_queue.go\<close>.  The writers are functions of the store's \<open>Put\<close> and \<open>PutAll\<close>, which answer
  whether they succeeded (a panic inside the store is turned into an error by the wrappers \<open>put\<close> and
  \<open>putAll\<close>).  Their lemmas are proved once, in the locale \<open>doc_writer\<close>.  The environment variables are
  fields of \<open>settings\<close>.  A caller of \<open>PutManyCoalesced\<close> whose context is cancelled stops waiting; the
  request itself is still written, and that is what is modelled.
\<close>

record settings =
  batch_put :: bool
  group_commit :: bool
  max_docs :: nat
  max_bytes :: nat
  group_max_docs :: nat

definition default_settings :: settings where
  "default_settings = \<lparr>batch_put = True, group_commit = True, max_docs = 500, max_bytes = 512 * 1024, group_max_docs = 64\<rparr>"

definition json_size :: "('d \<Rightarrow> string option) \<Rightarrow> 'd \<Rightarrow> nat" where
  "json_size enc d = (case enc d of Some b \<Rightarrow> length b | None \<Rightarrow> 1024)"

section \<open>Batches\<close>

fun split_loop :: "('d \<Rightarrow> nat) \<Rightarrow> nat \<Rightarrow> nat \<Rightarrow> 'd list \<Rightarrow> 'd list \<Rightarrow> nat \<Rightarrow> 'd list list" where
  "split_loop sz maxDocs maxBytes [] cur sofar = (if cur \<noteq> [] then [cur] else [])"
| "split_loop sz maxDocs maxBytes (d # ds) cur sofar =
     (if cur \<noteq> [] \<and> (length cur \<ge> maxDocs \<or> sofar + sz d > maxBytes)
      then cur # split_loop sz maxDocs maxBytes ds [d] (sz d)
      else split_loop sz maxDocs maxBytes ds (cur @ [d]) (sofar + sz d))"

definition splitBatches :: "('d \<Rightarrow> nat) \<Rightarrow> 'd list \<Rightarrow> nat \<Rightarrow> nat \<Rightarrow> 'd list list" where
  "splitBatches sz docs maxDocs maxBytes = split_loop sz maxDocs maxBytes docs [] 0"

text \<open>The documents stored, whether there was an error, and the store.\<close>

fun putDocumentsOneByOne :: "('d \<Rightarrow> 's \<Rightarrow> bool \<times> 's) \<Rightarrow> 'd list \<Rightarrow> 's \<Rightarrow> 'd list \<times> bool \<times> 's" where
  "putDocumentsOneByOne put [] s = ([], False, s)"
| "putDocumentsOneByOne put (d # ds) s =
     (case put d s of (ok, s1) \<Rightarrow>
        (case putDocumentsOneByOne put ds s1 of (stored, err, s2) \<Rightarrow>
           (if ok then d # stored else stored, err \<or> \<not> ok, s2)))"

fun put_batches :: "('d \<Rightarrow> 's \<Rightarrow> bool \<times> 's) \<Rightarrow> ('d list \<Rightarrow> 's \<Rightarrow> bool \<times> 's) \<Rightarrow> 'd list list \<Rightarrow> 's \<Rightarrow> 'd list \<times> bool \<times> 's" where
  "put_batches put putAll [] s = ([], False, s)"
| "put_batches put putAll (b # bs) s =
     (case putAll b s of (ok, s1) \<Rightarrow>
        (case (if ok then (b, False, s1) else putDocumentsOneByOne put b s1) of (st, e, s2) \<Rightarrow>
           (case put_batches put putAll bs s2 of (stored, err, s3) \<Rightarrow> (st @ stored, e \<or> err, s3))))"

section \<open>Group commit\<close>

text \<open>A request is a document and its size.  The chunk the inner loop of \<open>write\<close> takes, and the rest.\<close>

fun take_chunk :: "nat \<Rightarrow> nat \<Rightarrow> nat \<Rightarrow> nat \<Rightarrow> ('d \<times> nat) list \<Rightarrow> ('d \<times> nat) list \<times> ('d \<times> nat) list" where
  "take_chunk maxDocs maxBytes cnt sofar [] = ([], [])"
| "take_chunk maxDocs maxBytes cnt sofar ((d, n) # rs) =
     (if cnt = 0 \<or> (cnt < maxDocs \<and> sofar + n \<le> maxBytes)
      then (case take_chunk maxDocs maxBytes (cnt + 1) (sofar + n) rs of (c, rest) \<Rightarrow> ((d, n) # c, rest))
      else ([], (d, n) # rs))"

lemma take_chunk_append: "take_chunk a b c s rs = (x, y) \<Longrightarrow> x @ y = rs"
  by (induction a b c s rs arbitrary: x y rule: take_chunk.induct) (auto split: if_splits prod.splits)

lemma take_chunk_first: "fst (take_chunk a b 0 s (r # rs)) \<noteq> []"
  by (cases r) (simp split: prod.split)

lemma take_chunk_shorter:
  assumes "(chunk, rest) = take_chunk maxDocs maxBytes 0 n (r # rs)"
  shows "length rest < Suc (length rs)"
proof -
  have "chunk @ rest = r # rs" "chunk \<noteq> []"
    using take_chunk_append[OF assms[symmetric]] take_chunk_first[of maxDocs maxBytes n r rs] assms
    by (simp_all add: prod_eq_iff del: take_chunk.simps)
  then have "length chunk + length rest = Suc (length rs)" "chunk \<noteq> []"
    by (metis length_append length_Cons, simp)
  then show ?thesis by (cases chunk) auto
qed

text \<open>The answers to a list of requests written with individual \<open>Put\<close>s.\<close>

fun put_answers :: "('d \<Rightarrow> 's \<Rightarrow> bool \<times> 's) \<Rightarrow> 'd list \<Rightarrow> 's \<Rightarrow> bool list \<times> 's" where
  "put_answers put [] s = ([], s)"
| "put_answers put (d # ds) s =
     (case put d s of (ok, s1) \<Rightarrow> (case put_answers put ds s1 of (oks, s2) \<Rightarrow> (ok # oks, s2)))"

definition write_chunk :: "('d \<Rightarrow> 's \<Rightarrow> bool \<times> 's) \<Rightarrow> ('d list \<Rightarrow> 's \<Rightarrow> bool \<times> 's) \<Rightarrow> 'd list \<Rightarrow> 's \<Rightarrow> bool list \<times> 's" where
  "write_chunk put putAll ds s =
     (if length ds = 1 then put_answers put ds s
      else case putAll ds s of (ok, s1) \<Rightarrow>
        (if ok then (map (\<lambda>_. True) ds, s1) else put_answers put ds s1))"

function storeWriter_write ::
  "('d \<Rightarrow> 's \<Rightarrow> bool \<times> 's) \<Rightarrow> ('d list \<Rightarrow> 's \<Rightarrow> bool \<times> 's) \<Rightarrow> nat \<Rightarrow> nat \<Rightarrow> ('d \<times> nat) list \<Rightarrow> 's \<Rightarrow> bool list \<times> 's" where
  "storeWriter_write put putAll maxDocs maxBytes [] s = ([], s)"
| "storeWriter_write put putAll maxDocs maxBytes (r # rs) s =
     (case take_chunk maxDocs maxBytes 0 0 (r # rs) of (chunk, rest) \<Rightarrow>
        (case write_chunk put putAll (map fst chunk) s of (oks, s1) \<Rightarrow>
           (case storeWriter_write put putAll maxDocs maxBytes rest s1 of (oks', s2) \<Rightarrow> (oks @ oks', s2))))"
  by pat_completeness auto

termination
  by (relation "measure (\<lambda>(_, _, _, _, rs, _). length rs)")
    (auto dest!: take_chunk_shorter simp del: take_chunk.simps)

text \<open>The writer of one store: requests waiting, requests taken by the running writer goroutine, the
  answers given so far, and the store.\<close>

record ('d, 's) writer =
  waiting :: "('d \<times> nat) list"
  writing :: "('d \<times> nat) list"
  running :: bool
  answered :: "('d \<times> bool) list"
  target :: 's

datatype 'd writer_event = Enqueue "('d \<times> nat) list" | TakeQueue | WriteTaken

fun writer_step ::
  "('d \<Rightarrow> 's \<Rightarrow> bool \<times> 's) \<Rightarrow> ('d list \<Rightarrow> 's \<Rightarrow> bool \<times> 's) \<Rightarrow> settings \<Rightarrow> 'd writer_event \<Rightarrow> ('d, 's) writer \<Rightarrow> ('d, 's) writer" where
  "writer_step put putAll cfg (Enqueue reqs) w = w\<lparr>waiting := waiting w @ reqs, running := True\<rparr>"
| "writer_step put putAll cfg TakeQueue w =
     (if \<not> running w \<or> writing w \<noteq> [] then w
      else if waiting w = [] then w\<lparr>running := False\<rparr>
      else w\<lparr>writing := waiting w, waiting := []\<rparr>)"
| "writer_step put putAll cfg WriteTaken w =
     (if writing w = [] then w
      else case storeWriter_write put putAll (max_docs cfg) (max_bytes cfg) (writing w) (target w) of
        (oks, s) \<Rightarrow>
          w\<lparr>answered := answered w @ zip (map fst (writing w)) oks, writing := [], target := s\<rparr>)"

definition writer_run ::
  "('d \<Rightarrow> 's \<Rightarrow> bool \<times> 's) \<Rightarrow> ('d list \<Rightarrow> 's \<Rightarrow> bool \<times> 's) \<Rightarrow> settings \<Rightarrow> 'd writer_event list \<Rightarrow> 's \<Rightarrow> ('d, 's) writer" where
  "writer_run put putAll cfg evs s =
     foldl (\<lambda>w ev. writer_step put putAll cfg ev w)
       \<lparr>waiting = [], writing = [], running = False, answered = [], target = s\<rparr> evs"

text \<open>One error per document, for a caller that finds the writer idle and is not joined by others.\<close>

definition PutManyCoalesced ::
  "('d \<Rightarrow> 's \<Rightarrow> bool \<times> 's) \<Rightarrow> ('d list \<Rightarrow> 's \<Rightarrow> bool \<times> 's) \<Rightarrow> settings \<Rightarrow> ('d \<Rightarrow> nat) \<Rightarrow> 'd list \<Rightarrow> 's \<Rightarrow> bool list \<times> 's" where
  "PutManyCoalesced put putAll cfg sz ds s =
     (if \<not> (group_commit cfg \<and> batch_put cfg) then put_answers put ds s
      else storeWriter_write put putAll (max_docs cfg) (max_bytes cfg) (map (\<lambda>d. (d, sz d)) ds) s)"

definition PutDocumentsBatched ::
  "('d \<Rightarrow> 's \<Rightarrow> bool \<times> 's) \<Rightarrow> ('d list \<Rightarrow> 's \<Rightarrow> bool \<times> 's) \<Rightarrow> settings \<Rightarrow> ('d \<Rightarrow> nat) \<Rightarrow> 'd list \<Rightarrow> 's \<Rightarrow> 'd list \<times> bool \<times> 's" where
  "PutDocumentsBatched put putAll cfg sz ds s =
     (if \<not> batch_put cfg then putDocumentsOneByOne put ds s
      else if group_commit cfg \<and> length ds \<le> group_max_docs cfg then
        (case PutManyCoalesced put putAll cfg sz ds s of (oks, s1) \<Rightarrow>
           (map fst (filter snd (zip ds oks)), list_ex Not oks, s1))
      else put_batches put putAll (splitBatches sz ds (max_docs cfg) (max_bytes cfg)) s)"

section \<open>The batches\<close>

definition batch_within :: "('d \<Rightarrow> nat) \<Rightarrow> nat \<Rightarrow> nat \<Rightarrow> 'd list \<Rightarrow> bool" where
  "batch_within sz maxDocs maxBytes b \<longleftrightarrow>
     b \<noteq> [] \<and> length b \<le> maxDocs \<and> (sum_list (map sz b) \<le> maxBytes \<or> length b = 1)"

lemma split_loop_concat: "concat (split_loop sz maxDocs maxBytes ds cur n) = cur @ ds"
  by (induction sz maxDocs maxBytes ds cur n rule: split_loop.induct) auto

lemma split_loop_within:
  assumes "1 \<le> maxDocs" and "cur = [] \<or> batch_within sz maxDocs maxBytes cur" and "n = sum_list (map sz cur)"
  shows "list_all (batch_within sz maxDocs maxBytes) (split_loop sz maxDocs maxBytes ds cur n)"
  using assms
proof (induction ds arbitrary: cur n)
  case Nil
  then show ?case by auto
next
  case (Cons d ds)
  have one: "batch_within sz maxDocs maxBytes [d]"
    using Cons.prems(1) by (simp add: batch_within_def)
  show ?case
  proof (cases "cur \<noteq> [] \<and> (length cur \<ge> maxDocs \<or> n + sz d > maxBytes)")
    case True
    then show ?thesis
      using Cons.prems Cons.IH[OF Cons.prems(1), of "[d]" "sz d"] one by auto
  next
    case False
    then have "batch_within sz maxDocs maxBytes (cur @ [d])"
      using Cons.prems by (auto simp: batch_within_def)
    with False show ?thesis
      using Cons.prems Cons.IH[OF Cons.prems(1), of "cur @ [d]" "n + sz d"] by auto
  qed
qed

text \<open>
  Splitting a load into log entries loses and reorders nothing and respects the limits: the
  batches concatenate to the documents, none is empty, none has more documents than the limit, and
  none exceeds the byte limit unless it is a single document.
\<close>
theorem split_batches_sound:
  assumes "1 \<le> maxDocs"
  shows "concat (splitBatches sz docs maxDocs maxBytes) = docs
    \<and> list_all (\<lambda>b. b \<noteq> [] \<and> length b \<le> maxDocs \<and> (sum_list (map sz b) \<le> maxBytes \<or> length b = 1))
        (splitBatches sz docs maxDocs maxBytes)"
  using split_loop_concat[of sz maxDocs maxBytes docs "[]" 0] split_loop_within[OF assms, of "[]" sz maxBytes 0 docs]
  by (simp add: splitBatches_def batch_within_def[abs_def])

theorem split_batches_sound_witness:
  "concat (splitBatches length [''aa'', ''b'', ''cccc''] 2 3) = [''aa'', ''b'', ''cccc'']"
  using split_batches_sound[of 2 length "[''aa'', ''b'', ''cccc'']" 3] by simp

section \<open>Writing in groups is writing one by one\<close>

lemma zip_True: "filter snd (zip ds (map (\<lambda>_. True) ds)) = map (\<lambda>d. (d, True)) ds"
  by (induction ds) auto

context doc_writer
begin

lemma one_by_one:
  "inv s \<Longrightarrow> putDocumentsOneByOne put ds s = (stored, err, s') \<Longrightarrow>
   inv s' \<and> rnd s' = rnd s \<and> content s' = keep_all (rnd s) stored (content s)
   \<and> subseq stored ds \<and> (\<not> err \<longrightarrow> stored = ds)"
proof (induction ds arbitrary: s stored err s')
  case (Cons d ds)
  obtain ok s1 where p: "put d s = (ok, s1)" by (cases "put d s")
  obtain st e s2 where r: "putDocumentsOneByOne put ds s1 = (st, e, s2)"
    by (cases "putDocumentsOneByOne put ds s1")
  have out: "stored = (if ok then d # st else st)" "err = (e \<or> \<not> ok)" "s' = s2"
    using Cons.prems(2) p r by auto
  show ?case
    using put_done[OF Cons.prems(1), of d s1] put_refused[OF Cons.prems(1), of d s1] p
      Cons.IH[OF _ r] out by (cases ok) auto
qed simp

lemma batches:
  "inv s \<Longrightarrow> put_batches put put_all bs s = (stored, err, s') \<Longrightarrow>
   inv s' \<and> rnd s' = rnd s \<and> content s' = keep_all (rnd s) stored (content s)
   \<and> subseq stored (concat bs) \<and> (\<not> err \<longrightarrow> stored = concat bs)"
proof (induction bs arbitrary: s stored err s')
  case (Cons b bs)
  obtain ok s1 where p: "put_all b s = (ok, s1)" by (cases "put_all b s")
  obtain st e s2 where m: "(if ok then (b, False, s1) else putDocumentsOneByOne put b s1) = (st, e, s2)"
    by (cases "if ok then (b, False, s1) else putDocumentsOneByOne put b s1")
  obtain st' e' s3 where r: "put_batches put put_all bs s2 = (st', e', s3)"
    by (cases "put_batches put put_all bs s2")
  have out: "stored = st @ st'" "err = (e \<or> e')" "s' = s3"
    using Cons.prems(2) p m r by auto
  have "inv s2 \<and> rnd s2 = rnd s \<and> content s2 = keep_all (rnd s) st (content s) \<and> subseq st b \<and> (\<not> e \<longrightarrow> st = b)"
    using put_all_done[OF Cons.prems(1), of b s1] put_all_refused[OF Cons.prems(1), of b s1] p m
      one_by_one[of s1 b st e s2] by (cases ok) auto
  with Cons.IH[OF _ r] out show ?case
    by (auto intro: list_emb_append_mono)
qed simp

lemma answers:
  "inv s \<Longrightarrow> put_answers put ds s = (oks, s') \<Longrightarrow>
   inv s' \<and> rnd s' = rnd s \<and> length oks = length ds
   \<and> content s' = keep_all (rnd s) (map fst (filter snd (zip ds oks))) (content s)"
proof (induction ds arbitrary: s oks s')
  case (Cons d ds)
  obtain ok s1 where p: "put d s = (ok, s1)" by (cases "put d s")
  obtain os s2 where r: "put_answers put ds s1 = (os, s2)" by (cases "put_answers put ds s1")
  have out: "oks = ok # os" "s' = s2" using Cons.prems(2) p r by auto
  show ?case
    using put_done[OF Cons.prems(1), of d s1] put_refused[OF Cons.prems(1), of d s1] p
      Cons.IH[OF _ r] out by (cases ok) auto
qed simp

lemma chunk:
  assumes "inv s" and "write_chunk put put_all ds s = (oks, s')"
  shows "inv s' \<and> rnd s' = rnd s \<and> length oks = length ds
   \<and> content s' = keep_all (rnd s) (map fst (filter snd (zip ds oks))) (content s)"
proof (cases "length ds = 1")
  case True
  with assms answers[OF assms(1), of ds] show ?thesis by (simp add: write_chunk_def)
next
  case False
  obtain ok s1 where p: "put_all ds s = (ok, s1)" by (cases "put_all ds s")
  with False assms(2) have "(if ok then (map (\<lambda>_. True) ds, s1) else put_answers put ds s1) = (oks, s')"
    by (simp add: write_chunk_def)
  then show ?thesis
    using put_all_done[OF assms(1), of ds s1] put_all_refused[OF assms(1), of ds s1] p
      answers[of s1 ds oks s'] by (cases ok) (auto simp: zip_True comp_def)
qed

lemma write_all:
  "inv s \<Longrightarrow> storeWriter_write put put_all maxDocs maxBytes rs s = (oks, s') \<Longrightarrow>
   inv s' \<and> rnd s' = rnd s \<and> length oks = length rs
   \<and> content s' = keep_all (rnd s) (map fst (filter snd (zip (map fst rs) oks))) (content s)"
proof (induction rs arbitrary: s oks s' rule: length_induct)
  case (1 rs)
  show ?case
  proof (cases rs)
    case Nil
    with 1 show ?thesis by simp
  next
    case (Cons r rs')
    obtain c rest where t: "take_chunk maxDocs maxBytes 0 0 (r # rs') = (c, rest)"
      by (cases "take_chunk maxDocs maxBytes 0 0 (r # rs')")
    obtain o1 s1 where w: "write_chunk put put_all (map fst c) s = (o1, s1)"
      by (cases "write_chunk put put_all (map fst c) s")
    obtain o2 s2 where r: "storeWriter_write put put_all maxDocs maxBytes rest s1 = (o2, s2)"
      by (cases "storeWriter_write put put_all maxDocs maxBytes rest s1")
    have out: "oks = o1 @ o2" "s' = s2"
      using 1(3) t w r by (simp_all add: Cons del: take_chunk.simps)
    have split: "c @ rest = rs" and "length rest < length rs"
      using take_chunk_append[OF t] take_chunk_shorter[OF t[symmetric]] Cons by auto
    with 1(1) chunk[OF 1(2) w] r have
      "inv s2 \<and> rnd s2 = rnd s1 \<and> length o2 = length rest
       \<and> content s2 = keep_all (rnd s1) (map fst (filter snd (zip (map fst rest) o2))) (content s1)"
      by blast
    then show ?thesis
      using chunk[OF 1(2) w] unfolding out split[symmetric] by simp
  qed
qed

text \<open>What holds of the writer of one store between events.\<close>

definition writer_ok :: "'s \<Rightarrow> ('d, 's) writer \<Rightarrow> 'd list \<Rightarrow> bool" where
  "writer_ok s0 w ds \<longleftrightarrow> inv (target w) \<and> rnd (target w) = rnd s0
     \<and> map fst (answered w) @ map fst (writing w) @ map fst (waiting w) = ds
     \<and> content (target w) = keep_all (rnd s0) (map fst (filter snd (answered w))) (content s0)
     \<and> (\<not> running w \<longrightarrow> writing w = [] \<and> waiting w = [])"

lemma writer_ok_step:
  assumes "writer_ok s0 w ds"
  shows "writer_ok s0 (writer_step put put_all cfg ev w)
    (ds @ (case ev of Enqueue reqs \<Rightarrow> map fst reqs | _ \<Rightarrow> []))"
proof (cases ev)
  case (Enqueue reqs)
  with assms show ?thesis by (auto simp: writer_ok_def)
next
  case TakeQueue
  with assms show ?thesis by (auto simp: writer_ok_def)
next
  case WriteTaken
  show ?thesis
  proof (cases "writing w = []")
    case True
    with WriteTaken assms show ?thesis by simp
  next
    case False
    obtain oks s where ws: "storeWriter_write put put_all (max_docs cfg) (max_bytes cfg) (writing w) (target w) = (oks, s)"
      by (cases "storeWriter_write put put_all (max_docs cfg) (max_bytes cfg) (writing w) (target w)")
    have "inv (target w)" using assms by (simp add: writer_ok_def)
    from write_all[OF this ws] WriteTaken False ws assms show ?thesis
      by (simp add: writer_ok_def)
  qed
qed

lemma writer_ok_run:
  assumes "inv s"
  shows "writer_ok s (writer_run put put_all cfg evs s)
    (concat (map (\<lambda>ev. case ev of Enqueue reqs \<Rightarrow> map fst reqs | _ \<Rightarrow> []) evs))"
proof (induction evs rule: rev_induct)
  case Nil
  with assms show ?case by (simp add: writer_run_def writer_ok_def)
next
  case (snoc ev evs)
  from writer_ok_step[OF snoc, of cfg ev] show ?case
    by (simp add: writer_run_def)
qed

lemma batched:
  assumes "inv s" and "PutDocumentsBatched put put_all cfg sz ds s = (stored, err, s')" and "1 \<le> max_docs cfg"
  shows "inv s' \<and> content s' = keep_all (rnd s) stored (content s) \<and> subseq stored ds \<and> (\<not> err \<longrightarrow> stored = ds)"
proof (cases "batch_put cfg")
  case False
  with assms one_by_one[OF assms(1), of ds] show ?thesis by (simp add: PutDocumentsBatched_def)
next
  case batch: True
  show ?thesis
  proof (cases "group_commit cfg \<and> length ds \<le> group_max_docs cfg")
    case True
    obtain oks s1 where p: "PutManyCoalesced put put_all cfg sz ds s = (oks, s1)"
      by (cases "PutManyCoalesced put put_all cfg sz ds s")
    have out: "stored = map fst (filter snd (zip ds oks))" "err = list_ex Not oks" "s' = s1"
      using assms(2) batch True p by (auto simp: PutDocumentsBatched_def)
    have "storeWriter_write put put_all (max_docs cfg) (max_bytes cfg) (map (\<lambda>d. (d, sz d)) ds) s = (oks, s1)"
      using p batch True by (simp add: PutManyCoalesced_def)
    from write_all[OF assms(1) this]
    have w: "inv s1" "length oks = length ds"
      "content s1 = keep_all (rnd s) (map fst (filter snd (zip ds oks))) (content s)"
      by (simp_all add: comp_def)
    have "subseq (map fst (filter snd (zip ds oks))) ds"
      using w(2) by (induction ds oks rule: list_induct2') auto
    moreover have "map fst (filter snd (zip ds oks)) = ds" if "\<not> list_ex Not oks"
      using w(2) that by (induction ds oks rule: list_induct2') auto
    ultimately show ?thesis using w out by auto
  next
    case False
    with batch assms(2) have "put_batches put put_all (splitBatches sz ds (max_docs cfg) (max_bytes cfg)) s = (stored, err, s')"
      by (auto simp: PutDocumentsBatched_def)
    from batches[OF assms(1) this] show ?thesis
      by (simp add: splitBatches_def split_loop_concat)
  qed
qed

end





section \<open>The lineage queue\<close>

text \<open>\<open>pending\<close> and \<open>order\<close>; a job is named by its key (store and document identifier) and carries the
  document.  \<open>done\<close> lists the jobs processed, oldest first.\<close>

record 'j lineage_queue =
  lq_pending :: "string \<rightharpoonup> 'j"
  lq_order :: "string list"
  lq_running :: bool
  lq_done :: "(string \<times> 'j) list"

definition empty_lineage :: "'j lineage_queue" where
  "empty_lineage = \<lparr>lq_pending = Map.empty, lq_order = [], lq_running = False, lq_done = []\<rparr>"

definition lineage_key :: "string \<Rightarrow> string \<Rightarrow> string" where
  "lineage_key storeName docID = storeName @ [CHR 0x00] @ docID"

definition enqueueLineage :: "string \<Rightarrow> 'j \<Rightarrow> 'j lineage_queue \<Rightarrow> 'j lineage_queue" where
  "enqueueLineage key job q =
     q\<lparr>lq_order := (if lq_pending q key = None then lq_order q @ [key] else lq_order q),
       lq_pending := (lq_pending q)(key \<mapsto> job), lq_running := True\<rparr>"

text \<open>One turn of the worker: take the first key and process its job, or stop.  Reading a key that is
  not pending yields Go's zero job; the invariant excludes it.\<close>

definition lineageWorker_turn :: "'j lineage_queue \<Rightarrow> 'j lineage_queue" where
  "lineageWorker_turn q =
     (if \<not> lq_running q then q
      else case lq_order q of
        [] \<Rightarrow> q\<lparr>lq_running := False\<rparr>
      | key # rest \<Rightarrow>
          q\<lparr>lq_order := rest, lq_pending := (lq_pending q)(key := None),
            lq_done := lq_done q @ (case lq_pending q key of Some job \<Rightarrow> [(key, job)] | None \<Rightarrow> [])\<rparr>)"

datatype 'j lineage_event = Updated string 'j | WorkerTurn

fun lineage_step :: "'j lineage_event \<Rightarrow> 'j lineage_queue \<Rightarrow> 'j lineage_queue" where
  "lineage_step (Updated k j) q = enqueueLineage k j q"
| "lineage_step WorkerTurn q = lineageWorker_turn q"

definition lineage_run :: "'j lineage_event list \<Rightarrow> 'j lineage_queue" where
  "lineage_run evs = foldl (\<lambda>q ev. lineage_step ev q) empty_lineage evs"

text \<open>The last update of a key in a sequence of events, and the last job processed for it.\<close>

definition last_update :: "'j lineage_event list \<Rightarrow> string \<Rightarrow> 'j option" where
  "last_update evs k = foldl (\<lambda>r ev. case ev of Updated k' j \<Rightarrow> if k' = k then Some j else r | _ \<Rightarrow> r) None evs"

definition last_done :: "'j lineage_queue \<Rightarrow> string \<Rightarrow> 'j option" where
  "last_done q k = gm_get (rev (lq_done q)) k"

definition lineage_ok :: "'j lineage_event list \<Rightarrow> 'j lineage_queue \<Rightarrow> bool" where
  "lineage_ok evs q \<longleftrightarrow> distinct (lq_order q) \<and> set (lq_order q) = dom (lq_pending q)
     \<and> (lq_running q \<or> lq_order q = [])
     \<and> (\<forall>k. last_update evs k = (case lq_pending q k of Some j \<Rightarrow> Some j | None \<Rightarrow> last_done q k))"

lemma last_update_snoc:
  "last_update (evs @ [ev]) k = (case ev of Updated k' j \<Rightarrow> if k' = k then Some j else last_update evs k | _ \<Rightarrow> last_update evs k)"
  by (simp add: last_update_def split: lineage_event.split)

lemma lineage_ok_step:
  assumes "lineage_ok evs q"
  shows "lineage_ok (evs @ [ev]) (lineage_step ev q)"
proof (cases ev)
  case (Updated k j)
  with assms show ?thesis
    by (auto simp: lineage_ok_def enqueueLineage_def last_update_snoc last_done_def cong: option.case_cong)
next
  case WorkerTurn
  show ?thesis
  proof (cases "lq_running q \<and> lq_order q \<noteq> []")
    case False
    with WorkerTurn assms show ?thesis
      by (auto simp: lineage_ok_def lineageWorker_turn_def last_update_snoc last_done_def split: list.split
        cong: option.case_cong)
  next
    case True
    then obtain key rest where o: "lq_order q = key # rest" by (cases "lq_order q") auto
    then have "key \<in> dom (lq_pending q)" using assms by (auto simp: lineage_ok_def)
    then obtain job where p: "lq_pending q key = Some job" by blast
    have q': "lineage_step WorkerTurn q = q\<lparr>lq_order := rest, lq_pending := (lq_pending q)(key := None), lq_done := lq_done q @ [(key, job)]\<rparr>"
      using True o p by (simp add: lineageWorker_turn_def)
    have "set rest = dom (lq_pending q) - {key}" "distinct rest"
      using assms o by (auto simp: lineage_ok_def)
    moreover have "last_update (evs @ [WorkerTurn]) k =
        (case ((lq_pending q)(key := None)) k of Some j \<Rightarrow> Some j | None \<Rightarrow> gm_get (rev (lq_done q @ [(key, job)])) k)" for k
      using assms p by (simp add: lineage_ok_def last_update_snoc last_done_def split: option.split)
    ultimately show ?thesis
      unfolding WorkerTurn q' lineage_ok_def using True by (simp add: last_done_def cong: option.case_cong)
  qed
qed

lemma lineage_ok_run: "lineage_ok evs (lineage_run evs)"
proof (induction evs rule: rev_induct)
  case Nil
  then show ?case
    by (simp add: lineage_run_def lineage_ok_def empty_lineage_def last_update_def last_done_def)
next
  case (snoc ev evs)
  from lineage_ok_step[OF this, of ev] show ?case by (simp add: lineage_run_def)
qed

text \<open>
  The lineage queue loses no final state: after any interleaving of updates and worker turns the
  last version of every updated document is either waiting, once, or the one processed last; when the
  worker has stopped nothing waits, so every document's catalog entry was made from its last version.
\<close>
theorem lineage_final_state:
  "distinct (lq_order (lineage_run evs))
   \<and> last_update evs k = (case lq_pending (lineage_run evs) k of Some j \<Rightarrow> Some j | None \<Rightarrow> last_done (lineage_run evs) k)
   \<and> (lq_running (lineage_run evs) \<or> last_update evs k = last_done (lineage_run evs) k)"
proof -
  have ok: "distinct (lq_order (lineage_run evs))" "set (lq_order (lineage_run evs)) = dom (lq_pending (lineage_run evs))"
    "lq_running (lineage_run evs) \<or> lq_order (lineage_run evs) = []"
    and last: "last_update evs k = (case lq_pending (lineage_run evs) k of Some j \<Rightarrow> Some j | None \<Rightarrow> last_done (lineage_run evs) k)"
    using lineage_ok_run[of evs] by (auto simp: lineage_ok_def)
  have "last_update evs k = last_done (lineage_run evs) k" if "lq_order (lineage_run evs) = []"
  proof -
    have "lq_pending (lineage_run evs) k = None"
      using ok(2) that by auto
    then show ?thesis using last by simp
  qed
  then show ?thesis using ok last by blast
qed

end
