(* ===== verification/Query.thy ===== *)
theory Query
  imports DocStore "HOL-Library.Sublist"
begin

text \<open>
  Answering queries: the local replica (\<open>queryLocalDB\<close>, \<open>queryLocalRaw\<close> of \<open>app/service.go\<close> and
  \<open>app/query_fastpath.go\<close>), the query protocol between peers (\<open>app/query_handler.go\<close>), and the merge
  strategies of \<open>app/service.go\<close>.  \<open>None\<close> is an error or a panic.  What peers answer, and the order in
  which goroutines deliver their results, are arguments.
\<close>

section \<open>The local replica\<close>

definition toDocMaps :: "json list \<Rightarrow> document list" where
  "toDocMaps results = List.map_filter (\<lambda>r. case r of JObj o1 \<Rightarrow> Some o1 | _ \<Rightarrow> None) results"

definition queryLocalDB :: "golib \<Rightarrow> docstore \<Rightarrow> document list \<Rightarrow> document list option" where
  "queryLocalDB lib s criteria =
     (case idOnlyCriteria criteria of
        Some i \<Rightarrow> map_option toDocMaps (store_Get s i)
      | None \<Rightarrow>
          (let flt = criteriaFilter lib criteria; eq = indexableEqualities criteria;
               results = (case (if eq \<noteq> [] then QueryIndexed s eq flt else None) of
                            Some r \<Rightarrow> r | None \<Rightarrow> store_Query s flt)
           in map_option toDocMaps results))"

text \<open>\<open>queryLocalRaw\<close>: \<open>Inl ()\<close> when the raw path does not apply and the caller uses \<open>queryLocalDB\<close>,
  \<open>Inr None\<close> an error.\<close>

definition is_object :: "json option \<Rightarrow> bool" where
  "is_object v = (case v of Some (JObj _) \<Rightarrow> True | _ \<Rightarrow> False)"

definition queryLocalRaw :: "golib \<Rightarrow> docstore \<Rightarrow> document list \<Rightarrow> unit + string list option" where
  "queryLocalRaw lib s criteria =
     (case idOnlyCriteria criteria of
        Some i \<Rightarrow>
          (if CHR '' '' \<in> set i then Inl ()
           else case GetRaw s i of
             None \<Rightarrow> Inr (Some [])
           | Some b \<Rightarrow> if is_object (unmarshal s b) then Inr (Some [b]) else Inl ())
      | None \<Rightarrow>
          (case exactEqualities criteria of
             Some eq \<Rightarrow>
               (case QueryRawExact s eq of
                  Some docs \<Rightarrow> Inr (Some docs)
                | None \<Rightarrow> Inr (QueryRaw s (indexableEqualities criteria) (criteriaFilter lib criteria)))
           | None \<Rightarrow> Inr (QueryRaw s (indexableEqualities criteria) (criteriaFilter lib criteria))))"

text \<open>The JSON array of the stored documents.\<close>

definition RawDocs_MarshalJSON :: "string list \<Rightarrow> string" where
  "RawDocs_MarshalJSON docs = ''['' @ join_with '','' docs @ '']''"

section \<open>Options of a request\<close>

record qOptions =
  Strategy :: string
  ForceRemote :: bool
  IncludeLocal :: bool
  AnnotateSource :: bool
  TimeBudgetMs :: int
  MaxPeers :: int
  QuorumN :: int

text \<open>\<open>int(t)\<close> of a float truncates towards zero (floats outside the range of \<open>int\<close> are not modelled).\<close>

definition asInt :: "json \<Rightarrow> int option" where
  "asInt v =
     (case v of
        JNum x \<Rightarrow> Some (if 0 \<le> x then \<lfloor>x\<rfloor> else \<lceil>x\<rceil>)
      | JInt i \<Rightarrow> Some i
      | _ \<Rightarrow> None)"

definition field :: "document \<Rightarrow> string \<Rightarrow> json" where
  "field m k = (case gm_get m k of Some v \<Rightarrow> v | None \<Rightarrow> JNull)"

definition str_opt :: "document \<Rightarrow> string \<Rightarrow> string \<Rightarrow> string" where
  "str_opt m k d = (case field m k of JStr s \<Rightarrow> if s \<noteq> '''' then s else d | _ \<Rightarrow> d)"

definition bool_opt :: "document \<Rightarrow> string \<Rightarrow> bool \<Rightarrow> bool" where
  "bool_opt m k d = (case field m k of JBool b \<Rightarrow> b | _ \<Rightarrow> d)"

definition int_opt :: "document \<Rightarrow> string \<Rightarrow> int \<Rightarrow> int" where
  "int_opt m k d = (case asInt (field m k) of Some i \<Rightarrow> i | None \<Rightarrow> d)"

definition read_options :: "document \<Rightarrow> qOptions \<Rightarrow> qOptions" where
  "read_options m o1 =
     \<lparr>Strategy = str_opt m ''strategy'' (Strategy o1), ForceRemote = bool_opt m ''force_remote'' (ForceRemote o1),
      IncludeLocal = bool_opt m ''include_local'' (IncludeLocal o1),
      AnnotateSource = bool_opt m ''annotate_source'' (AnnotateSource o1),
      TimeBudgetMs = int_opt m ''time_budget_ms'' (TimeBudgetMs o1), MaxPeers = int_opt m ''max_peers'' (MaxPeers o1),
      QuorumN = int_opt m ''quorum_n'' (QuorumN o1)\<rparr>"

definition default_options :: qOptions where
  "default_options =
     \<lparr>Strategy = ''LOCAL_ONLY'', ForceRemote = False, IncludeLocal = True, AnnotateSource = True,
      TimeBudgetMs = 2000, MaxPeers = 0, QuorumN = 0\<rparr>"

definition parseOptions :: "document \<Rightarrow> qOptions" where
  "parseOptions msg =
     (let top_level = read_options msg default_options
      in case field msg ''options'' of JObj om \<Rightarrow> read_options om top_level | _ \<Rightarrow> top_level)"

definition zero8 :: "string \<Rightarrow> string" where
  "zero8 s = (if length s < 8 then s else take 8 s)"

section \<open>Rows\<close>

definition json_path :: "string list \<Rightarrow> json" where
  "json_path p = JArr (map JStr p)"

definition tagRows :: "json \<Rightarrow> string \<Rightarrow> string list \<Rightarrow> document list \<Rightarrow> document list" where
  "tagRows source traceID tracePath rows =
     map (\<lambda>r. gm_set ''_trace'' (JObj [(''id'', JStr traceID), (''path'', json_path tracePath)])
                (gm_set ''_source'' source r)) rows"

definition row_id :: "document \<Rightarrow> string" where
  "row_id r = (case field r ''_id'' of JStr s \<Rightarrow> s | _ \<Rightarrow> '''')"

fun dedupe_from :: "string set \<Rightarrow> document list \<Rightarrow> document list" where
  "dedupe_from seen_ids [] = []"
| "dedupe_from seen_ids (r # rows) =
     (if row_id r = '''' then r # dedupe_from seen_ids rows
      else if row_id r \<in> seen_ids then dedupe_from seen_ids rows
      else r # dedupe_from (insert (row_id r) seen_ids) rows)"

definition dedupeByID :: "document list \<Rightarrow> document list" where
  "dedupeByID rows = dedupe_from {} rows"

section \<open>The peer side of a query\<close>

text \<open>Collecting the answers of \<open>queryPeersLimited\<close> in the order they arrive, \<open>None\<close> for an error; a
  timeout cuts the list.\<close>

definition limit_peers :: "int \<Rightarrow> 'p list \<Rightarrow> 'p list" where
  "limit_peers maxPeers allPeers =
     (if maxPeers > 0 \<and> maxPeers < int (length allPeers) then take (nat maxPeers) allPeers else allPeers)"

definition gather_peers :: "string list \<Rightarrow> string list \<Rightarrow> (string \<Rightarrow> string option) \<Rightarrow> string list" where
  "gather_peers linked discovered decode_peer =
     linked @ List.map_filter decode_peer (filter (\<lambda>p. p \<notin> set linked) discovered)"

definition collect_limited :: "document list option list \<Rightarrow> document list" where
  "collect_limited arrivals = concat (List.map_filter (\<lambda>a. a) arrivals)"

fun collect_quorum :: "int \<Rightarrow> (string \<times> document list option) list \<Rightarrow> document list \<Rightarrow> string set \<Rightarrow> document list" where
  "collect_quorum n [] merged responders = dedupeByID merged"
| "collect_quorum n ((pid, ans) # arrivals) merged responders =
     (let (merged', responders') =
            (case ans of Some rows \<Rightarrow> if rows \<noteq> [] then (merged @ rows, insert pid responders) else (merged, responders)
             | None \<Rightarrow> (merged, responders))
      in if int (card responders') \<ge> n then dedupeByID merged'
         else collect_quorum n arrivals merged' responders')"

definition queryPeersUntilQuorum :: "int \<Rightarrow> (string \<times> document list option) list \<Rightarrow> document list" where
  "queryPeersUntilQuorum n arrivals = (if arrivals = [] \<or> n \<le> 0 then [] else collect_quorum n arrivals [] {})"

text \<open>The facts of the world a request depends on: the identity of the node, the answer of the local
  replica (\<open>None\<close> an error), the answers of the peers, and which side answers first.\<close>

record peer_world =
  self_id :: string
  local_rows :: "document list \<Rightarrow> document list option"
  limited_rows :: "document list \<Rightarrow> document list"
  quorum_arrivals :: "document list \<Rightarrow> (string \<times> document list option) list"
  local_first :: bool

definition objects_of :: "json \<Rightarrow> document list" where
  "objects_of v = (case v of JArr xs \<Rightarrow> toDocMaps xs | _ \<Rightarrow> [])"

definition strings_of :: "json \<Rightarrow> string list" where
  "strings_of v = (case v of JArr xs \<Rightarrow> List.map_filter (\<lambda>x. case x of JStr s \<Rightarrow> Some s | _ \<Rightarrow> None) xs | _ \<Rightarrow> [])"

definition local_tagged :: "peer_world \<Rightarrow> qOptions \<Rightarrow> document list \<Rightarrow> string \<Rightarrow> string list \<Rightarrow> document list" where
  "local_tagged w opts criteria traceID tracePath =
     (if IncludeLocal opts then
        tagRows (JObj [(''type'', JStr ''local''), (''peer_id'', JStr (self_id w)), (''path'', json_path tracePath)])
          traceID tracePath (case local_rows w criteria of Some rows \<Rightarrow> rows | None \<Rightarrow> [])
      else [])"

text \<open>The rows sent back for a request that decodes to \<open>msg\<close>.\<close>

definition handleQueryStream :: "peer_world \<Rightarrow> document \<Rightarrow> document list" where
  "handleQueryStream w msg =
     (let criteria = objects_of (field msg ''criteria'');
          traceID = (case field msg ''trace_id'' of JStr s \<Rightarrow> s | _ \<Rightarrow> '''');
          tracePath = strings_of (field msg ''trace_path'')
      in if criteria = [] then []
         else if self_id w \<in> set tracePath then []
         else let path = tracePath @ [self_id w];
                  opts0 = parseOptions msg;
                  opts1 = opts0\<lparr>TimeBudgetMs := (if TimeBudgetMs opts0 \<le> 0 then 2000 else TimeBudgetMs opts0),
                                MaxPeers := (if MaxPeers opts0 < 0 then 0 else MaxPeers opts0)\<rparr>;
                  opts = (if field msg ''options'' = JNull \<and> field msg ''include_local'' = JNull \<and> \<not> IncludeLocal opts1
                          then opts1\<lparr>IncludeLocal := True\<rparr> else opts1);
                  loc = local_tagged w opts criteria traceID path
              in if Strategy opts = ''REMOTE_ONLY'' then limited_rows w criteria
                 else if Strategy opts = ''PARALLEL_MERGE'' then
                   dedupeByID (if local_first w then loc @ limited_rows w criteria else limited_rows w criteria @ loc)
                 else if Strategy opts = ''QUORUM'' then
                   dedupeByID (loc @ queryPeersUntilQuorum (QuorumN opts) (quorum_arrivals w criteria))
                 else if Strategy opts = ''LOCAL_THEN_REMOTE_MERGE'' then
                   (if ForceRemote opts \<or> loc = [] then dedupeByID (loc @ limited_rows w criteria) else loc)
                 else loc)"

section \<open>Merging on the asking side\<close>

definition annotate :: "string \<Rightarrow> string \<Rightarrow> string \<Rightarrow> document list \<Rightarrow> document list" where
  "annotate source peerID strategy items =
     map (\<lambda>it.
       let it1 = (if gm_get it ''_source'' = None
                  then gm_set ''_source'' (JObj [(''type'', JStr source), (''peer_id'', JStr peerID)]) it else it)
       in if gm_get it1 ''_trace'' = None
          then gm_set ''_trace'' (JObj [(''strategy'', JStr strategy)]) it1 else it1) items"

text \<open>\<open>dedupResults\<close>: one goroutine per row claims its key; \<open>hash\<close> is the hexadecimal SHA-256 of the row's
  JSON.  The rows are given in the order in which the goroutines run.\<close>

definition result_key :: "(document \<Rightarrow> string) \<Rightarrow> document \<Rightarrow> string" where
  "result_key hash item = (case field item ''_id'' of JStr s \<Rightarrow> s | _ \<Rightarrow> hash item)"

fun claim_rows :: "(document \<Rightarrow> string) \<Rightarrow> string set \<Rightarrow> document list \<Rightarrow> document list" where
  "claim_rows key claimed [] = []"
| "claim_rows key claimed (r # rows) =
     (if key r \<in> claimed then claim_rows key claimed rows else r # claim_rows key (insert (key r) claimed) rows)"

definition dedupResults :: "(document \<Rightarrow> string) \<Rightarrow> document list \<Rightarrow> document list" where
  "dedupResults hash schedule = claim_rows (result_key hash) {} schedule"

definition DedupSQLResults :: "(document \<Rightarrow> string) \<Rightarrow> document list \<Rightarrow> document list" where
  "DedupSQLResults hash schedule = claim_rows hash {} schedule"

record queryOptions =
  opt_IncludeLocal :: bool
  opt_ForceRemote :: bool
  opt_AnnotateSource :: bool
  opt_MinRows :: int
  opt_QuorumN :: int
  opt_QuorumConsistency :: bool

text \<open>\<open>loc\<close> and \<open>remote\<close> are the answers (\<open>None\<close> an error); \<open>remote\<close> comes annotated from \<open>queryRemote\<close>.
  \<open>sched\<close> reorders the merged rows the way the goroutines of \<open>dedupResults\<close> run.\<close>

definition local_part :: "queryOptions \<Rightarrow> string \<Rightarrow> document list option \<Rightarrow> document list option" where
  "local_part opt strategy loc =
     (if opt_IncludeLocal opt
      then map_option (\<lambda>rows. if opt_AnnotateSource opt then annotate ''local'' '''' strategy rows else rows) loc
      else Some [])"

definition merge_parts :: "(document \<Rightarrow> string) \<Rightarrow> (document list \<Rightarrow> document list) \<Rightarrow> document list option \<Rightarrow> document list option \<Rightarrow> document list option" where
  "merge_parts hash sched loc remote =
     (if loc = None \<and> remote = None then None
      else Some (dedupResults hash (sched ((case loc of Some r \<Rightarrow> r | None \<Rightarrow> []) @ (case remote of Some r \<Rightarrow> r | None \<Rightarrow> [])))))"

definition localThenRemoteMerge ::
  "(document \<Rightarrow> string) \<Rightarrow> (document list \<Rightarrow> document list) \<Rightarrow> queryOptions \<Rightarrow> document list option \<Rightarrow> document list option \<Rightarrow> document list option" where
  "localThenRemoteMerge hash sched opt loc remote =
     (let l = local_part opt ''LOCAL_THEN_REMOTE_MERGE'' loc
      in case l of
           Some rows \<Rightarrow>
             (if opt_IncludeLocal opt \<and> \<not> opt_ForceRemote opt \<and> rows \<noteq> []
                 \<and> (opt_MinRows opt \<le> 0 \<or> int (length rows) \<ge> opt_MinRows opt)
              then Some rows else merge_parts hash sched l remote)
         | None \<Rightarrow> merge_parts hash sched l remote)"

definition parallelMerge ::
  "(document \<Rightarrow> string) \<Rightarrow> (document list \<Rightarrow> document list) \<Rightarrow> queryOptions \<Rightarrow> document list option \<Rightarrow> document list option \<Rightarrow> document list option" where
  "parallelMerge hash sched opt loc remote = merge_parts hash sched (local_part opt ''PARALLEL_MERGE'' loc) remote"

text \<open>The rows collected from peers in arrival order until enough peers or rows have answered.\<close>

fun quorum_collect :: "queryOptions \<Rightarrow> document list option list \<Rightarrow> int \<Rightarrow> document list \<Rightarrow> document list" where
  "quorum_collect opt [] got collected = collected"
| "quorum_collect opt (a # arrivals) got collected =
     (case a of
        None \<Rightarrow> quorum_collect opt arrivals got collected
      | Some rows \<Rightarrow>
          (if (opt_QuorumConsistency opt \<and> got + 1 \<ge> opt_QuorumN opt)
              \<or> (opt_MinRows opt > 0 \<and> int (length (collected @ rows)) \<ge> opt_MinRows opt)
           then collected @ rows else quorum_collect opt arrivals (got + 1) (collected @ rows)))"

definition quorumMerge ::
  "(document \<Rightarrow> string) \<Rightarrow> (document list \<Rightarrow> document list) \<Rightarrow> queryOptions \<Rightarrow> document list option \<Rightarrow> document list option list \<Rightarrow> document list" where
  "quorumMerge hash sched opt loc arrivals =
     (let opt1 = opt\<lparr>opt_QuorumN := (if opt_QuorumN opt \<le> 0 then 2 else opt_QuorumN opt)\<rparr>;
          l = (case loc of Some rows \<Rightarrow> rows | None \<Rightarrow> []);
          l1 = (if opt_AnnotateSource opt1 then annotate ''local'' '''' ''QUORUM'' l else l)
      in dedupResults hash (sched (l1 @ quorum_collect opt1 arrivals 0 [])))"

section \<open>The fast paths agree with a scan\<close>

definition well_keyed :: "docstore \<Rightarrow> bool" where
  "well_keyed s \<longleftrightarrow> (\<forall>(k, raw) \<in> set (index (ix s)).
     \<exists>obj. unmarshal s raw = Some (JObj obj) \<and> gm_get obj ''_id'' = Some (JStr k))"

definition decoded :: "docstore \<Rightarrow> string \<Rightarrow> document" where
  "decoded s raw = (case unmarshal s raw of Some (JObj obj) \<Rightarrow> obj | _ \<Rightarrow> [])"

definition stored_docs :: "docstore \<Rightarrow> document list" where
  "stored_docs s = map (\<lambda>(k, raw). decoded s raw) (index (ix s))"

definition criteria_match :: "golib \<Rightarrow> document list \<Rightarrow> document \<Rightarrow> bool" where
  "criteria_match lib criteria d \<longleftrightarrow> (\<exists>flt \<in> set criteria. \<forall>p \<in> set flt. condition_holds lib d p)"

lemma well_keyed_get:
  assumes "well_keyed s" and "index_Get (ix s) k = Some raw"
  shows "unmarshal s raw = Some (JObj (decoded s raw))" and "gm_get (decoded s raw) ''_id'' = Some (JStr k)"
proof -
  have "(k, raw) \<in> set (index (ix s))"
    using assms(2) by (simp add: index_Get_def map_of_SomeD)
  then obtain obj where "unmarshal s raw = Some (JObj obj)" "gm_get obj ''_id'' = Some (JStr k)"
    using assms(1) by (auto simp: well_keyed_def)
  then show "unmarshal s raw = Some (JObj (decoded s raw))" "gm_get (decoded s raw) ''_id'' = Some (JStr k)"
    by (simp_all add: decoded_def)
qed

text \<open>The stored bytes under the keys of a list that match.\<close>

lemma filterKeys_spec:
  assumes wk: "well_keyed s" and ty: "list_all typed_filter criteria"
  shows "filterKeys s ks (criteriaFilter lib criteria) =
    Some (map (JObj \<circ> decoded s) (filter (\<lambda>raw. criteria_match lib criteria (decoded s raw)) (List.map_filter (index_Get (ix s)) ks)))"
proof (induction ks)
  case (Cons k ks)
  show ?case
  proof (cases "index_Get (ix s) k")
    case (Some raw)
    then show ?thesis
      using Cons well_keyed_get(1)[OF wk Some]
      by (simp add: map_filter_simps criteriaFilter_typed[OF ty] criteria_match_def)
  qed (use Cons in \<open>simp add: map_filter_simps\<close>)
qed (simp add: map_filter_simps)

lemma rawMatches_spec:
  assumes wk: "well_keyed s" and ty: "list_all typed_filter criteria"
  shows "rawMatches s ks (criteriaFilter lib criteria) =
    Some (filter (\<lambda>raw. criteria_match lib criteria (decoded s raw)) (List.map_filter (index_Get (ix s)) ks))"
proof (induction ks)
  case (Cons k ks)
  show ?case
  proof (cases "index_Get (ix s) k")
    case (Some raw)
    then show ?thesis
      using Cons well_keyed_get(1)[OF wk Some]
      by (simp add: map_filter_simps criteriaFilter_typed[OF ty] criteria_match_def)
  qed (use Cons in \<open>simp add: map_filter_simps\<close>)
qed (simp add: map_filter_simps)

definition matching_raws :: "golib \<Rightarrow> docstore \<Rightarrow> document list \<Rightarrow> string list" where
  "matching_raws lib s criteria = filter (\<lambda>raw. criteria_match lib criteria (decoded s raw)) (map snd (index (ix s)))"

lemma toDocMaps_objects: "toDocMaps (map (JObj \<circ> f) xs) = map f xs"
  by (induction xs) (simp_all add: toDocMaps_def map_filter_simps)

text \<open>Any list of keys without repetitions that includes the key of every match selects all matches.\<close>

lemma candidates_complete:
  assumes wf: "gm_wf (index (ix s))" and ks: "distinct ks"
    and all: "\<And>k raw. index_Get (ix s) k = Some raw \<Longrightarrow> criteria_match lib criteria (decoded s raw) \<Longrightarrow> k \<in> set ks"
  shows "mset (filter (\<lambda>raw. criteria_match lib criteria (decoded s raw)) (List.map_filter (index_Get (ix s)) ks))
       = mset (matching_raws lib s criteria)"
proof -
  let ?P = "\<lambda>raw. criteria_match lib criteria (decoded s raw)"
  let ?ks = "filter (\<lambda>k. \<exists>raw. index_Get (ix s) k = Some raw \<and> ?P raw) ks"
  have "filter ?P (List.map_filter (index_Get (ix s)) xs)
      = List.map_filter (index_Get (ix s)) (filter (\<lambda>k. \<exists>raw. index_Get (ix s) k = Some raw \<and> ?P raw) xs)" for xs
    by (induction xs) (auto simp: map_filter_simps split: option.splits)
  moreover have "set ?ks = {k. \<exists>raw. gm_get (index (ix s)) k = Some raw \<and> ?P raw}"
    using all by (auto simp: index_Get_def)
  from selected_raws[OF _ wf this] have "mset (List.map_filter (gm_get (index (ix s))) ?ks) = mset (matching_raws lib s criteria)"
    using ks by (simp add: matching_raws_def)
  ultimately show ?thesis
    by (simp add: index_Get_def[abs_def])
qed

lemma Keys_complete:
  assumes "gm_wf (index (ix s))"
  shows "distinct (Keys (ix s))" and "index_Get (ix s) k = Some raw \<Longrightarrow> k \<in> set (Keys (ix s))"
  using assms by (auto simp: Keys_def index_Get_def dest!: map_of_SomeD intro: rev_image_eqI)

lemma indexed_complete:
  assumes ok: "fields_ok (unmarshal s) (ix s)" and wk: "well_keyed s"
    and crit: "\<forall>flt \<in> set criteria. gm_wf flt" and ks: "keysByFields (ix s) (indexableEqualities criteria) = Some ks"
    and get: "index_Get (ix s) k = Some raw" and match: "criteria_match lib criteria (decoded s raw)"
  shows "k \<in> set ks"
proof -
  have "indexableEqualities criteria \<noteq> []"
    using ks by (auto simp: keysByFields_def split: if_splits)
  then obtain flt where flt: "criteria = [flt]"
    by (auto simp: indexableEqualities_def split: list.splits)
  have wf: "gm_wf flt" and hold: "\<forall>p \<in> set flt. condition_holds lib (decoded s raw) p"
    using crit match by (auto simp: flt criteria_match_def)
  have wfe: "gm_wf (string_equalities flt)"
    by (rule string_equalities_wf[OF wf])
  have "field_is (unmarshal s) f v raw" if "(f, v) \<in> set (string_equalities flt)" for f v
  proof -
    have "gm_get (decoded s raw) f = Some (JStr v)"
      using string_equalities_hold[OF wf hold] wfe that by simp
    then show ?thesis
      using well_keyed_get(1)[OF wk get] by (auto simp: field_is_def)
  qed
  then show ?thesis
    using keysByFields_spec(2)[OF ok ks] get by (auto simp: flt indexableEqualities_def)
qed

lemma id_filter_match:
  assumes "idOnlyCriteria criteria = Some i"
  shows "criteria_match lib criteria d \<longleftrightarrow> gm_get d ''_id'' = Some (JStr i)"
proof -
  obtain flt where flt: "criteria = [flt]" "length flt = 1" "gm_get flt ''_id'' = Some (JStr i)"
    using assms by (auto simp: idOnlyCriteria_def idOnlyFilter_def split: list.splits option.splits json.splits if_splits)
  then obtain p where "flt = [p]" by (cases flt) auto
  with flt(3) have "flt = [(''_id'', JStr i)]" by (cases p) (auto split: if_splits)
  then have "criteria_match lib criteria d \<longleftrightarrow> getNestedValue d ''_id'' = JStr i"
    by (simp add: criteria_match_def flt(1) condition_holds_def)
  then show ?thesis
    using nested_plain[of d "''_id''"] by (auto split: option.splits)
qed

lemma id_lookup:
  assumes wk: "well_keyed s" and wf: "gm_wf (index (ix s))" and i: "idOnlyCriteria criteria = Some i"
  shows "mset (matching_raws lib s criteria) = mset (case index_Get (ix s) i of Some raw \<Rightarrow> [raw] | None \<Rightarrow> [])"
proof -
  have iff: "criteria_match lib criteria (decoded s raw) \<longleftrightarrow> k = i" if "index_Get (ix s) k = Some raw" for k raw
    using well_keyed_get(2)[OF wk that] id_filter_match[OF i] by simp
  then have "mset (filter (\<lambda>raw. criteria_match lib criteria (decoded s raw)) (List.map_filter (index_Get (ix s)) [i]))
      = mset (matching_raws lib s criteria)"
    by (intro candidates_complete[OF wf]) auto
  then show ?thesis
    using iff[of i] by (simp add: map_filter_simps split: option.splits)
qed

lemma scan_raws:
  assumes "gm_wf (index (ix s))"
  shows "mset (filter (\<lambda>raw. criteria_match lib criteria (decoded s raw)) (List.map_filter (index_Get (ix s)) (Keys (ix s))))
       = mset (matching_raws lib s criteria)"
  by (rule candidates_complete[OF assms Keys_complete(1)[OF assms]]) (rule Keys_complete(2)[OF assms])

lemma indexed_raws:
  assumes ok: "fields_ok (unmarshal s) (ix s)" and wf: "gm_wf (index (ix s))" and wk: "well_keyed s"
    and crit: "\<forall>flt \<in> set criteria. gm_wf flt" and ks: "keysByFields (ix s) (indexableEqualities criteria) = Some ks"
  shows "mset (filter (\<lambda>raw. criteria_match lib criteria (decoded s raw)) (List.map_filter (index_Get (ix s)) ks))
       = mset (matching_raws lib s criteria)"
  by (rule candidates_complete[OF wf keysByFields_spec(1)[OF ok ks]]) (rule indexed_complete[OF ok wk crit ks])

lemma stored_docs_matching:
  "mset (filter (criteria_match lib criteria) (stored_docs s)) = mset (map (decoded s) (matching_raws lib s criteria))"
proof -
  have "filter (criteria_match lib criteria) (map (\<lambda>(k, raw). decoded s raw) xs)
      = map (decoded s) (filter (\<lambda>raw. criteria_match lib criteria (decoded s raw)) (map snd xs))" for xs :: "(string \<times> string) list"
    by (induction xs) auto
  then show ?thesis
    by (simp only: stored_docs_def matching_raws_def)
qed

text \<open>The states in which the answers are stated: the index is what applying log entries gives, and
  every document is stored under its identifier.\<close>

definition loaded_store :: "docstore \<Rightarrow> bool" where
  "loaded_store s \<longleftrightarrow> (\<exists>fs es. ix s = loaded (unmarshal s) fs es) \<and> well_keyed s"

lemma loaded_storeD:
  assumes "loaded_store s"
  shows "fields_ok (unmarshal s) (ix s)" "gm_wf (index (ix s))" "well_keyed s"
  using assms loaded_ok by (auto simp: loaded_store_def)

definition plain_criteria :: "document list \<Rightarrow> bool" where
  "plain_criteria criteria \<longleftrightarrow> list_all typed_filter criteria \<and> list_all gm_wf criteria
     \<and> (case idOnlyCriteria criteria of Some i \<Rightarrow> CHR '' '' \<notin> set i | None \<Rightarrow> True)"

lemma local_query_rows:
  assumes "loaded_store s" and "plain_criteria criteria"
  shows "\<exists>rows. queryLocalDB lib s criteria = Some rows
    \<and> mset rows = mset (filter (criteria_match lib criteria) (stored_docs s))"
proof (cases "idOnlyCriteria criteria")
  case (Some i)
  note st = loaded_storeD[OF assms(1)]
  have "CHR '' '' \<notin> set i" using assms(2) Some by (simp add: plain_criteria_def)
  then have "queryLocalDB lib s criteria = Some (case index_Get (ix s) i of Some raw \<Rightarrow> [decoded s raw] | None \<Rightarrow> [])"
    using Some well_keyed_get(1)[OF st(3)]
    by (auto simp: queryLocalDB_def store_Get_def toDocMaps_def map_filter_simps split: option.split)
  then show ?thesis
    unfolding stored_docs_matching using arg_cong[OF id_lookup[OF st(3,2) Some, of lib], of "image_mset (decoded s)"]
    by (auto split: option.splits)
next
  case None
  note st = loaded_storeD[OF assms(1)]
  have ty: "list_all typed_filter criteria" and wf: "\<forall>flt \<in> set criteria. gm_wf flt"
    using assms(2) by (auto simp: plain_criteria_def list_all_iff)
  let ?rows = "\<lambda>ks. map (decoded s) (filter (\<lambda>raw. criteria_match lib criteria (decoded s raw)) (List.map_filter (index_Get (ix s)) ks))"
  obtain ks where q: "queryLocalDB lib s criteria = Some (?rows ks)"
    and ks: "ks = Keys (ix s) \<or> keysByFields (ix s) (indexableEqualities criteria) = Some ks"
  proof (cases "if indexableEqualities criteria \<noteq> [] then keysByFields (ix s) (indexableEqualities criteria) else None")
    case None
    with \<open>idOnlyCriteria criteria = None\<close> have "queryLocalDB lib s criteria = Some (?rows (Keys (ix s)))"
      by (auto simp: queryLocalDB_def QueryIndexed_def store_Query_def Let_def filterKeys_spec[OF st(3) ty] toDocMaps_objects split: if_splits)
    then show ?thesis by (rule that) simp
  next
    case (Some ks)
    with \<open>idOnlyCriteria criteria = None\<close> have "queryLocalDB lib s criteria = Some (?rows ks)"
      by (auto simp: queryLocalDB_def QueryIndexed_def Let_def filterKeys_spec[OF st(3) ty] toDocMaps_objects split: if_splits)
    then show ?thesis by (rule that) (use Some in \<open>simp split: if_splits\<close>)
  qed
  have "mset (filter (\<lambda>raw. criteria_match lib criteria (decoded s raw)) (List.map_filter (index_Get (ix s)) ks))
      = mset (matching_raws lib s criteria)"
    using ks scan_raws[OF st(2)] indexed_raws[OF st wf] by blast
  then have "mset (?rows ks) = mset (filter (criteria_match lib criteria) (stored_docs s))"
    unfolding stored_docs_matching mset_map by simp
  with q show ?thesis by blast
qed


lemma exact_match:
  assumes wk: "well_keyed s" and crit: "list_all gm_wf criteria" and eq: "exactEqualities criteria = Some eqs"
    and raw: "raw \<in> set (map snd (index (ix s)))"
  shows "criteria_match lib criteria (decoded s raw) \<longleftrightarrow> (\<forall>(f, v) \<in> set eqs. field_is (unmarshal s) f v raw)"
proof -
  obtain flt where flt: "criteria = [flt]" "eqs = string_equalities flt"
    and all: "list_all (\<lambda>(k, v). case v of JStr _ \<Rightarrow> plain_key k | _ \<Rightarrow> False) flt"
    using eq by (auto simp: exactEqualities_def split: list.splits if_splits)
  have str: "\<exists>s. v = JStr s \<and> plain_key k" if "(k, v) \<in> set flt" for k v
    using all that by (cases v) (auto simp: list_all_iff)
  obtain k where k: "(k, raw) \<in> set (index (ix s))" using raw by auto
  then obtain obj where obj: "unmarshal s raw = Some (JObj obj)"
    using wk by (auto simp: well_keyed_def)
  then have dec: "decoded s raw = obj" by (simp add: decoded_def)
  have hold: "condition_holds lib obj (f, JStr v) \<longleftrightarrow> gm_get obj f = Some (JStr v)" if "plain_key f" for f v
    using that nested_plain[of obj f] by (auto simp: condition_holds_def plain_key_def split: option.splits)
  have "criteria_match lib criteria (decoded s raw) \<longleftrightarrow> (\<forall>(f, v) \<in> set flt. condition_holds lib obj (f, v))"
    by (auto simp: criteria_match_def flt(1) dec)
  also have "\<dots> \<longleftrightarrow> (\<forall>(f, v) \<in> set eqs. gm_get obj f = Some (JStr v))"
  proof
    assume h: "\<forall>(f, v) \<in> set flt. condition_holds lib obj (f, v)"
    show "\<forall>(f, v) \<in> set eqs. gm_get obj f = Some (JStr v)"
      using h hold by (fastforce simp: flt(2) string_equalities_mem)
  next
    assume h: "\<forall>(f, v) \<in> set eqs. gm_get obj f = Some (JStr v)"
    show "\<forall>(f, v) \<in> set flt. condition_holds lib obj (f, v)"
    proof safe
      fix f v assume m: "(f, v) \<in> set flt"
      then obtain t where t: "v = JStr t" "plain_key f" using str by blast
      with m have "(f, t) \<in> set eqs" by (simp add: flt(2) string_equalities_mem)
      with h t hold show "condition_holds lib obj (f, v)" by auto
    qed
  qed
  finally show ?thesis
    using obj by (simp add: field_is_def)
qed

text \<open>
  C22.  The undecoded answer is the same answer: whenever \<open>queryLocalRaw\<close> answers a query itself, the
  stored bytes it returns are exactly the stored bytes of the matching documents, so they decode to
  what \<open>queryLocalDB\<close> returns.
\<close>
theorem raw_answer_agrees:
  assumes "loaded_store s" and "plain_criteria criteria" and "queryLocalRaw lib s criteria = Inr answer"
  shows "\<exists>raws. answer = Some raws
    \<and> mset (map (decoded s) raws) = mset (filter (criteria_match lib criteria) (stored_docs s))"
proof -
  note st = loaded_storeD[OF assms(1)]
  have ty: "list_all typed_filter criteria" and lwf: "list_all gm_wf criteria" and wf: "\<forall>flt \<in> set criteria. gm_wf flt"
    using assms(2) by (auto simp: plain_criteria_def list_all_iff)
  have qraw: "\<exists>raws. QueryRaw s (indexableEqualities criteria) (criteriaFilter lib criteria) = Some raws
      \<and> mset raws = mset (matching_raws lib s criteria)"
  proof (cases "keysByFields (ix s) (indexableEqualities criteria)")
    case None
    then show ?thesis
      using scan_raws[OF st(2)] by (simp add: QueryRaw_def rawMatches_spec[OF st(3) ty])
  next
    case (Some ks)
    then show ?thesis
      using scan_raws[OF st(2)] indexed_raws[OF st wf Some] by (simp add: QueryRaw_def rawMatches_spec[OF st(3) ty])
  qed
  have "\<exists>raws. answer = Some raws \<and> mset raws = mset (matching_raws lib s criteria)"
  proof (cases "idOnlyCriteria criteria")
    case (Some i)
    then show ?thesis
      using assms(3) id_lookup[OF st(3,2) Some, of lib]
      by (auto simp: queryLocalRaw_def GetRaw_def split: if_splits option.splits)
  next
    case None
    show ?thesis
    proof (cases "case exactEqualities criteria of None \<Rightarrow> None | Some eqs \<Rightarrow> QueryRawExact s eqs")
      case None
      then show ?thesis
        using assms(3) \<open>idOnlyCriteria criteria = None\<close> qraw by (auto simp: queryLocalRaw_def split: option.splits)
    next
      case (Some raws)
      then obtain eqs where eqs: "exactEqualities criteria = Some eqs" "rawsByFields (ix s) eqs = Some raws"
        by (auto simp: QueryRawExact_def split: option.splits)
      have "filter (\<lambda>raw. \<forall>(f, v) \<in> set eqs. field_is (unmarshal s) f v raw) (map snd (index (ix s))) = matching_raws lib s criteria"
        unfolding matching_raws_def by (rule filter_cong[OF refl]) (simp add: exact_match[OF st(3) lwf eqs(1)])
      with rawsByFields_spec[OF st(1,2) eqs(2)] have "mset raws = mset (matching_raws lib s criteria)" by simp
      then show ?thesis
        using assms(3) \<open>idOnlyCriteria criteria = None\<close> Some eqs(1) by (auto simp: queryLocalRaw_def)
    qed
  qed
  then show ?thesis
    unfolding stored_docs_matching by (metis mset_map)
qed

text \<open>A small store for concrete runs: the bytes of a document are its identifier.\<close>

definition mirror_dec :: "string \<Rightarrow> json option" where
  "mirror_dec raw = Some (doc raw raw)"

definition put_entry :: "nat \<Rightarrow> string \<Rightarrow> entry" where
  "put_entry n k = \<lparr>e_hash = replicate n (CHR ''h''), e_stamp = \<lparr>st_time = int n, st_id = ''p''\<rparr>, e_op = Some (OpPut (Some k) k)\<rparr>"

definition mirror_store :: "string list \<Rightarrow> entry list \<Rightarrow> docstore" where
  "mirror_store fs es = (empty_store sample_enc mirror_dec fs)\<lparr>ix := loaded mirror_dec fs es\<rparr>"

lemma mirror_store_simps [simp]:
  "ix (mirror_store fs es) = loaded mirror_dec fs es" "unmarshal (mirror_store fs es) = mirror_dec"
  by (simp_all add: mirror_store_def empty_store_def)

lemmas load_simps = loaded_def UpdateIndex_def newDocumentIndex_def apply_entry_def put_entry_def
  write_key_def newer_def setKey_def unindexFields_def stringFields_def mirror_dec_def doc_def Let_def

lemma mirror_index:
  "index (loaded mirror_dec [] [put_entry n x]) = (if x = '''' then [] else [(x, x)])"
  by (simp add: load_simps)

lemma mirror_loaded_store: "loaded_store (mirror_store [] [put_entry n x])"
  by (auto simp: loaded_store_def well_keyed_def mirror_index mirror_dec_def doc_def split: if_splits)


theorem raw_answer_agrees_witness:
  "\<exists>raws. queryLocalRaw plain_lib (mirror_store [] [put_entry 1 ''a'']) [[(''_id'', JStr ''a'')]] = Inr (Some raws)
    \<and> mset (map (decoded (mirror_store [] [put_entry 1 ''a''])) raws)
      = mset (filter (criteria_match plain_lib [[(''_id'', JStr ''a'')]]) (stored_docs (mirror_store [] [put_entry 1 ''a''])))"
proof -
  let ?s = "mirror_store [] [put_entry 1 ''a'']" and ?c = "[[(''_id'', JStr ''a'')]]"
  have pc: "plain_criteria ?c"
    by (simp add: plain_criteria_def typed_filter_def idOnlyCriteria_def idOnlyFilter_def)
  have r: "queryLocalRaw plain_lib ?s ?c = Inr (Some [''a''])"
    by (simp add: queryLocalRaw_def idOnlyCriteria_def idOnlyFilter_def GetRaw_def index_Get_def mirror_index
        is_object_def mirror_dec_def doc_def)
  from raw_answer_agrees[OF mirror_loaded_store pc r] r show ?thesis by auto
qed

text \<open>
  C26.  The lookup by identifier is not always the scan: in the store holding only the document with
  identifier \<open>"a.b c"\<close>, the query for that identifier returns nothing, although the document satisfies
  it and the scan finds it: \<open>Get\<close> replaces the dots of an identifier that contains a space.
\<close>
theorem id_lookup_misses:
  "queryLocalDB plain_lib (mirror_store [] [put_entry 1 ''a.b c'']) [[(''_id'', JStr ''a.b c'')]] = Some []
   \<and> filter (criteria_match plain_lib [[(''_id'', JStr ''a.b c'')]]) (stored_docs (mirror_store [] [put_entry 1 ''a.b c'']))
     = [[(''_id'', JStr ''a.b c''), (''v'', JStr ''a.b c'')]]"
proof -
  have "stored_docs (mirror_store [] [put_entry 1 ''a.b c'']) = [[(''_id'', JStr ''a.b c''), (''v'', JStr ''a.b c'')]]"
    by (simp add: stored_docs_def mirror_index decoded_def mirror_dec_def doc_def)
  moreover have "criteria_match plain_lib [[(''_id'', JStr ''a.b c'')]] [(''_id'', JStr ''a.b c''), (''v'', JStr ''a.b c'')]"
    by (simp add: criteria_match_def condition_holds_def getNestedValue_def)
  moreover have "queryLocalDB plain_lib (mirror_store [] [put_entry 1 ''a.b c'']) [[(''_id'', JStr ''a.b c'')]] = Some []"
    by (simp add: queryLocalDB_def idOnlyCriteria_def idOnlyFilter_def store_Get_def dots_to_spaces_def mirror_index
        toDocMaps_def map_filter_simps)
  ultimately show ?thesis by simp
qed

section \<open>Merging loses no document\<close>

lemma dedupe_from_ids:
  "row_id ` set (dedupe_from X rows) - {''''} = row_id ` set rows - insert '''' X"
  by (induction X rows rule: dedupe_from.induct) auto

lemma dedupe_from_distinct:
  "distinct (filter (\<lambda>i. i \<noteq> '''') (map row_id (dedupe_from X rows)))"
proof (induction X rows rule: dedupe_from.induct)
  case (2 X r rows)
  have "row_id r \<notin> row_id ` set (dedupe_from (insert (row_id r) X) rows)" if "row_id r \<noteq> ''''"
    using dedupe_from_ids[of "insert (row_id r) X" rows] that by (auto simp: set_eq_iff)
  with 2 show ?case by auto
qed simp

lemma dedupe_from_subseq: "subseq (dedupe_from X rows) rows"
  by (induction X rows rule: dedupe_from.induct) auto

lemma same_but_one: "(x \<in> A \<longleftrightarrow> x \<in> B) \<Longrightarrow> A - {x} = B - {x} \<Longrightarrow> A = B"
  by blast

lemma dedupe_from_anonymous: "filter (\<lambda>r. row_id r = '''') (dedupe_from X rows) = filter (\<lambda>r. row_id r = '''') rows"
  by (induction X rows rule: dedupe_from.induct) auto

text \<open>
  C40.  Merging rows by identifier: \<open>dedupeByID\<close> returns a subsequence of the rows in which no
  identifier occurs twice, every identifier of the input occurs, and all rows without an identifier
  are kept.
\<close>
theorem dedupe_by_id_sound:
  "subseq (dedupeByID rows) rows
   \<and> distinct (filter (\<lambda>i. i \<noteq> '''') (map row_id (dedupeByID rows)))
   \<and> row_id ` set (dedupeByID rows) = row_id ` set rows
   \<and> filter (\<lambda>r. row_id r = '''') (dedupeByID rows) = filter (\<lambda>r. row_id r = '''') rows"
proof -
  have "'''' \<in> row_id ` set (dedupeByID rows) \<longleftrightarrow> '''' \<in> row_id ` set rows"
  proof -
    have "'''' \<in> row_id ` set xs \<longleftrightarrow> filter (\<lambda>r. row_id r = '''') xs \<noteq> []" for xs
      unfolding filter_empty_conv by (metis (mono_tags, lifting) image_iff)
    then show ?thesis
      using dedupe_from_anonymous[of "{}" rows] unfolding dedupeByID_def by metis
  qed
  moreover have "row_id ` set (dedupeByID rows) - {''''} = row_id ` set rows - {''''}"
    using dedupe_from_ids[of "{}" rows] by (simp add: dedupeByID_def)
  ultimately have "row_id ` set (dedupeByID rows) = row_id ` set rows" by (rule same_but_one)
  then show ?thesis
    using dedupe_from_subseq dedupe_from_distinct dedupe_from_anonymous by (simp add: dedupeByID_def)
qed

lemma claim_rows_keys: "key ` set (claim_rows key X rows) = key ` set rows - X"
  by (induction key X rows rule: claim_rows.induct) auto

lemma claim_rows_distinct: "distinct (map key (claim_rows key X rows))"
proof (induction key X rows rule: claim_rows.induct)
  case (2 key X r rows)
  then show ?case
    using claim_rows_keys[of key "insert (key r) X" rows] by auto
qed simp

lemma claim_rows_subset: "set (claim_rows key X rows) \<subseteq> set rows"
  by (induction key X rows rule: claim_rows.induct) auto

text \<open>
  The parallel deduplication of merged results is right under every schedule of its goroutines:
  from the rows in any order it keeps exactly one row of every key (the identifier, or the content
  hash of a row without one) and adds none.
\<close>
theorem dedup_results_any_schedule:
  assumes "mset schedule = mset results"
  shows "distinct (map (result_key hash) (dedupResults hash schedule))
    \<and> result_key hash ` set (dedupResults hash schedule) = result_key hash ` set results
    \<and> set (dedupResults hash schedule) \<subseteq> set results"
  using claim_rows_keys[of "result_key hash" "{}" schedule] claim_rows_distinct[of "result_key hash" "{}" schedule]
    claim_rows_subset[of "result_key hash" "{}" schedule] mset_eq_setD[OF assms]
  by (simp add: dedupResults_def)

theorem dedup_results_any_schedule_witness:
  "result_key (\<lambda>_. ''h'') ` set (dedupResults (\<lambda>_. ''h'') [[(''_id'', JStr ''b'')], [(''_id'', JStr ''a'')]]) = {''a'', ''b''}"
  using dedup_results_any_schedule[of "[[(''_id'', JStr ''b'')], [(''_id'', JStr ''a'')]]" "[[(''_id'', JStr ''a'')], [(''_id'', JStr ''b'')]]" "\<lambda>_. ''h''"]
  by (simp add: result_key_def field_def)

section \<open>Queries do not travel further than one hop\<close>

text \<open>The request a node sends to its peers: the trace with its own identity appended, and options that
  ask for local rows only.\<close>

definition peer_request :: "string \<Rightarrow> document list \<Rightarrow> string \<Rightarrow> string list \<Rightarrow> document" where
  "peer_request identity criteria traceID tracePath =
     [(''criteria'', JArr (map JObj criteria)), (''trace_id'', JStr traceID),
      (''trace_path'', json_path (tracePath @ [identity])),
      (''options'', JObj [(''strategy'', JStr ''LOCAL_ONLY''), (''include_local'', JBool True),
                          (''annotate_source'', JBool True)])]"

lemma objects_of_map [simp]: "objects_of (JArr (map JObj criteria)) = criteria"
  by (induction criteria) (simp_all add: objects_of_def toDocMaps_def map_filter_simps)

lemma strings_of_path [simp]: "strings_of (json_path p) = p"
  by (induction p) (simp_all add: strings_of_def json_path_def map_filter_simps)

lemma parse_peer_request:
  "parseOptions (peer_request identity criteria traceID tracePath) = default_options"
  by (simp add: parseOptions_def read_options_def field_def peer_request_def str_opt_def bool_opt_def
      int_opt_def asInt_def default_options_def)

text \<open>
  Fan-out has depth one and no loops: a peer answers the request of another node with its own
  local rows, tagged with the trace extended by its identity, and asks nobody else; it answers with
  no row at all when it is already in the trace of the request.
\<close>
theorem peer_request_local_only:
  assumes "criteria \<noteq> []"
  shows "handleQueryStream w (peer_request identity criteria traceID tracePath) =
    (if self_id w \<in> set (tracePath @ [identity]) then []
     else local_tagged w default_options criteria traceID (tracePath @ [identity, self_id w]))"
proof -
  have f: "field (peer_request identity criteria traceID tracePath) ''criteria'' = JArr (map JObj criteria)"
    "field (peer_request identity criteria traceID tracePath) ''trace_id'' = JStr traceID"
    "field (peer_request identity criteria traceID tracePath) ''trace_path'' = json_path (tracePath @ [identity])"
    by (simp_all add: field_def peer_request_def)
  have d: "TimeBudgetMs default_options = 2000" "MaxPeers default_options = 0" "IncludeLocal default_options"
    "Strategy default_options = ''LOCAL_ONLY''"
    by (simp_all add: default_options_def)
  have u: "default_options\<lparr>TimeBudgetMs := 2000, MaxPeers := 0\<rparr> = default_options"
    by (simp add: default_options_def)
  show ?thesis
    using assms d by (simp add: handleQueryStream_def f parse_peer_request u Let_def)
qed

definition sample_world :: peer_world where
  "sample_world = \<lparr>self_id = ''B'', local_rows = (\<lambda>_. Some [[(''_id'', JStr ''x'')]]), limited_rows = (\<lambda>_. []),
     quorum_arrivals = (\<lambda>_. []), local_first = True\<rparr>"

theorem peer_request_local_only_witness:
  "length (handleQueryStream sample_world (peer_request ''A'' [[(''a'', JInt 1)]] ''t'' [])) = 1
   \<and> handleQueryStream sample_world (peer_request ''B'' [[(''a'', JInt 1)]] ''t'' []) = []"
  using peer_request_local_only[of "[[(''a'', JInt 1)]]" sample_world "''A''" "''t''" "[]"]
    peer_request_local_only[of "[[(''a'', JInt 1)]]" sample_world "''B''" "''t''" "[]"]
  by (simp add: sample_world_def local_tagged_def tagRows_def default_options_def)

text \<open>
  Local-first merging: when the local replica has enough rows and remote rows are not forced, the
  answer is the annotated local rows whatever the peers say; otherwise it fails only if both sides
  fail, and it holds exactly one row for every key of the local and remote rows.
\<close>
theorem local_then_remote_sound:
  assumes sched: "\<And>xs. mset (sched xs) = mset xs" and opt: "opt_IncludeLocal opt" "\<not> opt_AnnotateSource opt"
  shows "localThenRemoteMerge hash sched opt loc remote =
      (case loc of
         Some rows \<Rightarrow>
           if \<not> opt_ForceRemote opt \<and> rows \<noteq> [] \<and> (opt_MinRows opt \<le> 0 \<or> int (length rows) \<ge> opt_MinRows opt)
           then Some rows else merge_parts hash sched loc remote
       | None \<Rightarrow> merge_parts hash sched loc remote)
    \<and> (merge_parts hash sched loc remote = None \<longleftrightarrow> loc = None \<and> remote = None)
    \<and> (\<forall>rows. merge_parts hash sched loc remote = Some rows \<longrightarrow>
         distinct (map (result_key hash) rows)
         \<and> result_key hash ` set rows = result_key hash ` (set (case loc of Some r \<Rightarrow> r | None \<Rightarrow> []) \<union> set (case remote of Some r \<Rightarrow> r | None \<Rightarrow> [])))"
proof -
  let ?all = "(case loc of Some r \<Rightarrow> r | None \<Rightarrow> []) @ (case remote of Some r \<Rightarrow> r | None \<Rightarrow> [])"
  have d: "distinct (map (result_key hash) (dedupResults hash (sched ?all)))"
    "result_key hash ` set (dedupResults hash (sched ?all)) = result_key hash ` set ?all"
    using claim_rows_keys[of "result_key hash" "{}" "sched ?all"] claim_rows_distinct[of "result_key hash" "{}" "sched ?all"]
      mset_eq_setD[OF sched[of ?all]] by (simp_all add: dedupResults_def)
  have l: "local_part opt ''LOCAL_THEN_REMOTE_MERGE'' loc = loc"
    using opt by (cases loc) (simp_all add: local_part_def)
  have "(\<forall>rows. merge_parts hash sched loc remote = Some rows \<longrightarrow>
         distinct (map (result_key hash) rows) \<and> result_key hash ` set rows = result_key hash ` set ?all)"
    using d by (simp add: merge_parts_def)
  moreover have "merge_parts hash sched loc remote = None \<longleftrightarrow> loc = None \<and> remote = None"
    by (simp add: merge_parts_def)
  moreover have "localThenRemoteMerge hash sched opt loc remote =
      (case loc of
         Some rows \<Rightarrow>
           if \<not> opt_ForceRemote opt \<and> rows \<noteq> [] \<and> (opt_MinRows opt \<le> 0 \<or> int (length rows) \<ge> opt_MinRows opt)
           then Some rows else merge_parts hash sched loc remote
       | None \<Rightarrow> merge_parts hash sched loc remote)"
    using opt(1) by (simp add: localThenRemoteMerge_def l Let_def split: option.split)
  ultimately show ?thesis by simp
qed

theorem local_then_remote_sound_witness:
  "localThenRemoteMerge (\<lambda>_. ''h'') rev \<lparr>opt_IncludeLocal = True, opt_ForceRemote = False, opt_AnnotateSource = False,
       opt_MinRows = 0, opt_QuorumN = 0, opt_QuorumConsistency = False\<rparr> (Some [[(''_id'', JStr ''x'')]]) None
   = Some [[(''_id'', JStr ''x'')]]"
proof -
  let ?o = "\<lparr>opt_IncludeLocal = True, opt_ForceRemote = False, opt_AnnotateSource = False,
       opt_MinRows = 0, opt_QuorumN = 0, opt_QuorumConsistency = False\<rparr>"
  have "mset (rev xs) = mset xs" for xs :: "document list" by simp
  from conjunct1[OF local_then_remote_sound[of rev ?o "\<lambda>_. ''h''" "Some [[(''_id'', JStr ''x'')]]" None, OF this]]
  show ?thesis by simp
qed

end
