(* ===== verification/Crud.thy ===== *)
theory Crud
  imports Stores Batch Query
begin

text \<open>
  Inserting, reading, updating and deleting documents by criteria (\<open>crudPutDocStoreRev\<close>,
  \<open>crudGetDocStoreRev\<close>, \<open>crudUpdateDocStoreRev\<close>, \<open>crudDeleteDocStoreRev\<close> of \<open>app/service.go\<close>), the
  lineage and metadata bookkeeping behind an update, and the writing back of rows learned from peers
  (\<open>app/query_fastpath.go\<close>).  All of them go through the registry of stores, the group commit and the
  document store of the other theories.

  The calls of the lineage interceptor are recorded in order; its own work (SQL and catalogue rows) is
  not modelled, nor is the fire-and-forget semantic index.  Clock readings and the rendering \<open>%v\<close> of
  values that are neither strings nor numbers are arguments.  A query that fails and a filter that
  panics both end the request without an effect on the store.
\<close>

section \<open>State\<close>

datatype lineage_call = OnDocumentDelete document string | OnDocumentUpdate document string

type_synonym lineage_job = "document \<times> string \<times> string"

record node_db =
  stores :: kb
  interceptor :: bool
  lineage_calls :: "lineage_call list"
  lineage_jobs :: "lineage_job lineage_queue"

datatype crud_error =
    NoRecords
  | Store store_error
  | AllFailed
  | SomeFailed
  | NeedsCriteria
  | NeedsUpdateData
  | QueryFailed
  | WriteFailed string

record clock =
  now :: string
  nano :: "nat \<Rightarrow> nat"

section \<open>Identifiers of documents\<close>

text \<open>\<open>%d\<close> and \<open>%.0f\<close> (round half to even).\<close>

definition dec_int :: "int \<Rightarrow> string" where
  "dec_int i = (if i < 0 then ''-'' @ dec_nat (nat (- i)) else dec_nat (nat i))"

definition round_even :: "real \<Rightarrow> int" where
  "round_even x =
     (let f = \<lfloor>x\<rfloor>; r = x - of_int f
      in if r < 1 / 2 \<or> (r = 1 / 2 \<and> even f) then f else f + 1)"

definition format_0f :: "real \<Rightarrow> string" where
  "format_0f x = (if x < 0 then ''-'' @ dec_nat (nat (round_even (- x))) else dec_nat (nat (round_even x)))"

definition doc_id_string :: "(json \<Rightarrow> string) \<Rightarrow> json \<Rightarrow> string" where
  "doc_id_string fmt_v v =
     (case v of JStr s \<Rightarrow> s | JNum x \<Rightarrow> format_0f x | JInt i \<Rightarrow> dec_int i | _ \<Rightarrow> fmt_v v)"

section \<open>Insert\<close>

definition ConvertCriteriaForCRUDPUT_rev :: "document list \<Rightarrow> document list option" where
  "ConvertCriteriaForCRUDPUT_rev criteria =
     (let records = filter (\<lambda>crit. crit \<noteq> []) criteria
      in if criteria = [] \<or> records = [] then None else Some records)"

definition prepare_record :: "clock \<Rightarrow> string \<Rightarrow> nat \<Rightarrow> document \<Rightarrow> document" where
  "prepare_record clk storeName i r =
     gm_set ''_created_at'' (JStr (now clk))
       (if gm_get r ''_id'' = None
        then gm_set ''_id'' (JStr (storeName @ ''_'' @ dec_nat (nano clk i) @ ''_'' @ dec_nat i)) r else r)"

definition prepare_records :: "clock \<Rightarrow> string \<Rightarrow> document list \<Rightarrow> document list" where
  "prepare_records clk storeName rs = map (\<lambda>(i, r). prepare_record clk storeName i r) (enumerate 0 rs)"

text \<open>The records as stored, and the number of documents the store acknowledged.\<close>

definition insert_records :: "settings \<Rightarrow> clock \<Rightarrow> document list \<Rightarrow> string \<Rightarrow> open_store \<Rightarrow> (document list \<times> nat) \<times> open_store" where
  "insert_records cfg clk records storeName s =
     (let docs = prepare_records clk storeName records
      in case PutDocumentsBatched store_Put store_PutAll cfg (json_size (marshal (documents s))) (map JObj docs) (documents s) of
           (stored, err, ds) \<Rightarrow> ((docs, length stored), s\<lparr>documents := ds\<rparr>))"

definition crudPutDocStoreRev ::
  "env \<Rightarrow> settings \<Rightarrow> clock \<Rightarrow> string \<Rightarrow> document list \<Rightarrow> node_db \<Rightarrow> (document list \<times> crud_error option) \<times> node_db" where
  "crudPutDocStoreRev env cfg clk dstype criteria db =
     (case ConvertCriteriaForCRUDPUT_rev criteria of
        None \<Rightarrow> (([], Some NoRecords), db)
      | Some records \<Rightarrow>
          (case on_store (\<lambda>d kb. ResolveDocStore env d StoreCreate kb) set_store dstype
                  (insert_records cfg clk records) (stores db) of
             (Inl e, kb) \<Rightarrow> (([], Some (Store e)), db\<lparr>stores := kb\<rparr>)
           | (Inr (docs, successCount), kb) \<Rightarrow>
               (let errorCount = length docs - successCount
                in ((docs, if errorCount > 0 \<and> successCount = 0 then Some AllFailed
                           else if errorCount > 0 then Some SomeFailed else None), db\<lparr>stores := kb\<rparr>))))"

section \<open>Read\<close>

definition select_docs :: "golib \<Rightarrow> document \<Rightarrow> docstore \<Rightarrow> json list option" where
  "select_docs lib flt s =
     store_Query s (\<lambda>d. case d of JObj r \<Rightarrow> matchesCriteriaEnhanced lib r flt | _ \<Rightarrow> Some False)"

definition read_docs :: "golib \<Rightarrow> document list \<Rightarrow> docstore \<Rightarrow> document list option" where
  "read_docs lib criteria s =
     (if criteria = [] \<or> criteria = [[]] then map_option toDocMaps (store_Query s (\<lambda>_. Some True))
      else map_option toDocMaps (select_docs lib (hd criteria) s))"

definition crudGetDocStoreRev ::
  "env \<Rightarrow> golib \<Rightarrow> string \<Rightarrow> document list \<Rightarrow> node_db \<Rightarrow> (crud_error + document list) \<times> node_db" where
  "crudGetDocStoreRev env lib dstype criteria db =
     (case on_store (\<lambda>d kb. ResolveDocStore env d StoreCreate kb) set_store dstype
             (\<lambda>_ s. (read_docs lib criteria (documents s), s)) (stores db) of
        (Inl e, kb) \<Rightarrow> (Inl (Store e), db\<lparr>stores := kb\<rparr>)
      | (Inr None, kb) \<Rightarrow> (Inl QueryFailed, db\<lparr>stores := kb\<rparr>)
      | (Inr (Some rows), kb) \<Rightarrow> (Inr rows, db\<lparr>stores := kb\<rparr>))"

section \<open>Update\<close>

definition updated_doc :: "clock \<Rightarrow> document \<Rightarrow> string \<Rightarrow> document \<Rightarrow> document" where
  "updated_doc clk updates docID r =
     gm_set ''_updated_at'' (JStr (now clk))
       (gm_set ''_id'' (JStr docID) (foldl (\<lambda>m (k, v). gm_set k v m) r updates))"

text \<open>The updated documents with their identifiers; documents without \<open>_id\<close> are left out.\<close>

definition build_updates :: "(json \<Rightarrow> string) \<Rightarrow> clock \<Rightarrow> document \<Rightarrow> json list \<Rightarrow> (string \<times> document) list" where
  "build_updates fmt_v clk updates matched =
     List.map_filter (\<lambda>d. case d of
         JObj r \<Rightarrow> (case gm_get r ''_id'' of
             Some v \<Rightarrow> Some (doc_id_string fmt_v v, updated_doc clk updates (doc_id_string fmt_v v) r)
           | None \<Rightarrow> None)
       | _ \<Rightarrow> None) matched"

definition match_for_update :: "golib \<Rightarrow> document \<Rightarrow> docstore \<Rightarrow> json list option" where
  "match_for_update lib flt s = (case idOnlyFilter flt of Some i \<Rightarrow> store_Get s i | None \<Rightarrow> select_docs lib flt s)"

text \<open>The updates written and the answers of the group commit; \<open>None\<close> when the query failed.\<close>

definition update_docs ::
  "golib \<Rightarrow> settings \<Rightarrow> (json \<Rightarrow> string) \<Rightarrow> clock \<Rightarrow> document \<Rightarrow> document \<Rightarrow> open_store
   \<Rightarrow> ((string \<times> document) list \<times> bool list) option \<times> open_store" where
  "update_docs lib cfg fmt_v clk flt updates s =
     (case match_for_update lib flt (documents s) of
        None \<Rightarrow> (None, s)
      | Some matched \<Rightarrow>
          (let ups = build_updates fmt_v clk updates matched
           in case PutManyCoalesced store_Put store_PutAll cfg (json_size (marshal (documents s)))
                     (map (\<lambda>(i, d). JObj d) ups) (documents s) of
                (oks, ds) \<Rightarrow> (Some (ups, oks), s\<lparr>documents := ds\<rparr>)))"

definition enqueue_updates :: "string \<Rightarrow> (string \<times> document) list \<Rightarrow> lineage_job lineage_queue \<Rightarrow> lineage_job lineage_queue" where
  "enqueue_updates storeName ups q =
     foldl (\<lambda>q (i, d). enqueueLineage (lineage_key storeName i) (d, storeName, i) q) q ups"

definition crudUpdateDocStoreRev ::
  "env \<Rightarrow> golib \<Rightarrow> settings \<Rightarrow> (json \<Rightarrow> string) \<Rightarrow> clock \<Rightarrow> string \<Rightarrow> document list \<Rightarrow> document list \<Rightarrow> node_db
   \<Rightarrow> (nat \<times> crud_error option) \<times> node_db" where
  "crudUpdateDocStoreRev env lib cfg fmt_v clk dstype criteria updateData db =
     (case on_store (\<lambda>d kb. ResolveDocStore env d StoreCreate kb) set_store dstype
             (\<lambda>n s. if criteria = [] then (Inl NeedsCriteria, s)
                    else if updateData = [] then (Inl NeedsUpdateData, s)
                    else case update_docs lib cfg fmt_v clk (hd criteria) (hd updateData) s of
                      (None, s') \<Rightarrow> (Inl QueryFailed, s')
                    | (Some (ups, oks), s') \<Rightarrow> (Inr (n, ups, oks), s')) (stores db) of
        (Inl e, kb) \<Rightarrow> ((0, Some (Store e)), db\<lparr>stores := kb\<rparr>)
      | (Inr (Inl e), kb) \<Rightarrow> ((0, Some e), db\<lparr>stores := kb\<rparr>)
      | (Inr (Inr (n, ups, oks)), kb) \<Rightarrow>
          (let stored = map fst (filter snd (zip ups oks));
               err = (case find (Not \<circ> snd) (zip ups oks) of
                        Some ((i, _), _) \<Rightarrow> Some (WriteFailed i) | None \<Rightarrow> None)
           in ((length stored, err),
               db\<lparr>stores := kb, lineage_jobs := enqueue_updates n stored (lineage_jobs db)\<rparr>)))"

section \<open>Delete\<close>

definition change_store :: "string \<Rightarrow> (docstore \<Rightarrow> bool \<times> docstore) \<Rightarrow> kb \<Rightarrow> bool \<times> kb" where
  "change_store n f kb =
     (case store_of kb n of
        None \<Rightarrow> (False, kb)
      | Some s \<Rightarrow> (case f (documents s) of (ok, ds) \<Rightarrow> (ok, set_store n (s\<lparr>documents := ds\<rparr>) kb)))"

text \<open>The metadata document of a deleted document is deleted from the built-in metadata store, and the
  outcome ignored.\<close>

definition meta_id :: "string \<Rightarrow> string" where
  "meta_id docID = ''meta_'' @ docID"

definition drop_metadata :: "string \<Rightarrow> kb \<Rightarrow> kb" where
  "drop_metadata docID kb =
     (if gm_get (builtinDocStores kb) ''kbmetadata'' = None then kb
      else snd (change_store ''kbmetadata'' (store_Delete (meta_id docID)) kb))"

fun delete_docs :: "string \<Rightarrow> string list \<Rightarrow> nat \<Rightarrow> kb \<Rightarrow> (nat \<times> crud_error option) \<times> kb" where
  "delete_docs n [] deletedCount kb = ((deletedCount, None), kb)"
| "delete_docs n (docID # ids) deletedCount kb =
     (case change_store n (store_Delete docID) kb of
        (False, kb1) \<Rightarrow> ((deletedCount, Some (WriteFailed docID)), kb1)
      | (True, kb1) \<Rightarrow> delete_docs n ids (deletedCount + 1) (drop_metadata docID kb1))"

definition ids_of :: "(json \<Rightarrow> string) \<Rightarrow> json list \<Rightarrow> string list" where
  "ids_of fmt_v matched =
     List.map_filter (\<lambda>d. case d of JObj r \<Rightarrow> map_option (doc_id_string fmt_v) (gm_get r ''_id'') | _ \<Rightarrow> None) matched"

definition crudDeleteDocStoreRev ::
  "env \<Rightarrow> golib \<Rightarrow> (json \<Rightarrow> string) \<Rightarrow> string \<Rightarrow> document list \<Rightarrow> node_db \<Rightarrow> (nat \<times> crud_error option) \<times> node_db" where
  "crudDeleteDocStoreRev env lib fmt_v dstype criteria db =
     (case ResolveDocStore env dstype StoreCreate (stores db) of
        (Inl e, kb) \<Rightarrow> ((0, Some (Store e)), db\<lparr>stores := kb\<rparr>)
      | (Inr (s, n), kb) \<Rightarrow>
          (if criteria = [] then ((0, Some NeedsCriteria), db\<lparr>stores := kb\<rparr>)
           else case select_docs lib (hd criteria) (documents s) of
             None \<Rightarrow> ((0, Some QueryFailed), db\<lparr>stores := kb\<rparr>)
           | Some matched \<Rightarrow>
               (case delete_docs n (ids_of fmt_v matched) 0 kb of
                  (r, kb1) \<Rightarrow>
                    (r, db\<lparr>stores := kb1,
                          lineage_calls := lineage_calls db @
                            (if interceptor db then map (\<lambda>d. OnDocumentDelete d n) (toDocMaps matched) else [])\<rparr>))))"

section \<open>Lineage and metadata after an update\<close>

text \<open>The metadata document found is changed in place before it is put back.\<close>

definition refreshed_metadata :: "clock \<Rightarrow> document \<Rightarrow> document \<Rightarrow> document" where
  "refreshed_metadata clk updated metaDoc =
     (let m = gm_set ''last_updated'' (JStr (now clk)) metaDoc
      in case gm_get updated ''name'' of Some (JStr name) \<Rightarrow> gm_set ''name'' (JStr name) m | _ \<Rightarrow> m)"

definition refresh_metadata :: "clock \<Rightarrow> document \<Rightarrow> string \<Rightarrow> docstore \<Rightarrow> bool \<times> docstore" where
  "refresh_metadata clk updated docID s =
     (case store_Get s (meta_id docID) of
        Some (JObj metaDoc # _) \<Rightarrow> store_Put (JObj (refreshed_metadata clk updated metaDoc)) s
      | _ \<Rightarrow> (False, s))"

definition updateLineageAndMetadata :: "clock \<Rightarrow> lineage_job \<Rightarrow> node_db \<Rightarrow> node_db" where
  "updateLineageAndMetadata clk job db =
     (case job of (updated, storeName, docID) \<Rightarrow>
        db\<lparr>lineage_calls := lineage_calls db @ (if interceptor db then [OnDocumentUpdate updated storeName] else []),
           stores := (if gm_get (builtinDocStores (stores db)) ''kbmetadata'' = None then stores db
                      else snd (change_store ''kbmetadata'' (refresh_metadata clk updated docID) (stores db)))\<rparr>)"

section \<open>Rows learned from peers\<close>

definition annotationKeys :: "string list" where
  "annotationKeys = [''_source'', ''_trace'']"

definition strip_annotations :: "document \<Rightarrow> document" where
  "strip_annotations r = foldl (\<lambda>d k. gm_del k d) r annotationKeys"

text \<open>The patched store always has \<open>HasKey\<close>, so existence is checked without reading the document.\<close>

definition missing_rows :: "docstore \<Rightarrow> document list \<Rightarrow> document list" where
  "missing_rows s rows =
     map strip_annotations (filter (\<lambda>r. row_id r \<noteq> '''' \<and> \<not> HasKey s (row_id r)) rows)"

definition store_missing :: "settings \<Rightarrow> document list \<Rightarrow> open_store \<Rightarrow> json list \<times> open_store" where
  "store_missing cfg rows s =
     (let missing = missing_rows (documents s) rows
      in if missing = [] then ([], s)
         else case PutDocumentsBatched store_Put store_PutAll cfg (json_size (marshal (documents s))) (map JObj missing) (documents s) of
           (stored, err, ds) \<Rightarrow> (stored, s\<lparr>documents := ds\<rparr>))"

definition persistRemoteRows :: "env \<Rightarrow> settings \<Rightarrow> string \<Rightarrow> document list \<Rightarrow> kb \<Rightarrow> kb" where
  "persistRemoteRows env cfg dstype rows kb =
     (if rows = [] then kb
      else snd (on_store (\<lambda>d kb. ResolveDocStore env d StoreCreate kb) set_store dstype
                  (\<lambda>_. store_missing cfg rows) kb))"

text \<open>\<open>LocalDocRaw\<close>: \<open>None\<close> when the store cannot answer this way, \<open>Some None\<close> when it has no such
  document.\<close>

definition LocalDocRaw :: "golib \<Rightarrow> string \<Rightarrow> docstore \<Rightarrow> string option option" where
  "LocalDocRaw lib i s =
     (case queryLocalRaw lib s [[(''_id'', JStr i)]] of
        Inr (Some []) \<Rightarrow> Some None
      | Inr (Some (raw # _)) \<Rightarrow> Some (Some raw)
      | _ \<Rightarrow> None)"

section \<open>The store below a handler\<close>

lemma AddOperation_codec: "AddOperation item s = (ok, s') \<Longrightarrow> marshal s' = marshal s \<and> unmarshal s' = unmarshal s"
  by (auto simp: AddOperation_def Let_def split: append_outcome.splits prod.splits)

lemma store_codec:
  "store_Put d s = (ok, s') \<Longrightarrow> marshal s' = marshal s \<and> unmarshal s' = unmarshal s"
  "store_PutAll ds s = (ok, s') \<Longrightarrow> marshal s' = marshal s \<and> unmarshal s' = unmarshal s"
  "store_Delete key s = (ok, s') \<Longrightarrow> marshal s' = marshal s \<and> unmarshal s' = unmarshal s"
  by (auto simp: store_Put_def store_PutAll_def store_Delete_def AddOperation_codec split: option.splits if_splits prod.splits)

text \<open>The writers of \<open>Batch\<close>, with the encoding of the store fixed.\<close>

definition codec_inv :: "(json \<Rightarrow> string option) \<Rightarrow> (string \<Rightarrow> json option) \<Rightarrow> docstore \<Rightarrow> bool" where
  "codec_inv enc dec s \<longleftrightarrow> store_inv s \<and> marshal s = enc \<and> unmarshal s = dec"

interpretation coded: doc_writer store_Put store_PutAll render content "codec_inv enc dec" for enc dec
proof
  fix s d s' ds
  assume inv: "codec_inv enc dec s"
  then have si: "store_inv s" by (simp add: codec_inv_def)
  show "codec_inv enc dec s' \<and> render s' = render s \<and> content s' = keep_all (render s) [d] (content s)"
    if "store_Put d s = (True, s')"
    using store_writer.put_done[OF si that] store_codec(1)[OF that] inv by (simp add: codec_inv_def)
  show "codec_inv enc dec s' \<and> render s' = render s \<and> content s' = content s"
    if "store_Put d s = (False, s')"
    using store_writer.put_refused[OF si that] store_codec(1)[OF that] inv by (simp add: codec_inv_def)
  show "codec_inv enc dec s' \<and> render s' = render s \<and> content s' = keep_all (render s) ds (content s)"
    if "store_PutAll ds s = (True, s')"
    using store_writer.put_all_done[OF si that] store_codec(2)[OF that] inv by (simp add: codec_inv_def)
  show "codec_inv enc dec s' \<and> render s' = render s \<and> content s' = content s"
    if "store_PutAll ds s = (False, s')"
    using store_writer.put_all_refused[OF si that] store_codec(2)[OF that] inv by (simp add: codec_inv_def)
qed

lemma store_Delete_spec:
  assumes "store_inv s" and "store_Delete key s = (ok, s')" and "key \<noteq> ''''"
  shows "store_inv s' \<and> content s' = (if ok then (content s)(key := None) else content s)
    \<and> (ok \<longrightarrow> content s key \<noteq> None)"
proof (cases "index_Get (ix s) key")
  case None
  with assms show ?thesis by (auto simp: store_Delete_def)
next
  case (Some raw)
  then have add: "AddOperation (OpDel (Some key)) s = (ok, s')"
    using assms(2) by (simp add: store_Delete_def)
  note sp = AddOperation_spec[OF assms(1) add]
  have "(\<lambda>k. case (if k = '''' then None else gm_get (writes (OpDel (Some key))) k) of None \<Rightarrow> content s k | Some v \<Rightarrow> v)
      = (content s)(key := None)"
    using assms(3) by (auto simp: fun_eq_iff)
  then show ?thesis
    using sp Some by (auto simp: content_def index_Get_def)
qed

lemma change_store_spec:
  assumes "registry_ok kb" and "store_of kb n = Some s" and "change_store n f kb = (ok, kb')"
  shows "registry_ok kb' \<and> (\<exists>ds. f (documents s) = (ok, ds) \<and> store_of kb' = (store_of kb)(n \<mapsto> s\<lparr>documents := ds\<rparr>))"
proof -
  obtain ok1 ds where f: "f (documents s) = (ok1, ds)" by (cases "f (documents s)")
  then have "ok1 = ok" "kb' = set_store n (s\<lparr>documents := ds\<rparr>) kb"
    using assms(2,3) by (simp_all add: change_store_def)
  then show ?thesis
    using set_store_ok[OF assms(1), of n "s\<lparr>documents := ds\<rparr>"] assms(2) f by simp
qed

text \<open>A store that an insert, update or delete may act on: consistent clocks, every document stored
  under its own identifier, none under the empty one.\<close>

definition sound_store :: "docstore \<Rightarrow> bool" where
  "sound_store s \<longleftrightarrow> store_inv s \<and> gm_wf (index (ix s)) \<and> well_keyed s \<and> content s '''' = None"

lemma keep_all_other:
  "\<forall>d \<in> set ds. \<forall>kv. rnd d = Some kv \<longrightarrow> fst kv \<noteq> k \<Longrightarrow> keep_all rnd ds m k = m k"
  by (induction ds arbitrary: m) (auto simp: keep_def split: option.split)

lemma keep_all_last:
  assumes "rnd d = Some (k, raw)" and "k \<noteq> ''''" and "\<forall>e \<in> set post. \<forall>kv. rnd e = Some kv \<longrightarrow> fst kv \<noteq> k"
  shows "keep_all rnd (pre @ d # post) m k = Some raw"
  using keep_all_other[OF assms(3)] assms(1,2) by (simp add: keep_def)

lemma render_obj:
  "render s (JObj r) = (case gm_get r ''_id'' of
     Some (JStr i) \<Rightarrow> map_option (Pair i) (marshal s (JObj r)) | _ \<Rightarrow> None)"
  by (auto simp: render_def MapKeyExtractor_def split: option.split json.split)

lemma subseq_full: "subseq xs ys \<Longrightarrow> length ys \<le> length xs \<Longrightarrow> xs = ys"
  by (metis list_emb_length le_antisym subseq_same_length)

section \<open>An acknowledged insert is found\<close>

lemma length_prepare [simp]: "length (prepare_records clk n rs) = length rs"
  by (simp add: prepare_records_def)

lemma insert_records_spec:
  assumes "store_inv (documents s)" and "1 \<le> max_docs cfg"
    and "insert_records cfg clk records n s = ((docs, cnt), s')" and "length docs \<le> cnt"
  shows "docs = prepare_records clk n records
    \<and> content (documents s') = keep_all (render (documents s)) (map JObj docs) (content (documents s))
    \<and> codec_inv (marshal (documents s)) (unmarshal (documents s)) (documents s')"
proof -
  obtain stored err ds where p: "PutDocumentsBatched store_Put store_PutAll cfg (json_size (marshal (documents s)))
      (map JObj (prepare_records clk n records)) (documents s) = (stored, err, ds)"
    by (metis prod.collapse)
  have out: "docs = prepare_records clk n records" "cnt = length stored" "documents s' = ds"
    using assms(3) p by (auto simp: insert_records_def Let_def)
  have "codec_inv (marshal (documents s)) (unmarshal (documents s)) (documents s)"
    using assms(1) by (simp add: codec_inv_def)
  note b = coded.batched[OF this p assms(2)]
  then have "stored = map JObj docs"
    using subseq_full[of stored "map JObj docs"] assms(4) out by simp
  then show ?thesis using b out by simp
qed

lemma crudPut_done:
  assumes "crudPutDocStoreRev env cfg clk dstype criteria db = ((docs, None), db')"
    and "store_of (stores db) (store_name dstype) = Some s" and "store_name dstype \<noteq> ''contributions''"
  obtains records s' where "insert_records cfg clk records (store_name dstype) s = ((docs, length docs), s')"
    "stores db' = set_store (store_name dstype) s' (stores db)" "ConvertCriteriaForCRUDPUT_rev criteria = Some records"
  | records cnt s' where "insert_records cfg clk records (store_name dstype) s = ((docs, cnt), s')" "length docs \<le> cnt"
    "stores db' = set_store (store_name dstype) s' (stores db)" "ConvertCriteriaForCRUDPUT_rev criteria = Some records"
  using assms(1)
  by (auto simp: crudPutDocStoreRev_def on_store_def resolve_present[OF assms(2,3)] Let_def
      split: option.splits prod.splits if_splits)


section \<open>What an update changes\<close>

text \<open>A filter selects a stored document.\<close>

definition selects :: "golib \<Rightarrow> document \<Rightarrow> docstore \<Rightarrow> string \<Rightarrow> bool" where
  "selects lib flt s raw \<longleftrightarrow> matchesCriteriaEnhanced lib (decoded s raw) flt = Some True"

lemma filterKeys_selected:
  assumes "well_keyed s" and "filterKeys s ks (\<lambda>d. case d of JObj r \<Rightarrow> p r | _ \<Rightarrow> Some False) = Some out"
  shows "out = map (JObj \<circ> decoded s) (filter (\<lambda>raw. p (decoded s raw) = Some True) (List.map_filter (index_Get (ix s)) ks))"
  using assms(2)
proof (induction ks arbitrary: out)
  case (Cons k ks)
  show ?case
  proof (cases "index_Get (ix s) k")
    case None
    with Cons show ?thesis by (simp add: map_filter_simps)
  next
    case (Some raw)
    note dec = well_keyed_get(1)[OF assms(1) Some]
    with Cons.prems Some obtain keep out' where o: "p (decoded s raw) = Some keep"
      "filterKeys s ks (\<lambda>d. case d of JObj r \<Rightarrow> p r | _ \<Rightarrow> Some False) = Some out'"
      "out = (if keep then JObj (decoded s raw) # out' else out')"
      by (auto split: option.splits)
    then show ?thesis
      using Cons.IH[OF o(2)] Some by (cases keep) (simp_all add: map_filter_simps)
  qed
qed (simp add: map_filter_simps)

lemma map_filter_some: "\<forall>p \<in> set xs. g (fst p) = Some (snd p) \<Longrightarrow> List.map_filter g (map fst xs) = map snd xs"
  by (induction xs) (auto simp: map_filter_simps)

lemma map_filter_index: "gm_wf m \<Longrightarrow> List.map_filter (gm_get m) (map fst m) = map snd m"
  by (rule map_filter_some) simp

lemma select_docs_spec:
  assumes "well_keyed s" and "gm_wf (index (ix s))" and "select_docs lib flt s = Some out"
  shows "out = map (\<lambda>(k, raw). JObj (decoded s raw)) (filter (\<lambda>(k, raw). selects lib flt s raw) (index (ix s)))"
proof -
  have "out = map (JObj \<circ> decoded s) (filter (selects lib flt s) (map snd (index (ix s))))"
    using filterKeys_selected[OF assms(1), of "Keys (ix s)" "\<lambda>r. matchesCriteriaEnhanced lib r flt"] assms(3)
      map_filter_index[OF assms(2)]
    by (simp add: select_docs_def store_Query_def Keys_def selects_def[abs_def] index_Get_def[abs_def])
  then show ?thesis by (simp add: filter_map comp_def case_prod_unfold)
qed

lemma id_filter_selects:
  assumes "idOnlyFilter flt = Some i" and "well_keyed s" and "index_Get (ix s) k = Some raw"
  shows "selects lib flt s raw \<longleftrightarrow> k = i"
proof -
  have "idOnlyCriteria [flt] = Some i" using assms(1) by (simp add: idOnlyCriteria_def)
  obtain key v where "flt = [(key, v)]"
    using assms(1) by (cases flt) (auto simp: idOnlyFilter_def split: if_splits)
  then have f: "flt = [(''_id'', JStr i)]"
    using assms(1) by (auto simp: idOnlyFilter_def split: if_splits option.splits json.splits)
  have "gm_get (decoded s raw) ''_id'' = Some (JStr k)" by (rule well_keyed_get(2)[OF assms(2,3)])
  then show ?thesis
    by (cases "k = i") (simp_all add: f selects_def matchesCriteriaEnhanced_def matchesCondition_def getNestedValue_def)
qed

lemma filter_key: "gm_wf m \<Longrightarrow> filter (\<lambda>(k, v). k = i) m = (case gm_get m i of Some v \<Rightarrow> [(i, v)] | None \<Rightarrow> [])"
proof (induction m)
  case (Cons q m)
  obtain j v where q: "q = (j, v)" by (cases q)
  have "j = i \<Longrightarrow> gm_get m i = None" using Cons.prems by (simp add: q gm_get_None)
  with Cons show ?case by (auto simp: q)
qed simp

lemma match_for_update_spec:
  assumes "well_keyed s" and "gm_wf (index (ix s))" and "\<forall>i. idOnlyFilter flt = Some i \<longrightarrow> CHR '' '' \<notin> set i"
    and "match_for_update lib flt s = Some out"
  shows "out = map (\<lambda>(k, raw). JObj (decoded s raw)) (filter (\<lambda>(k, raw). selects lib flt s raw) (index (ix s)))"
proof (cases "idOnlyFilter flt")
  case None
  with assms(4) select_docs_spec[OF assms(1,2)] show ?thesis by (simp add: match_for_update_def)
next
  case (Some i)
  have "filter (\<lambda>(k, raw). selects lib flt s raw) (index (ix s)) = filter (\<lambda>(k, raw). k = i) (index (ix s))"
    using id_filter_selects[OF Some assms(1)] assms(2) by (auto simp: index_Get_def intro!: filter_cong)
  also have "\<dots> = (case index_Get (ix s) i of Some raw \<Rightarrow> [(i, raw)] | None \<Rightarrow> [])"
    using filter_key[OF assms(2)] by (simp add: index_Get_def)
  finally have f: "filter (\<lambda>(k, raw). selects lib flt s raw) (index (ix s))
      = (case index_Get (ix s) i of Some raw \<Rightarrow> [(i, raw)] | None \<Rightarrow> [])" .
  have "store_Get s i = Some out" using Some assms(4) by (simp add: match_for_update_def)
  then show ?thesis
    unfolding f using assms(3) Some well_keyed_get(1)[OF assms(1), of i]
    by (auto simp: store_Get_def split: option.splits)
qed

lemma build_updates_spec:
  assumes "well_keyed s" and "gm_wf (index (ix s))" and "set xs \<subseteq> set (index (ix s))"
  shows "build_updates fmt_v clk upd (map (\<lambda>(k, raw). JObj (decoded s raw)) xs)
    = map (\<lambda>(k, raw). (k, updated_doc clk upd k (decoded s raw))) xs"
  using assms(3)
proof (induction xs)
  case (Cons q xs)
  obtain k raw where q: "q = (k, raw)" by (cases q)
  then have "index_Get (ix s) k = Some raw" using Cons.prems assms(2) by (simp add: index_Get_def)
  from well_keyed_get(2)[OF assms(1) this] Cons show ?case
    by (simp add: build_updates_def map_filter_simps q doc_id_string_def)
qed (simp add: build_updates_def map_filter_simps)

lemma updated_doc_id [simp]: "gm_get (updated_doc clk upd i r) ''_id'' = Some (JStr i)"
  by (simp add: updated_doc_def)

lemma keep_all_keyed:
  assumes "gm_wf xs" and "\<forall>(k, raw) \<in> set xs. k \<noteq> '''' \<and> rnd (f k raw) = Some (k, g k raw)"
  shows "keep_all rnd (map (\<lambda>(k, raw). f k raw) xs) m j = (case gm_get xs j of Some raw \<Rightarrow> Some (g j raw) | None \<Rightarrow> m j)"
  using assms
proof (induction xs arbitrary: m)
  case (Cons q xs)
  obtain k raw where q: "q = (k, raw)" by (cases q)
  have "k = j \<Longrightarrow> gm_get xs j = None" using Cons.prems by (simp add: q gm_get_None)
  with Cons show ?case by (auto simp: q keep_def split: option.split)
qed simp

lemma filter_get:
  "gm_wf m \<Longrightarrow> gm_get (filter (\<lambda>(k, v). P v) m) j = (case gm_get m j of Some v \<Rightarrow> if P v then Some v else None | None \<Rightarrow> None)"
proof (induction m)
  case (Cons q m)
  obtain k v where q: "q = (k, v)" by (cases q)
  have "k = j \<Longrightarrow> gm_get m j = None" using Cons.prems by (simp add: q gm_get_None)
  with Cons show ?case by (auto simp: q split: option.split)
qed simp

lemma wf_filter: "gm_wf m \<Longrightarrow> gm_wf (filter P m)"
  by (induction m) auto

lemma length_filter_card:
  "gm_wf m \<Longrightarrow> length (filter (\<lambda>(k, v). P v) m) = card {k. \<exists>v. gm_get m k = Some v \<and> P v}"
proof -
  assume wf: "gm_wf m"
  have "{k. \<exists>v. gm_get m k = Some v \<and> P v} = fst ` set (filter (\<lambda>(k, v). P v) m)"
    using wf by force
  also have "card \<dots> = length (filter (\<lambda>(k, v). P v) m)"
    using wf_filter[OF wf] by (metis distinct_card length_map set_map)
  finally show ?thesis by simp
qed

context doc_writer
begin

lemma coalesced:
  assumes "inv s" and "PutManyCoalesced put put_all cfg sz ds s = (oks, s')"
  shows "inv s' \<and> rnd s' = rnd s \<and> length oks = length ds
    \<and> content s' = keep_all (rnd s) (map fst (filter snd (zip ds oks))) (content s)"
proof (cases "group_commit cfg \<and> batch_put cfg")
  case False
  with assms(2) answers[OF assms(1), of ds] show ?thesis by (simp add: PutManyCoalesced_def)
next
  case True
  then have "storeWriter_write put put_all (max_docs cfg) (max_bytes cfg) (map (\<lambda>d. (d, sz d)) ds) s = (oks, s')"
    using assms(2) by (simp add: PutManyCoalesced_def)
  from write_all[OF assms(1) this] show ?thesis by (simp add: comp_def)
qed

end

lemma all_written:
  "length oks = length ups \<Longrightarrow> find (Not \<circ> snd) (zip ups oks) = None \<Longrightarrow> oks = map (\<lambda>_. True) ups"
  by (induction ups oks rule: list_induct2') (auto split: if_splits)

lemma zip_all_True: "length ys = length ups \<Longrightarrow> filter snd (zip ys (map (\<lambda>_. True) ups)) = map (\<lambda>y. (y, True)) ys"
  by (induction ys ups rule: list_induct2') auto

lemma update_docs_spec:
  assumes "sound_store (documents s)" and "\<forall>r. marshal (documents s) (JObj r) \<noteq> None"
    and "\<forall>i. idOnlyFilter flt = Some i \<longrightarrow> CHR '' '' \<notin> set i"
    and "update_docs lib cfg fmt_v clk flt upd s = (Some (ups, oks), s')"
    and "find (Not \<circ> snd) (zip ups oks) = None"
  shows "content (documents s') k = (case content (documents s) k of
       None \<Rightarrow> None
     | Some raw \<Rightarrow> if selects lib flt (documents s) raw
                   then marshal (documents s) (JObj (updated_doc clk upd k (decoded (documents s) raw))) else Some raw)"
    and "length (map fst (filter snd (zip ups oks))) = card {k. \<exists>raw. content (documents s) k = Some raw \<and> selects lib flt (documents s) raw}"
proof -
  let ?s = "documents s"
  let ?xs = "filter (\<lambda>(k, raw). selects lib flt ?s raw) (index (ix ?s))"
  have inv: "store_inv ?s" and wf: "gm_wf (index (ix ?s))" and wk: "well_keyed ?s" and empty: "content ?s '''' = None"
    using assms(1) by (simp_all add: sound_store_def)
  obtain matched where m: "match_for_update lib flt ?s = Some matched"
    using assms(4) by (auto simp: update_docs_def split: option.splits)
  note match = match_for_update_spec[OF wk wf assms(3) m]
  have ups: "build_updates fmt_v clk upd matched = map (\<lambda>(k, raw). (k, updated_doc clk upd k (decoded ?s raw))) ?xs"
    unfolding match by (rule build_updates_spec[OF wk wf]) auto
  obtain ds where p: "PutManyCoalesced store_Put store_PutAll cfg (json_size (marshal ?s)) (map (\<lambda>(i, d). JObj d) ups) ?s = (oks, ds)"
      "documents s' = ds" "ups = map (\<lambda>(k, raw). (k, updated_doc clk upd k (decoded ?s raw))) ?xs"
    using assms(4) m ups by (auto simp: update_docs_def Let_def split: prod.splits)
  note c = store_writer.coalesced[OF inv p(1)]
  have oks: "oks = map (\<lambda>_. True) ups"
    using all_written[of oks ups] c assms(5) by simp
  have "content ds = keep_all (render ?s) (map (\<lambda>(i, d). JObj d) ups) (content ?s)"
    using c unfolding oks by (subst (asm) zip_all_True) (simp_all add: comp_def)
  also have "map (\<lambda>(i, d). JObj d) ups = map (\<lambda>(k, raw). JObj (updated_doc clk upd k (decoded ?s raw))) ?xs"
    unfolding p(3) by (simp add: split_beta)
  finally have ct: "content ds = keep_all (render ?s) (map (\<lambda>(k, raw). JObj (updated_doc clk upd k (decoded ?s raw))) ?xs) (content ?s)" .
  have "\<forall>(k, raw) \<in> set ?xs. k \<noteq> '''' \<and> render ?s (JObj (updated_doc clk upd k (decoded ?s raw)))
      = Some (k, the (marshal ?s (JObj (updated_doc clk upd k (decoded ?s raw)))))"
    using empty wf assms(2) by (auto simp: content_def render_obj split: option.split)
  from keep_all_keyed[where f = "\<lambda>k raw. JObj (updated_doc clk upd k (decoded ?s raw))"
      and g = "\<lambda>k raw. the (marshal ?s (JObj (updated_doc clk upd k (decoded ?s raw))))" and m = "content ?s" and j = k,
      OF wf_filter[OF wf] this] filter_get[OF wf, of "selects lib flt ?s" k]
  show "content (documents s') k = (case content ?s k of
       None \<Rightarrow> None
     | Some raw \<Rightarrow> if selects lib flt ?s raw
                   then marshal ?s (JObj (updated_doc clk upd k (decoded ?s raw))) else Some raw)"
    unfolding p(2) ct using assms(2) by (auto simp: content_def split: option.splits)
  show "length (map fst (filter snd (zip ups oks))) = card {k. \<exists>raw. content ?s k = Some raw \<and> selects lib flt ?s raw}"
    using length_filter_card[OF wf, of "selects lib flt ?s"] zip_all_True[of ups ups] p(3)
    by (simp add: oks content_def)
qed

lemma crudUpdate_done:
  assumes "crudUpdateDocStoreRev env lib cfg fmt_v clk dstype (flt # fs) (upd # us) db = ((number, None), db')"
    and "store_of (stores db) (store_name dstype) = Some s" and "store_name dstype \<noteq> ''contributions''"
  obtains ups oks s' where "update_docs lib cfg fmt_v clk flt upd s = (Some (ups, oks), s')"
    "find (Not \<circ> snd) (zip ups oks) = None" "number = length (map fst (filter snd (zip ups oks)))"
    "stores db' = set_store (store_name dstype) s' (stores db)"
    "lineage_jobs db' = enqueue_updates (store_name dstype) (map fst (filter snd (zip ups oks))) (lineage_jobs db)"
  using assms(1)
  by (auto simp: crudUpdateDocStoreRev_def on_store_def resolve_present[OF assms(2,3)] Let_def
      split: option.splits prod.splits)


section \<open>What a delete removes\<close>

lemma drop_metadata_spec:
  assumes "registry_ok kb" and "n \<noteq> ''kbmetadata''"
  shows "registry_ok (drop_metadata i kb) \<and> store_of (drop_metadata i kb) n = store_of kb n"
proof (cases "gm_get (builtinDocStores kb) ''kbmetadata''")
  case None
  with assms show ?thesis by (simp add: drop_metadata_def)
next
  case (Some t)
  obtain ok kb' where c: "change_store ''kbmetadata'' (store_Delete (meta_id i)) kb = (ok, kb')"
    by (cases "change_store ''kbmetadata'' (store_Delete (meta_id i)) kb")
  have "store_of kb ''kbmetadata'' = Some t" using Some by (simp add: store_of_def)
  from change_store_spec[OF assms(1) this c] Some assms(2) c show ?thesis
    by (auto simp: drop_metadata_def)
qed

lemma delete_docs_spec:
  assumes "registry_ok kb" and "store_of kb n = Some s" and "store_inv (documents s)" and "n \<noteq> ''kbmetadata''"
    and "'''' \<notin> set ids" and "delete_docs n ids cnt kb = ((number, None), kb')"
  shows "\<exists>s'. store_of kb' n = Some s' \<and> store_inv (documents s') \<and> number = cnt + length ids
    \<and> content (documents s') = (\<lambda>k. if k \<in> set ids then None else content (documents s) k)"
  using assms
proof (induction ids arbitrary: cnt kb s)
  case (Cons i ids)
  obtain ok kb1 where c: "change_store n (store_Delete i) kb = (ok, kb1)" by (cases "change_store n (store_Delete i) kb")
  with Cons.prems(6) have ok: "ok" by (auto split: bool.splits)
  obtain ds where d: "registry_ok kb1" "store_Delete i (documents s) = (ok, ds)"
    "store_of kb1 = (store_of kb)(n \<mapsto> s\<lparr>documents := ds\<rparr>)"
    using change_store_spec[OF Cons.prems(1,2) c] by blast
  have "i \<noteq> ''''" using Cons.prems(5) by auto
  note del = store_Delete_spec[OF Cons.prems(3) d(2) this]
  have r: "registry_ok (drop_metadata i kb1)" "store_of (drop_metadata i kb1) n = Some (s\<lparr>documents := ds\<rparr>)"
    using drop_metadata_spec[OF d(1) Cons.prems(4)] d(3) by simp_all
  have rec: "delete_docs n ids (cnt + 1) (drop_metadata i kb1) = ((number, None), kb')"
    using Cons.prems(6) c ok by simp
  have "store_inv (documents (s\<lparr>documents := ds\<rparr>))" "'''' \<notin> set ids"
    using del Cons.prems(5) by simp_all
  from Cons.IH[OF r this(1) Cons.prems(4) this(2) rec] ok del show ?case
    by (auto simp: fun_eq_iff)
qed auto

lemma ids_of_spec:
  assumes "well_keyed s" and "gm_wf (index (ix s))" and "set xs \<subseteq> set (index (ix s))"
  shows "ids_of fmt_v (map (\<lambda>(k, raw). JObj (decoded s raw)) xs) = map fst xs"
  using assms(3)
proof (induction xs)
  case (Cons q xs)
  obtain k raw where q: "q = (k, raw)" by (cases q)
  then have "index_Get (ix s) k = Some raw" using Cons.prems assms(2) by (simp add: index_Get_def)
  from well_keyed_get(2)[OF assms(1) this] Cons show ?case
    by (simp add: ids_of_def map_filter_simps q doc_id_string_def)
qed (simp add: ids_of_def map_filter_simps)

lemma toDocMaps_all_objects: "toDocMaps (map (\<lambda>(k, raw). JObj (f k raw)) xs) = map (\<lambda>(k, raw). f k raw) xs"
  by (induction xs) (auto simp: toDocMaps_def map_filter_simps)


section \<open>Rows learned from peers never overwrite\<close>

lemma row_id_strip: "row_id (strip_annotations r) = row_id r"
  by (simp add: row_id_def field_def strip_annotations_def annotationKeys_def)

lemma strip_gone: "gm_get (strip_annotations r) ''_source'' = None" "gm_get (strip_annotations r) ''_trace'' = None"
  by (simp_all add: strip_annotations_def annotationKeys_def)

lemma row_id_get: "row_id r = i \<Longrightarrow> i \<noteq> '''' \<Longrightarrow> gm_get r ''_id'' = Some (JStr i)"
  by (auto simp: row_id_def field_def split: option.splits json.splits)

lemma keep_all_source:
  assumes "keep_all rnd ds m k = Some raw"
  shows "m k = Some raw \<or> (\<exists>d \<in> set ds. rnd d = Some (k, raw))"
  using assms
proof (induction ds arbitrary: m)
  case (Cons d ds)
  from Cons.IH[of "case rnd d of Some kv \<Rightarrow> keep kv m | None \<Rightarrow> m"] Cons.prems show ?case
    by (auto simp: keep_def split: option.splits if_splits)
qed simp

lemma store_missing_spec:
  assumes "store_inv (documents s)" and "1 \<le> max_docs cfg" and "store_missing cfg rows s = (st, s')"
  shows "store_inv (documents s')"
    and "content (documents s) k = Some raw \<Longrightarrow> content (documents s') k = Some raw"
    and "content (documents s) k = None \<Longrightarrow> content (documents s') k = Some raw \<Longrightarrow>
      \<exists>r \<in> set rows. row_id r = k \<and> marshal (documents s) (JObj (strip_annotations r)) = Some raw"
proof -
  let ?s = "documents s" and ?m = "missing_rows (documents s) rows"
  have *: "\<exists>stored. content (documents s') = keep_all (render ?s) stored (content ?s) \<and> subseq stored (map JObj ?m) \<and> store_inv (documents s')"
  proof (cases "?m = []")
    case True
    then have "content (documents s') = keep_all (render ?s) [] (content ?s)" "store_inv (documents s')"
      using assms(1,3) by (simp_all add: store_missing_def)
    then show ?thesis by (intro exI[of _ "[]"]) simp
  next
    case False
    obtain stored err ds where p: "PutDocumentsBatched store_Put store_PutAll cfg (json_size (marshal ?s)) (map JObj ?m) ?s = (stored, err, ds)"
      by (metis prod.collapse)
    then have "documents s' = ds" using assms(3) False by (auto simp: store_missing_def)
    with store_writer.batched[OF assms(1) p assms(2)] show ?thesis by blast
  qed
  then obtain stored where st: "content (documents s') = keep_all (render ?s) stored (content ?s)"
    "subseq stored (map JObj ?m)" "store_inv (documents s')" by blast
  have src: "\<exists>r \<in> set rows. row_id r = k \<and> \<not> HasKey ?s k \<and> marshal ?s (JObj (strip_annotations r)) = Some raw"
    if "d \<in> set stored" "render ?s d = Some (k, raw)" for d k raw
  proof -
    have "d \<in> set (map JObj ?m)" using st(2) that(1) by (auto elim: list_emb_set)
    then obtain r where r: "r \<in> set rows" "row_id r \<noteq> ''''" "\<not> HasKey ?s (row_id r)" "d = JObj (strip_annotations r)"
      by (auto simp: missing_rows_def)
    moreover have "gm_get (strip_annotations r) ''_id'' = Some (JStr (row_id r))"
      using row_id_get[of "strip_annotations r" "row_id r"] r(2) row_id_strip by simp
    ultimately show ?thesis
      using that(2) by (auto simp: render_obj split: option.splits)
  qed
  show "store_inv (documents s')" by (rule st(3))
  show "content (documents s') k = Some raw" if "content ?s k = Some raw"
  proof -
    have "HasKey ?s k" using that by (simp add: HasKey_def hasKey_def content_def)
    then have "\<forall>d \<in> set stored. \<forall>kv. render ?s d = Some kv \<longrightarrow> fst kv \<noteq> k"
      using src by fastforce
    then show ?thesis using keep_all_other that st(1) by metis
  qed
  show "\<exists>r \<in> set rows. row_id r = k \<and> marshal ?s (JObj (strip_annotations r)) = Some raw"
    if "content ?s k = None" "content (documents s') k = Some raw"
    using keep_all_source[of "render ?s" stored "content ?s" k raw] that st(1) src by fastforce
qed


section \<open>Examples\<close>

definition card_doc :: document where
  "card_doc = [(''_id'', JStr ''a''), (''_created_at'', JStr ''t'')]"

text \<open>A store whose codec knows one document.\<close>

definition card_start :: docstore where
  "card_start = empty_store (\<lambda>_. Some ''raw'') (\<lambda>_. Some (JObj card_doc)) []"

definition card_store :: docstore where
  "card_store = snd (store_Put (JObj card_doc) card_start)"

definition sample_db :: "docstore \<Rightarrow> node_db" where
  "sample_db s = \<lparr>stores = \<lparr>builtin = [(''dsswres'', Some \<lparr>documents = s, address = ''zdpa''\<rparr>)], DynamicStores = [],
      config_addrs = None, config_file = [], orbit_up = False\<rparr>,
    interceptor = True, lineage_calls = [], lineage_jobs = empty_lineage\<rparr>"

definition single_puts :: settings where
  "single_puts = default_settings\<lparr>batch_put := False\<rparr>"

definition sample_clock :: clock where
  "sample_clock = \<lparr>now = ''t'', nano = (\<lambda>_. 7)\<rparr>"

lemma default_name: "store_name '''' = ''dsswres''" "normal_name ''dsswres'' = ''dsswres''"
  by code_simp+

lemma sample_db_store:
  "registry_ok (stores (sample_db s))" "store_of (stores (sample_db s)) (store_name '''') = Some \<lparr>documents = s, address = ''zdpa''\<rparr>"
  "store_name '''' \<noteq> ''contributions''" "store_name '''' \<notin> {''contributions'', ''kbmetadata''}" "1 \<le> max_docs single_puts"
  by (simp_all add: sample_db_def registry_ok_def store_of_def builtinDocStores_def live_Cons default_name
      single_puts_def default_settings_def)

lemma sample_resolve:
  "ResolveDocStore env '''' StoreCreate (stores (sample_db s)) = (Inr (\<lparr>documents = s, address = ''zdpa''\<rparr>, ''dsswres''), stores (sample_db s))"
  using resolve_present[OF sample_db_store(2,3)] by (simp add: default_name)

lemma card_index: "ix card_store = \<lparr>index = [(''a'', ''raw'')], clocks = [''a'' \<mapsto> \<lparr>st_time = 1, st_id = ''peer''\<rparr>], seen = {''''},
    indexed_fields = [], byField = Map.empty, fieldVals = Map.empty, fieldsOff = False\<rparr>"
  by (simp add: card_store_def card_start_def store_Put_def render_def MapKeyExtractor_def card_doc_def empty_store_def
      AddOperation_def UpdateIndex_def newDocumentIndex_def apply_entry_def write_key_def newer_def setKey_def Let_def)

lemma card_fields: "unmarshal card_store = (\<lambda>_. Some (JObj card_doc))" "marshal card_store = (\<lambda>_. Some ''raw'')"
  "outcome card_store = (\<lambda>_. Appended)" "log_id card_store = ''peer''"
  by (simp_all add: card_store_def card_start_def store_Put_def render_def MapKeyExtractor_def card_doc_def empty_store_def
      AddOperation_def Let_def split_beta)

lemma card_sound: "sound_store card_store"
proof -
  have "store_inv card_store"
    using store_Put_spec[OF empty_store_inv] unfolding card_store_def card_start_def by (metis prod.collapse)
  then show ?thesis
    by (simp add: sound_store_def card_index well_keyed_def card_fields card_doc_def content_def)
qed

lemmas run_simps = putDocumentsOneByOne.simps put_answers.simps store_Put_def store_Delete_def render_def MapKeyExtractor_def
  AddOperation_def UpdateIndex_def apply_entry_def write_key_def newer_def setKey_def delKey_def Let_def index_Get_def

lemma AddOperation_ok: "outcome s (appends s) = Appended \<Longrightarrow> \<exists>s'. AddOperation item s = (True, s')"
  by (simp add: AddOperation_def Let_def UpdateIndex_def apply_entry_def split_beta)





end
