(* ===== verification/Capacity.thy ===== *)
theory Capacity
  imports Crud
begin

text \<open>
  The capacity registry (\<open>app/service.go\<close>, types in \<open>app/app.go\<close>): issuing capacity identifiers,
  reservations as documents of the store \<open>kbcapacity\<close>, binding a capacity description, releasing and
  listing.  The UUID, the clock readings (RFC 3339 texts) and the order \<open>sort.Slice\<close> produces are
  arguments.  \<open>encoding/json\<close> also accepts keys that differ in case; keys are matched exactly here.
\<close>

definition CapacityStoreName :: string where "CapacityStoreName = ''kbcapacity''"
definition CapIDPrefix :: string where "CapIDPrefix = ''cap''"
definition CapIDPeerLen :: nat where "CapIDPeerLen = 0"
definition CapacityStatusReserved :: string where "CapacityStatusReserved = ''reserved''"
definition CapacityStatusActive :: string where "CapacityStatusActive = ''active''"
definition CapacityStatusReleased :: string where "CapacityStatusReleased = ''released''"

lemmas capacity_consts = CapacityStoreName_def CapIDPrefix_def CapIDPeerLen_def CapacityStatusReserved_def
  CapacityStatusActive_def CapacityStatusReleased_def

record capacity_request =
  rq_ProviderID :: string
  rq_ProviderName :: string
  rq_CapacityType :: string
  rq_CapacityName :: string
  rq_Region :: string
  rq_CDTVersion :: string
  rq_ExpectedRA :: string
  rq_Attributes :: document

record reservation =
  cr_ID :: string
  cr_CapID :: string
  cr_Status :: string
  cr_ProviderID :: string
  cr_ProviderName :: string
  cr_CapacityType :: string
  cr_CapacityName :: string
  cr_Region :: string
  cr_CDTVersion :: string
  cr_ExpectedRA :: string
  cr_Attributes :: document
  cr_IssuedBy :: string
  cr_IssuedAt :: string
  cr_ExpiresAt :: string
  cr_UpdatedAt :: string
  cr_CDTSubmitted :: bool
  cr_CDTSubmitted_At :: string
  cr_CDT :: document
  cr_Store :: string

datatype capacity_error =
    ProviderRequired | TypeRequired | NoPeerID | BadCapID | StoreUnavailable store_error | WriteRefused
  | CapIDRequired | LookupFailed | UnexpectedRecord | CDTEmpty | UnknownCapID | ReleasedCapID | ListFailed

section \<open>Identifiers\<close>

text \<open>What the agent knows of its own peer ID: the host's, the configuration's, the raw host ID.\<close>

record agent =
  hostPeerID :: "string option"
  configPeerID :: "string option"
  hostID :: string

definition isPrintableID :: "string \<Rightarrow> bool" where
  "isPrintableID s \<longleftrightarrow> 8 \<le> length s \<and> list_all is_alnum s"

definition AgentPeerID :: "agent \<Rightarrow> string" where
  "AgentPeerID a =
     (case hostPeerID a of
        Some i \<Rightarrow> if isPrintableID i then i else
          (case configPeerID a of
             Some c \<Rightarrow> if isPrintableID c then c else if isPrintableID (hostID a) then hostID a else ''''
           | None \<Rightarrow> if isPrintableID (hostID a) then hostID a else '''')
      | None \<Rightarrow>
          (case configPeerID a of
             Some c \<Rightarrow> if isPrintableID c then c else if isPrintableID (hostID a) then hostID a else ''''
           | None \<Rightarrow> if isPrintableID (hostID a) then hostID a else ''''))"

definition is_visible :: "char \<Rightarrow> bool" where
  "is_visible c \<longleftrightarrow> 32 \<le> (of_char c :: nat) \<and> (of_char c :: nat) \<le> 126"

definition GenerateCapID :: "agent \<Rightarrow> string \<Rightarrow> capacity_error + string" where
  "GenerateCapID a uuid =
     (let peerID0 = AgentPeerID a
      in if peerID0 = '''' then Inl NoPeerID
         else let peerID = (if CapIDPeerLen > 0 \<and> length peerID0 > CapIDPeerLen
                            then drop (length peerID0 - CapIDPeerLen) peerID0 else peerID0);
                  capID = CapIDPrefix @ ''-'' @ peerID @ ''-'' @ uuid
              in if list_all is_visible capID then Inr capID else Inl BadCapID)"

section \<open>Reservations as documents\<close>

text \<open>What a value becomes on its way through JSON text: numbers are read back as \<open>float64\<close>.\<close>

fun json_norm :: "json \<Rightarrow> json" where
  "json_norm (JInt i) = JNum (real_of_int i)"
| "json_norm (JArr xs) = JArr (map json_norm xs)"
| "json_norm (JObj d) = JObj (map (\<lambda>(k, v). (k, json_norm v)) d)"
| "json_norm v = v"

definition text_field :: "string \<Rightarrow> string \<Rightarrow> document" where
  "text_field k s = [(k, JStr s)]"

definition omit_text :: "string \<Rightarrow> string \<Rightarrow> document" where
  "omit_text k s = (if s = '''' then [] else [(k, JStr s)])"

definition omit_object :: "string \<Rightarrow> document \<Rightarrow> document" where
  "omit_object k d = (if d = [] then [] else [(k, json_norm (JObj d))])"

definition reservation_fields :: "reservation \<Rightarrow> document" where
  "reservation_fields r =
      (text_field ''_id'' (cr_ID r) @ text_field ''cap_id'' (cr_CapID r) @ text_field ''status'' (cr_Status r)
       @ text_field ''provider_id'' (cr_ProviderID r) @ omit_text ''provider_name'' (cr_ProviderName r)
       @ text_field ''capacity_type'' (cr_CapacityType r) @ omit_text ''capacity_name'' (cr_CapacityName r)
       @ omit_text ''region'' (cr_Region r) @ omit_text ''cdt_version'' (cr_CDTVersion r)
       @ omit_text ''expected_ra'' (cr_ExpectedRA r) @ omit_object ''attributes'' (cr_Attributes r)
       @ text_field ''issued_by'' (cr_IssuedBy r) @ text_field ''issued_at'' (cr_IssuedAt r)
       @ omit_text ''expires_at'' (cr_ExpiresAt r) @ omit_text ''updated_at'' (cr_UpdatedAt r)
       @ [(''cdt_submitted'', JBool (cr_CDTSubmitted r))] @ omit_text ''cdt_submitted_at'' (cr_CDTSubmitted_At r)
       @ omit_object ''cdt'' (cr_CDT r) @ text_field ''store'' (cr_Store r))"

definition capacityToMap :: "reservation \<Rightarrow> document" where
  "capacityToMap r = gm_set ''_id'' (JStr (cr_ID r)) (reservation_fields r)"

text \<open>Reading a field of the struct: absent and \<open>null\<close> leave the zero value, another type is an error.\<close>

definition read_text :: "document \<Rightarrow> string \<Rightarrow> string option" where
  "read_text m k = (case gm_get m k of None \<Rightarrow> Some '''' | Some JNull \<Rightarrow> Some '''' | Some (JStr s) \<Rightarrow> Some s | _ \<Rightarrow> None)"

definition read_flag :: "document \<Rightarrow> string \<Rightarrow> bool option" where
  "read_flag m k = (case gm_get m k of None \<Rightarrow> Some False | Some JNull \<Rightarrow> Some False | Some (JBool b) \<Rightarrow> Some b | _ \<Rightarrow> None)"

definition read_object :: "document \<Rightarrow> string \<Rightarrow> document option" where
  "read_object m k = (case gm_get m k of None \<Rightarrow> Some [] | Some JNull \<Rightarrow> Some []
     | Some (JObj d) \<Rightarrow> Some (map (\<lambda>(k, v). (k, json_norm v)) d) | _ \<Rightarrow> None)"

definition capacityFromMap :: "document \<Rightarrow> reservation option" where
  "capacityFromMap m =
     (case (those (map (read_text m) [''_id'', ''cap_id'', ''status'', ''provider_id'', ''provider_name'', ''capacity_type'',
              ''capacity_name'', ''region'', ''cdt_version'', ''expected_ra'', ''issued_by'', ''issued_at'', ''expires_at'',
              ''updated_at'', ''cdt_submitted_at'', ''store'']),
            read_flag m ''cdt_submitted'', read_object m ''attributes'', read_object m ''cdt'') of
        (Some [i, c, st, p, pn, ty, nm, rg, v, ra, by, iat, ex, up, sub, sto], Some b, Some attrs, Some cdt) \<Rightarrow>
          Some \<lparr>cr_ID = i, cr_CapID = (if c = '''' then i else c), cr_Status = st, cr_ProviderID = p, cr_ProviderName = pn,
            cr_CapacityType = ty, cr_CapacityName = nm, cr_Region = rg, cr_CDTVersion = v, cr_ExpectedRA = ra,
            cr_Attributes = attrs, cr_IssuedBy = by, cr_IssuedAt = iat, cr_ExpiresAt = ex, cr_UpdatedAt = up,
            cr_CDTSubmitted = b, cr_CDTSubmitted_At = sub, cr_CDT = cdt, cr_Store = sto\<rparr>
      | _ \<Rightarrow> None)"

section \<open>Operations\<close>

definition on_capacity :: "env \<Rightarrow> (docstore \<Rightarrow> (capacity_error + 'a) \<times> docstore) \<Rightarrow> kb \<Rightarrow> (capacity_error + 'a) \<times> kb" where
  "on_capacity env f kb =
     (case on_store (\<lambda>d kb. ResolveDocStore env d StoreCreate kb) set_store CapacityStoreName
             (\<lambda>_ s. case f (documents s) of (r, ds) \<Rightarrow> (r, s\<lparr>documents := ds\<rparr>)) kb of
        (Inl e, kb') \<Rightarrow> (Inl (StoreUnavailable e), kb') | (Inr r, kb') \<Rightarrow> (r, kb'))"

definition put_reservation :: "env \<Rightarrow> reservation \<Rightarrow> kb \<Rightarrow> (capacity_error + reservation) \<times> kb" where
  "put_reservation env r =
     on_capacity env (\<lambda>s. case store_Put (JObj (capacityToMap r)) s of
       (ok, s') \<Rightarrow> (if ok then Inr r else Inl WriteRefused, s'))"

definition new_reservation :: "agent \<Rightarrow> string \<Rightarrow> string \<Rightarrow> string \<Rightarrow> capacity_request \<Rightarrow> reservation" where
  "new_reservation a capID ts expires req =
     \<lparr>cr_ID = capID, cr_CapID = capID, cr_Status = CapacityStatusReserved,
      cr_ProviderID = trim_space (rq_ProviderID req), cr_ProviderName = rq_ProviderName req,
      cr_CapacityType = to_lower (trim_space (rq_CapacityType req)), cr_CapacityName = rq_CapacityName req,
      cr_Region = rq_Region req, cr_CDTVersion = rq_CDTVersion req, cr_ExpectedRA = rq_ExpectedRA req,
      cr_Attributes = rq_Attributes req, cr_IssuedBy = AgentPeerID a, cr_IssuedAt = ts, cr_ExpiresAt = expires,
      cr_UpdatedAt = ts, cr_CDTSubmitted = False, cr_CDTSubmitted_At = '''', cr_CDT = [], cr_Store = CapacityStoreName\<rparr>"

definition ReserveCapacity ::
  "env \<Rightarrow> agent \<Rightarrow> string \<Rightarrow> string \<Rightarrow> string \<Rightarrow> capacity_request \<Rightarrow> kb \<Rightarrow> (capacity_error + reservation) \<times> kb" where
  "ReserveCapacity env a uuid ts expires req kb =
     (if trim_space (rq_ProviderID req) = '''' then (Inl ProviderRequired, kb)
      else if trim_space (rq_CapacityType req) = '''' then (Inl TypeRequired, kb)
      else case GenerateCapID a uuid of
        Inl e \<Rightarrow> (Inl e, kb)
      | Inr capID \<Rightarrow> put_reservation env (new_reservation a capID ts expires req) kb)"

definition read_reservation :: "string \<Rightarrow> docstore \<Rightarrow> capacity_error + reservation option" where
  "read_reservation capID s =
     (case store_Get s capID of
        None \<Rightarrow> Inl LookupFailed
      | Some [] \<Rightarrow> Inr None
      | Some (JObj m # _) \<Rightarrow> (case capacityFromMap m of None \<Rightarrow> Inl LookupFailed | Some r \<Rightarrow> Inr (Some r))
      | Some _ \<Rightarrow> Inl UnexpectedRecord)"

definition GetCapacity :: "env \<Rightarrow> string \<Rightarrow> kb \<Rightarrow> (capacity_error + reservation option) \<times> kb" where
  "GetCapacity env capID0 kb =
     (let capID = trim_space capID0
      in if capID = '''' then (Inl CapIDRequired, kb)
         else on_capacity env (\<lambda>s. (read_reservation capID s, s)) kb)"

definition attached :: "document \<Rightarrow> string \<Rightarrow> reservation \<Rightarrow> reservation" where
  "attached cdt ts r =
     r\<lparr>cr_CDT := cdt, cr_CDTSubmitted := True, cr_CDTSubmitted_At := ts, cr_UpdatedAt := ts,
       cr_Status := CapacityStatusActive\<rparr>"

definition AttachCDT :: "env \<Rightarrow> string \<Rightarrow> string \<Rightarrow> document \<Rightarrow> kb \<Rightarrow> (capacity_error + reservation) \<times> kb" where
  "AttachCDT env ts capID cdt kb =
     (if cdt = [] then (Inl CDTEmpty, kb)
      else case GetCapacity env capID kb of
        (Inl e, kb1) \<Rightarrow> (Inl e, kb1)
      | (Inr None, kb1) \<Rightarrow> (Inl UnknownCapID, kb1)
      | (Inr (Some r), kb1) \<Rightarrow>
          (if cr_Status r = CapacityStatusReleased then (Inl ReleasedCapID, kb1)
           else put_reservation env (attached cdt ts r) kb1))"

definition ReleaseCapacity :: "env \<Rightarrow> string \<Rightarrow> string \<Rightarrow> kb \<Rightarrow> (capacity_error + reservation) \<times> kb" where
  "ReleaseCapacity env ts capID kb =
     (case GetCapacity env capID kb of
        (Inl e, kb1) \<Rightarrow> (Inl e, kb1)
      | (Inr None, kb1) \<Rightarrow> (Inl UnknownCapID, kb1)
      | (Inr (Some r), kb1) \<Rightarrow>
          put_reservation env (r\<lparr>cr_Status := CapacityStatusReleased, cr_UpdatedAt := ts\<rparr>) kb1)"

definition capacity_matches :: "(string, string) gomap \<Rightarrow> json \<Rightarrow> bool option" where
  "capacity_matches flt d =
     (case d of
        JObj m \<Rightarrow> Some (list_all (\<lambda>(k, want). want = '''' \<or>
            equal_fold (case gm_get m k of Some (JStr s) \<Rightarrow> s | _ \<Rightarrow> '''') want) flt)
      | _ \<Rightarrow> Some False)"

text \<open>\<open>arrange\<close> is the unstable sort by issue time, newest first.\<close>

definition ListCapacities ::
  "env \<Rightarrow> (reservation list \<Rightarrow> reservation list) \<Rightarrow> (string, string) gomap \<Rightarrow> kb \<Rightarrow> (capacity_error + reservation list) \<times> kb" where
  "ListCapacities env arrange flt =
     on_capacity env (\<lambda>s. case store_Query s (capacity_matches flt) of
         None \<Rightarrow> (Inl ListFailed, s)
       | Some docs \<Rightarrow> (Inr (arrange (List.map_filter (\<lambda>d. case d of JObj m \<Rightarrow> capacityFromMap m | _ \<Rightarrow> None) docs)), s))"

text \<open>\<open>parse\<close> is \<open>time.Parse\<close>, an instant being a number.\<close>

definition IsExpired :: "(string \<Rightarrow> int option) \<Rightarrow> int \<Rightarrow> reservation \<Rightarrow> bool" where
  "IsExpired parse ts r =
     (if cr_CDTSubmitted r \<or> cr_ExpiresAt r = '''' then False
      else case parse (cr_ExpiresAt r) of None \<Rightarrow> False | Some t \<Rightarrow> ts > t)"

section \<open>Identifiers never collide\<close>

lemma alnum_no_dash: "list_all is_alnum s \<Longrightarrow> CHR ''-'' \<notin> set s"
  by (auto simp: list_all_iff is_alnum_def is_lower_or_digit_def)

lemma AgentPeerID_cases: "AgentPeerID a = '''' \<or> isPrintableID (AgentPeerID a)"
  by (simp add: AgentPeerID_def split: option.split)

lemma split_at_dash:
  "x @ CHR ''-'' # u = y @ CHR ''-'' # v \<Longrightarrow> CHR ''-'' \<notin> set x \<Longrightarrow> CHR ''-'' \<notin> set y \<Longrightarrow> x = y \<and> u = v"
  by (induction x arbitrary: y) (auto simp: Cons_eq_append_conv append_eq_Cons_conv)

text \<open>
  Two agents never issue the same capacity identifier: equal identifiers come from agents with the
  same peer ID, and from the same UUID; and every issued identifier names its issuer and consists of
  visible characters.
\<close>
theorem capids_never_collide:
  assumes "GenerateCapID a uuid = Inr c"
  shows "(\<forall>b uuid'. GenerateCapID b uuid' = Inr c \<longrightarrow> AgentPeerID b = AgentPeerID a \<and> uuid' = uuid)
    \<and> c = ''cap-'' @ AgentPeerID a @ ''-'' @ uuid \<and> AgentPeerID a \<noteq> '''' \<and> list_all is_visible c"
proof -
  have form: "AgentPeerID x \<noteq> '''' \<and> c = ''cap-'' @ AgentPeerID x @ CHR ''-'' # w \<and> list_all is_visible c"
    if "GenerateCapID x w = Inr c" for x w
    using that by (auto simp: GenerateCapID_def capacity_consts Let_def split: if_splits)
  have "AgentPeerID b = AgentPeerID a \<and> w = uuid" if b: "GenerateCapID b w = Inr c" for b w
  proof -
    have "AgentPeerID b @ CHR ''-'' # w = AgentPeerID a @ CHR ''-'' # uuid"
      using form[OF b] form[OF assms] by simp
    moreover have "CHR ''-'' \<notin> set (AgentPeerID x)" if "AgentPeerID x \<noteq> ''''" for x
      using AgentPeerID_cases[of x] that by (auto simp: isPrintableID_def dest: alnum_no_dash)
    ultimately show ?thesis using form[OF b] form[OF assms] split_at_dash by blast
  qed
  then show ?thesis using form[OF assms] unfolding append_Cons append_Nil by blast
qed

definition sample_agent :: agent where
  "sample_agent = \<lparr>hostPeerID = Some ''QmPeer12'', configPeerID = None, hostID = ''''\<rparr>"

lemma sample_capid: "GenerateCapID sample_agent ''u1'' = Inr ''cap-QmPeer12-u1''"
  by (simp add: GenerateCapID_def sample_agent_def AgentPeerID_def isPrintableID_def is_alnum_def is_lower_or_digit_def
    capacity_consts is_visible_def)

definition other_agent :: agent where
  "other_agent = \<lparr>hostPeerID = Some ''QmPeer99'', configPeerID = None, hostID = ''''\<rparr>"

lemma capids_never_collide_witness:
  "GenerateCapID other_agent ''u1'' \<noteq> Inr ''cap-QmPeer12-u1'' \<and> list_all is_visible ''cap-QmPeer12-u1''"
proof -
  have "AgentPeerID other_agent \<noteq> AgentPeerID sample_agent"
    by (simp add: other_agent_def sample_agent_def AgentPeerID_def isPrintableID_def is_alnum_def is_lower_or_digit_def)
  then show ?thesis using capids_never_collide[OF sample_capid] by blast
qed

section \<open>Round trip of a reservation\<close>

lemma json_norm_idem [simp]: "json_norm (json_norm v) = json_norm v"
proof (induction v)
  case (JObj d)
  have "json_norm (json_norm (snd x)) = json_norm (snd x)" if "x \<in> set d" for x
    using JObj.IH[OF that, of "snd x"] by (cases x) (simp add: prod_set_simps)
  then show ?case by (simp add: split_beta)
qed simp_all

definition norm_object :: "document \<Rightarrow> document" where
  "norm_object d = map (\<lambda>(k, v). (k, json_norm v)) d"

lemma norm_object_idem [simp]: "norm_object (norm_object d) = norm_object d"
  by (auto simp: norm_object_def)

text \<open>A reservation as it is read back.\<close>

definition as_read :: "reservation \<Rightarrow> reservation" where
  "as_read r = r\<lparr>cr_CapID := (if cr_CapID r = '''' then cr_ID r else cr_CapID r),
     cr_Attributes := norm_object (cr_Attributes r), cr_CDT := norm_object (cr_CDT r)\<rparr>"

lemma get_fields:
  "gm_get (text_field k s @ d) k' = (if k' = k then Some (JStr s) else gm_get d k')"
  "gm_get (omit_text k s @ d) k' = (if k' = k \<and> s \<noteq> '''' then Some (JStr s) else gm_get d k')"
  "gm_get (omit_object k o1 @ d) k' = (if k' = k \<and> o1 \<noteq> [] then Some (JObj (norm_object o1)) else gm_get d k')"
  "gm_get (text_field k s) k' = (if k' = k then Some (JStr s) else None)"
  by (auto simp: text_field_def omit_text_def omit_object_def norm_object_def)

lemma read_written_fields:
  "read_text (gm_set ''_id'' (JStr i) d) k = (if k = ''_id'' then Some i else read_text d k)"
  "read_flag (gm_set ''_id'' (JStr i) d) k = (if k = ''_id'' then None else read_flag d k)"
  "read_object (gm_set ''_id'' (JStr i) d) k = (if k = ''_id'' then None else read_object d k)"
  by (auto simp: read_text_def read_flag_def read_object_def)

lemma reservation_texts:
  "read_text (reservation_fields r) ''cap_id'' = Some (cr_CapID r)"
  "read_text (reservation_fields r) ''status'' = Some (cr_Status r)"
  "read_text (reservation_fields r) ''provider_id'' = Some (cr_ProviderID r)"
  "read_text (reservation_fields r) ''provider_name'' = Some (cr_ProviderName r)"
  "read_text (reservation_fields r) ''capacity_type'' = Some (cr_CapacityType r)"
  "read_text (reservation_fields r) ''capacity_name'' = Some (cr_CapacityName r)"
  "read_text (reservation_fields r) ''region'' = Some (cr_Region r)"
  "read_text (reservation_fields r) ''cdt_version'' = Some (cr_CDTVersion r)"
  "read_text (reservation_fields r) ''expected_ra'' = Some (cr_ExpectedRA r)"
  "read_text (reservation_fields r) ''issued_by'' = Some (cr_IssuedBy r)"
  "read_text (reservation_fields r) ''issued_at'' = Some (cr_IssuedAt r)"
  "read_text (reservation_fields r) ''expires_at'' = Some (cr_ExpiresAt r)"
  "read_text (reservation_fields r) ''updated_at'' = Some (cr_UpdatedAt r)"
  "read_text (reservation_fields r) ''cdt_submitted_at'' = Some (cr_CDTSubmitted_At r)"
  "read_text (reservation_fields r) ''store'' = Some (cr_Store r)"
  by (simp_all del: map_of_append add: read_text_def reservation_fields_def get_fields)

lemma reservation_others:
  "read_flag (reservation_fields r) ''cdt_submitted'' = Some (cr_CDTSubmitted r)"
  "read_object (reservation_fields r) ''attributes'' = Some (norm_object (cr_Attributes r))"
  "read_object (reservation_fields r) ''cdt'' = Some (norm_object (cr_CDT r))"
  by (simp_all del: map_of_append add: read_flag_def read_object_def reservation_fields_def get_fields flip: norm_object_def)
    (simp_all add: norm_object_def)

lemma reservation_read_back: "capacityFromMap (capacityToMap r) = Some (as_read r)"
  unfolding capacityFromMap_def capacityToMap_def
  by (cases r) (simp add: read_written_fields reservation_texts reservation_others as_read_def)

section \<open>The life of a reservation\<close>

text \<open>Stored documents carry their key, and documents made of reservations survive the encoding.\<close>

definition capacity_docs_ok :: "docstore \<Rightarrow> bool" where
  "capacity_docs_ok s \<longleftrightarrow> store_inv s
     \<and> (\<forall>k raw. content s k = Some raw \<longrightarrow> (\<exists>obj. unmarshal s raw = Some (JObj obj) \<and> gm_get obj ''_id'' = Some (JStr k)))
     \<and> (\<forall>r raw. marshal s (JObj (capacityToMap r)) = Some raw \<longrightarrow> unmarshal s raw = Some (JObj (capacityToMap r)))"

definition capacity_ready :: "kb \<Rightarrow> bool" where
  "capacity_ready kb \<longleftrightarrow> registry_ok kb
     \<and> (\<exists>s. store_of kb CapacityStoreName = Some s \<and> capacity_docs_ok (documents s))"

definition reservation_at :: "kb \<Rightarrow> string \<Rightarrow> capacity_error + reservation option" where
  "reservation_at kb c = (case store_of kb CapacityStoreName of
     Some s \<Rightarrow> read_reservation c (documents s) | None \<Rightarrow> Inl LookupFailed)"

lemma capacity_store_name: "store_name CapacityStoreName = CapacityStoreName" "CapacityStoreName \<noteq> ''contributions''"
  by (simp_all add: store_name_def normal_name_def CapacityStoreName_def trim_space_def to_lower_def lower_char_def is_space_def)

lemma on_capacity_present:
  assumes "store_of kb CapacityStoreName = Some s" and "f (documents s) = (r, ds)"
  shows "on_capacity env f kb = (r, set_store CapacityStoreName (s\<lparr>documents := ds\<rparr>) kb)"
proof -
  have "store_of kb (store_name CapacityStoreName) = Some s" "store_name CapacityStoreName \<noteq> ''contributions''"
    using assms(1) by (simp_all add: capacity_store_name)
  from resolve_present[OF this, of env StoreCreate] show ?thesis
    using assms(2) by (simp add: on_capacity_def on_store_def capacity_store_name)
qed

lemma read_reservation_content:
  "CHR '' '' \<notin> set c \<Longrightarrow> read_reservation c s =
     (case content s c of None \<Rightarrow> Inr None
      | Some raw \<Rightarrow> (case unmarshal s raw of None \<Rightarrow> Inl LookupFailed
         | Some (JObj m) \<Rightarrow> (case capacityFromMap m of None \<Rightarrow> Inl LookupFailed | Some r \<Rightarrow> Inr (Some r))
         | Some _ \<Rightarrow> Inl UnexpectedRecord))"
  by (simp add: read_reservation_def store_Get_def Let_def content_def index_Get_def split: option.split json.split)

lemma as_read_ID [simp]: "cr_ID (as_read r) = cr_ID r"
  by (simp add: as_read_def)

lemma id_of_doc: "gm_get (capacityToMap r) ''_id'' = Some (JStr (cr_ID r))"
  by (simp add: capacityToMap_def)

lemma put_reservation_ready:
  assumes "capacity_ready kb" and "put_reservation env r kb = (out, kb')" and "cr_ID r \<noteq> ''''"
  shows "capacity_ready kb'"
    and "CHR '' '' \<notin> set c \<Longrightarrow> reservation_at kb' c =
      (case out of Inr _ \<Rightarrow> if c = cr_ID r then Inr (Some (as_read r)) else reservation_at kb c | Inl _ \<Rightarrow> reservation_at kb c)"
proof -
  obtain s where s: "registry_ok kb" "store_of kb CapacityStoreName = Some s" "capacity_docs_ok (documents s)"
    using assms(1) by (auto simp: capacity_ready_def)
  obtain ok ds where p: "store_Put (JObj (capacityToMap r)) (documents s) = (ok, ds)" by force
  have out: "out = (if ok then Inr r else Inl WriteRefused)"
    "kb' = set_store CapacityStoreName (s\<lparr>documents := ds\<rparr>) kb"
    using on_capacity_present[OF s(2), of "\<lambda>s. case store_Put (JObj (capacityToMap r)) s of (ok, s') \<Rightarrow> (if ok then Inr r else Inl WriteRefused, s')"
        "if ok then Inr r else Inl WriteRefused" ds env] p assms(2)
    by (auto simp: put_reservation_def)
  have inv: "store_inv (documents s)" using s(3) by (simp add: capacity_docs_ok_def)
  note put = store_Put_spec[OF inv p]
  note codec = store_codec(1)[OF p]
  then have u: "unmarshal ds = unmarshal (documents s)" by simp
  have upd: "registry_ok kb'" "store_of kb' = (store_of kb)(CapacityStoreName \<mapsto> s\<lparr>documents := ds\<rparr>)"
    using set_store_ok[OF s(1), of CapacityStoreName "s\<lparr>documents := ds\<rparr>"] s(2) out(2) by auto
  have ok: "\<exists>raw. marshal (documents s) (JObj (capacityToMap r)) = Some raw
      \<and> content ds = (content (documents s))(cr_ID r \<mapsto> raw)" if "ok"
  proof -
    from p that obtain raw where "marshal (documents s) (JObj (capacityToMap r)) = Some raw"
      by (auto simp: store_Put_def render_obj id_of_doc split: option.splits)
    then show ?thesis using put that assms(3) by (auto simp: render_obj id_of_doc keep_def)
  qed
  have same: "content ds = content (documents s)" if "\<not> ok" using put that by simp
  have reread: "unmarshal ds raw = Some (JObj (capacityToMap r))" if "marshal (documents s) (JObj (capacityToMap r)) = Some raw" for raw
    using s(3) that codec by (simp add: capacity_docs_ok_def)
  have "capacity_docs_ok ds"
    unfolding capacity_docs_ok_def
  proof (intro conjI allI impI)
    show "store_inv ds" using put by simp
    show "unmarshal ds raw = Some (JObj (capacityToMap q))" if "marshal ds (JObj (capacityToMap q)) = Some raw" for q raw
      using s(3) that codec by (simp add: capacity_docs_ok_def)
    show "\<exists>obj. unmarshal ds raw = Some (JObj obj) \<and> gm_get obj ''_id'' = Some (JStr k)" if "content ds k = Some raw" for k raw
    proof (cases "ok \<and> k = cr_ID r")
      case True
      then show ?thesis using ok reread that id_of_doc by auto
    next
      case False
      then have "content (documents s) k = Some raw" using ok same that by (cases ok) auto
      then show ?thesis using s(3) codec by (auto simp: capacity_docs_ok_def)
    qed
  qed
  then show "capacity_ready kb'" using upd by (auto simp: capacity_ready_def)
  show "reservation_at kb' c =
      (case out of Inr _ \<Rightarrow> if c = cr_ID r then Inr (Some (as_read r)) else reservation_at kb c | Inl _ \<Rightarrow> reservation_at kb c)"
    if "CHR '' '' \<notin> set c"
  proof (cases ok)
    case True
    with ok obtain raw where raw: "marshal (documents s) (JObj (capacityToMap r)) = Some raw"
      "content ds = (content (documents s))(cr_ID r \<mapsto> raw)" by blast
    have "read_reservation c ds = (if c = cr_ID r then Inr (Some (as_read r)) else read_reservation c (documents s))"
      unfolding read_reservation_content[OF that] u using raw reread[OF raw(1), unfolded u]
      by (simp add: reservation_read_back)
    then show ?thesis using True out(1) upd(2) s(2) by (simp add: reservation_at_def)
  next
    case False
    then have "read_reservation c ds = read_reservation c (documents s)"
      unfolding read_reservation_content[OF that] u by (simp add: same)
    then show ?thesis using False out(1) upd(2) s(2) by (simp add: reservation_at_def)
  qed
qed

lemma GetCapacity_ready:
  assumes "capacity_ready kb" and "GetCapacity env c kb = (out, kb')"
  shows "capacity_ready kb'" and "reservation_at kb' = reservation_at kb"
    and "out = (if trim_space c = '''' then Inl CapIDRequired else reservation_at kb (trim_space c))"
proof -
  obtain s where s: "registry_ok kb" "store_of kb CapacityStoreName = Some s" "capacity_docs_ok (documents s)"
    using assms(1) by (auto simp: capacity_ready_def)
  have upd: "registry_ok (set_store CapacityStoreName s kb)" "store_of (set_store CapacityStoreName s kb) = store_of kb"
    using set_store_ok[OF s(1), of CapacityStoreName s] s(2) by auto
  have g: "on_capacity env (\<lambda>s. (read_reservation (trim_space c) s, s)) kb
      = (reservation_at kb (trim_space c), set_store CapacityStoreName s kb)"
    using on_capacity_present[OF s(2), of "\<lambda>s. (read_reservation (trim_space c) s, s)"] s(2)
    by (simp add: reservation_at_def)
  from assms(2) g show "out = (if trim_space c = '''' then Inl CapIDRequired else reservation_at kb (trim_space c))"
    by (auto simp: GetCapacity_def Let_def split: if_splits)
  have "kb' = kb \<or> kb' = set_store CapacityStoreName s kb"
    using assms(2) g by (auto simp: GetCapacity_def Let_def split: if_splits)
  then show "capacity_ready kb'" "reservation_at kb' = reservation_at kb"
    using s upd assms(1) by (auto simp: capacity_ready_def reservation_at_def)
qed

text \<open>A record read under an identifier carries it, and is in the form it is read back.\<close>

lemma reservation_at_ID:
  assumes "capacity_ready kb" and "reservation_at kb c = Inr (Some r)" and "CHR '' '' \<notin> set c"
  shows "cr_ID r = c" and "as_read r = r"
proof -
  obtain s where s: "store_of kb CapacityStoreName = Some s" "capacity_docs_ok (documents s)"
    using assms(1) by (auto simp: capacity_ready_def)
  from assms(2) s(1) obtain raw m where m: "content (documents s) c = Some raw"
      "unmarshal (documents s) raw = Some (JObj m)" "capacityFromMap m = Some r"
    by (auto simp: reservation_at_def read_reservation_content[OF assms(3)] split: option.splits json.splits)
  from s(2) m(1,2) have "gm_get m ''_id'' = Some (JStr c)" by (fastforce simp: capacity_docs_ok_def)
  moreover have "\<exists>i cap attrs cdt. read_text m ''_id'' = Some i \<and> cr_ID r = i \<and> (cr_CapID r = '''' \<longrightarrow> i = '''')
      \<and> cr_Attributes r = attrs \<and> cr_CDT r = cdt \<and> read_object m ''attributes'' = Some attrs \<and> read_object m ''cdt'' = Some cdt"
    using m(3) by (auto simp: capacityFromMap_def split: option.splits list.splits if_splits)
  ultimately obtain attrs cdt where *: "cr_ID r = c" "cr_CapID r = '''' \<longrightarrow> c = ''''" "cr_Attributes r = attrs" "cr_CDT r = cdt"
      "read_object m ''attributes'' = Some attrs" "read_object m ''cdt'' = Some cdt"
    by (auto simp: read_text_def)
  have norm: "norm_object d = d" if "read_object m k = Some d" for k d
    using that by (auto simp: read_object_def norm_object_def comp_def split_beta split: option.splits json.splits)
  show "cr_ID r = c" by (fact *(1))
  show "as_read r = r" using * norm[OF *(5)] norm[OF *(6)] by (cases r) (auto simp: as_read_def)
qed

datatype capacity_op =
    Reserve agent string string string capacity_request
  | Attach string string document
  | Release string string
  | Look string

fun capacity_step :: "env \<Rightarrow> kb \<Rightarrow> capacity_op \<Rightarrow> kb" where
  "capacity_step env kb (Reserve a uuid ts ex req) = snd (ReserveCapacity env a uuid ts ex req kb)"
| "capacity_step env kb (Attach ts c cdt) = snd (AttachCDT env ts c cdt kb)"
| "capacity_step env kb (Release ts c) = snd (ReleaseCapacity env ts c kb)"
| "capacity_step env kb (Look c) = snd (GetCapacity env c kb)"

text \<open>An operation that does not issue the identifier \<open>c\<close> again (the UUIDs are fresh) and names
  identifiers without spaces.\<close>

fun plain_op :: "string \<Rightarrow> capacity_op \<Rightarrow> bool" where
  "plain_op c (Reserve a uuid ts ex req) = (GenerateCapID a uuid \<noteq> Inr c)"
| "plain_op c (Attach ts d cdt) = (CHR '' '' \<notin> set (trim_space d))"
| "plain_op c (Release ts d) = (CHR '' '' \<notin> set (trim_space d))"
| "plain_op c (Look d) = True"

definition status_rank :: "string \<Rightarrow> nat" where
  "status_rank st = (if st = CapacityStatusReleased then 2 else if st = CapacityStatusActive then 1 else 0)"

text \<open>A later version of a record: who issued what to whom is unchanged, the status only moves from
  reserved through active to released, and a released record keeps its description.\<close>

definition issued_part :: "reservation \<Rightarrow> reservation" where
  "issued_part r = r\<lparr>cr_Status := '''', cr_UpdatedAt := '''', cr_CDT := [], cr_CDTSubmitted := False, cr_CDTSubmitted_At := ''''\<rparr>"

definition later_version :: "reservation \<Rightarrow> reservation \<Rightarrow> bool" where
  "later_version r r' \<longleftrightarrow> issued_part r' = issued_part r
     \<and> status_rank (cr_Status r) \<le> status_rank (cr_Status r')
     \<and> (cr_Status r = CapacityStatusReleased \<longrightarrow> cr_CDT r' = cr_CDT r)"

lemma later_refl [simp]: "later_version r r"
  by (simp add: later_version_def)

lemma status_rank_released: "status_rank st \<le> 2" "2 \<le> status_rank st \<longleftrightarrow> st = CapacityStatusReleased"
  by (auto simp: status_rank_def)

lemma later_released: "later_version r q \<Longrightarrow> cr_Status r = CapacityStatusReleased \<Longrightarrow> cr_Status q = CapacityStatusReleased"
proof -
  assume l: "later_version r q" and r: "cr_Status r = CapacityStatusReleased"
  have "status_rank (cr_Status r) = 2" by (simp add: r status_rank_def)
  then have "2 \<le> status_rank (cr_Status q)" using l unfolding later_version_def by linarith
  then show ?thesis by (simp only: status_rank_released(2))
qed

lemma later_trans: "later_version r q \<Longrightarrow> later_version q p \<Longrightarrow> later_version r p"
proof -
  assume a: "later_version r q" and b: "later_version q p"
  have "cr_Status r = CapacityStatusReleased \<longrightarrow> cr_CDT p = cr_CDT r"
    using a b later_released[OF a] by (simp add: later_version_def)
  moreover have "status_rank (cr_Status r) \<le> status_rank (cr_Status p)"
    using a b le_trans unfolding later_version_def by blast
  ultimately show ?thesis using a b by (simp add: later_version_def)
qed

lemma later_attached:
  "as_read r = r \<Longrightarrow> cr_Status r \<noteq> CapacityStatusReleased \<Longrightarrow> later_version r (as_read (attached cdt ts r))"
  by (cases r) (auto simp: as_read_def attached_def later_version_def issued_part_def status_rank_def capacity_consts split: if_splits)

lemma later_releasing:
  "as_read r = r \<Longrightarrow> later_version r (as_read (r\<lparr>cr_Status := CapacityStatusReleased, cr_UpdatedAt := ts\<rparr>))"
  by (cases r) (auto simp: as_read_def later_version_def issued_part_def status_rank_def split: if_splits)

lemma changed_ID [simp]: "cr_ID (attached cdt ts q) = cr_ID q" "cr_ID (q\<lparr>cr_Status := st, cr_UpdatedAt := ts\<rparr>) = cr_ID q"
  by (simp_all add: attached_def)

text \<open>A record is read and a changed version of it is written back.\<close>

lemma rewritten:
  assumes ready: "capacity_ready kb" and at: "reservation_at kb c = Inr (Some r)" and c: "CHR '' '' \<notin> set c"
    and d: "CHR '' '' \<notin> set (trim_space d)" and get: "GetCapacity env d kb = (Inr (Some q), kb1)"
    and new: "cr_ID q' = cr_ID q" "as_read q = q \<Longrightarrow> later_version q (as_read q')"
  shows "capacity_ready (snd (put_reservation env q' kb1))
    \<and> (\<exists>r'. reservation_at (snd (put_reservation env q' kb1)) c = Inr (Some r') \<and> later_version r r')"
proof -
  note g = GetCapacity_ready[OF ready get]
  have dq: "trim_space d \<noteq> ''''" "reservation_at kb (trim_space d) = Inr (Some q)"
    using g(3) by (auto split: if_splits)
  note q = reservation_at_ID[OF ready dq(2) d]
  obtain res kb2 where p: "put_reservation env q' kb1 = (res, kb2)" by force
  have id: "cr_ID q' \<noteq> ''''" using new(1) q(1) dq(1) by simp
  note put = put_reservation_ready[OF g(1) p id]
  show ?thesis
  proof (cases "c = cr_ID q' \<and> (\<exists>x. res = Inr x)")
    case True
    then have "r = q" using at dq(2) q(1) new(1) by simp
    with True put(2)[OF c] new(2)[OF q(2)] put(1) p show ?thesis by auto
  next
    case False
    then have "reservation_at kb2 c = Inr (Some r)" using put(2)[OF c] at g(2) by (auto split: sum.splits)
    with put(1) p show ?thesis by (auto intro: exI[of _ r])
  qed
qed

lemma capacity_step_later:
  assumes ready: "capacity_ready kb" and at: "reservation_at kb c = Inr (Some r)" and c: "CHR '' '' \<notin> set c"
    and plain: "plain_op c op"
  shows "capacity_ready (capacity_step env kb op)
    \<and> (\<exists>r'. reservation_at (capacity_step env kb op) c = Inr (Some r') \<and> later_version r r')"
proof -
  have unchanged: ?thesis if "capacity_step env kb op = kb" using that ready at by (auto intro: exI[of _ r])
  have looked: ?thesis if "GetCapacity env d kb = (out, kb1)" "capacity_step env kb op = kb1" for d out kb1
    using GetCapacity_ready[OF ready that(1)] that(2) at by (auto intro: exI[of _ r])
  show ?thesis
  proof (cases op)
    case (Reserve a uuid ts ex req)
    show ?thesis
    proof (cases "capacity_step env kb op = kb")
      case False
      with Reserve obtain capID where g: "GenerateCapID a uuid = Inr capID"
        "capacity_step env kb op = snd (put_reservation env (new_reservation a capID ts ex req) kb)"
        by (auto simp: ReserveCapacity_def split: if_splits sum.splits)
      have id: "cr_ID (new_reservation a capID ts ex req) \<noteq> ''''" "capID \<noteq> c"
        using g(1) plain Reserve by (auto simp: new_reservation_def GenerateCapID_def capacity_consts Let_def split: if_splits)
      obtain out kb' where p: "put_reservation env (new_reservation a capID ts ex req) kb = (out, kb')" by force
      have "reservation_at kb' c = Inr (Some r)"
        using put_reservation_ready(2)[OF ready p id(1) c] id(2) at by (auto simp: new_reservation_def split: sum.splits)
      with put_reservation_ready(1)[OF ready p id(1)] g(2) p show ?thesis by (auto intro: exI[of _ r])
    qed (rule unchanged)
  next
    case (Attach ts d cdt)
    show ?thesis
    proof (cases "cdt = []")
      case True
      then show ?thesis using Attach by (intro unchanged) (simp add: AttachCDT_def)
    next
      case False
      obtain out kb1 where get: "GetCapacity env d kb = (out, kb1)" by force
      show ?thesis
      proof (cases "\<exists>q. out = Inr (Some q) \<and> cr_Status q \<noteq> CapacityStatusReleased")
        case True
        then obtain q where q: "out = Inr (Some q)" "cr_Status q \<noteq> CapacityStatusReleased" by blast
        have "capacity_step env kb op = snd (put_reservation env (attached cdt ts q) kb1)"
          using Attach get q False by (simp add: AttachCDT_def)
        with rewritten[OF ready at c _ get[unfolded q(1)] changed_ID(1) later_attached] Attach plain q(2)
        show ?thesis by simp
      next
        case released: False
        then have "capacity_step env kb op = kb1"
          using Attach get False by (auto simp: AttachCDT_def split: sum.split option.split)
        with get show ?thesis by (rule looked)
      qed
    qed
  next
    case (Release ts d)
    obtain out kb1 where get: "GetCapacity env d kb = (out, kb1)" by force
    show ?thesis
    proof (cases "\<exists>q. out = Inr (Some q)")
      case True
      then obtain q where q: "out = Inr (Some q)" by blast
      have "capacity_step env kb op = snd (put_reservation env (q\<lparr>cr_Status := CapacityStatusReleased, cr_UpdatedAt := ts\<rparr>) kb1)"
        using Release get q by (simp add: ReleaseCapacity_def)
      with rewritten[OF ready at c _ get[unfolded q] changed_ID(2) later_releasing] Release plain
      show ?thesis by simp
    next
      case False
      then have "capacity_step env kb op = kb1"
        using Release get by (auto simp: ReleaseCapacity_def split: sum.split option.split)
      with get show ?thesis by (rule looked)
    qed
  next
    case (Look d)
    obtain out kb1 where "GetCapacity env d kb = (out, kb1)" by force
    with Look show ?thesis by (intro looked) simp_all
  qed
qed

text \<open>
  C34.  The life of a reservation: whatever operations of the registry follow, on whatever identifiers,
  the record of an identifier stays readable under it; what was issued to whom never changes, the
  status moves only forward from reserved through active to released, and a released record keeps its
  status and its description for good.
\<close>
theorem reservation_life:
  assumes "capacity_ready kb" and "reservation_at kb c = Inr (Some r)" and "CHR '' '' \<notin> set c"
    and "\<forall>op \<in> set ops. plain_op c op"
  shows "\<exists>r'. reservation_at (foldl (capacity_step env) kb ops) c = Inr (Some r') \<and> later_version r r'
    \<and> (cr_Status r = CapacityStatusReleased \<longrightarrow> cr_Status r' = CapacityStatusReleased)"
proof -
  have "capacity_ready (foldl (capacity_step env) kb ops)
      \<and> (\<exists>r'. reservation_at (foldl (capacity_step env) kb ops) c = Inr (Some r') \<and> later_version r r')"
    using assms(4)
  proof (induction ops rule: rev_induct)
    case Nil
    then show ?case using assms(1,2) by (auto intro: exI[of _ r])
  next
    case (snoc op ops)
    then obtain q where q: "capacity_ready (foldl (capacity_step env) kb ops)"
      "reservation_at (foldl (capacity_step env) kb ops) c = Inr (Some q)" "later_version r q" by auto
    from capacity_step_later[OF q(1,2) assms(3), of op env] snoc.prems later_trans[OF q(3)] show ?case by auto
  qed
  then show ?thesis using later_released by blast
qed

definition sample_reservation :: reservation where
  "sample_reservation = \<lparr>cr_ID = ''c1'', cr_CapID = ''c1'', cr_Status = CapacityStatusReserved, cr_ProviderID = ''p'',
     cr_ProviderName = '''', cr_CapacityType = ''compute'', cr_CapacityName = '''', cr_Region = '''', cr_CDTVersion = '''',
     cr_ExpectedRA = '''', cr_Attributes = [], cr_IssuedBy = ''QmPeer12'', cr_IssuedAt = ''t0'', cr_ExpiresAt = '''',
     cr_UpdatedAt = ''t0'', cr_CDTSubmitted = False, cr_CDTSubmitted_At = '''', cr_CDT = [], cr_Store = CapacityStoreName\<rparr>"

definition released_sample :: reservation where
  "released_sample = sample_reservation\<lparr>cr_Status := CapacityStatusReleased, cr_UpdatedAt := ''t1''\<rparr>"

definition capacity_enc :: "json \<Rightarrow> string option" where
  "capacity_enc d = (if d = JObj (capacityToMap sample_reservation) then Some ''reserved''
     else if d = JObj (capacityToMap released_sample) then Some ''released'' else None)"

definition capacity_dec :: "string \<Rightarrow> json option" where
  "capacity_dec s = (if s = ''reserved'' then Some (JObj (capacityToMap sample_reservation))
     else if s = ''released'' then Some (JObj (capacityToMap released_sample)) else None)"

definition capacity_kb :: kb where
  "capacity_kb = \<lparr>builtin = [], DynamicStores = [(CapacityStoreName, Some \<lparr>documents = empty_store capacity_enc capacity_dec [], address = ''zdpc''\<rparr>)],
      config_addrs = None, config_file = [], orbit_up = True\<rparr>"

lemma capacity_name_valid: "ValidateStoreName CapacityStoreName = None"
  by code_simp

lemma capacity_kb_ready: "capacity_ready capacity_kb"
  by (auto simp: capacity_ready_def capacity_kb_def registry_ok_def store_of_def builtinDocStores_def open_dynamic_def capacity_docs_ok_def
      empty_store_inv capacity_enc_def capacity_dec_def capacity_name_valid split: if_splits)

lemma reserved_kb: "\<exists>q. put_reservation sample_env sample_reservation capacity_kb = (Inr q, snd (put_reservation sample_env sample_reservation capacity_kb))"
proof -
  have s: "store_of capacity_kb CapacityStoreName = Some \<lparr>documents = empty_store capacity_enc capacity_dec [], address = ''zdpc''\<rparr>"
    by (simp add: capacity_kb_def store_of_def builtinDocStores_def open_dynamic_def)
  obtain ok ds where p: "store_Put (JObj (capacityToMap sample_reservation)) (empty_store capacity_enc capacity_dec []) = (ok, ds)" by force
  have "marshal (empty_store capacity_enc capacity_dec []) (JObj (capacityToMap sample_reservation)) = Some ''reserved''"
    by (simp add: capacity_enc_def)
  then obtain key where "render (empty_store capacity_enc capacity_dec []) (JObj (capacityToMap sample_reservation)) = Some (key, ''reserved'')"
    by (auto simp: render_obj id_of_doc sample_reservation_def)
  then have "ok"
    using p AddOperation_ok[of "empty_store capacity_enc capacity_dec []" "OpPut (Some key) ''reserved''"]
    by (auto simp: store_Put_def)
  then show ?thesis
    using on_capacity_present[OF s, of "\<lambda>s. case store_Put (JObj (capacityToMap sample_reservation)) s of (ok, s') \<Rightarrow> (if ok then Inr sample_reservation else Inl WriteRefused, s')"
        "Inr sample_reservation" ds sample_env] p
    by (simp add: put_reservation_def)
qed

theorem reservation_life_witness:
  "\<exists>r'. reservation_at (foldl (capacity_step sample_env) (snd (put_reservation sample_env sample_reservation capacity_kb))
       [Release ''t1'' ''c1'', Attach ''t2'' ''c1'' [(''a'', JNull)]]) ''c1'' = Inr (Some r')
     \<and> issued_part r' = issued_part sample_reservation"
proof -
  have r: "cr_ID sample_reservation \<noteq> ''''" "CHR '' '' \<notin> set ''c1''" "as_read sample_reservation = sample_reservation"
    "cr_ID sample_reservation = ''c1''"
    by (simp_all add: sample_reservation_def as_read_def norm_object_def)
  obtain q where q: "put_reservation sample_env sample_reservation capacity_kb = (Inr q, snd (put_reservation sample_env sample_reservation capacity_kb))"
    using reserved_kb by blast
  note p = put_reservation_ready[OF capacity_kb_ready q r(1)]
  have at: "reservation_at (snd (put_reservation sample_env sample_reservation capacity_kb)) ''c1'' = Inr (Some sample_reservation)"
    using p(2)[OF r(2)] r(3,4) by simp
  have "\<forall>op \<in> set [Release ''t1'' ''c1'', Attach ''t2'' ''c1'' [(''a'', JNull)]]. plain_op ''c1'' op"
    by (simp add: trim_space_def is_space_def)
  from reservation_life[OF p(1) at r(2) this, of sample_env] show ?thesis unfolding later_version_def by blast
qed

end
