(* ===== verification/Bytes.thy ===== *)
theory Bytes
  imports Prelude "HOL-Library.Word"
begin

text \<open>
  The byte codecs of the SQL storage (\<open>src/sql/storage\<close>): little-endian \<open>binary.Write\<close> and
  \<open>binary.Read\<close>, and \<open>Read\<close> and \<open>Next\<close> of \<open>bytes.Buffer\<close>.  A decoder takes the unread bytes and
  returns an error, or the value with the bytes left.  The locale \<open>codec\<close> is the contract between an
  encoder and its decoder, interpreted on every codec of the storage files.  Also the errors of the
  storage and the sequencing of fallible steps.
\<close>

section \<open>Errors\<close>

datatype storage_error =
    EndOfInput | UnexpectedEnd | Panic
  | WrongNodeType byte_kind | RowTooLarge | CacheFull | PageMissing
  | KeyAlreadyExists | NoSuchRecord | UnmarshalFailed
  | ColCountMismatch | TypeMismatch | IntOutOfRange | FieldNotFound | FieldAmbiguous
  | BadOffset | TableAlreadyExist | TableNotExist | NoPageTableEntry | OutOfFuel
and byte_kind = WantLeaf | WantInternal

definition and_then :: "'e + 'a \<Rightarrow> ('a \<Rightarrow> 'e + 'b) \<Rightarrow> 'e + 'b" where
  "and_then r f = (case r of Inl e \<Rightarrow> Inl e | Inr x \<Rightarrow> f x)"

lemma and_then_simps [simp]: "and_then (Inl e) f = Inl e" "and_then (Inr x) f = f x"
  by (simp_all add: and_then_def)

lemma and_then_cong [fundef_cong]:
  "r = r' \<Longrightarrow> (\<And>x. r' = Inr x \<Longrightarrow> f x = g x) \<Longrightarrow> and_then r f = and_then r' g"
  by (cases r') (simp_all add: and_then_def)

lemma and_then_Inr_iff: "and_then r f = Inr y \<longleftrightarrow> (\<exists>x. r = Inr x \<and> f x = Inr y)"
  by (cases r) simp_all

lemma and_then_Inl_iff: "and_then r f = Inl e \<longleftrightarrow> r = Inl e \<or> (\<exists>x. r = Inr x \<and> f x = Inl e)"
  by (cases r) simp_all

fun collect_all :: "(storage_error + 'a) list \<Rightarrow> storage_error + 'a list" where
  "collect_all [] = Inr []"
| "collect_all (r # rs) = and_then r (\<lambda>x. and_then (collect_all rs) (\<lambda>xs. Inr (x # xs)))"

lemma collect_all_map: "(\<And>x. x \<in> set xs \<Longrightarrow> f x = Inr (g x)) \<Longrightarrow> collect_all (map f xs) = Inr (map g xs)"
  by (induction xs) auto

section \<open>Little-endian numbers\<close>

type_synonym byte = "8 word"

fun le_bytes :: "nat \<Rightarrow> nat \<Rightarrow> byte list" where
  "le_bytes 0 v = []"
| "le_bytes (Suc n) v = word_of_nat v # le_bytes n (v div 256)"

fun le_value :: "byte list \<Rightarrow> nat" where
  "le_value [] = 0"
| "le_value (b # bs) = unat b + 256 * le_value bs"

lemma length_le_bytes [simp]: "length (le_bytes n v) = n"
  by (induction n arbitrary: v) simp_all

lemma le_value_bytes: "le_value (le_bytes n v) = v mod 256 ^ n"
proof (induction n arbitrary: v)
  case (Suc n)
  have "v mod (256 * 256 ^ n) = v mod 256 + 256 * (v div 256 mod 256 ^ n)"
    by (simp add: mod_mult2_eq)
  then show ?case using Suc by (simp add: unat_of_nat)
qed simp

section \<open>Readers\<close>

text \<open>\<open>binary.Read\<close> of \<open>n\<close> bytes: nothing left is the end of the input, too little an unexpected end.\<close>

definition read_full :: "nat \<Rightarrow> byte list \<Rightarrow> storage_error + (byte list \<times> byte list)" where
  "read_full n bs =
     (if n \<le> length bs then Inr (take n bs, drop n bs)
      else if bs = [] then Inl EndOfInput else Inl UnexpectedEnd)"

lemma read_full_append [simp]: "length a = n \<Longrightarrow> read_full n (a @ b) = Inr (a, b)"
  by (simp add: read_full_def)

text \<open>\<open>bytes.Buffer.Read\<close> into a fresh slice of \<open>n\<close> bytes: a short read is not an error, the rest of
  the slice stays zero.\<close>

definition buffer_read :: "nat \<Rightarrow> byte list \<Rightarrow> storage_error + (byte list \<times> byte list)" where
  "buffer_read n bs =
     (if bs = [] \<and> n \<noteq> 0 then Inl EndOfInput
      else Inr (take n bs @ replicate (n - length bs) 0, drop n bs))"

lemma buffer_read_append [simp]: "length a = n \<Longrightarrow> buffer_read n (a @ b) = Inr (a, b)"
  by (auto simp: buffer_read_def)

section \<open>The codecs of the fixed-size types\<close>

definition put_u8 :: "byte \<Rightarrow> byte list" where "put_u8 b = [b]"
definition put_u16 :: "16 word \<Rightarrow> byte list" where "put_u16 w = le_bytes 2 (unat w)"
definition put_u32 :: "32 word \<Rightarrow> byte list" where "put_u32 w = le_bytes 4 (unat w)"
definition put_u64 :: "64 word \<Rightarrow> byte list" where "put_u64 w = le_bytes 8 (unat w)"
definition put_bool :: "bool \<Rightarrow> byte list" where "put_bool b = [if b then 1 else 0]"

definition get_u8 :: "byte list \<Rightarrow> storage_error + (byte \<times> byte list)" where
  "get_u8 bs = and_then (read_full 1 bs) (\<lambda>(x, r). Inr (hd x, r))"
definition get_u16 :: "byte list \<Rightarrow> storage_error + (16 word \<times> byte list)" where
  "get_u16 bs = and_then (read_full 2 bs) (\<lambda>(x, r). Inr (word_of_nat (le_value x), r))"
definition get_u32 :: "byte list \<Rightarrow> storage_error + (32 word \<times> byte list)" where
  "get_u32 bs = and_then (read_full 4 bs) (\<lambda>(x, r). Inr (word_of_nat (le_value x), r))"
definition get_u64 :: "byte list \<Rightarrow> storage_error + (64 word \<times> byte list)" where
  "get_u64 bs = and_then (read_full 8 bs) (\<lambda>(x, r). Inr (word_of_nat (le_value x), r))"
definition get_bool :: "byte list \<Rightarrow> storage_error + (bool \<times> byte list)" where
  "get_bool bs = and_then (read_full 1 bs) (\<lambda>(x, r). Inr (hd x \<noteq> 0, r))"

text \<open>\<open>count\<close> values one after the other.\<close>

fun get_many :: "(byte list \<Rightarrow> storage_error + ('a \<times> byte list)) \<Rightarrow> nat \<Rightarrow> byte list
    \<Rightarrow> storage_error + ('a list \<times> byte list)" where
  "get_many get 0 bs = Inr ([], bs)"
| "get_many get (Suc n) bs =
     and_then (get bs) (\<lambda>(x, r). and_then (get_many get n r) (\<lambda>(xs, r'). Inr (x # xs, r')))"

text \<open>A byte string with its length in front, read with \<open>Buffer.Read\<close>.\<close>

definition put_blob :: "byte list \<Rightarrow> byte list" where
  "put_blob s = put_u32 (word_of_nat (length s)) @ s"

definition get_blob :: "byte list \<Rightarrow> storage_error + (byte list \<times> byte list)" where
  "get_blob bs = and_then (get_u32 bs) (\<lambda>(n, r). buffer_read (unat n) r)"

section \<open>Codecs\<close>

locale codec =
  fixes enc :: "'a \<Rightarrow> byte list"
    and dec :: "byte list \<Rightarrow> storage_error + ('a \<times> byte list)"
    and ok :: "'a \<Rightarrow> bool"
  assumes dec_enc: "ok x \<Longrightarrow> dec (enc x @ rest) = Inr (x, rest)"
begin

lemma dec_many: "\<forall>x \<in> set xs. ok x \<Longrightarrow> get_many dec (length xs) (concat (map enc xs) @ rest) = Inr (xs, rest)"
  by (induction xs) (auto simp: dec_enc)

lemma enc_inj: "ok x \<Longrightarrow> ok y \<Longrightarrow> enc x = enc y \<Longrightarrow> x = y"
  using dec_enc[of x "[]"] dec_enc[of y "[]"] by simp

lemma dec_end: "ok x \<Longrightarrow> dec (enc x) = Inr (x, [])"
  using dec_enc[of x "[]"] by simp

end

lemma word_le_value:
  "word_of_nat (le_value (le_bytes n (unat w))) = w" if "LENGTH('a) = 8 * n" for w :: "'a::len word"
proof -
  have "unat w < 2 ^ LENGTH('a)" by (rule unsigned_less)
  then have "unat w < 256 ^ n" using that by (simp add: power_mult)
  then show ?thesis by (simp add: le_value_bytes)
qed

interpretation u8: codec put_u8 get_u8 "\<lambda>_. True"
  by unfold_locales (simp add: put_u8_def get_u8_def read_full_def)

interpretation u16: codec put_u16 get_u16 "\<lambda>_. True"
  by unfold_locales (simp add: put_u16_def get_u16_def word_le_value)

interpretation u32: codec put_u32 get_u32 "\<lambda>_. True"
  by unfold_locales (simp add: put_u32_def get_u32_def word_le_value)

interpretation u64: codec put_u64 get_u64 "\<lambda>_. True"
  by unfold_locales (simp add: put_u64_def get_u64_def word_le_value)

interpretation bool: codec put_bool get_bool "\<lambda>_. True"
  by unfold_locales (simp add: put_bool_def get_bool_def read_full_def)

interpretation blob: codec put_blob get_blob "\<lambda>s. length s < 2 ^ 32"
proof
  fix s rest :: "byte list"
  assume "length s < 2 ^ 32"
  then have "unat (word_of_nat (length s) :: 32 word) = length s" by (simp add: unat_of_nat)
  then show "get_blob (put_blob s @ rest) = Inr (s, rest)"
    by (simp add: put_blob_def get_blob_def u32.dec_enc)
qed

lemmas codec_simps = u8.dec_enc u16.dec_enc u32.dec_enc u64.dec_enc bool.dec_enc blob.dec_enc

lemma put_lengths [simp]:
  "length (put_u8 b) = 1" "length (put_u16 w16) = 2" "length (put_u32 w32) = 4" "length (put_u64 w64) = 8"
  "length (put_bool p) = 1" "length (put_blob s) = 4 + length s"
  by (simp_all add: put_u8_def put_u16_def put_u32_def put_u64_def put_bool_def put_blob_def)

section \<open>Text as bytes\<close>

definition str_bytes :: "string \<Rightarrow> byte list" where
  "str_bytes = map (\<lambda>c. word_of_nat (of_char c))"

definition bytes_str :: "byte list \<Rightarrow> string" where
  "bytes_str = map (\<lambda>b. char_of (unat b))"

lemma length_str_bytes [simp]: "length (str_bytes s) = length s" "length (bytes_str b) = length b"
  by (simp_all add: str_bytes_def bytes_str_def)

lemma char_of_byte [simp]: "char_of (unat (word_of_nat (of_char c) :: byte)) = c"
proof -
  have "(of_char c :: nat) < 256" by (cases c) (simp add: of_char_def)
  then show ?thesis by (simp add: unat_of_nat)
qed

lemma bytes_str_inverse [simp]: "bytes_str (str_bytes s) = s"
  by (induction s) (simp_all add: str_bytes_def bytes_str_def)

end
