(* ===== verification/Page.thy ===== *)
theory Page
  imports Bytes
begin

text \<open>
  The pages of the SQL storage (\<open>src/sql/storage/page.go\<close>): nodes of the B-tree with their cells, the
  offset array that keeps the cells in key order, binary search, insertion, splitting, and the encoding
  of a node as a page of 4096 bytes.  A slice of cell pointers is a list of optional cells: decoding
  allocates it full of nil pointers.  An index out of range and a nil dereference are \<open>Panic\<close>.
\<close>

section \<open>Constants and types\<close>

definition pageSize :: nat where "pageSize = 4096"
definition internalNodeHeaderSize :: nat where "internalNodeHeaderSize = 1 + 8 + 8 + 8 + 4 + 2"
definition leafNodeHeaderSize :: nat where "leafNodeHeaderSize = 1 + 8 + 8 + 1 + 1 + 8 + 8 + 4 + 2"
definition offsetElemSize :: nat where "offsetElemSize = 2"
definition nodeCellSize :: nat where "nodeCellSize = 4 + 8"
definition maxValueSize :: nat where "maxValueSize = 400"
definition leafNodeCellSize :: nat where "leafNodeCellSize = 4 + 1 + 4 + maxValueSize"

definition maxInternalNodeCells :: nat where
  "maxInternalNodeCells = (pageSize - internalNodeHeaderSize) div (offsetElemSize + nodeCellSize)"

definition maxLeafNodeCells :: nat where
  "maxLeafNodeCells = (pageSize - leafNodeHeaderSize) div (offsetElemSize + leafNodeCellSize)"

lemma max_cells: "maxInternalNodeCells = 290" "maxLeafNodeCells = 9"
  by (simp_all add: maxInternalNodeCells_def maxLeafNodeCells_def pageSize_def internalNodeHeaderSize_def
    leafNodeHeaderSize_def offsetElemSize_def nodeCellSize_def leafNodeCellSize_def maxValueSize_def)

record internalCell =
  ic_key :: "32 word"
  ic_fileOffset :: "64 word"

record leafCell =
  lc_key :: "32 word"
  lc_valueSize :: "32 word"
  lc_valueBytes :: "byte list"
  lc_deleted :: bool

record btreeNode =
  fileOffset :: "64 word"
  offsets :: "16 word list"
  freeSize :: "16 word"
  dirty :: bool
  lastLSN :: "64 word"
  isLeaf :: bool
  internalCells :: "internalCell option list"
  rightOffset :: "64 word"
  leafCells :: "leafCell option list"
  hasLSib :: bool
  hasRSib :: bool
  lSibFileOffset :: "64 word"
  rSibFileOffset :: "64 word"

text \<open>Go's \<open>&btreeNode{}\<close>.\<close>

definition zero_node :: btreeNode where
  "zero_node = \<lparr>fileOffset = 0, offsets = [], freeSize = 0, dirty = False, lastLSN = 0, isLeaf = False,
     internalCells = [], rightOffset = 0, leafCells = [], hasLSib = False, hasRSib = False,
     lSibFileOffset = 0, rSibFileOffset = 0\<rparr>"

section \<open>Cells of a node\<close>

definition checkRowSizeLimit :: "byte list \<Rightarrow> bool" where
  "checkRowSizeLimit v \<longleftrightarrow> length v \<le> maxValueSize"

definition markDirty :: "64 word \<Rightarrow> btreeNode \<Rightarrow> btreeNode" where
  "markDirty lsn n = n\<lparr>lastLSN := lsn, dirty := True\<rparr>"

definition markClean :: "btreeNode \<Rightarrow> btreeNode" where
  "markClean n = n\<lparr>dirty := False\<rparr>"

definition setFileOffset :: "64 word \<Rightarrow> btreeNode \<Rightarrow> btreeNode" where
  "setFileOffset off n = n\<lparr>fileOffset := off\<rparr>"

definition setRightMostKey :: "64 word \<Rightarrow> btreeNode \<Rightarrow> btreeNode" where
  "setRightMostKey off n = n\<lparr>rightOffset := off\<rparr>"

text \<open>\<open>cells[i]\<close> followed by a field access.\<close>

definition cell_at :: "'c option list \<Rightarrow> nat \<Rightarrow> storage_error + 'c" where
  "cell_at cells i = (if i < length cells then (case cells ! i of None \<Rightarrow> Inl Panic | Some c \<Rightarrow> Inr c) else Inl Panic)"

definition cellKey :: "btreeNode \<Rightarrow> 16 word \<Rightarrow> storage_error + 32 word" where
  "cellKey n off =
     (if isLeaf n then and_then (cell_at (leafCells n) (unat off)) (\<lambda>c. Inr (lc_key c))
      else and_then (cell_at (internalCells n) (unat off)) (\<lambda>c. Inr (ic_key c)))"

definition new_leaf_cell :: "32 word \<Rightarrow> byte list \<Rightarrow> leafCell" where
  "new_leaf_cell key v = \<lparr>lc_key = key, lc_valueSize = word_of_nat (length v), lc_valueBytes = v, lc_deleted = False\<rparr>"

definition appendLeafCell :: "32 word \<Rightarrow> byte list \<Rightarrow> btreeNode \<Rightarrow> btreeNode" where
  "appendLeafCell key v n =
     n\<lparr>offsets := offsets n @ [word_of_nat (length (offsets n))],
       leafCells := leafCells n @ [Some (new_leaf_cell key v)]\<rparr>"

definition appendInternalCell :: "32 word \<Rightarrow> 64 word \<Rightarrow> btreeNode \<Rightarrow> btreeNode" where
  "appendInternalCell key off n =
     n\<lparr>offsets := offsets n @ [word_of_nat (length (offsets n))],
       internalCells := internalCells n @ [Some \<lparr>ic_key = key, ic_fileOffset = off\<rparr>]\<rparr>"

text \<open>\<open>append(offs[:i+1], offs[i:]...)\<close> with \<open>offs[i]\<close> assigned afterwards.\<close>

definition insert_offset :: "nat \<Rightarrow> 'a \<Rightarrow> 'a list \<Rightarrow> 'a list" where
  "insert_offset i x offs = take i offs @ x # drop i offs"

definition swap_targets :: "16 word \<Rightarrow> 16 word \<Rightarrow> internalCell option list \<Rightarrow> storage_error + internalCell option list" where
  "swap_targets a b cells =
     and_then (cell_at cells (unat a)) (\<lambda>ca.
     and_then (cell_at cells (unat b)) (\<lambda>cb.
       Inr (cells[unat a := Some (ca\<lparr>ic_fileOffset := ic_fileOffset cb\<rparr>),
                  unat b := Some (cb\<lparr>ic_fileOffset := ic_fileOffset ca\<rparr>)])))"

definition insertInternalCell :: "nat \<Rightarrow> 32 word \<Rightarrow> 64 word \<Rightarrow> btreeNode \<Rightarrow> storage_error + btreeNode" where
  "insertInternalCell i key off n =
     (if i \<ge> length (offsets n) then Inl Panic
      else let offs = insert_offset i (word_of_nat (length (internalCells n))) (offsets n);
               cells = internalCells n @ [Some \<lparr>ic_key = key, ic_fileOffset = off\<rparr>]
           in and_then (swap_targets (offs ! i) (offs ! (i + 1)) cells) (\<lambda>cells'.
                Inr (n\<lparr>offsets := offs, internalCells := cells'\<rparr>)))"

definition insertLeafCell :: "nat \<Rightarrow> 32 word \<Rightarrow> byte list \<Rightarrow> btreeNode \<Rightarrow> storage_error + btreeNode" where
  "insertLeafCell i key v n =
     (if \<not> checkRowSizeLimit v then Inl RowTooLarge
      else if i > length (offsets n) then Inl Panic
      else Inr (n\<lparr>offsets := insert_offset i (word_of_nat (length (leafCells n))) (offsets n),
                  leafCells := leafCells n @ [Some (new_leaf_cell key v)]\<rparr>))"

section \<open>Binary search\<close>

function search_cells :: "btreeNode \<Rightarrow> 32 word \<Rightarrow> int \<Rightarrow> int \<Rightarrow> storage_error + (nat \<times> bool)" where
  "search_cells n key low high =
     (if low > high then Inr (nat low, False)
      else let mid = low + (high - low) div 2
           in and_then (cellKey n (offsets n ! nat mid)) (\<lambda>midVal.
                if midVal = key then Inr (nat mid, True)
                else if midVal < key then search_cells n key (mid + 1) high
                else search_cells n key low (mid - 1)))"
  by pat_completeness auto
termination
  by (relation "measure (\<lambda>(n, key, low, high). nat (high - low + 1))") auto

declare search_cells.simps [simp del]

definition findCellOffsetByKey :: "32 word \<Rightarrow> btreeNode \<Rightarrow> storage_error + (nat \<times> bool)" where
  "findCellOffsetByKey key n = search_cells n key 0 (int (length (offsets n)) - 1)"

definition isFull :: "btreeNode \<Rightarrow> bool" where
  "isFull n \<longleftrightarrow> (if isLeaf n then length (offsets n) \<ge> maxLeafNodeCells else length (offsets n) \<ge> maxInternalNodeCells)"

definition getRightmostKey :: "btreeNode \<Rightarrow> storage_error + 32 word" where
  "getRightmostKey n =
     (if offsets n = [] then Inl Panic
      else and_then (cell_at (internalCells n) (unat (last (offsets n)))) (\<lambda>c. Inr (ic_key c)))"

section \<open>Updating and splitting\<close>

text \<open>\<open>updateCell\<close> indexes the cells by the position the search returns, not by the offset stored there.\<close>

definition updateCell :: "32 word \<Rightarrow> byte list \<Rightarrow> btreeNode \<Rightarrow> storage_error + btreeNode" where
  "updateCell key v n =
     (if \<not> checkRowSizeLimit v then Inl RowTooLarge
      else and_then (findCellOffsetByKey key n) (\<lambda>(i, found).
        if \<not> found then Inl NoSuchRecord
        else and_then (cell_at (leafCells n) i) (\<lambda>c.
          Inr (n\<lparr>leafCells := (leafCells n)[i := Some (c\<lparr>lc_valueBytes := v, lc_valueSize := word_of_nat (length v)\<rparr>)]\<rparr>))))"

definition split_leaf :: "btreeNode \<Rightarrow> btreeNode \<Rightarrow> storage_error + (32 word \<times> btreeNode \<times> btreeNode)" where
  "split_leaf n newPg =
     (let mid = length (offsets n) div 2
      in and_then (collect_all (map (\<lambda>off. cell_at (leafCells n) (unat off)) (drop mid (offsets n)))) (\<lambda>moved.
         let newPg' = foldl (\<lambda>p c. appendLeafCell (lc_key c) (lc_valueBytes c) p) newPg moved
         in if offsets newPg' = [] then Inl Panic
            else and_then (cell_at (leafCells newPg') (unat (hd (offsets newPg')))) (\<lambda>c.
              Inr (lc_key c, n\<lparr>offsets := take mid (offsets n)\<rparr>, newPg'))))"

definition split_internal :: "btreeNode \<Rightarrow> btreeNode \<Rightarrow> storage_error + (32 word \<times> btreeNode \<times> btreeNode)" where
  "split_internal n newPg =
     (let mid = length (offsets n) div 2
      in and_then (collect_all (map (\<lambda>off. cell_at (internalCells n) (unat off)) (drop (mid + 1) (offsets n)))) (\<lambda>moved.
         let newPg' = setRightMostKey (rightOffset n)
                        (foldl (\<lambda>p c. appendInternalCell (ic_key c) (ic_fileOffset c) p) newPg moved)
         in and_then (cell_at (internalCells n) mid) (\<lambda>c.
              Inr (ic_key c, (setRightMostKey (ic_fileOffset c) n)\<lparr>offsets := take mid (offsets n)\<rparr>, newPg'))))"

definition split_node :: "btreeNode \<Rightarrow> btreeNode \<Rightarrow> storage_error + (32 word \<times> btreeNode \<times> btreeNode)" where
  "split_node n newPg = (if isLeaf n then split_leaf n newPg else split_internal n newPg)"

section \<open>Encoding\<close>

definition put_leaf_cell :: "leafCell \<Rightarrow> byte list" where
  "put_leaf_cell c = put_u32 (lc_key c) @ put_bool (lc_deleted c) @ put_u32 (lc_valueSize c) @ lc_valueBytes c"

definition put_internal_cell :: "internalCell \<Rightarrow> byte list" where
  "put_internal_cell c = put_u32 (ic_key c) @ put_u64 (ic_fileOffset c)"

definition leaf_header :: "btreeNode \<Rightarrow> byte list" where
  "leaf_header n = put_u8 1 @ put_u64 (fileOffset n) @ put_u64 (lastLSN n) @ put_bool (hasLSib n) @ put_bool (hasRSib n)
     @ put_u64 (lSibFileOffset n) @ put_u64 (rSibFileOffset n)"

definition internal_header :: "btreeNode \<Rightarrow> byte list" where
  "internal_header n = put_u8 0 @ put_u64 (fileOffset n) @ put_u64 (lastLSN n) @ put_u64 (rightOffset n)"

definition put_offsets :: "btreeNode \<Rightarrow> byte list" where
  "put_offsets n = put_u32 (word_of_nat (length (offsets n))) @ concat (map put_u16 (offsets n))"

text \<open>The free space between the offsets and the cells; its size is converted to 16 bits.\<close>

definition finish_page :: "byte list \<Rightarrow> byte list \<Rightarrow> storage_error + byte list" where
  "finish_page buf footer =
     (let free = word_of_int (int pageSize - int (length buf) - int (length footer) - 2) :: 16 word;
          page = buf @ put_u16 free @ replicate (unat free) 0 @ footer
      in if length page \<noteq> pageSize then Inl Panic else Inr page)"

definition encodeLeaf :: "btreeNode \<Rightarrow> storage_error + byte list" where
  "encodeLeaf n =
     and_then (collect_all (map (\<lambda>off. cell_at (leafCells n) (unat off)) (offsets n))) (\<lambda>cells.
       finish_page (leaf_header n @ put_offsets n) (concat (map put_leaf_cell cells)))"

definition encodeInternal :: "btreeNode \<Rightarrow> storage_error + byte list" where
  "encodeInternal n =
     and_then (collect_all (map (\<lambda>off. cell_at (internalCells n) (unat off)) (offsets n))) (\<lambda>cells.
       finish_page (internal_header n @ put_offsets n) (concat (map put_internal_cell cells)))"

definition encode_node :: "btreeNode \<Rightarrow> storage_error + byte list" where
  "encode_node n = (if isLeaf n then encodeLeaf n else encodeInternal n)"

section \<open>Decoding\<close>

definition get_leaf_cell :: "byte list \<Rightarrow> storage_error + (leafCell \<times> byte list)" where
  "get_leaf_cell bs =
     and_then (get_u32 bs) (\<lambda>(key, r1).
     and_then (get_bool r1) (\<lambda>(del, r2).
     and_then (get_u32 r2) (\<lambda>(sz, r3).
     and_then (buffer_read (unat sz) r3) (\<lambda>(v, r4).
       Inr (\<lparr>lc_key = key, lc_valueSize = sz, lc_valueBytes = v, lc_deleted = del\<rparr>, r4)))))"

definition get_internal_cell :: "byte list \<Rightarrow> storage_error + (internalCell \<times> byte list)" where
  "get_internal_cell bs =
     and_then (get_u32 bs) (\<lambda>(key, r1).
     and_then (get_u64 r1) (\<lambda>(off, r2). Inr (\<lparr>ic_key = key, ic_fileOffset = off\<rparr>, r2)))"

text \<open>Reads one cell per offset and stores it at that offset.\<close>

fun read_cells :: "(byte list \<Rightarrow> storage_error + ('c \<times> byte list)) \<Rightarrow> 16 word list \<Rightarrow> 'c option list \<Rightarrow> byte list
    \<Rightarrow> storage_error + 'c option list" where
  "read_cells get [] cells bs = Inr cells"
| "read_cells get (off # offs) cells bs =
     and_then (get bs) (\<lambda>(c, r).
       if unat off < length cells then read_cells get offs (cells[unat off := Some c]) r else Inl Panic)"

text \<open>The offset array, the free size, and the cells behind the free space, which both node types share.\<close>

definition get_body ::
  "(byte list \<Rightarrow> storage_error + ('c \<times> byte list)) \<Rightarrow> byte list \<Rightarrow> storage_error + (16 word list \<times> 16 word \<times> 'c option list)" where
  "get_body get bs =
     and_then (get_u32 bs) (\<lambda>(cellCount, r1).
     and_then (get_many get_u16 (unat cellCount) r1) (\<lambda>(offs, r2).
     and_then (get_u16 r2) (\<lambda>(free, r3).
     and_then (read_cells get offs (replicate (unat cellCount) None) (drop (unat free) r3)) (\<lambda>cells.
       Inr (offs, free, cells)))))"

definition decodeLeaf :: "byte list \<Rightarrow> storage_error + btreeNode" where
  "decodeLeaf bs =
     and_then (get_u8 bs) (\<lambda>(cellType, r0).
     if cellType \<noteq> 1 then Inl (WrongNodeType WantLeaf) else
     and_then (get_u64 r0) (\<lambda>(fo, r1).
     and_then (get_u64 r1) (\<lambda>(lsn, r2).
     and_then (get_bool r2) (\<lambda>(hl, r3).
     and_then (get_bool r3) (\<lambda>(hr, r4).
     and_then (get_u64 r4) (\<lambda>(ls, r5).
     and_then (get_u64 r5) (\<lambda>(rs, r6).
     and_then (get_body get_leaf_cell r6) (\<lambda>(offs, free, cells).
       Inr (zero_node\<lparr>isLeaf := True, fileOffset := fo, lastLSN := lsn, hasLSib := hl, hasRSib := hr,
              lSibFileOffset := ls, rSibFileOffset := rs, offsets := offs, freeSize := free,
              leafCells := cells\<rparr>)))))))))"

definition decodeInternal :: "byte list \<Rightarrow> storage_error + btreeNode" where
  "decodeInternal bs =
     and_then (get_u8 bs) (\<lambda>(cellType, r0).
     if cellType \<noteq> 0 then Inl (WrongNodeType WantInternal) else
     and_then (get_u64 r0) (\<lambda>(fo, r1).
     and_then (get_u64 r1) (\<lambda>(lsn, r2).
     and_then (get_u64 r2) (\<lambda>(ro, r3).
     and_then (get_body get_internal_cell r3) (\<lambda>(offs, free, cells).
       Inr (zero_node\<lparr>fileOffset := fo, lastLSN := lsn, rightOffset := ro, offsets := offs, freeSize := free,
              internalCells := cells\<rparr>))))))"

text \<open>The dispatch of \<open>fileStore.fetch\<close> on the first byte, then \<open>decode\<close>.\<close>

definition decode_node :: "byte list \<Rightarrow> storage_error + btreeNode" where
  "decode_node bs = (if hd bs = 1 then decodeLeaf bs else if hd bs = 0 then decodeInternal bs else Inl Panic)"

section \<open>Round trip of a page\<close>

interpretation internal_cell: codec put_internal_cell get_internal_cell "\<lambda>_. True"
  by unfold_locales (simp add: put_internal_cell_def get_internal_cell_def codec_simps)

interpretation leaf_cell: codec put_leaf_cell get_leaf_cell "\<lambda>c. length (lc_valueBytes c) = unat (lc_valueSize c)"
  by unfold_locales (simp add: put_leaf_cell_def get_leaf_cell_def codec_simps)

text \<open>The offset array lists the first cells of the node once each; cells behind them are leftovers of
  a split.\<close>

definition packed :: "16 word list \<Rightarrow> 'c option list \<Rightarrow> bool" where
  "packed offs cells \<longleftrightarrow> mset (map unat offs) = mset [0..<length offs] \<and> length offs \<le> length cells
     \<and> None \<notin> set (take (length offs) cells)"

lemma packed_facts:
  assumes "packed offs cells"
  shows "unat ` set offs = {..<length offs}" "length offs \<le> length cells"
    "o1 \<in> set offs \<Longrightarrow> unat o1 < length offs"
    "o1 \<in> set offs \<Longrightarrow> cell_at cells (unat o1) = Inr (the (cells ! unat o1))"
    "o1 \<in> set offs \<Longrightarrow> cells ! unat o1 = Some (the (cells ! unat o1))"
    "o1 \<in> set offs \<Longrightarrow> cells ! unat o1 \<in> set (take (length offs) cells)"
proof -
  have m: "mset (map unat offs) = mset [0..<length offs]" and n: "None \<notin> set (take (length offs) cells)"
    using assms by (simp_all add: packed_def)
  show s: "unat ` set offs = {..<length offs}"
    using arg_cong[OF m, of set_mset] by (simp add: lessThan_atLeast0)
  show len: "length offs \<le> length cells" using assms by (simp add: packed_def)
  show l: "o1 \<in> set offs \<Longrightarrow> unat o1 < length offs" using s by auto
  show t: "o1 \<in> set offs \<Longrightarrow> cells ! unat o1 \<in> set (take (length offs) cells)"
    using l len by (metis length_take min.absorb2 nth_mem nth_take)
  show c: "o1 \<in> set offs \<Longrightarrow> cells ! unat o1 = Some (the (cells ! unat o1))"
    using t n by (metis option.collapse)
  show "o1 \<in> set offs \<Longrightarrow> cell_at cells (unat o1) = Inr (the (cells ! unat o1))"
    using l len c by (auto simp: cell_at_def split: option.split)
qed

lemma read_cells_foldl:
  assumes "codec put get ok"
  shows "length cs = length offs \<Longrightarrow> \<forall>c \<in> set cs. ok c \<Longrightarrow> \<forall>o1 \<in> set offs. unat o1 < length cells \<Longrightarrow>
    read_cells get offs cells (concat (map put cs) @ rest)
      = Inr (foldl (\<lambda>a (o1, c). a[unat o1 := Some c]) cells (zip offs cs))"
proof (induction offs arbitrary: cells cs)
  case (Cons o1 offs)
  then obtain c cs' where "cs = c # cs'" by (cases cs) auto
  with Cons show ?case by (simp add: codec.dec_enc[OF assms])
qed simp

lemma length_foldl_place [simp]: "length (foldl (\<lambda>a k. a[k := g k]) cells ks) = length cells"
  by (induction ks rule: rev_induct) simp_all

lemma foldl_place:
  "i < length cells \<Longrightarrow> foldl (\<lambda>a k. a[k := g k]) cells ks ! i = (if i \<in> set ks then g i else cells ! i)"
proof (induction ks rule: rev_induct)
  case (snoc k ks)
  then show ?case by (cases "k = i") auto
qed simp

lemma place_packed:
  assumes "packed offs cells"
  shows "foldl (\<lambda>a (o1, c). a[unat o1 := Some c]) (replicate (length offs) None)
           (zip offs (map (\<lambda>o1. the (cells ! unat o1)) offs)) = take (length offs) cells"
proof -
  note p = packed_facts[OF assms]
  let ?init = "replicate (length offs) None"
  have fold: "foldl (\<lambda>a (o1, c). a[unat o1 := Some c]) a (zip os (map (\<lambda>o1. the (cells ! unat o1)) os))
      = foldl (\<lambda>a k. a[k := cells ! k]) a (map unat os)" if "set os \<subseteq> set offs" for a os
    using that
  proof (induction os arbitrary: a)
    case (Cons o1 os)
    then show ?case using p(5)[of o1] by simp
  qed simp
  have "foldl (\<lambda>a k. a[k := cells ! k]) ?init (map unat offs) = take (length offs) cells"
    by (rule nth_equalityI) (use p(1,2) in \<open>auto simp: foldl_place\<close>)
  with fold[of offs ?init] show ?thesis by simp
qed

text \<open>The stored cells in offset order.\<close>

abbreviation cells_of :: "16 word list \<Rightarrow> 'c option list \<Rightarrow> 'c list" where
  "cells_of offs cells \<equiv> map (\<lambda>o1. the (cells ! unat o1)) offs"

lemma collect_packed:
  "packed offs cells \<Longrightarrow> collect_all (map (\<lambda>off. cell_at cells (unat off)) offs) = Inr (cells_of offs cells)"
  by (rule collect_all_map) (rule packed_facts(4))

lemma packed_small: "packed offs cells \<Longrightarrow> length offs \<le> 2 ^ 16"
proof -
  assume p: "packed offs cells"
  have "{..<length offs} \<subseteq> {..<2 ^ 16}"
    using packed_facts(1)[OF p, symmetric] by (auto intro: less_le_trans[OF unsigned_less])
  then show ?thesis by (simp only: lessThan_subset_iff)
qed

lemma get_body_round:
  assumes "codec put get ok" and "packed offs cells" and "\<forall>c \<in> set (take (length offs) cells). ok (the c)"
  shows "get_body get (put_u32 (word_of_nat (length offs)) @ concat (map put_u16 offs) @ put_u16 free
      @ replicate (unat free) 0 @ concat (map put (cells_of offs cells))) = Inr (offs, free, take (length offs) cells)"
proof -
  note p = packed_facts[OF assms(2)]
  have n: "unat (word_of_nat (length offs) :: 32 word) = length offs"
    using packed_small[OF assms(2)] by (simp add: unat_of_nat)
  let ?footer = "concat (map put (cells_of offs cells))"
  have "\<forall>c \<in> set (cells_of offs cells). ok c" using assms(3) p(6) by auto
  then have r: "read_cells get offs (replicate (length offs) None) ?footer = Inr (take (length offs) cells)"
    using read_cells_foldl[OF assms(1), of "cells_of offs cells" offs "replicate (length offs) None" "[]"] p(3)
    by (simp add: place_packed[OF assms(2)])
  have m: "get_many get_u16 (length offs) (concat (map put_u16 offs) @ r) = Inr (offs, r)" for r
    by (rule u16.dec_many) simp
  show ?thesis
    unfolding get_body_def using r by (simp only: u32.dec_enc u16.dec_enc and_then_simps prod.case n m) simp
qed

lemma finish_page_ok:
  assumes "length buf + length footer + 2 \<le> pageSize"
  obtains free where "finish_page buf footer = Inr (buf @ put_u16 free @ replicate (unat free) 0 @ footer)"
    "unat free = pageSize - length buf - length footer - 2"
    "length (buf @ put_u16 free @ replicate (unat free) 0 @ footer) = pageSize"
proof -
  let ?k = "pageSize - length buf - length footer - 2"
  let ?free = "word_of_int (int pageSize - int (length buf) - int (length footer) - 2) :: 16 word"
  have "int pageSize - int (length buf) - int (length footer) - 2 = int ?k" using assms by simp
  then have f: "?free = word_of_nat ?k" by (simp add: of_nat_diff)
  have "?k < 2 ^ 16" by (simp add: pageSize_def)
  then have "unat ?free = ?k" unfolding f by (simp add: unat_of_nat)
  with assms show ?thesis by (intro that[of ?free]) (simp_all add: finish_page_def Let_def)
qed

text \<open>Pages that fit: a leaf below the split threshold, an internal node below its own.\<close>

definition page_ok :: "btreeNode \<Rightarrow> bool" where
  "page_ok n \<longleftrightarrow>
     (if isLeaf n
      then packed (offsets n) (leafCells n) \<and> length (offsets n) \<le> maxLeafNodeCells
        \<and> (\<forall>c \<in> set (take (length (offsets n)) (leafCells n)). length (lc_valueBytes (the c)) = unat (lc_valueSize (the c))
             \<and> checkRowSizeLimit (lc_valueBytes (the c)))
      else packed (offsets n) (internalCells n) \<and> length (offsets n) \<le> maxInternalNodeCells)"

definition on_disk :: "btreeNode \<Rightarrow> btreeNode" where
  "on_disk n =
     (if isLeaf n then n\<lparr>dirty := False, leafCells := take (length (offsets n)) (leafCells n), internalCells := [], rightOffset := 0\<rparr>
      else n\<lparr>dirty := False, internalCells := take (length (offsets n)) (internalCells n), leafCells := [], hasLSib := False, hasRSib := False, lSibFileOffset := 0, rSibFileOffset := 0\<rparr>)"

lemma on_disk_leaf: "isLeaf n \<Longrightarrow> (on_disk n)\<lparr>offsets := offsets n, freeSize := free, leafCells := take (length (offsets n)) (leafCells n)\<rparr> = (on_disk n)\<lparr>freeSize := free\<rparr>"
  by (cases n) (simp add: on_disk_def)

lemma on_disk_internal: "\<not> isLeaf n \<Longrightarrow> (on_disk n)\<lparr>offsets := offsets n, freeSize := free, internalCells := take (length (offsets n)) (internalCells n)\<rparr> = (on_disk n)\<lparr>freeSize := free\<rparr>"
  by (cases n) (simp add: on_disk_def)

lemma length_concat_le: "(\<forall>x \<in> set xs. length (f x) \<le> k) \<Longrightarrow> length (concat (map f xs)) \<le> length xs * k"
  by (induction xs) auto

lemma length_concat_eq: "(\<forall>x \<in> set xs. length (f x) = k) \<Longrightarrow> length (concat (map f xs)) = length xs * k"
  by (induction xs) auto

lemma decode_leaf_page:
  assumes "get_body get_leaf_cell r = Inr (offs, free, cells)" and "isLeaf n"
  shows "decode_node (leaf_header n @ r) = Inr ((on_disk n)\<lparr>offsets := offs, freeSize := free, leafCells := cells\<rparr>)"
proof -
  have "hd (leaf_header n @ r) = 1" by (simp add: leaf_header_def put_u8_def)
  then have "decode_node (leaf_header n @ r) = decodeLeaf (leaf_header n @ r)" by (simp add: decode_node_def)
  also have "\<dots> = Inr (zero_node\<lparr>isLeaf := True, fileOffset := fileOffset n, lastLSN := lastLSN n,
      hasLSib := hasLSib n, hasRSib := hasRSib n, lSibFileOffset := lSibFileOffset n,
      rSibFileOffset := rSibFileOffset n, offsets := offs, freeSize := free, leafCells := cells\<rparr>)"
    by (simp add: decodeLeaf_def leaf_header_def codec_simps assms(1))
  finally show ?thesis using assms(2) by (cases n) (simp add: on_disk_def zero_node_def)
qed

lemma decode_internal_page:
  assumes "get_body get_internal_cell r = Inr (offs, free, cells)" and "\<not> isLeaf n"
  shows "decode_node (internal_header n @ r) = Inr ((on_disk n)\<lparr>offsets := offs, freeSize := free, internalCells := cells\<rparr>)"
proof -
  have "hd (internal_header n @ r) = 0" by (simp add: internal_header_def put_u8_def)
  then have "decode_node (internal_header n @ r) = decodeInternal (internal_header n @ r)" by (simp add: decode_node_def)
  also have "\<dots> = Inr (zero_node\<lparr>fileOffset := fileOffset n, lastLSN := lastLSN n, rightOffset := rightOffset n,
      offsets := offs, freeSize := free, internalCells := cells\<rparr>)"
    by (simp add: decodeInternal_def internal_header_def codec_simps assms(1))
  finally show ?thesis using assms(2) by (cases n) (simp add: on_disk_def zero_node_def)
qed

lemma encode_decode_node:
  assumes "page_ok n"
  shows "\<exists>page free. encode_node n = Inr page \<and> length page = pageSize
    \<and> decode_node page = Inr ((on_disk n)\<lparr>freeSize := free\<rparr>)"
proof (cases "isLeaf n")
  case True
  with assms have p: "packed (offsets n) (leafCells n)" and len: "length (offsets n) \<le> 9"
    and ok: "\<forall>c \<in> set (take (length (offsets n)) (leafCells n)). length (lc_valueBytes (the c)) = unat (lc_valueSize (the c))"
    and row: "\<forall>c \<in> set (take (length (offsets n)) (leafCells n)). length (lc_valueBytes (the c)) \<le> 400"
    by (auto simp: page_ok_def max_cells checkRowSizeLimit_def maxValueSize_def)
  let ?cells = "cells_of (offsets n) (leafCells n)"
  have "\<forall>c \<in> set ?cells. length (put_leaf_cell c) \<le> 409"
    using row packed_facts(6)[OF p] by (auto simp: put_leaf_cell_def)
  from length_concat_le[OF this] have "length (concat (map put_leaf_cell ?cells)) \<le> 9 * 409"
    using len by (simp add: order_trans[OF _ mult_le_mono1[OF len]])
  moreover have "length (leaf_header n @ put_offsets n) \<le> 39 + 18"
    using len length_concat_eq[of "offsets n" put_u16 2] by (simp add: leaf_header_def put_offsets_def)
  ultimately have fit: "length (leaf_header n @ put_offsets n) + length (concat (map put_leaf_cell ?cells)) + 2 \<le> pageSize"
    unfolding pageSize_def by linarith
  obtain free where f: "finish_page (leaf_header n @ put_offsets n) (concat (map put_leaf_cell ?cells))
      = Inr ((leaf_header n @ put_offsets n) @ put_u16 free @ replicate (unat free) 0 @ concat (map put_leaf_cell ?cells))"
      "length ((leaf_header n @ put_offsets n) @ put_u16 free @ replicate (unat free) 0 @ concat (map put_leaf_cell ?cells)) = pageSize"
    by (rule finish_page_ok[OF fit])
  note body = get_body_round[OF leaf_cell.codec_axioms p ok, of free]
  have "decode_node ((leaf_header n @ put_offsets n) @ put_u16 free @ replicate (unat free) 0 @ concat (map put_leaf_cell ?cells))
      = Inr ((on_disk n)\<lparr>freeSize := free\<rparr>)"
    using decode_leaf_page[OF body True] unfolding put_offsets_def append_assoc on_disk_leaf[OF True] .
  with True f show ?thesis by (auto simp: encode_node_def encodeLeaf_def collect_packed[OF p])
next
  case False
  with assms have p: "packed (offsets n) (internalCells n)" and len: "length (offsets n) \<le> 290"
    by (simp_all add: page_ok_def max_cells)
  let ?cells = "cells_of (offsets n) (internalCells n)"
  have "length (concat (map put_internal_cell ?cells)) \<le> 290 * 12"
    using len length_concat_eq[of ?cells put_internal_cell 12] by (simp add: put_internal_cell_def)
  moreover have "length (internal_header n @ put_offsets n) \<le> 29 + 580"
    using len length_concat_eq[of "offsets n" put_u16 2] by (simp add: internal_header_def put_offsets_def)
  ultimately have fit: "length (internal_header n @ put_offsets n) + length (concat (map put_internal_cell ?cells)) + 2 \<le> pageSize"
    unfolding pageSize_def by linarith
  obtain free where f: "finish_page (internal_header n @ put_offsets n) (concat (map put_internal_cell ?cells))
      = Inr ((internal_header n @ put_offsets n) @ put_u16 free @ replicate (unat free) 0 @ concat (map put_internal_cell ?cells))"
      "length ((internal_header n @ put_offsets n) @ put_u16 free @ replicate (unat free) 0 @ concat (map put_internal_cell ?cells)) = pageSize"
    by (rule finish_page_ok[OF fit])
  have "\<forall>c \<in> set (take (length (offsets n)) (internalCells n)). True" by simp
  note body = get_body_round[OF internal_cell.codec_axioms p this, of free]
  have "decode_node ((internal_header n @ put_offsets n) @ put_u16 free @ replicate (unat free) 0 @ concat (map put_internal_cell ?cells))
      = Inr ((on_disk n)\<lparr>freeSize := free\<rparr>)"
    using decode_internal_page[OF body False] unfolding put_offsets_def append_assoc on_disk_internal[OF False] .
  with False f show ?thesis by (auto simp: encode_node_def encodeInternal_def collect_packed[OF p])
qed

section \<open>Searching and inserting\<close>

text \<open>Every offset of the node points at a cell.\<close>

definition readable :: "16 word list \<Rightarrow> 'c option list \<Rightarrow> bool" where
  "readable offs cells \<longleftrightarrow> (\<forall>o1 \<in> set offs. unat o1 < length cells \<and> cells ! unat o1 \<noteq> None)"

definition readable_node :: "btreeNode \<Rightarrow> bool" where
  "readable_node n \<longleftrightarrow> (if isLeaf n then readable (offsets n) (leafCells n) else readable (offsets n) (internalCells n))"

definition node_keys :: "btreeNode \<Rightarrow> 32 word list" where
  "node_keys n = (if isLeaf n then map lc_key (cells_of (offsets n) (leafCells n))
                  else map ic_key (cells_of (offsets n) (internalCells n)))"

text \<open>The rows of a leaf in key order: key, deletion mark, value.\<close>

definition leaf_rows :: "btreeNode \<Rightarrow> (32 word \<times> bool \<times> byte list) list" where
  "leaf_rows n = map (\<lambda>c. (lc_key c, lc_deleted c, lc_valueBytes c)) (cells_of (offsets n) (leafCells n))"

lemma length_node_keys [simp]: "length (node_keys n) = length (offsets n)"
  by (simp add: node_keys_def)

lemma readable_cell: "readable offs cells \<Longrightarrow> o1 \<in> set offs \<Longrightarrow> cell_at cells (unat o1) = Inr (the (cells ! unat o1))"
  by (auto simp: readable_def cell_at_def split: option.split)

lemma packed_readable: "packed offs cells \<Longrightarrow> readable offs cells"
  using packed_facts(2,3,5) unfolding readable_def by (metis less_le_trans option.distinct(1))

lemma cellKey_nth:
  assumes "readable_node n" and "i < length (offsets n)"
  shows "cellKey n (offsets n ! i) = Inr (node_keys n ! i)"
  using assms by (auto simp: cellKey_def node_keys_def readable_node_def readable_cell)

lemma keys_rows: "isLeaf n \<Longrightarrow> node_keys n = map fst (leaf_rows n)"
  by (simp add: node_keys_def leaf_rows_def comp_def)

lemma cells_of_take: "packed offs cells \<Longrightarrow> cells_of offs (take (length offs) cells) = cells_of offs cells"
  using packed_facts(3) by fastforce

lemma on_disk_contents:
  assumes "page_ok n"
  shows "node_keys ((on_disk n)\<lparr>freeSize := free\<rparr>) = node_keys n"
    and "isLeaf n \<Longrightarrow> leaf_rows ((on_disk n)\<lparr>freeSize := free\<rparr>) = leaf_rows n"
  using assms cells_of_take[of "offsets n" "leafCells n"] cells_of_take[of "offsets n" "internalCells n"]
  by (auto simp: node_keys_def leaf_rows_def on_disk_def page_ok_def simp del: map_map map_eq_conv)


lemma search_cells_correct:
  assumes "readable_node n" and "sorted_wrt (<) (node_keys n)"
    and "0 \<le> low" and "high < int (length (offsets n))" and "low \<le> high + 1"
    and "\<forall>j. int j < low \<longrightarrow> node_keys n ! j < key"
    and "\<forall>j. high < int j \<and> j < length (offsets n) \<longrightarrow> key < node_keys n ! j"
  shows "\<exists>i. search_cells n key low high = Inr (i, key \<in> set (node_keys n)) \<and> i \<le> length (offsets n)
    \<and> (\<forall>j < i. node_keys n ! j < key) \<and> (\<forall>j. i \<le> j \<and> j < length (offsets n) \<longrightarrow> key \<le> node_keys n ! j)"
  using assms(3-7)
proof (induction "nat (high - low + 1)" arbitrary: low high rule: less_induct)
  case less
  let ?keys = "node_keys n" and ?len = "length (offsets n)"
  have mono: "a < b \<Longrightarrow> b < ?len \<Longrightarrow> ?keys ! a < ?keys ! b" for a b
    using sorted_wrt_nth_less[OF assms(2)] by simp
  show ?case
  proof (cases "low > high")
    case True
    with less.prems have h: "high = low - 1" by simp
    have below: "\<forall>j < nat low. ?keys ! j < key" using less.prems(4) by (simp add: zless_nat_eq_int_zless)
    have above: "\<forall>j. nat low \<le> j \<and> j < ?len \<longrightarrow> key < ?keys ! j"
      using less.prems(5) h by (simp add: nat_le_iff)
    have "key \<notin> set ?keys"
    proof
      assume "key \<in> set ?keys"
      then obtain j where "j < ?len" "?keys ! j = key" by (auto simp: in_set_conv_nth)
      with below above show False by (metis less_irrefl linorder_not_less)
    qed
    moreover have "search_cells n key low high = Inr (nat low, False)"
      using True by (subst search_cells.simps) simp
    ultimately show ?thesis
      using below above h less.prems(1,2) by (intro exI[of _ "nat low"]) (auto simp: less_imp_le)
  next
    case False
    define mid where "mid = low + (high - low) div 2"
    have m: "low \<le> mid" "mid \<le> high" "0 \<le> mid" "nat mid < ?len" "int (nat mid) = mid"
      using False less.prems(1,2) by (auto simp: mid_def)
    have step: "search_cells n key low high =
        (if ?keys ! nat mid = key then Inr (nat mid, True)
         else if ?keys ! nat mid < key then search_cells n key (mid + 1) high
         else search_cells n key low (mid - 1))"
      using False cellKey_nth[OF assms(1) m(4)] by (subst search_cells.simps) (simp add: mid_def Let_def)
    consider "?keys ! nat mid = key" | "?keys ! nat mid < key" | "key < ?keys ! nat mid" by (rule linorder_cases)
    then show ?thesis
    proof cases
      case 1
      then have "key \<in> set ?keys" using m(4) by (metis length_node_keys nth_mem)
      moreover have "\<forall>j < nat mid. ?keys ! j < key" using 1 mono m(4) by blast
      moreover have "\<forall>j. nat mid \<le> j \<and> j < ?len \<longrightarrow> key \<le> ?keys ! j"
        using 1 mono by (metis le_neq_implies_less order.strict_implies_order order_refl)
      ultimately show ?thesis using 1 m(4) step by (intro exI[of _ "nat mid"]) simp
    next
      case 2
      have "\<forall>j. int j < mid + 1 \<longrightarrow> ?keys ! j < key"
      proof (intro allI impI)
        fix j assume "int j < mid + 1"
        then have "j < nat mid \<or> j = nat mid" using m(3) by linarith
        then show "?keys ! j < key" using 2 mono m(4) by (auto intro: less_trans)
      qed
      with less.prems(1,2,5) m have "\<exists>i. search_cells n key (mid + 1) high = Inr (i, key \<in> set ?keys) \<and> i \<le> ?len
          \<and> (\<forall>j < i. ?keys ! j < key) \<and> (\<forall>j. i \<le> j \<and> j < ?len \<longrightarrow> key \<le> ?keys ! j)"
        by (intro less.hyps) auto
      with step 2 show ?thesis by auto
    next
      case 3
      have "\<forall>j. mid - 1 < int j \<and> j < ?len \<longrightarrow> key < ?keys ! j"
      proof (intro allI impI)
        fix j assume j: "mid - 1 < int j \<and> j < ?len"
        then have "nat mid < j \<or> j = nat mid" by linarith
        then show "key < ?keys ! j" using 3 mono j by (auto intro: less_trans)
      qed
      with less.prems(1,2,4) m have "\<exists>i. search_cells n key low (mid - 1) = Inr (i, key \<in> set ?keys) \<and> i \<le> ?len
          \<and> (\<forall>j < i. ?keys ! j < key) \<and> (\<forall>j. i \<le> j \<and> j < ?len \<longrightarrow> key \<le> ?keys ! j)"
        by (intro less.hyps) auto
      with step 3 show ?thesis by auto
    qed
  qed
qed

lemma find_cell_split:
  assumes "readable_node n" and "sorted_wrt (<) (node_keys n)"
  obtains i where "findCellOffsetByKey key n = Inr (i, key \<in> set (node_keys n))" "i \<le> length (offsets n)"
    "\<forall>j < i. node_keys n ! j < key" "\<forall>j. i \<le> j \<and> j < length (offsets n) \<longrightarrow> key \<le> node_keys n ! j"
proof -
  have "\<exists>i. search_cells n key 0 (int (length (offsets n)) - 1) = Inr (i, key \<in> set (node_keys n)) \<and> i \<le> length (offsets n)
    \<and> (\<forall>j < i. node_keys n ! j < key) \<and> (\<forall>j. i \<le> j \<and> j < length (offsets n) \<longrightarrow> key \<le> node_keys n ! j)"
    by (rule search_cells_correct[OF assms]) auto
  with that show ?thesis unfolding findCellOffsetByKey_def by blast
qed

text \<open>
  C25.  Binary search is correct on every node: on a node whose offsets point at cells in ascending key
  order, \<open>findCellOffsetByKey\<close> ends without a panic, says whether the key is there, and returns the
  position that splits the keys into smaller ones and the others.
\<close>
theorem find_cell_correct:
  assumes "readable_node n" and "sorted_wrt (<) (node_keys n)"
  shows "\<exists>i. findCellOffsetByKey key n = Inr (i, key \<in> set (node_keys n)) \<and> i \<le> length (offsets n)
    \<and> (\<forall>k \<in> set (take i (node_keys n)). k < key) \<and> (\<forall>k \<in> set (drop i (node_keys n)). key \<le> k)"
proof -
  obtain i where i: "findCellOffsetByKey key n = Inr (i, key \<in> set (node_keys n))" "i \<le> length (offsets n)"
    "\<forall>j < i. node_keys n ! j < key" "\<forall>j. i \<le> j \<and> j < length (offsets n) \<longrightarrow> key \<le> node_keys n ! j"
    by (rule find_cell_split[OF assms])
  have "\<forall>k \<in> set (take i (node_keys n)). k < key" using i(2,3) by (auto simp: in_set_conv_nth)
  moreover have "\<forall>k \<in> set (drop i (node_keys n)). key \<le> k" using i(4) by (auto simp: in_set_conv_nth)
  ultimately show ?thesis using i(1,2) by blast
qed

lemma readable_simps:
  "readable [] cells" "readable (a @ b) cells \<longleftrightarrow> readable a cells \<and> readable b cells"
  "readable (o1 # a) cells \<longleftrightarrow> unat o1 < length cells \<and> cells ! unat o1 \<noteq> None \<and> readable a cells"
  by (auto simp: readable_def)

lemma readable_take_drop: "readable offs cells \<Longrightarrow> readable (take i offs) cells" "readable offs cells \<Longrightarrow> readable (drop i offs) cells"
  by (auto simp: readable_def dest: in_set_takeD in_set_dropD)

lemma readable_snoc: "readable offs cells \<Longrightarrow> readable offs (cells @ [c])"
  by (auto simp: readable_def nth_append less_SucI)

lemma cells_of_snoc: "readable offs cells \<Longrightarrow> cells_of offs (cells @ [c]) = cells_of offs cells"
  by (auto simp: readable_def nth_append)

lemma insert_offset_readable:
  assumes "readable offs cells" and "length cells < 2 ^ 16"
  shows "readable (insert_offset i (word_of_nat (length cells)) offs) (cells @ [Some c])"
    and "cells_of (insert_offset i (word_of_nat (length cells)) offs) (cells @ [Some c])
      = take i (cells_of offs cells) @ c # drop i (cells_of offs cells)"
proof -
  have u: "unat (word_of_nat (length cells) :: 16 word) = length cells" using assms(2) by (simp add: unat_of_nat)
  note sub = readable_take_drop[OF assms(1), of i]
  show "readable (insert_offset i (word_of_nat (length cells)) offs) (cells @ [Some c])"
    using sub by (simp add: insert_offset_def readable_simps readable_snoc u)
  show "cells_of (insert_offset i (word_of_nat (length cells)) offs) (cells @ [Some c])
      = take i (cells_of offs cells) @ c # drop i (cells_of offs cells)"
    using cells_of_snoc[OF sub(1)] cells_of_snoc[OF sub(2)]
    by (simp add: insert_offset_def u take_map drop_map)
qed

lemma insertLeafCell_rows:
  assumes "readable (offsets n) (leafCells n)" and "length (leafCells n) < 2 ^ 16" and "i \<le> length (offsets n)"
    and "checkRowSizeLimit v"
  obtains n' where "insertLeafCell i key v n = Inr n'" "readable (offsets n') (leafCells n')"
    "leaf_rows n' = take i (leaf_rows n) @ (key, False, v) # drop i (leaf_rows n)"
    "n' = n\<lparr>offsets := offsets n', leafCells := leafCells n'\<rparr>" "length (leafCells n') = Suc (length (leafCells n))"
    "length (offsets n') = Suc (length (offsets n))"
proof
  let ?n = "n\<lparr>offsets := insert_offset i (word_of_nat (length (leafCells n))) (offsets n),
                  leafCells := leafCells n @ [Some (new_leaf_cell key v)]\<rparr> :: btreeNode"
  show "insertLeafCell i key v n = Inr ?n" using assms(3,4) by (simp add: insertLeafCell_def)
  show "leaf_rows ?n = take i (leaf_rows n) @ (key, False, v) # drop i (leaf_rows n)"
    using insert_offset_readable(2)[OF assms(1,2), where i = i and c = "new_leaf_cell key v"]
    by (simp add: leaf_rows_def new_leaf_cell_def take_map drop_map del: map_map)
qed (use insert_offset_readable(1)[OF assms(1,2), where i = i] assms(3) in \<open>simp_all add: insert_offset_def\<close>)

section \<open>Splitting\<close>

definition revived :: "32 word \<times> bool \<times> byte list \<Rightarrow> 32 word \<times> bool \<times> byte list" where
  "revived r = (fst r, False, snd (snd r))"

lemma foldl_appendLeafCell_frame:
  "\<exists>offs cells. foldl (\<lambda>p c. appendLeafCell (lc_key c) (lc_valueBytes c) p) p cs = p\<lparr>offsets := offs, leafCells := cells\<rparr>"
proof (induction cs rule: rev_induct)
  case Nil
  have "p = p\<lparr>offsets := offsets p, leafCells := leafCells p\<rparr>" by simp
  then show ?case by (metis foldl_Nil)
next
  case (snoc c cs)
  then obtain offs cells where e: "foldl (\<lambda>p c. appendLeafCell (lc_key c) (lc_valueBytes c) p) p cs
      = p\<lparr>offsets := offs, leafCells := cells\<rparr>" by blast
  show ?case
    by (rule exI[of _ "offs @ [word_of_nat (length offs)]"],
        rule exI[of _ "cells @ [Some (new_leaf_cell (lc_key c) (lc_valueBytes c))]"])
      (unfold foldl_append foldl.simps e, simp add: appendLeafCell_def)
qed

lemma foldl_appendLeafCell:
  assumes "readable (offsets p) (leafCells p)" and "length (offsets p) = length (leafCells p)"
    and "length (leafCells p) + length cs < 2 ^ 16"
  shows "let p' = foldl (\<lambda>p c. appendLeafCell (lc_key c) (lc_valueBytes c) p) p cs
    in readable (offsets p') (leafCells p') \<and> length (offsets p') = length (leafCells p')
     \<and> length (offsets p') = length (offsets p) + length cs
     \<and> leaf_rows p' = leaf_rows p @ map (\<lambda>c. (lc_key c, False, lc_valueBytes c)) cs"
  using assms
proof (induction cs arbitrary: p)
  case (Cons c cs)
  let ?q = "appendLeafCell (lc_key c) (lc_valueBytes c) p"
  have u: "unat (word_of_nat (length (leafCells p)) :: 16 word) = length (leafCells p)"
    using Cons.prems(3) by (simp add: unat_of_nat)
  have q: "readable (offsets ?q) (leafCells ?q)" "length (offsets ?q) = length (leafCells ?q)"
    using Cons.prems(1,2) by (simp_all add: appendLeafCell_def readable_simps readable_snoc u)
  have "cells_of (offsets ?q) (leafCells ?q) = cells_of (offsets p) (leafCells p) @ [new_leaf_cell (lc_key c) (lc_valueBytes c)]"
    using Cons.prems(2) cells_of_snoc[OF Cons.prems(1)] by (simp add: appendLeafCell_def u)
  then have rows: "leaf_rows ?q = leaf_rows p @ [(lc_key c, False, lc_valueBytes c)]"
    by (simp add: leaf_rows_def new_leaf_cell_def del: map_map)
  have l: "length (leafCells ?q) = Suc (length (leafCells p))" by (simp add: appendLeafCell_def)
  from Cons.IH[of ?q] q rows l Cons.prems(2,3) show ?case by (auto simp: Let_def)
qed simp

text \<open>A split moves the upper half of the rows to the new page, as live rows.\<close>

lemma split_leaf_rows:
  assumes "readable (offsets n) (leafCells n)" and "length (offsets n) < 2 ^ 16" and "offsets n \<noteq> []"
    and "isLeaf p" and "offsets p = []" and "leafCells p = []"
  obtains n' p' where "split_leaf n p = Inr (fst (leaf_rows n ! (length (offsets n) div 2)), n', p')"
    "n' = n\<lparr>offsets := take (length (offsets n) div 2) (offsets n)\<rparr>"
    "leaf_rows n' = take (length (offsets n) div 2) (leaf_rows n)"
    "leaf_rows p' = map revived (drop (length (offsets n) div 2) (leaf_rows n))"
    "readable (offsets p') (leafCells p')" "length (offsets p') = length (leafCells p')"
    "p' = p\<lparr>offsets := offsets p', leafCells := leafCells p'\<rparr>"
proof -
  let ?mid = "length (offsets n) div 2"
  let ?moved = "cells_of (drop ?mid (offsets n)) (leafCells n)"
  let ?p' = "foldl (\<lambda>p c. appendLeafCell (lc_key c) (lc_valueBytes c) p) p ?moved"
  have c: "collect_all (map (\<lambda>off. cell_at (leafCells n) (unat off)) (drop ?mid (offsets n))) = Inr ?moved"
    by (rule collect_all_map) (rule readable_cell[OF readable_take_drop(2)[OF assms(1)]])
  have pre: "readable (offsets p) (leafCells p)" "length (offsets p) = length (leafCells p)"
    "length (leafCells p) + length ?moved < 2 ^ 16"
    using assms(2,5,6) by (simp_all add: readable_simps)
  have p': "readable (offsets ?p') (leafCells ?p')" "length (offsets ?p') = length (leafCells ?p')"
    "length (offsets ?p') = length ?moved" "leaf_rows ?p' = map revived (drop ?mid (leaf_rows n))"
    using foldl_appendLeafCell[OF pre] assms(5)
    by (simp_all add: Let_def leaf_rows_def drop_map revived_def)
  have frame: "?p' = p\<lparr>offsets := offsets ?p', leafCells := leafCells ?p'\<rparr>"
    using foldl_appendLeafCell_frame[of p ?moved] by auto
  have ne: "offsets ?p' \<noteq> []" using p'(3) assms(3) by (cases "offsets n") (auto simp: Let_def)
  then have hd: "cell_at (leafCells ?p') (unat (hd (offsets ?p'))) = Inr (the (leafCells ?p' ! unat (hd (offsets ?p'))))"
    using p'(1) by (intro readable_cell) auto
  have "lc_key (the (leafCells ?p' ! unat (hd (offsets ?p')))) = fst (hd (leaf_rows ?p'))"
    using ne by (simp add: leaf_rows_def hd_map)
  also have "\<dots> = fst (leaf_rows n ! ?mid)"
  proof -
    have "?mid < length (leaf_rows n)" using assms(3) by (cases "offsets n") (simp_all add: leaf_rows_def)
    then show ?thesis unfolding p'(4) by (simp add: hd_map revived_def hd_drop_conv_nth)
  qed
  finally have "split_leaf n p = Inr (fst (leaf_rows n ! ?mid), n\<lparr>offsets := take ?mid (offsets n)\<rparr>, ?p')"
    using c ne hd by (simp add: split_leaf_def Let_def)
  then show ?thesis
    by (rule that) (use p' frame in \<open>simp_all add: leaf_rows_def take_map\<close>)
qed

text \<open>
  A split keeps every row but forgets deletions: splitting a leaf leaves the lower half of the rows
  in place and moves the upper half, in order and with the separator key at its front, to the new page;
  but every moved row is live afterwards, so rows deleted before the split come back.
\<close>
theorem leaf_split_revives:
  assumes "isLeaf n" and "readable (offsets n) (leafCells n)" and "offsets n \<noteq> []" and "length (offsets n) < 2 ^ 16"
  shows "\<exists>key n' p'. split_node n (zero_node\<lparr>isLeaf := True\<rparr>) = Inr (key, n', p')
    \<and> leaf_rows n' = take (length (offsets n) div 2) (leaf_rows n)
    \<and> leaf_rows p' = map revived (drop (length (offsets n) div 2) (leaf_rows n))
    \<and> key = fst (hd (leaf_rows p'))
    \<and> (\<forall>r \<in> set (leaf_rows p'). \<not> fst (snd r))"
proof -
  obtain n' p' where *: "split_leaf n (zero_node\<lparr>isLeaf := True\<rparr>) = Inr (fst (leaf_rows n ! (length (offsets n) div 2)), n', p')"
    "leaf_rows n' = take (length (offsets n) div 2) (leaf_rows n)"
    "leaf_rows p' = map revived (drop (length (offsets n) div 2) (leaf_rows n))"
    by (rule split_leaf_rows[OF assms(2,4,3)]) (auto simp: zero_node_def)
  have "length (offsets n) div 2 < length (leaf_rows n)" using assms(3) by (cases "offsets n") (simp_all add: leaf_rows_def)
  then have "fst (leaf_rows n ! (length (offsets n) div 2)) = fst (hd (leaf_rows p'))"
    unfolding *(3) by (simp add: hd_map revived_def hd_drop_conv_nth)
  with * assms(1) show ?thesis by (auto simp: split_node_def revived_def)
qed

section \<open>Witnesses\<close>

text \<open>A leaf with two rows, the second one deleted.\<close>

definition two_rows :: btreeNode where
  "two_rows = zero_node\<lparr>isLeaf := True, offsets := [1, 0],
     leafCells := [Some ((new_leaf_cell 7 [1])\<lparr>lc_deleted := True\<rparr>), Some (new_leaf_cell 5 [2, 3])]\<rparr>"

lemma two_rows_facts:
  "isLeaf two_rows" "offsets two_rows = [1, 0]" "length (leafCells two_rows) = 2"
  "readable (offsets two_rows) (leafCells two_rows)" "node_keys two_rows = [5, 7]"
  "leaf_rows two_rows = [(5, False, [2, 3]), (7, True, [1])]" "page_ok two_rows"
  by (simp_all add: two_rows_def zero_node_def readable_def node_keys_def leaf_rows_def new_leaf_cell_def page_ok_def
    packed_def max_cells checkRowSizeLimit_def maxValueSize_def upt_rec)


lemma find_cell_correct_witness: "findCellOffsetByKey 7 two_rows = Inr (1, True)"
proof -
  have "readable_node two_rows" "sorted_wrt (<) (node_keys two_rows)" using two_rows_facts by (simp_all add: readable_node_def)
  from find_cell_correct[OF this, of 7] obtain i where i: "findCellOffsetByKey 7 two_rows = Inr (i, True)" "i \<le> 2"
    "\<forall>k \<in> set (take i [5, 7]). k < (7 :: 32 word)" "\<forall>k \<in> set (drop i [5, 7]). (7 :: 32 word) \<le> k"
    using two_rows_facts by auto
  from i(2) have "i = 0 \<or> i = 1 \<or> i = 2" by auto
  with i show ?thesis by auto
qed

lemma leaf_split_revives_witness:
  "\<exists>n' p'. split_node two_rows (zero_node\<lparr>isLeaf := True\<rparr>) = Inr (7, n', p')
    \<and> leaf_rows n' = [(5, False, [2, 3])] \<and> leaf_rows p' = [(7, False, [1])]"
  using leaf_split_revives[of two_rows] two_rows_facts by (auto simp: revived_def)

end
