(* ===== verification/Lru.thy ===== *)
theory Lru
  imports Prelude
begin

text \<open>
  The page cache (\<open>src/sql/storage/lru.go\<close>).  The linked list and the map that indexes its elements are
  one list of entries with distinct keys, most recently used first.  Whether a page has unsaved changes
  is asked of the page, so \<open>dirty\<close> is an argument.
\<close>

record ('k, 'v) lru_cache =
  lru_list :: "('k \<times> 'v) list"
  maxNodes :: nat

definition NewLRU :: "nat \<Rightarrow> ('k, 'v) lru_cache" where
  "NewLRU n = \<lparr>lru_list = [], maxNodes = n\<rparr>"

text \<open>The walk from the back to the first page without unsaved changes; the list is reversed.\<close>

fun remove_clean :: "('v \<Rightarrow> bool) \<Rightarrow> ('k \<times> 'v) list \<Rightarrow> ('k \<times> 'v) list option" where
  "remove_clean dirty [] = None"
| "remove_clean dirty (e # es) =
     (if \<not> dirty (snd e) then Some es else map_option (\<lambda>r. e # r) (remove_clean dirty es))"

definition evict :: "('v \<Rightarrow> bool) \<Rightarrow> ('k \<times> 'v) list \<Rightarrow> ('k \<times> 'v) list option" where
  "evict dirty es = map_option rev (remove_clean dirty (rev es))"

definition lru_set :: "('v \<Rightarrow> bool) \<Rightarrow> 'k \<Rightarrow> 'v \<Rightarrow> ('k, 'v) lru_cache \<Rightarrow> bool \<times> ('k, 'v) lru_cache" where
  "lru_set dirty key val c =
     (case map_of (lru_list c) key of
        Some _ \<Rightarrow> (True, c\<lparr>lru_list := (key, val) # filter (\<lambda>e. fst e \<noteq> key) (lru_list c)\<rparr>)
      | None \<Rightarrow>
          (if length (lru_list c) = maxNodes c
           then (case evict dirty (lru_list c) of
                   None \<Rightarrow> (False, c)
                 | Some es \<Rightarrow> (True, c\<lparr>lru_list := (key, val) # es\<rparr>))
           else (True, c\<lparr>lru_list := (key, val) # lru_list c\<rparr>)))"

definition lru_get :: "'k \<Rightarrow> ('k, 'v) lru_cache \<Rightarrow> 'v option \<times> ('k, 'v) lru_cache" where
  "lru_get key c =
     (case map_of (lru_list c) key of
        Some v \<Rightarrow> (Some v, c\<lparr>lru_list := (key, v) # filter (\<lambda>e. fst e \<noteq> key) (lru_list c)\<rparr>)
      | None \<Rightarrow> (None, c))"

section \<open>The cache never loses unsaved pages\<close>

definition lru_ok :: "('k, 'v) lru_cache \<Rightarrow> bool" where
  "lru_ok c \<longleftrightarrow> gm_wf (lru_list c) \<and> length (lru_list c) \<le> maxNodes c"

lemma lru_ok_new [simp]: "lru_ok (NewLRU n)"
  by (simp add: lru_ok_def NewLRU_def)

lemma remove_clean_split:
  "remove_clean dirty es = Some r \<Longrightarrow>
     \<exists>a e b. es = a @ e # b \<and> r = a @ b \<and> (\<forall>x \<in> set a. dirty (snd x)) \<and> \<not> dirty (snd e)"
proof (induction es arbitrary: r)
  case (Cons x es)
  show ?case
  proof (cases "dirty (snd x)")
    case True
    with Cons.prems obtain r' where r': "remove_clean dirty es = Some r'" "r = x # r'" by auto
    from Cons.IH[OF r'(1)] obtain a e b where "es = a @ e # b" "r' = a @ b"
      "\<forall>y \<in> set a. dirty (snd y)" "\<not> dirty (snd e)" by blast
    with True r'(2) show ?thesis by (intro exI[of _ "x # a"] exI[of _ e] exI[of _ b]) simp
  next
    case False
    with Cons.prems show ?thesis by (intro exI[of _ "[]"] exI[of _ x] exI[of _ es]) simp
  qed
qed simp

lemma remove_clean_None: "remove_clean dirty es = None \<longleftrightarrow> (\<forall>e \<in> set es. dirty (snd e))"
  by (induction es) auto

lemma evict_Some:
  assumes "evict dirty es = Some r"
  obtains a e b where "es = a @ e # b" "r = a @ b" "\<forall>x \<in> set b. dirty (snd x)" "\<not> dirty (snd e)"
proof -
  from assms obtain r' where r': "remove_clean dirty (rev es) = Some r'" "r = rev r'" by (auto simp: evict_def)
  then obtain a e b where *: "rev es = a @ e # b" "r' = a @ b" "\<forall>x \<in> set a. dirty (snd x)" "\<not> dirty (snd e)"
    using remove_clean_split[OF r'(1)] by blast
  then have "es = rev b @ e # rev a" by (metis append.assoc append_Cons append_Nil rev.simps(2) rev_append rev_rev_ident)
  with * r'(2) show ?thesis by (intro that[of "rev b" e "rev a"]) auto
qed

lemma evict_None: "evict dirty es = None \<longleftrightarrow> (\<forall>e \<in> set es. dirty (snd e))"
  by (simp add: evict_def remove_clean_None)

text \<open>A cache is a map with a bounded number of keys: what a lookup returns after each operation.\<close>

lemma map_of_without: "map_of (filter (\<lambda>e. fst e \<noteq> k) es) = (map_of es)(k := None)"
  by (induction es) (auto simp: fun_eq_iff)

lemma map_of_move: "map_of ((k, v) # filter (\<lambda>e. fst e \<noteq> k) es) = (map_of es)(k \<mapsto> v)"
  by (simp add: map_of_without)

lemma lru_get_lookup:
  assumes "lru_get key c = (r, c')"
  shows "r = map_of (lru_list c) key" "map_of (lru_list c') = map_of (lru_list c)" "maxNodes c' = maxNodes c"
    "lru_ok c \<Longrightarrow> lru_ok c'" "set (lru_list c') = set (lru_list c) \<or> \<not> gm_wf (lru_list c)"
proof -
  show "r = map_of (lru_list c) key" "maxNodes c' = maxNodes c"
    using assms by (auto simp: lru_get_def split: option.splits)
  show "map_of (lru_list c') = map_of (lru_list c)"
    using assms by (auto simp: lru_get_def map_of_without fun_eq_iff split: option.splits)
  show "lru_ok c \<Longrightarrow> lru_ok c'"
  proof -
    assume ok: "lru_ok c"
    show ?thesis
    proof (cases "map_of (lru_list c) key")
      case (Some v)
      then have "(key, v) \<in> set (lru_list c)" by (rule map_of_SomeD)
      then have "length (filter (\<lambda>e. fst e \<noteq> key) (lru_list c)) < length (lru_list c)"
        by (intro length_filter_less[of "(key, v)"]) auto
      moreover have "c' = c\<lparr>lru_list := (key, v) # filter (\<lambda>e. fst e \<noteq> key) (lru_list c)\<rparr>"
        using assms Some by (simp add: lru_get_def)
      ultimately show ?thesis using ok by (auto simp: lru_ok_def distinct_map_filter)
    qed (use assms ok in \<open>simp add: lru_get_def\<close>)
  qed
  show "set (lru_list c') = set (lru_list c) \<or> \<not> gm_wf (lru_list c)"
    using assms by (auto simp: lru_get_def dest: map_of_SomeD map_of_is_SomeI split: option.splits)
qed

text \<open>
  C26.  The cache never loses an unsaved page: storing a page either fails, leaving the cache unchanged,
  which happens exactly when the cache is full of other pages that all have unsaved changes, or makes
  the page readable under its key within the size bound, keeping every other page except possibly one,
  a saved page that was used less recently than every other saved page.
\<close>
theorem lru_never_loses_dirty:
  assumes "lru_ok c" and "0 < maxNodes c" and "lru_set dirty key val c = (ok, c')"
  shows "(\<not> ok \<longleftrightarrow> map_of (lru_list c) key = None \<and> length (lru_list c) = maxNodes c
           \<and> (\<forall>e \<in> set (lru_list c). dirty (snd e)))
    \<and> (\<not> ok \<longrightarrow> c' = c) \<and> lru_ok c' \<and> maxNodes c' = maxNodes c
    \<and> (ok \<longrightarrow> map_of (lru_list c') key = Some val
        \<and> (map_of (lru_list c') = (map_of (lru_list c))(key \<mapsto> val)
           \<or> (\<exists>old a b. lru_list c = a @ old # b \<and> \<not> dirty (snd old) \<and> (\<forall>e \<in> set b. dirty (snd e))
                \<and> map_of (lru_list c') = (map_of (lru_list c))(fst old := None, key \<mapsto> val))))"
proof (cases "map_of (lru_list c) key")
  case (Some v)
  then have c': "ok" "c' = c\<lparr>lru_list := (key, val) # filter (\<lambda>e. fst e \<noteq> key) (lru_list c)\<rparr>"
    using assms(3) by (auto simp: lru_set_def)
  have "(key, v) \<in> set (lru_list c)" using Some by (rule map_of_SomeD)
  then have "length (filter (\<lambda>e. fst e \<noteq> key) (lru_list c)) < length (lru_list c)"
    by (intro length_filter_less[of "(key, v)"]) auto
  then have "lru_ok c'" using assms(1) c'(2) by (auto simp: lru_ok_def distinct_map_filter)
  with Some c' show ?thesis by (auto simp: map_of_without fun_eq_iff)
next
  case None
  then have new: "key \<notin> fst ` set (lru_list c)" by (simp add: map_of_eq_None_iff)
  show ?thesis
  proof (cases "length (lru_list c) = maxNodes c")
    case True
    show ?thesis
    proof (cases "evict dirty (lru_list c)")
      case no: None
      then have "lru_set dirty key val c = (False, c)" using None True by (simp add: lru_set_def)
      with no None True assms(1,3) show ?thesis by (simp add: evict_None)
    next
      case (Some es)
      then obtain a e b where s: "lru_list c = a @ e # b" "es = a @ b" "\<forall>x \<in> set b. dirty (snd x)" "\<not> dirty (snd e)"
        by (rule evict_Some)
      have c': "ok" "c' = c\<lparr>lru_list := (key, val) # es\<rparr>"
        using assms(3) None True Some by (auto simp: lru_set_def)
      have "lru_ok c'" using assms(1) c'(2) s(1,2) new by (auto simp: lru_ok_def)
      moreover have m: "map_of (lru_list c') = (map_of (lru_list c))(fst e := None, key \<mapsto> val)"
      proof -
        have "fst e \<notin> fst ` set a" "fst e \<notin> fst ` set b" using assms(1) s(1) by (auto simp: lru_ok_def)
        then have "map_of a (fst e) = None" "map_of b (fst e) = None" by (simp_all add: map_of_eq_None_iff)
        then have "map_of es = (map_of (lru_list c))(fst e := None)"
          unfolding s(1,2) by (cases e) (auto simp: fun_eq_iff map_add_def split: option.splits)
        with c'(2) show ?thesis by simp
      qed
      moreover have "\<exists>e \<in> set (lru_list c). \<not> dirty (snd e)" using s(1,4) by auto
      moreover have "\<exists>old a b. lru_list c = a @ old # b \<and> \<not> dirty (snd old) \<and> (\<forall>e \<in> set b. dirty (snd e))
          \<and> map_of (lru_list c') = (map_of (lru_list c))(fst old := None, key \<mapsto> val)"
        using s(1,3,4) m by blast
      moreover have "map_of (lru_list c') key = Some val" "maxNodes c' = maxNodes c" using c'(2) by simp_all
      ultimately show ?thesis using c'(1) by blast
    qed
  next
    case False
    then show ?thesis using None new assms(1,3) by (auto simp: lru_set_def lru_ok_def)
  qed
qed

text \<open>A full cache of two pages, the older one with unsaved changes: the newer one makes room.\<close>

lemma lru_never_loses_dirty_witness:
  defines "c \<equiv> \<lparr>lru_list = [(2, ''clean''), (1 :: nat, ''dirty'')], maxNodes = 2\<rparr>"
  shows "snd (lru_set (\<lambda>v. v = ''dirty'') 3 ''new'' c) = c\<lparr>lru_list := [(3, ''new''), (1, ''dirty'')]\<rparr>
    \<and> lru_ok (snd (lru_set (\<lambda>v. v = ''dirty'') 3 ''new'' c))"
proof -
  have "lru_ok c" "0 < maxNodes c" by (simp_all add: c_def lru_ok_def)
  from lru_never_loses_dirty[OF this, of "\<lambda>v. v = ''dirty''" 3 "''new''"]
  have "lru_ok (snd (lru_set (\<lambda>v. v = ''dirty'') 3 ''new'' c))"
    by (metis prod.collapse)
  then show ?thesis by (simp add: c_def lru_set_def evict_def)
qed

end
