(* ===== verification/FileStore.thy ===== *)
theory FileStore
  imports Page Lru
begin

text \<open>
  The page stores (\<open>src/sql/storage/page.go\<close>): the interface \<open>store\<close> of the B-tree, the in-memory store
  and the file store with its cache, its file and the flushing of changed pages.  Nodes are shared by
  pointer: a pointer is an index into the heap of the store, and a page held by the cache is a pointer.
  An operation maps the state to an error or a value, and the new state, which it keeps on errors.
\<close>

section \<open>Operations with state and errors\<close>

type_synonym ('s, 'a) action = "'s \<Rightarrow> (storage_error + 'a) \<times> 's"

definition ret :: "'a \<Rightarrow> ('s, 'a) action" where "ret x s = (Inr x, s)"
definition fail :: "storage_error \<Rightarrow> ('s, 'a) action" where "fail e s = (Inl e, s)"
definition lift :: "storage_error + 'a \<Rightarrow> ('s, 'a) action" where "lift r s = (r, s)"
definition gets :: "('s \<Rightarrow> 'a) \<Rightarrow> ('s, 'a) action" where "gets f s = (Inr (f s), s)"
definition modify :: "('s \<Rightarrow> 's) \<Rightarrow> ('s, unit) action" where "modify f s = (Inr (), f s)"

definition seq :: "('s, 'a) action \<Rightarrow> ('a \<Rightarrow> ('s, 'b) action) \<Rightarrow> ('s, 'b) action" where
  "seq m f s = (case m s of (Inl e, s') \<Rightarrow> (Inl e, s') | (Inr x, s') \<Rightarrow> f x s')"

named_theorems run "running one step of an operation"

lemma run_simps [run]:
  "ret x s = (Inr x, s)" "fail e s = (Inl e, s)" "lift r s = (r, s)" "gets f s = (Inr (f s), s)"
  "modify g s = (Inr (), g s)"
  by (simp_all add: ret_def fail_def lift_def gets_def modify_def)

lemma seq_Inr [run]: "m s = (Inr x, s') \<Longrightarrow> seq m f s = f x s'"
  by (simp add: seq_def)

lemma seq_Inl [run]: "m s = (Inl e, s') \<Longrightarrow> seq m f s = (Inl e, s')"
  by (simp add: seq_def)

section \<open>The interface of a store\<close>

text \<open>\<open>op_node\<close> and \<open>op_set\<close> read and write through a pointer, \<open>op_new\<close> is \<open>&btreeNode{...}\<close>.\<close>

record 's store_ops =
  op_node :: "nat \<Rightarrow> 's \<Rightarrow> btreeNode"
  op_set :: "nat \<Rightarrow> btreeNode \<Rightarrow> 's \<Rightarrow> 's"
  op_new :: "btreeNode \<Rightarrow> 's \<Rightarrow> nat \<times> 's"
  op_append :: "nat \<Rightarrow> ('s, unit) action"
  op_fetch :: "64 word \<Rightarrow> ('s, nat) action"
  op_getLastKey :: "'s \<Rightarrow> 32 word"
  op_nextLSN :: "'s \<Rightarrow> 64 word"
  op_incrLSN :: "'s \<Rightarrow> 's"
  op_incrementLastKey :: "'s \<Rightarrow> 's"

definition node_of :: "'s store_ops \<Rightarrow> nat \<Rightarrow> ('s, btreeNode) action" where
  "node_of S p = gets (op_node S p)"

definition change :: "'s store_ops \<Rightarrow> nat \<Rightarrow> (btreeNode \<Rightarrow> btreeNode) \<Rightarrow> ('s, unit) action" where
  "change S p f = modify (\<lambda>s. op_set S p (f (op_node S p s)) s)"

definition alloc :: "'s store_ops \<Rightarrow> btreeNode \<Rightarrow> ('s, nat) action" where
  "alloc S n s = (case op_new S n s of (p, s') \<Rightarrow> (Inr p, s'))"

section \<open>The in-memory store\<close>

record memory_store =
  ms_heap :: "btreeNode list"
  ms_pages :: "nat list"
  ms_lastKey :: "32 word"

definition ms_fetch :: "64 word \<Rightarrow> (memory_store, nat) action" where
  "ms_fetch off m =
     (if sint off \<ge> int (length (ms_pages m)) then (Inl PageMissing, m)
      else if sint off < 0 then (Inl Panic, m)
      else (Inr (ms_pages m ! unat off), m))"

definition ms_append :: "nat \<Rightarrow> (memory_store, unit) action" where
  "ms_append p m =
     (Inr (), m\<lparr>ms_heap := (ms_heap m)[p := setFileOffset (word_of_nat (length (ms_pages m))) (ms_heap m ! p)],
                ms_pages := ms_pages m @ [p]\<rparr>)"

definition memoryStore :: "memory_store store_ops" where
  "memoryStore =
     \<lparr>op_node = (\<lambda>p m. ms_heap m ! p),
      op_set = (\<lambda>p n m. m\<lparr>ms_heap := (ms_heap m)[p := n]\<rparr>),
      op_new = (\<lambda>n m. (length (ms_heap m), m\<lparr>ms_heap := ms_heap m @ [n]\<rparr>)),
      op_append = ms_append,
      op_fetch = ms_fetch,
      op_getLastKey = ms_lastKey,
      op_nextLSN = (\<lambda>m. 0),
      op_incrLSN = (\<lambda>m. m),
      op_incrementLastKey = (\<lambda>m. m\<lparr>ms_lastKey := ms_lastKey m + 1\<rparr>)\<rparr>"

section \<open>The file store\<close>

record file_store =
  fs_nextLSN :: "64 word"
  fs_cache :: "(64 word, nat) lru_cache"
  fs_heap :: "btreeNode list"
  fs_file :: "byte list"
  fs_lastKey :: "32 word"
  fs_nextFreeOffset :: "64 word"
  fs_pageTableRoot :: "64 word"

text \<open>\<open>newFileStore\<close> on a file with the given content.\<close>

definition newFileStore :: "byte list \<Rightarrow> file_store" where
  "newFileStore content =
     \<lparr>fs_nextLSN = 0, fs_cache = NewLRU 10000, fs_heap = [], fs_file = content, fs_lastKey = 0,
      fs_nextFreeOffset = 0, fs_pageTableRoot = 0\<rparr>"

text \<open>\<open>WriteAt\<close> extends the file with zeros; \<open>ReadAt\<close> into a zeroed page ignores the end of the file.\<close>

definition write_at :: "nat \<Rightarrow> byte list \<Rightarrow> byte list \<Rightarrow> byte list" where
  "write_at off bs d =
     (let d' = d @ replicate (off - length d) 0 in take off d' @ bs @ drop (off + length bs) d')"

definition read_at :: "nat \<Rightarrow> nat \<Rightarrow> byte list \<Rightarrow> byte list" where
  "read_at off n d = take n (drop off d) @ replicate (n - (length d - off)) 0"

definition setCache :: "64 word \<Rightarrow> nat \<Rightarrow> (file_store, unit) action" where
  "setCache key p f =
     (case lru_set (\<lambda>q. dirty (fs_heap f ! q)) key p (fs_cache f) of
        (ok, c) \<Rightarrow> (if ok then Inr () else Inl CacheFull, f\<lparr>fs_cache := c\<rparr>))"

definition update_page :: "nat \<Rightarrow> (file_store, unit) action" where
  "update_page p f =
     (let n = fs_heap f ! p
      in case encode_node n of
           Inl e \<Rightarrow> (Inl e, f)
         | Inr page \<Rightarrow>
             (if sint (fileOffset n) < 0 then (Inl BadOffset, f)
              else setCache (fileOffset n) p (f\<lparr>fs_file := write_at (unat (fileOffset n)) page (fs_file f)\<rparr>)))"

definition append_page :: "nat \<Rightarrow> (file_store, unit) action" where
  "append_page p f =
     (let f1 = f\<lparr>fs_heap := (fs_heap f)[p := setFileOffset (fs_nextFreeOffset f) (fs_heap f ! p)]\<rparr>
      in case setCache (fs_nextFreeOffset f) p f1 of
           (Inl e, f2) \<Rightarrow> (Inl e, f2)
         | (Inr _, f2) \<Rightarrow> (Inr (), f2\<lparr>fs_nextFreeOffset := fs_nextFreeOffset f2 + word_of_nat pageSize\<rparr>))"

definition fetch_page :: "64 word \<Rightarrow> (file_store, nat) action" where
  "fetch_page off f =
     (case lru_get off (fs_cache f) of
        (Some p, c) \<Rightarrow> (Inr p, f\<lparr>fs_cache := c\<rparr>)
      | (None, _) \<Rightarrow>
          (if sint off < 0 then (Inl BadOffset, f)
           else case decode_node (read_at (unat off) pageSize (fs_file f)) of
             Inl e \<Rightarrow> (Inl e, f)
           | Inr n \<Rightarrow>
               (let p = length (fs_heap f)
                in case setCache (fileOffset n) p (f\<lparr>fs_heap := fs_heap f @ [n]\<rparr>) of
                     (Inl e, f') \<Rightarrow> (Inl e, f') | (Inr _, f') \<Rightarrow> (Inr p, f'))))"

definition header_bytes :: "file_store \<Rightarrow> byte list" where
  "header_bytes f = put_u32 (fs_lastKey f) @ put_u64 (fs_pageTableRoot f) @ put_u64 (fs_nextFreeOffset f) @ put_u64 (fs_nextLSN f)"

definition save_header :: "file_store \<Rightarrow> file_store" where
  "save_header f = f\<lparr>fs_file := write_at 0 (header_bytes f) (fs_file f)\<rparr>"

definition open_store_file :: "(file_store, unit) action" where
  "open_store_file f =
     (case and_then (get_u32 (fs_file f)) (\<lambda>(k, r1).
           and_then (get_u64 r1) (\<lambda>(root, r2).
           and_then (get_u64 r2) (\<lambda>(next_free, r3).
           and_then (get_u64 r3) (\<lambda>(lsn, r4). Inr (k, root, next_free, lsn))))) of
        Inl e \<Rightarrow> (Inl e, f)
      | Inr (k, root, next_free, lsn) \<Rightarrow>
          (Inr (), f\<lparr>fs_lastKey := k, fs_pageTableRoot := root, fs_nextFreeOffset := next_free, fs_nextLSN := lsn\<rparr>))"

text \<open>\<open>flushPages\<close> visits the cached pages in the iteration order of the cache map, an argument.\<close>

fun flush_nodes :: "nat list \<Rightarrow> (file_store, unit) action" where
  "flush_nodes [] f = (Inr (), f)"
| "flush_nodes (p # ps) f =
     (if \<not> dirty (fs_heap f ! p) then flush_nodes ps f
      else case update_page p f of
        (Inl e, f1) \<Rightarrow> (Inl e, f1)
      | (Inr _, f1) \<Rightarrow> flush_nodes ps (f1\<lparr>fs_heap := (fs_heap f1)[p := markClean (fs_heap f1 ! p)]\<rparr>))"

definition flushPages :: "nat list \<Rightarrow> (file_store, unit) action" where
  "flushPages order f =
     (case flush_nodes order f of (Inl e, f1) \<Rightarrow> (Inl e, f1) | (Inr _, f1) \<Rightarrow> (Inr (), save_header f1))"

definition setPageTableRoot :: "nat \<Rightarrow> file_store \<Rightarrow> file_store" where
  "setPageTableRoot p f = f\<lparr>fs_pageTableRoot := fileOffset (fs_heap f ! p)\<rparr>"

definition fileStore :: "file_store store_ops" where
  "fileStore =
     \<lparr>op_node = (\<lambda>p f. fs_heap f ! p),
      op_set = (\<lambda>p n f. f\<lparr>fs_heap := (fs_heap f)[p := n]\<rparr>),
      op_new = (\<lambda>n f. (length (fs_heap f), f\<lparr>fs_heap := fs_heap f @ [n]\<rparr>)),
      op_append = append_page,
      op_fetch = fetch_page,
      op_getLastKey = fs_lastKey,
      op_nextLSN = fs_nextLSN,
      op_incrLSN = (\<lambda>f. f\<lparr>fs_nextLSN := fs_nextLSN f + 1\<rparr>),
      op_incrementLastKey = (\<lambda>f. f\<lparr>fs_lastKey := fs_lastKey f + 1\<rparr>)\<rparr>"

section \<open>Reading what was written\<close>

definition byte_at :: "byte list \<Rightarrow> nat \<Rightarrow> byte" where
  "byte_at d i = (if i < length d then d ! i else 0)"

lemma read_at_bytes: "read_at off n d = map (byte_at d) [off..<off + n]"
  by (rule nth_equalityI) (auto simp: read_at_def byte_at_def nth_append)

lemma byte_at_write_at:
  "byte_at (write_at off bs d) i = (if off \<le> i \<and> i < off + length bs then bs ! (i - off) else byte_at d i)"
proof -
  define d' where "d' = d @ replicate (off - length d) 0"
  have w: "write_at off bs d = take off d' @ bs @ drop (off + length bs) d'" by (simp add: write_at_def d'_def Let_def)
  have l: "length (take off d') = off" by (simp add: d'_def)
  have b: "byte_at d' i = byte_at d i" for i by (simp add: d'_def byte_at_def nth_append)
  have "byte_at (write_at off bs d) i = (if off \<le> i \<and> i < off + length bs then bs ! (i - off) else byte_at d' i)"
    using l by (auto simp: w byte_at_def nth_append simp del: length_take)
  then show ?thesis by (simp add: b)
qed

lemma read_written: "length bs = n \<Longrightarrow> read_at off n (write_at off bs d) = bs"
  by (rule nth_equalityI) (auto simp: read_at_bytes byte_at_write_at)

lemma read_elsewhere:
  "off' + n \<le> off \<or> off + length bs \<le> off' \<Longrightarrow> read_at off' n (write_at off bs d) = read_at off' n d"
  by (auto simp: read_at_bytes byte_at_write_at)

lemma length_read_at [simp]: "length (read_at off n d) = n"
  by (simp add: read_at_bytes)

section \<open>Flushing\<close>

text \<open>Page positions: multiples of the page size behind the header page.\<close>

definition page_position :: "64 word \<Rightarrow> bool" where
  "page_position k \<longleftrightarrow> pageSize \<le> unat k \<and> unat k mod pageSize = 0 \<and> 0 \<le> sint k"

lemma page_positions_apart:
  assumes "page_position k" and "page_position k'" and "k \<noteq> k'"
  shows "unat k + pageSize \<le> unat k' \<or> unat k' + pageSize \<le> unat k"
proof -
  obtain a b where ab: "unat k = a * pageSize" "unat k' = b * pageSize"
    using assms(1,2) unfolding page_position_def by (metis dvd_div_mult_self mod_eq_0_iff_dvd)
  moreover have "a \<noteq> b" using assms(3) ab unsigned_word_eqI by metis
  ultimately consider "a + 1 \<le> b" | "b + 1 \<le> a" by linarith
  then show ?thesis
  proof cases
    case 1
    from mult_le_mono1[OF this, of pageSize] show ?thesis by (simp add: ab algebra_simps)
  next
    case 2
    from mult_le_mono1[OF this, of pageSize] show ?thesis by (simp add: ab algebra_simps)
  qed
qed

text \<open>The page is on disk: decoding it gives the node, up to the bookkeeping of the encoder.\<close>

definition stored_as :: "byte list \<Rightarrow> btreeNode \<Rightarrow> bool" where
  "stored_as d n \<longleftrightarrow> (\<exists>free. decode_node (read_at (unat (fileOffset n)) pageSize d) = Inr ((on_disk n)\<lparr>freeSize := free\<rparr>))"

definition fs_ok :: "file_store \<Rightarrow> bool" where
  "fs_ok f \<longleftrightarrow> lru_ok (fs_cache f) \<and> distinct (map snd (lru_list (fs_cache f))) \<and>
     (\<forall>(k, p) \<in> set (lru_list (fs_cache f)).
        p < length (fs_heap f) \<and> fileOffset (fs_heap f ! p) = k \<and> page_position k \<and> page_ok (fs_heap f ! p)
        \<and> (\<not> dirty (fs_heap f ! p) \<longrightarrow> stored_as (fs_file f) (fs_heap f ! p)))"

lemma fs_okD:
  assumes "fs_ok f" and "p \<in> snd ` set (lru_list (fs_cache f))"
  shows "p < length (fs_heap f)" "map_of (lru_list (fs_cache f)) (fileOffset (fs_heap f ! p)) = Some p"
    "page_position (fileOffset (fs_heap f ! p))" "page_ok (fs_heap f ! p)"
    "\<not> dirty (fs_heap f ! p) \<Longrightarrow> stored_as (fs_file f) (fs_heap f ! p)"
  using assms by (auto simp: fs_ok_def lru_ok_def split_beta dest!: bspec)

lemma on_disk_clean [simp]: "on_disk (markClean n) = on_disk n" "fileOffset (markClean n) = fileOffset n"
    "page_ok (markClean n) = page_ok n" "dirty (markClean n) = False"
  by (simp_all add: on_disk_def markClean_def page_ok_def)

lemma stored_as_clean [simp]: "stored_as d (markClean n) = stored_as d n"
  by (simp add: stored_as_def)

lemma setCache_present:
  assumes "map_of (lru_list (fs_cache f)) k = Some p" and "lru_ok (fs_cache f)"
  obtains c where "setCache k p f = (Inr (), f\<lparr>fs_cache := c\<rparr>)" "set (lru_list c) = set (lru_list (fs_cache f))"
    "maxNodes c = maxNodes (fs_cache f)" "length (lru_list c) = length (lru_list (fs_cache f))" "gm_wf (lru_list c)"
proof -
  let ?es = "lru_list (fs_cache f)"
  let ?c = "(fs_cache f)\<lparr>lru_list := (k, p) # filter (\<lambda>e. fst e \<noteq> k) ?es\<rparr>"
  have wf: "gm_wf ?es" and mem: "(k, p) \<in> set ?es"
    using assms by (auto simp: lru_ok_def dest: map_of_SomeD)
  have set: "set (lru_list ?c) = set ?es"
    using wf mem by (auto simp: eq_key_imp_eq_value)
  have d: "gm_wf (lru_list ?c)" using wf by (auto simp: distinct_map_filter)
  then have "distinct (lru_list ?c)" "distinct ?es" using wf by (auto simp only: distinct_map)
  then have "length (lru_list ?c) = length ?es" using set by (metis distinct_card)
  with set d show ?thesis
    using assms(1) by (intro that[of ?c]) (simp_all add: setCache_def lru_set_def)
qed

lemma update_page_spec:
  assumes "fs_ok f" and "p \<in> snd ` set (lru_list (fs_cache f))"
  obtains f1 page where "update_page p f = (Inr (), f1)" "fs_heap f1 = fs_heap f"
    "set (lru_list (fs_cache f1)) = set (lru_list (fs_cache f))" "lru_ok (fs_cache f1)"
    "distinct (map snd (lru_list (fs_cache f1)))"
    "fs_file f1 = write_at (unat (fileOffset (fs_heap f ! p))) page (fs_file f)" "length page = pageSize"
    "stored_as (fs_file f1) (fs_heap f ! p)"
    "fs_lastKey f1 = fs_lastKey f" "fs_pageTableRoot f1 = fs_pageTableRoot f"
    "fs_nextFreeOffset f1 = fs_nextFreeOffset f" "fs_nextLSN f1 = fs_nextLSN f"
proof -
  let ?n = "fs_heap f ! p"
  note ok = fs_okD[OF assms]
  obtain page free where e: "encode_node ?n = Inr page" "length page = pageSize"
    "decode_node page = Inr ((on_disk ?n)\<lparr>freeSize := free\<rparr>)"
    using encode_decode_node[OF ok(4)] by blast
  let ?f = "f\<lparr>fs_file := write_at (unat (fileOffset ?n)) page (fs_file f)\<rparr>"
  have "lru_ok (fs_cache f)" using assms(1) by (simp add: fs_ok_def)
  with ok(2) obtain c where c: "setCache (fileOffset ?n) p ?f = (Inr (), ?f\<lparr>fs_cache := c\<rparr>)"
    "set (lru_list c) = set (lru_list (fs_cache f))" "maxNodes c = maxNodes (fs_cache f)"
    "length (lru_list c) = length (lru_list (fs_cache f))" "gm_wf (lru_list c)"
    by (elim setCache_present[of "?f", simplified]) auto
  have "distinct (map snd (lru_list c))"
  proof -
    have "distinct (lru_list c)" using c(5) by (simp add: distinct_map)
    moreover have "inj_on snd (set (lru_list c))"
      using assms(1) c(2) by (simp add: fs_ok_def distinct_map)
    ultimately show ?thesis by (simp add: distinct_map)
  qed
  moreover have "lru_ok c" using c assms(1) by (simp add: fs_ok_def lru_ok_def)
  moreover have "update_page p f = (Inr (), ?f\<lparr>fs_cache := c\<rparr>)"
    using e(1) c(1) ok(3) by (simp add: update_page_def page_position_def Let_def)
  moreover have "stored_as (fs_file (?f\<lparr>fs_cache := c\<rparr>)) ?n"
    using e(2,3) by (auto simp: stored_as_def read_written)
  ultimately show ?thesis using c(2) e(2) by (intro that[of "?f\<lparr>fs_cache := c\<rparr>" page]) simp_all
qed

definition flushed_node :: "nat \<Rightarrow> file_store \<Rightarrow> file_store" where
  "flushed_node p f = f\<lparr>fs_heap := (fs_heap f)[p := markClean (fs_heap f ! p)]\<rparr>"

text \<open>The fields a flush leaves alone.\<close>

definition same_header :: "file_store \<Rightarrow> file_store \<Rightarrow> bool" where
  "same_header f g \<longleftrightarrow> fs_lastKey f = fs_lastKey g \<and> fs_pageTableRoot f = fs_pageTableRoot g
     \<and> fs_nextFreeOffset f = fs_nextFreeOffset g \<and> fs_nextLSN f = fs_nextLSN g"

lemma flush_step_ok:
  assumes "fs_ok f" and "p \<in> snd ` set (lru_list (fs_cache f))" and "update_page p f = (Inr (), f1)"
  shows "fs_ok (flushed_node p f1)" "set (lru_list (fs_cache f1)) = set (lru_list (fs_cache f))"
    "fs_heap f1 = fs_heap f" "same_header f1 f"
proof -
  obtain page where u: "fs_heap f1 = fs_heap f"
    "set (lru_list (fs_cache f1)) = set (lru_list (fs_cache f))" "lru_ok (fs_cache f1)"
    "distinct (map snd (lru_list (fs_cache f1)))"
    "fs_file f1 = write_at (unat (fileOffset (fs_heap f ! p))) page (fs_file f)" "length page = pageSize"
    "stored_as (fs_file f1) (fs_heap f ! p)" "same_header f1 f"
    using update_page_spec[OF assms(1,2)] assms(3) unfolding same_header_def by (metis Pair_inject)
  show "set (lru_list (fs_cache f1)) = set (lru_list (fs_cache f))" "fs_heap f1 = fs_heap f" "same_header f1 f"
    by (fact u)+
  note pok = fs_okD[OF assms(1,2)]
  have "q < length (fs_heap f) \<and> fileOffset ((fs_heap f)[p := markClean (fs_heap f ! p)] ! q) = k \<and> page_position k
      \<and> page_ok ((fs_heap f)[p := markClean (fs_heap f ! p)] ! q)
      \<and> (\<not> dirty ((fs_heap f)[p := markClean (fs_heap f ! p)] ! q)
          \<longrightarrow> stored_as (fs_file f1) ((fs_heap f)[p := markClean (fs_heap f ! p)] ! q))"
    if kq: "(k, q) \<in> set (lru_list (fs_cache f))" for k q
  proof (cases "q = p")
    case True
    then have "map_of (lru_list (fs_cache f)) (fileOffset (fs_heap f ! p)) = Some q" using pok(2) by simp
    moreover have "fileOffset (fs_heap f ! q) = k" using assms(1) kq by (auto simp: fs_ok_def)
    ultimately show ?thesis using True pok(1,3,4) u(7) by simp
  next
    case False
    from kq have q: "q \<in> snd ` set (lru_list (fs_cache f))" by force
    note qok = fs_okD[OF assms(1) q]
    have k: "fileOffset (fs_heap f ! q) = k" using assms(1) kq by (auto simp: fs_ok_def)
    have "k \<noteq> fileOffset (fs_heap f ! p)" using qok(2) pok(2) k False by auto
    then have "read_at (unat k) pageSize (fs_file f1) = read_at (unat k) pageSize (fs_file f)"
      unfolding u(5) using page_positions_apart[of k "fileOffset (fs_heap f ! p)"] qok(3) pok(3) k u(6)
      by (intro read_elsewhere) auto
    then show ?thesis using False qok(1,3,4,5) k by (auto simp: stored_as_def)
  qed
  then show "fs_ok (flushed_node p f1)"
    using u(1-4) by (auto simp: fs_ok_def flushed_node_def split_beta)
qed

lemma markClean_clean: "\<not> dirty n \<Longrightarrow> markClean n = n"
  by (cases n) (simp add: markClean_def)

lemma flush_nodes_ok:
  assumes "fs_ok f" and "set ps \<subseteq> snd ` set (lru_list (fs_cache f))"
  shows "\<exists>f'. flush_nodes ps f = (Inr (), f') \<and> fs_ok f' \<and> set (lru_list (fs_cache f')) = set (lru_list (fs_cache f))
    \<and> length (fs_heap f') = length (fs_heap f)
    \<and> (\<forall>q. fs_heap f' ! q = (if q \<in> set ps then markClean (fs_heap f ! q) else fs_heap f ! q)) \<and> same_header f' f"
  using assms
proof (induction ps arbitrary: f)
  case Nil
  then show ?case by (simp add: same_header_def)
next
  case (Cons p ps)
  show ?case
  proof (cases "dirty (fs_heap f ! p)")
    case False
    then show ?thesis
      using Cons.IH[of f] Cons.prems by (auto simp: markClean_clean)
  next
    case True
    have p: "p \<in> snd ` set (lru_list (fs_cache f))" using Cons.prems(2) by simp
    obtain f1 where f1: "update_page p f = (Inr (), f1)" by (rule update_page_spec[OF Cons.prems(1) p])
    note st = flush_step_ok[OF Cons.prems(1) p f1]
    have plen: "p < length (fs_heap f)" by (rule fs_okD(1)[OF Cons.prems(1) p])
    let ?g = "flushed_node p f1"
    have "set ps \<subseteq> snd ` set (lru_list (fs_cache ?g))" using Cons.prems(2) st(2) by (auto simp: flushed_node_def)
    from Cons.IH[OF st(1) this] obtain f' where f': "flush_nodes ps ?g = (Inr (), f')" "fs_ok f'"
      "set (lru_list (fs_cache f')) = set (lru_list (fs_cache ?g))" "length (fs_heap f') = length (fs_heap ?g)"
      "\<forall>q. fs_heap f' ! q = (if q \<in> set ps then markClean (fs_heap ?g ! q) else fs_heap ?g ! q)" "same_header f' ?g"
      by blast
    have "flush_nodes (p # ps) f = (Inr (), f')" using True f1 f'(1) by (simp add: flushed_node_def)
    moreover have "fs_heap f' ! q = (if q \<in> set (p # ps) then markClean (fs_heap f ! q) else fs_heap f ! q)" for q
      using f'(5) st(3) plen by (cases "q = p") (auto simp: flushed_node_def markClean_clean)
    moreover have "same_header f' f" using f'(6) st(4) by (simp add: same_header_def flushed_node_def)
    ultimately show ?thesis using f'(2-4) st(2,3) by (intro exI[of _ f']) (simp add: flushed_node_def)
  qed
qed

lemma length_header_bytes [simp]: "length (header_bytes f) = 28"
  by (simp add: header_bytes_def)

lemma open_saved: "fst (open_store_file (newFileStore (fs_file (save_header f)))) = Inr ()
    \<and> same_header (snd (open_store_file (newFileStore (fs_file (save_header f))))) f"
proof -
  have "take 28 (fs_file (save_header f)) = header_bytes f"
    by (simp add: save_header_def write_at_def)
  then obtain rest where "fs_file (save_header f) = header_bytes f @ rest" by (metis append_take_drop_id)
  then show ?thesis
    by (simp add: open_store_file_def newFileStore_def header_bytes_def codec_simps same_header_def)
qed

text \<open>
  C27.  What is flushed is what is read after a restart: from a consistent file store, writing back all
  cached pages, in any order, succeeds and leaves no unsaved page, and a store opened afresh on the file
  has the same counters and page table root and fetches every page as it was in the cache.
\<close>
theorem flush_is_durable:
  assumes "fs_ok f" and "set order = snd ` set (lru_list (fs_cache f))"
  shows "\<exists>f' g. flushPages order f = (Inr (), f') \<and> (\<forall>p \<in> set order. \<not> dirty (fs_heap f' ! p))
    \<and> open_store_file (newFileStore (fs_file f')) = (Inr (), g) \<and> same_header g f
    \<and> (\<forall>(k, p) \<in> set (lru_list (fs_cache f)). \<exists>q g' free. fetch_page k g = (Inr q, g')
         \<and> fs_heap g' ! q = (on_disk (fs_heap f ! p))\<lparr>freeSize := free\<rparr>)"
proof -
  obtain f1 where f1: "flush_nodes order f = (Inr (), f1)" "fs_ok f1"
    "set (lru_list (fs_cache f1)) = set (lru_list (fs_cache f))"
    "\<forall>q. fs_heap f1 ! q = (if q \<in> set order then markClean (fs_heap f ! q) else fs_heap f ! q)" "same_header f1 f"
    using flush_nodes_ok[OF assms(1), of order] assms(2) by blast
  let ?f' = "save_header f1"
  obtain g where g: "open_store_file (newFileStore (fs_file ?f')) = (Inr (), g)" "same_header g f1"
    using open_saved[of f1] by (metis prod.collapse)
  have fresh: "lru_list (fs_cache g) = []" "maxNodes (fs_cache g) = 10000" "fs_file g = fs_file ?f'" "fs_heap g = []"
    using g(1) by (auto simp: open_store_file_def newFileStore_def NewLRU_def split: sum.splits)
  have "\<exists>q g' free. fetch_page k g = (Inr q, g') \<and> fs_heap g' ! q = (on_disk (fs_heap f ! p))\<lparr>freeSize := free\<rparr>"
    if kp: "(k, p) \<in> set (lru_list (fs_cache f))" for k p
  proof -
    from kp have p: "p \<in> snd ` set (lru_list (fs_cache f1))" "p \<in> set order" using f1(3) assms(2) by force+
    note ok = fs_okD[OF f1(2) p(1)]
    have node: "fs_heap f1 ! p = markClean (fs_heap f ! p)" using f1(4) p(2) by simp
    have k: "fileOffset (fs_heap f ! p) = k" using assms(1) kp by (auto simp: fs_ok_def)
    obtain free where d: "decode_node (read_at (unat k) pageSize (fs_file f1)) = Inr ((on_disk (fs_heap f ! p))\<lparr>freeSize := free\<rparr>)"
      using ok(5) node k by (auto simp: stored_as_def)
    have pos: "pageSize \<le> unat k" "0 \<le> sint k" using ok(3) node k by (simp_all add: page_position_def)
    have "read_at (unat k) pageSize (fs_file g) = read_at (unat k) pageSize (fs_file f1)"
      unfolding fresh(3) save_header_def using pos(1) by (simp add: read_elsewhere pageSize_def)
    then have "fetch_page k g = (Inr 0, g\<lparr>fs_heap := [(on_disk (fs_heap f ! p))\<lparr>freeSize := free\<rparr>],
        fs_cache := (fs_cache g)\<lparr>lru_list := [(fileOffset ((on_disk (fs_heap f ! p))\<lparr>freeSize := free\<rparr>), 0)]\<rparr>\<rparr>)"
      using d pos(2) fresh by (simp add: fetch_page_def lru_get_def setCache_def lru_set_def Let_def)
    then show ?thesis by (intro exI[of _ 0] exI[of _ free]) auto
  qed
  moreover have "flushPages order f = (Inr (), ?f')" using f1(1) by (simp add: flushPages_def)
  moreover have "\<forall>p \<in> set order. \<not> dirty (fs_heap ?f' ! p)" using f1(4) by (simp add: save_header_def)
  moreover have "same_header g f" using g(2) f1(5) by (simp add: same_header_def)
  ultimately show ?thesis using g(1) by (intro exI[of _ ?f'] exI[of _ g]) auto
qed

text \<open>A store with one changed page.\<close>

definition one_page :: file_store where
  "one_page = (newFileStore [])\<lparr>fs_nextFreeOffset := 8192, fs_lastKey := 7, fs_pageTableRoot := 4096,
     fs_heap := [markDirty 3 (setFileOffset 4096 two_rows)],
     fs_cache := \<lparr>lru_list = [(4096, 0)], maxNodes = 10000\<rparr>\<rparr>"

lemma one_page_ok: "fs_ok one_page"
  using two_rows_facts(7)
  by (simp add: one_page_def fs_ok_def lru_ok_def markDirty_def setFileOffset_def page_position_def pageSize_def page_ok_def)

lemma flush_is_durable_witness:
  "\<exists>f' g q g'. flushPages [0] one_page = (Inr (), f') \<and> open_store_file (newFileStore (fs_file f')) = (Inr (), g)
     \<and> fs_lastKey g = 7 \<and> fetch_page 4096 g = (Inr q, g') \<and> leaf_rows (fs_heap g' ! q) = leaf_rows two_rows"
proof -
  have "set [0] = snd ` set (lru_list (fs_cache one_page))" by (simp add: one_page_def)
  from flush_is_durable[OF one_page_ok this] obtain f' g where fg: "flushPages [0] one_page = (Inr (), f')"
    "open_store_file (newFileStore (fs_file f')) = (Inr (), g)" "same_header g one_page"
    and all: "\<forall>(k, p) \<in> set (lru_list (fs_cache one_page)). \<exists>q g' free. fetch_page k g = (Inr q, g')
         \<and> fs_heap g' ! q = (on_disk (fs_heap one_page ! p))\<lparr>freeSize := free\<rparr>"
    by blast
  have "(4096, 0) \<in> set (lru_list (fs_cache one_page))" by (simp add: one_page_def)
  from bspec[OF all this] obtain q g' free where q: "fetch_page 4096 g = (Inr q, g')"
    "fs_heap g' ! q = (on_disk (fs_heap one_page ! 0))\<lparr>freeSize := free\<rparr>" by auto
  have "page_ok (fs_heap one_page ! 0)" "isLeaf (fs_heap one_page ! 0)"
    using two_rows_facts(1,7) by (simp_all add: one_page_def markDirty_def setFileOffset_def page_ok_def)
  from on_disk_contents(2)[OF this] have "leaf_rows (fs_heap g' ! q) = leaf_rows two_rows"
    using q(2) by (simp add: one_page_def leaf_rows_def markDirty_def setFileOffset_def)
  moreover have "fs_lastKey g = 7" using fg(3) by (simp add: same_header_def one_page_def)
  ultimately show ?thesis using fg(1,2) q by auto
qed

end
