(* ===== verification/BTree.thy ===== *)
theory BTree
  imports FileStore
begin

text \<open>
  The B-tree of a relation (\<open>src/sql/storage/btree.go\<close>) over the interface \<open>store\<close>: insertion with
  splits, lookup, and the scans along the leaf chain.  \<open>BTree.rootOffset\<close> is an argument and, where it
  changes, part of the result.  Descending the tree and following the chain take fuel, since a damaged
  file may contain a cycle; running out of it is the error \<open>OutOfFuel\<close>.
\<close>

section \<open>Insertion\<close>

definition getRoot :: "'s store_ops \<Rightarrow> 64 word \<Rightarrow> ('s, nat) action" where
  "getRoot S root = op_fetch S root"

text \<open>A new internal root above two pages; the result is its pointer and the new root offset.\<close>

definition grow_root :: "'s store_ops \<Rightarrow> nat \<Rightarrow> nat \<Rightarrow> 32 word \<Rightarrow> ('s, nat \<times> 64 word) action" where
  "grow_root S cur newPg newKey =
     seq (alloc S zero_node) (\<lambda>parent.
     seq (op_append S parent) (\<lambda>_.
     seq (node_of S newPg) (\<lambda>n.
     seq (node_of S cur) (\<lambda>c.
     seq (change S parent (setRightMostKey (fileOffset n))) (\<lambda>_.
     seq (change S parent (appendInternalCell newKey (fileOffset c))) (\<lambda>_.
     seq (node_of S parent) (\<lambda>p. ret (parent, fileOffset p))))))))"

text \<open>The new page becomes the rightmost child of its parent.\<close>

definition add_rightmost :: "'s store_ops \<Rightarrow> nat \<Rightarrow> nat \<Rightarrow> 32 word \<Rightarrow> ('s, unit) action" where
  "add_rightmost S parent newPg newKey =
     seq (node_of S newPg) (\<lambda>n.
     seq (change S parent (\<lambda>p. appendInternalCell newKey (rightOffset p) p)) (\<lambda>_.
       change S parent (setRightMostKey (fileOffset n))))"

text \<open>The new page is put between two children of its parent and into the leaf chain.\<close>

definition add_between :: "'s store_ops \<Rightarrow> nat \<Rightarrow> nat \<Rightarrow> 32 word \<Rightarrow> 64 word \<Rightarrow> 64 word \<Rightarrow> ('s, unit) action" where
  "add_between S parent newPg newKey oldRSib nextLSN =
     seq (change S newPg (\<lambda>n. n\<lparr>hasRSib := True, rSibFileOffset := oldRSib\<rparr>)) (\<lambda>_.
     seq (node_of S parent) (\<lambda>p.
     seq (lift (findCellOffsetByKey newKey p)) (\<lambda>(i, found).
     if found then fail KeyAlreadyExists
     else
       seq (node_of S newPg) (\<lambda>n.
       seq (lift (insertInternalCell i newKey (fileOffset n) p)) (\<lambda>p'.
       seq (change S parent (\<lambda>_. p')) (\<lambda>_.
       seq (op_fetch S oldRSib) (\<lambda>rightSib.
         change S rightSib (\<lambda>r. markDirty nextLSN (r\<lparr>lSibFileOffset := fileOffset n\<rparr>)))))))))"

definition split_page :: "'s store_ops \<Rightarrow> nat \<Rightarrow> nat \<Rightarrow> ('s, 32 word) action" where
  "split_page S cur newPg =
     seq (node_of S cur) (\<lambda>c.
     seq (node_of S newPg) (\<lambda>n.
     seq (lift (split_node c n)) (\<lambda>(newKey, c', n').
     seq (change S newPg (\<lambda>_. n')) (\<lambda>_.
     seq (change S cur (\<lambda>_. c')) (\<lambda>_. ret newKey)))))"

definition insertLeaf ::
  "'s store_ops \<Rightarrow> nat option \<Rightarrow> nat \<Rightarrow> 32 word \<Rightarrow> 64 word \<Rightarrow> byte list \<Rightarrow> 64 word \<Rightarrow> ('s, 64 word) action" where
  "insertLeaf S parent cur key nextLSN v root =
     seq (node_of S cur) (\<lambda>c.
     seq (lift (findCellOffsetByKey key c)) (\<lambda>(i, found).
     if found then fail KeyAlreadyExists
     else
       seq (lift (insertLeafCell i key v c)) (\<lambda>c1.
       seq (change S cur (\<lambda>_. markDirty nextLSN c1)) (\<lambda>_.
       if \<not> isFull c1 then ret root
       else
         seq (alloc S (zero_node\<lparr>isLeaf := True\<rparr>)) (\<lambda>newPg.
         seq (op_append S newPg) (\<lambda>_.
         seq (split_page S cur newPg) (\<lambda>newKey.
         seq (node_of S cur) (\<lambda>c2.
         seq (node_of S newPg) (\<lambda>n2.
         seq (change S cur (\<lambda>x. x\<lparr>hasRSib := True, rSibFileOffset := fileOffset n2\<rparr>)) (\<lambda>_.
         seq (change S newPg (\<lambda>x. x\<lparr>hasLSib := True, lSibFileOffset := fileOffset c2\<rparr>)) (\<lambda>_.
         seq (case parent of
                None \<Rightarrow> grow_root S cur newPg newKey
              | Some p \<Rightarrow>
                  seq (node_of S p) (\<lambda>pn.
                  seq (lift (getRightmostKey pn)) (\<lambda>rk.
                  seq (if newKey > rk then add_rightmost S p newPg newKey
                       else add_between S p newPg newKey (rSibFileOffset c2) nextLSN) (\<lambda>_.
                    ret (p, root))))) (\<lambda>(p, root').
         seq (change S newPg (markDirty nextLSN)) (\<lambda>_.
         seq (change S cur (markDirty nextLSN)) (\<lambda>_.
         seq (change S p (markDirty nextLSN)) (\<lambda>_. ret root')))))))))))))))"

text \<open>The child an insertion descends to.\<close>

definition insertion_child :: "btreeNode \<Rightarrow> nat \<Rightarrow> storage_error + 64 word" where
  "insertion_child c i =
     (if i = length (offsets c) then Inr (rightOffset c)
      else and_then (cell_at (internalCells c) (unat (offsets c ! i))) (\<lambda>cell. Inr (ic_fileOffset cell)))"

fun insertInternal ::
  "'s store_ops \<Rightarrow> nat \<Rightarrow> nat option \<Rightarrow> nat \<Rightarrow> 32 word \<Rightarrow> 64 word \<Rightarrow> byte list \<Rightarrow> 64 word \<Rightarrow> ('s, 64 word) action" where
  "insertInternal S 0 parent cur key nextLSN v root = fail OutOfFuel"
| "insertInternal S (Suc fuel) parent cur key nextLSN v root =
     seq (node_of S cur) (\<lambda>c.
     seq (lift (findCellOffsetByKey key c)) (\<lambda>(i, found).
     if found then fail KeyAlreadyExists
     else
       seq (lift (insertion_child c i)) (\<lambda>off.
       seq (op_fetch S off) (\<lambda>child.
       seq (node_of S child) (\<lambda>ch.
       seq (if isLeaf ch then insertLeaf S (Some cur) child key nextLSN v root
            else insertInternal S fuel (Some cur) child key nextLSN v root) (\<lambda>root1.
       seq (node_of S cur) (\<lambda>c1.
       if \<not> isFull c1 then ret root1
       else
         seq (alloc S zero_node) (\<lambda>newPg.
         seq (op_append S newPg) (\<lambda>_.
         seq (split_page S cur newPg) (\<lambda>newKey.
         seq (case parent of
                None \<Rightarrow> grow_root S cur newPg newKey
              | Some p \<Rightarrow> seq (add_rightmost S p newPg newKey) (\<lambda>_. ret (p, root1))) (\<lambda>(p, root2).
         seq (change S newPg (markDirty nextLSN)) (\<lambda>_.
         seq (change S p (markDirty nextLSN)) (\<lambda>_. ret root2)))))))))))))"

definition insertKey :: "'s store_ops \<Rightarrow> nat \<Rightarrow> 32 word \<Rightarrow> 64 word \<Rightarrow> byte list \<Rightarrow> 64 word \<Rightarrow> ('s, 64 word) action" where
  "insertKey S fuel key nextLSN v root =
     seq (getRoot S root) (\<lambda>pg.
     seq (node_of S pg) (\<lambda>n.
       if isLeaf n then insertLeaf S None pg key nextLSN v root
       else insertInternal S fuel None pg key nextLSN v root))"

text \<open>\<open>insert\<close> counts the key and the log sequence number whether or not the insertion succeeded.\<close>

definition bt_insert :: "'s store_ops \<Rightarrow> nat \<Rightarrow> byte list \<Rightarrow> 64 word \<Rightarrow> ('s, 32 word \<times> 64 word \<times> 64 word) action" where
  "bt_insert S fuel v root s =
     (let nextKey = op_getLastKey S s + 1; nextLSN = op_nextLSN S s
      in case insertKey S fuel nextKey nextLSN v root s of
           (r, s1) \<Rightarrow> (and_then r (\<lambda>root'. Inr (nextKey, nextLSN, root')), op_incrLSN S (op_incrementLastKey S s1)))"

section \<open>Lookup\<close>

text \<open>The linear search for the child: the first cell whose key is greater.\<close>

fun route :: "btreeNode \<Rightarrow> 32 word \<Rightarrow> 16 word list \<Rightarrow> storage_error + 64 word" where
  "route n key [] = Inr (rightOffset n)"
| "route n key (off # offs) =
     and_then (cellKey n off) (\<lambda>k.
       if key < k then and_then (cell_at (internalCells n) (unat off)) (\<lambda>c. Inr (ic_fileOffset c))
       else route n key offs)"

fun descend :: "'s store_ops \<Rightarrow> nat \<Rightarrow> (btreeNode \<Rightarrow> storage_error + 64 word) \<Rightarrow> nat \<Rightarrow> ('s, nat) action" where
  "descend S 0 pick pg = fail OutOfFuel"
| "descend S (Suc fuel) pick pg =
     seq (node_of S pg) (\<lambda>n.
       if isLeaf n then ret pg
       else seq (lift (pick n)) (\<lambda>off. seq (op_fetch S off) (descend S fuel pick)))"

text \<open>\<open>findCell\<close> returns the page and the index of the cell in it.\<close>

definition findCell :: "'s store_ops \<Rightarrow> nat \<Rightarrow> 32 word \<Rightarrow> 64 word \<Rightarrow> ('s, (nat \<times> nat) option) action" where
  "findCell S fuel key root =
     seq (getRoot S root) (\<lambda>r.
     seq (descend S fuel (\<lambda>n. route n key (offsets n)) r) (\<lambda>pg.
     seq (node_of S pg) (\<lambda>n.
     seq (lift (findCellOffsetByKey key n)) (\<lambda>(i, found).
       if \<not> found then ret None
       else seq (lift (cell_at (leafCells n) (unat (offsets n ! i)))) (\<lambda>c.
         ret (if lc_deleted c then None else Some (pg, unat (offsets n ! i))))))))"

section \<open>Scans\<close>

text \<open>A callback gets a page, the index of a live cell and an accumulator; it says whether to go on.\<close>

type_synonym ('s, 'a) cell_scanner = "nat \<Rightarrow> nat \<Rightarrow> 'a \<Rightarrow> ('s, bool \<times> 'a) action"

fun scan_cells :: "'s store_ops \<Rightarrow> ('s, 'a) cell_scanner \<Rightarrow> nat \<Rightarrow> 16 word list \<Rightarrow> 'a \<Rightarrow> ('s, bool \<times> 'a) action" where
  "scan_cells S f pg [] acc = ret (True, acc)"
| "scan_cells S f pg (off # offs) acc =
     seq (node_of S pg) (\<lambda>n.
     seq (lift (cell_at (leafCells n) (unat off))) (\<lambda>c.
       if lc_deleted c then scan_cells S f pg offs acc
       else seq (f pg (unat off) acc) (\<lambda>(goon, acc').
         if goon then scan_cells S f pg offs acc' else ret (False, acc'))))"

fun scan_leaves ::
  "'s store_ops \<Rightarrow> nat \<Rightarrow> ('s, 'a) cell_scanner \<Rightarrow> (16 word list \<Rightarrow> 16 word list) \<Rightarrow> (btreeNode \<Rightarrow> 64 word option) \<Rightarrow> nat \<Rightarrow> 'a \<Rightarrow> ('s, 'a) action" where
  "scan_leaves S 0 f ord sibling pg acc = fail OutOfFuel"
| "scan_leaves S (Suc fuel) f ord sibling pg acc =
     seq (node_of S pg) (\<lambda>n.
     seq (scan_cells S f pg (ord (offsets n)) acc) (\<lambda>(goon, acc').
       if \<not> goon then ret acc'
       else
         seq (node_of S pg) (\<lambda>n1.
         case sibling n1 of
           None \<Rightarrow> ret acc'
         | Some off \<Rightarrow> seq (op_fetch S off) (\<lambda>pg'. scan_leaves S fuel f ord sibling pg' acc'))))"

definition first_child :: "btreeNode \<Rightarrow> storage_error + 64 word" where
  "first_child n =
     (if offsets n = [] then Inl Panic
      else and_then (cell_at (internalCells n) (unat (hd (offsets n)))) (\<lambda>c. Inr (ic_fileOffset c)))"

definition scanRight :: "'s store_ops \<Rightarrow> nat \<Rightarrow> 64 word \<Rightarrow> ('s, 'a) cell_scanner \<Rightarrow> 'a \<Rightarrow> ('s, 'a) action" where
  "scanRight S fuel root f acc =
     seq (getRoot S root) (\<lambda>r.
     seq (descend S fuel first_child r) (\<lambda>pg.
       scan_leaves S fuel f (\<lambda>offs. offs) (\<lambda>n. if hasRSib n then Some (rSibFileOffset n) else None) pg acc))"

definition scanLeft :: "'s store_ops \<Rightarrow> nat \<Rightarrow> 64 word \<Rightarrow> ('s, 'a) cell_scanner \<Rightarrow> 'a \<Rightarrow> ('s, 'a) action" where
  "scanLeft S fuel root f acc =
     seq (getRoot S root) (\<lambda>r.
     seq (descend S fuel (\<lambda>n. Inr (rightOffset n)) r) (\<lambda>pg.
       scan_leaves S fuel f rev (\<lambda>n. if hasLSib n then Some (lSibFileOffset n) else None) pg acc))"

text \<open>The rows a scan visits, as a list.\<close>

definition collect :: "'s store_ops \<Rightarrow> ('s, (32 word \<times> byte list) list) cell_scanner" where
  "collect S pg i acc =
     seq (node_of S pg) (\<lambda>n.
     seq (lift (cell_at (leafCells n) i)) (\<lambda>c. ret (True, acc @ [(lc_key c, lc_valueBytes c)])))"

end
