(* ===== verification/Tuple.thy ===== *)
theory Tuple
  imports Bytes
begin

text \<open>
  Schemas and rows of the SQL storage (\<open>src/sql/storage/relation.go\<close>): field definitions and their
  validation, the encoding of a schema and of a row, and the lookup of columns in a result.  A row maps
  column names to values; \<open>nil\<close> is an absent value.  \<open>time.Time.UnmarshalBinary\<close> is an argument, and an
  instant is the text of it.
\<close>

section \<open>Types and values\<close>

type_synonym data_type = byte

definition TypeInt :: data_type where "TypeInt = 0"
definition TypeVarchar :: data_type where "TypeVarchar = 1"
definition TypeBoolean :: data_type where "TypeBoolean = 2"
definition TypeBigInt :: data_type where "TypeBigInt = 3"
definition TypeText :: data_type where "TypeText = 4"
definition TypeUUID :: data_type where "TypeUUID = 5"
definition TypeTimestamp :: data_type where "TypeTimestamp = 6"

lemmas type_defs = TypeInt_def TypeVarchar_def TypeBoolean_def TypeBigInt_def TypeText_def TypeUUID_def TypeTimestamp_def

datatype sql_value = VInt "64 word" | VStr string | VBool bool | VTime string

record field_def =
  fd_type :: data_type
  fd_name :: string
  fd_len :: "64 word"

type_synonym schema = "field_def list"
type_synonym row_values = "string \<rightharpoonup> sql_value"

definition in_int32 :: "64 word \<Rightarrow> bool" where
  "in_int32 w \<longleftrightarrow> - (2 ^ 31) \<le> sint w \<and> sint w \<le> 2 ^ 31 - 1"

text \<open>\<open>Validate\<close>: no error, an error, or a panic on an unknown type.\<close>

definition Validate :: "field_def \<Rightarrow> sql_value \<Rightarrow> storage_error option" where
  "Validate f v =
     (if fd_type f = TypeInt then
        (case v of VInt i \<Rightarrow> if in_int32 i then None else Some IntOutOfRange | _ \<Rightarrow> Some TypeMismatch)
      else if fd_type f = TypeBigInt then (case v of VInt _ \<Rightarrow> None | _ \<Rightarrow> Some TypeMismatch)
      else if fd_type f = TypeVarchar then (case v of VStr _ \<Rightarrow> None | _ \<Rightarrow> Some TypeMismatch)
      else if fd_type f = TypeBoolean then (case v of VBool _ \<Rightarrow> None | _ \<Rightarrow> Some TypeMismatch)
      else if fd_type f = TypeText then (case v of VStr _ \<Rightarrow> None | _ \<Rightarrow> Some TypeMismatch)
      else if fd_type f = TypeUUID then
        (case v of VStr s \<Rightarrow> if length s = 36 then None else Some TypeMismatch | _ \<Rightarrow> Some TypeMismatch)
      else if fd_type f = TypeTimestamp then (case v of VTime _ \<Rightarrow> None | _ \<Rightarrow> Some TypeMismatch)
      else Some Panic)"

definition pageTableSchema :: schema where
  "pageTableSchema = [\<lparr>fd_type = TypeVarchar, fd_name = ''table_name'', fd_len = 255\<rparr>,
     \<lparr>fd_type = TypeBigInt, fd_name = ''file_offset'', fd_len = 0\<rparr>]"

definition schemaTableSchema :: schema where
  "schemaTableSchema = [\<lparr>fd_type = TypeVarchar, fd_name = ''table_name'', fd_len = 255\<rparr>,
     \<lparr>fd_type = TypeVarchar, fd_name = ''field_name'', fd_len = 255\<rparr>,
     \<lparr>fd_type = TypeInt, fd_name = ''field_type'', fd_len = 0\<rparr>,
     \<lparr>fd_type = TypeInt, fd_name = ''field_length'', fd_len = 255\<rparr>]"

section \<open>Encoding a schema\<close>

definition put_text :: "string \<Rightarrow> byte list" where "put_text s = put_blob (str_bytes s)"

definition get_text :: "byte list \<Rightarrow> storage_error + (string \<times> byte list)" where
  "get_text bs = and_then (get_blob bs) (\<lambda>(b, r). Inr (bytes_str b, r))"

definition put_field :: "field_def \<Rightarrow> byte list" where
  "put_field f = put_u8 (fd_type f) @ put_text (fd_name f) @ (if fd_type f = TypeVarchar then put_u64 (fd_len f) else [])"

definition get_field :: "byte list \<Rightarrow> storage_error + (field_def \<times> byte list)" where
  "get_field bs =
     and_then (get_u8 bs) (\<lambda>(t, r1).
     and_then (get_text r1) (\<lambda>(name, r2).
       if t = TypeVarchar
       then and_then (get_u64 r2) (\<lambda>(len, r3). Inr (\<lparr>fd_type = t, fd_name = name, fd_len = len\<rparr>, r3))
       else Inr (\<lparr>fd_type = t, fd_name = name, fd_len = 0\<rparr>, r2)))"

definition encode_schema :: "schema \<Rightarrow> byte list" where
  "encode_schema fs = put_u16 (word_of_nat (length fs)) @ concat (map put_field fs)"

definition decode_schema :: "byte list \<Rightarrow> storage_error + schema" where
  "decode_schema bs =
     and_then (get_u16 bs) (\<lambda>(n, r). and_then (get_many get_field (unat n) r) (\<lambda>(fs, _). Inr fs))"

interpretation text_codec: codec put_text get_text "\<lambda>s. length s < 2 ^ 32"
  by unfold_locales (simp add: put_text_def get_text_def blob.dec_enc)

definition field_ok :: "field_def \<Rightarrow> bool" where
  "field_ok f \<longleftrightarrow> length (fd_name f) < 2 ^ 32 \<and> (fd_type f \<noteq> TypeVarchar \<longrightarrow> fd_len f = 0)"

interpretation field_codec: codec put_field get_field field_ok
  by unfold_locales
    (auto simp: field_ok_def put_field_def get_field_def codec_simps text_codec.dec_enc)

section \<open>Encoding a row\<close>

definition int32_of :: "64 word \<Rightarrow> 32 word" where "int32_of w = word_of_int (sint w)"
definition int64_of :: "32 word \<Rightarrow> 64 word" where "int64_of w = word_of_int (sint w)"

text \<open>The switch of \<open>Tuple.Encode\<close>: there is no case for \<open>TEXT\<close>, \<open>UUID\<close> and \<open>TIMESTAMP\<close>.\<close>

definition put_value :: "data_type \<Rightarrow> sql_value \<Rightarrow> byte list" where
  "put_value t v =
     (case v of
        VInt i \<Rightarrow> if t = TypeInt then put_u32 (int32_of i) else if t = TypeBigInt then put_u64 i else []
      | VBool b \<Rightarrow> if t = TypeBoolean then put_bool b else []
      | VStr s \<Rightarrow> if t = TypeVarchar then put_text s else []
      | VTime _ \<Rightarrow> [])"

fun encode_tuple :: "schema \<Rightarrow> row_values \<Rightarrow> storage_error + byte list" where
  "encode_tuple [] vals = Inr []"
| "encode_tuple (f # fs) vals =
     (case vals (fd_name f) of
        None \<Rightarrow> and_then (encode_tuple fs vals) (\<lambda>r. Inr (put_bool True @ r))
      | Some v \<Rightarrow>
          (case Validate f v of
             Some e \<Rightarrow> Inl e
           | None \<Rightarrow> and_then (encode_tuple fs vals) (\<lambda>r. Inr (put_bool False @ put_value (fd_type f) v @ r))))"

definition get_value :: "(byte list \<Rightarrow> string option) \<Rightarrow> data_type \<Rightarrow> byte list \<Rightarrow> storage_error + (sql_value \<times> byte list)" where
  "get_value tm t bs =
     (if t = TypeInt then and_then (get_u32 bs) (\<lambda>(i, r). Inr (VInt (int64_of i), r))
      else if t = TypeBigInt then and_then (get_u64 bs) (\<lambda>(i, r). Inr (VInt i, r))
      else if t \<in> {TypeVarchar, TypeText, TypeUUID} then and_then (get_text bs) (\<lambda>(s, r). Inr (VStr s, r))
      else if t = TypeBoolean then and_then (get_bool bs) (\<lambda>(b, r). Inr (VBool b, r))
      else if t = TypeTimestamp then
        and_then (get_blob bs) (\<lambda>(b, r). case tm b of None \<Rightarrow> Inl UnmarshalFailed | Some s \<Rightarrow> Inr (VTime s, r))
      else Inl Panic)"

fun decode_tuple :: "(byte list \<Rightarrow> string option) \<Rightarrow> schema \<Rightarrow> byte list \<Rightarrow> row_values \<Rightarrow> storage_error + row_values" where
  "decode_tuple tm [] bs vals = Inr vals"
| "decode_tuple tm (f # fs) bs vals =
     and_then (get_bool bs) (\<lambda>(isNull, r).
       if isNull then decode_tuple tm fs r vals
       else and_then (get_value tm (fd_type f) r) (\<lambda>(v, r').
         decode_tuple tm fs r' (vals(fd_name f \<mapsto> v))))"

section \<open>Round trips\<close>

text \<open>
  C99.  A schema survives its encoding: a relation of fewer than 65536 columns, with a length only on
  its \<open>VARCHAR\<close> columns, is decoded from its encoding unchanged.
\<close>
theorem schema_round_trip:
  assumes "\<forall>f \<in> set fs. field_ok f" and "length fs < 2 ^ 16"
  shows "decode_schema (encode_schema fs) = Inr fs"
  using field_codec.dec_many[of fs "[]"] assms
  by (simp add: decode_schema_def encode_schema_def codec_simps unat_of_nat)

lemma schema_round_trip_witness: "decode_schema (encode_schema pageTableSchema) = Inr pageTableSchema"
  by (rule schema_round_trip) (simp_all add: pageTableSchema_def field_ok_def type_defs)

lemma int_round: "in_int32 w \<Longrightarrow> int64_of (int32_of w) = w"
proof -
  assume r: "in_int32 w"
  have "signed_take_bit 31 (sint w) = sint w"
    using r by (intro signed_take_bit_int_eq_self) (simp_all add: in_int32_def)
  then have "sint (int32_of w) = sint w"  unfolding int32_of_def sint_sbintrunc' by simp
  then show ?thesis by (simp add: int64_of_def)
qed

text \<open>The columns whose values \<open>Tuple.Encode\<close> writes.\<close>

definition stored_type :: "data_type \<Rightarrow> bool" where
  "stored_type t \<longleftrightarrow> t \<in> {TypeInt, TypeBigInt, TypeBoolean, TypeVarchar}"

lemma value_round:
  assumes "Validate f v = None" and "stored_type (fd_type f)" and "\<forall>s. v = VStr s \<longrightarrow> length s < 2 ^ 32"
  shows "get_value tm (fd_type f) (put_value (fd_type f) v @ r) = Inr (v, r)"
  using assms
  by (auto simp: stored_type_def Validate_def get_value_def put_value_def type_defs codec_simps text_codec.dec_enc int_round
    split: sql_value.splits if_splits)

text \<open>
  C28.  A row survives its encoding: a row of columns of type \<open>INT\<close>, \<open>BIGINT\<close>, \<open>BOOLEAN\<close> and
  \<open>VARCHAR\<close> that \<open>Tuple.Encode\<close> accepts is decoded unchanged, absent values included, whatever follows it
  in the page.
\<close>
theorem tuple_round_trip:
  assumes "encode_tuple fs vals = Inr bs" and "distinct (map fd_name fs)"
    and "\<forall>f \<in> set fs. stored_type (fd_type f)" and "\<forall>n s. vals n = Some (VStr s) \<longrightarrow> length s < 2 ^ 32"
  shows "decode_tuple tm fs (bs @ rest) Map.empty = Inr (vals |` set (map fd_name fs))"
proof -
  have "decode_tuple tm fs (bs @ rest) acc = Inr (acc ++ (vals |` set (map fd_name fs)))"
    if "dom acc \<inter> set (map fd_name fs) = {}" for acc
    using that assms
  proof (induction fs arbitrary: bs acc)
    case (Cons f fs)
    show ?case
    proof (cases "vals (fd_name f)")
      case None
      with Cons.prems(2) obtain r where r: "encode_tuple fs vals = Inr r" "bs = put_bool True @ r"
        by (auto simp: and_then_Inr_iff)
      have "acc ++ (vals |` set (map fd_name (f # fs))) = acc ++ (vals |` set (map fd_name fs))"
        using None by (auto simp: fun_eq_iff map_add_def restrict_map_def split: option.splits)
      with Cons.IH[of acc r] Cons.prems r(1) show ?thesis
        by (simp add: r(2) codec_simps)
    next
      case (Some v)
      with Cons.prems(2) have ok: "Validate f v = None" by (auto split: option.splits)
      with Cons.prems(2) Some obtain r where r: "encode_tuple fs vals = Inr r"
        "bs = put_bool False @ put_value (fd_type f) v @ r" by (auto simp: and_then_Inr_iff)
      have val: "get_value tm (fd_type f) (put_value (fd_type f) v @ r @ rest) = Inr (v, r @ rest)"
        by (rule value_round[OF ok]) (use Cons.prems(4,5) Some in auto)
      have "(acc(fd_name f \<mapsto> v)) ++ (vals |` set (map fd_name fs)) = acc ++ (vals |` set (map fd_name (f # fs)))"
        using Some Cons.prems(1,3) by (auto simp: fun_eq_iff map_add_def restrict_map_def split: option.splits)
      moreover have "decode_tuple tm fs (r @ rest) (acc(fd_name f \<mapsto> v)) = Inr ((acc(fd_name f \<mapsto> v)) ++ (vals |` set (map fd_name fs)))"
      proof (rule Cons.IH[OF _ r(1)])
        show "dom (acc(fd_name f \<mapsto> v)) \<inter> set (map fd_name fs) = {}"
          using Cons.prems(1,3) by (simp add: Int_insert_left)
      qed (use Cons.prems(3-5) in auto)
      ultimately show ?thesis by (simp add: r(2) codec_simps val)
    qed
  qed simp
  from this[of Map.empty] show ?thesis by simp
qed

definition sample_row :: row_values where
  "sample_row = [''table_name'' \<mapsto> VStr ''t'', ''file_offset'' \<mapsto> VInt 4096]"

lemma tuple_round_trip_witness:
  "\<exists>bs. encode_tuple pageTableSchema sample_row = Inr bs \<and> (\<forall>tm. decode_tuple tm pageTableSchema (bs @ [1]) Map.empty = Inr sample_row)"
proof -
  obtain bs where bs: "encode_tuple pageTableSchema sample_row = Inr bs"
    by (simp add: pageTableSchema_def sample_row_def Validate_def type_defs)
  moreover have "decode_tuple tm pageTableSchema (bs @ [1]) Map.empty = Inr (sample_row |` set (map fd_name pageTableSchema))" for tm
    by (rule tuple_round_trip[OF bs]) (auto simp: pageTableSchema_def sample_row_def stored_type_def split: if_splits)
  moreover have "sample_row |` set (map fd_name pageTableSchema) = sample_row"
    by (auto simp: pageTableSchema_def sample_row_def restrict_map_def fun_eq_iff)
  ultimately show ?thesis by simp
qed

text \<open>
  C33.  A value in a \<open>TEXT\<close>, \<open>UUID\<close> or \<open>TIMESTAMP\<close> column makes its row unreadable: encoding the row
  succeeds without writing the value, and decoding the row at the end of its bytes fails.
\<close>
theorem text_value_unreadable:
  assumes "encode_tuple (fs @ [f]) vals = Inr bs" and "\<forall>g \<in> set fs. stored_type (fd_type g)"
    and "\<forall>n s. vals n = Some (VStr s) \<longrightarrow> length s < 2 ^ 32"
    and "fd_type f \<in> {TypeText, TypeUUID, TypeTimestamp}" and "vals (fd_name f) \<noteq> None"
  shows "decode_tuple tm (fs @ [f]) bs acc = Inl EndOfInput"
  using assms
proof (induction fs arbitrary: bs acc)
  case Nil
  then obtain v where "vals (fd_name f) = Some v" "Validate f v = None" "bs = put_bool False @ put_value (fd_type f) v"
    by (auto split: option.splits)
  moreover from this(2) Nil.prems(4) have "put_value (fd_type f) v = []"
    by (auto simp: put_value_def type_defs split: sql_value.split)
  moreover have "get_value tm (fd_type f) [] = Inl EndOfInput"
    using Nil.prems(4) by (auto simp: get_value_def type_defs get_text_def get_blob_def get_u32_def read_full_def)
  ultimately show ?case using bool.dec_enc[of False "[]"] by simp
next
  case (Cons g fs)
  show ?case
  proof (cases "vals (fd_name g)")
    case None
    with Cons.prems(1) obtain r where r: "encode_tuple (fs @ [f]) vals = Inr r" "bs = put_bool True @ r"
      by (auto simp: and_then_Inr_iff)
    with Cons.IH[OF r(1)] Cons.prems(2-5) show ?thesis by (simp add: codec_simps)
  next
    case (Some v)
    with Cons.prems(1) have ok: "Validate g v = None" by (auto split: option.splits)
    with Cons.prems(1) Some obtain r where r: "encode_tuple (fs @ [f]) vals = Inr r"
      "bs = put_bool False @ put_value (fd_type g) v @ r" by (auto simp: and_then_Inr_iff)
    have "get_value tm (fd_type g) (put_value (fd_type g) v @ r) = Inr (v, r)"
      by (rule value_round[OF ok]) (use Cons.prems(2,3) Some in auto)
    with Cons.IH[OF r(1)] Cons.prems(2-5) show ?thesis by (simp add: r(2) codec_simps)
  qed
qed

lemma text_value_unreadable_witness:
  "\<forall>tm. encode_tuple [\<lparr>fd_type = TypeText, fd_name = ''note'', fd_len = 0\<rparr>] [''note'' \<mapsto> VStr ''x''] = Inr [0]
    \<and> decode_tuple tm [\<lparr>fd_type = TypeText, fd_name = ''note'', fd_len = 0\<rparr>] [0] Map.empty = Inl EndOfInput"
proof -
  have e: "encode_tuple [\<lparr>fd_type = TypeText, fd_name = ''note'', fd_len = 0\<rparr>] [''note'' \<mapsto> VStr ''x''] = Inr [0]"
    by (simp add: Validate_def put_value_def type_defs put_bool_def)
  then show ?thesis
    using text_value_unreadable[of "[]" "\<lparr>fd_type = TypeText, fd_name = ''note'', fd_len = 0\<rparr>" "[''note'' \<mapsto> VStr ''x'']" "[0]"]
    by auto
qed

section \<open>Columns of a result\<close>

record field_ref =
  fr_table :: string
  fr_column :: string

record sql_row =
  row_id :: "32 word"
  row_vals :: "sql_value option list"

text \<open>\<open>LookupFieldIdx\<close>: the only column of that name.\<close>

fun lookup_from :: "field_ref list \<Rightarrow> string \<Rightarrow> nat \<Rightarrow> nat option \<Rightarrow> storage_error + nat" where
  "lookup_from [] name i found = (case found of None \<Rightarrow> Inl FieldNotFound | Some k \<Rightarrow> Inr k)"
| "lookup_from (f # fs) name i found =
     (if fr_column f = name
      then (if found \<noteq> None then Inl FieldAmbiguous else lookup_from fs name (i + 1) (Some i))
      else lookup_from fs name (i + 1) found)"

definition LookupFieldIdx :: "field_ref list \<Rightarrow> string \<Rightarrow> storage_error + nat" where
  "LookupFieldIdx fs name = lookup_from fs name 0 None"

definition LookupColIdxByID :: "field_ref list \<Rightarrow> string \<Rightarrow> string \<Rightarrow> storage_error + nat" where
  "LookupColIdxByID fs table name =
     (case List.find (\<lambda>(i, f). fr_column f = name \<and> fr_table f = table) (enumerate 0 fs) of
        Some (i, _) \<Rightarrow> Inr i | None \<Rightarrow> Inl FieldNotFound)"

definition merge_rows :: "sql_row \<Rightarrow> sql_row \<Rightarrow> sql_row" where
  "merge_rows r s = \<lparr>row_id = 0, row_vals = row_vals r @ row_vals s\<rparr>"

lemma lookup_from_found:
  "lookup_from fs name i (Some k) = (if name \<in> fr_column ` set fs then Inl FieldAmbiguous else Inr k)"
  by (induction fs arbitrary: i) auto

text \<open>
  A column reference is resolved exactly when it is unambiguous: the index returned is the only
  position of the name, an unknown name is not found, and a name occurring twice is ambiguous.
\<close>
theorem lookup_field_exact:
  "LookupFieldIdx fs name =
     (case filter (\<lambda>i. fr_column (fs ! i) = name) [0..<length fs] of
        [] \<Rightarrow> Inl FieldNotFound | [i] \<Rightarrow> Inr i | _ \<Rightarrow> Inl FieldAmbiguous)"
proof -
  have "lookup_from fs name i None =
     (case filter (\<lambda>j. fr_column (fs ! (j - i)) = name) [i..<i + length fs] of
        [] \<Rightarrow> Inl FieldNotFound | [j] \<Rightarrow> Inr j | _ \<Rightarrow> Inl FieldAmbiguous)" for i
  proof (induction fs arbitrary: i)
    case (Cons f fs)
    have shift: "filter (\<lambda>j. fr_column ((f # fs) ! (j - i)) = name) [Suc i..<Suc i + length fs]
        = filter (\<lambda>j. fr_column (fs ! (j - Suc i)) = name) [Suc i..<Suc i + length fs]"
      by (rule filter_cong) (auto simp: nth_Cons' Suc_diff_Suc)
    have up: "[i..<i + length (f # fs)] = i # [Suc i..<Suc i + length fs]" by (simp add: upt_rec)
    show ?case
    proof (cases "fr_column f = name")
      case False
      then show ?thesis unfolding up using Cons.IH[of "Suc i"] shift by simp
    next
      case True
      have "name \<in> fr_column ` set fs \<longleftrightarrow> filter (\<lambda>j. fr_column (fs ! (j - Suc i)) = name) [Suc i..<Suc i + length fs] \<noteq> []"
      proof -
        have "name \<in> fr_column ` set fs \<longleftrightarrow> (\<exists>k < length fs. fr_column (fs ! k) = name)"
          by (metis image_iff in_set_conv_nth)
        also have "\<dots> \<longleftrightarrow> (\<exists>j \<in> {Suc i..<Suc i + length fs}. fr_column (fs ! (j - Suc i)) = name)"
        proof
          assume "\<exists>k < length fs. fr_column (fs ! k) = name"
          then obtain k where "k < length fs" "fr_column (fs ! k) = name" by blast
          then show "\<exists>j \<in> {Suc i..<Suc i + length fs}. fr_column (fs ! (j - Suc i)) = name"
            by (intro bexI[of _ "k + Suc i"]) auto
        next
          assume "\<exists>j \<in> {Suc i..<Suc i + length fs}. fr_column (fs ! (j - Suc i)) = name"
          then obtain j where "j \<in> {Suc i..<Suc i + length fs}" "fr_column (fs ! (j - Suc i)) = name" by blast
          then show "\<exists>k < length fs. fr_column (fs ! k) = name" by (intro exI[of _ "j - Suc i"]) auto
        qed
        finally show ?thesis by (auto simp: filter_empty_conv)
      qed
      then show ?thesis unfolding up using True shift
        by (auto simp: lookup_from_found split: list.split)
    qed
  qed simp
  from this[of 0] show ?thesis by (simp add: LookupFieldIdx_def)
qed

end
