(* ===== verification/Wal.thy ===== *)
theory Wal
  imports BTree Tuple
begin

text \<open>
  The write-ahead log (\<open>src/sql/storage/wal.go\<close>): entries and their encoding, the log file as the bytes
  appended to it, reading it back, and the replay of a batch on the file store.  A write to the log
  either happens or ends the process; torn writes show up as a log cut anywhere.
\<close>

section \<open>Entries\<close>

definition OpInsert :: byte where "OpInsert = 0"
definition OpUpdate :: byte where "OpUpdate = 1"
definition OpDelete :: byte where "OpDelete = 2"

lemmas wal_ops = OpInsert_def OpUpdate_def OpDelete_def

record wal_entry =
  w_op :: byte
  w_LSN :: "64 word"
  w_pageID :: "64 word"
  w_cellID :: "32 word"
  w_val :: "byte list"

type_synonym wal_batch = "wal_entry list"

definition encode_entry :: "wal_entry \<Rightarrow> byte list" where
  "encode_entry w = put_u8 (w_op w) @ put_u64 (w_LSN w) @ put_u64 (w_pageID w) @ put_u32 (w_cellID w) @ put_blob (w_val w)"

definition decode_entry :: "byte list \<Rightarrow> storage_error + (wal_entry \<times> byte list)" where
  "decode_entry bs =
     and_then (get_u8 bs) (\<lambda>(op, r1).
     and_then (get_u64 r1) (\<lambda>(lsn, r2).
     and_then (get_u64 r2) (\<lambda>(page, r3).
     and_then (get_u32 r3) (\<lambda>(cell, r4).
     and_then (get_blob r4) (\<lambda>(v, r5).
       Inr (\<lparr>w_op = op, w_LSN = lsn, w_pageID = page, w_cellID = cell, w_val = v\<rparr>, r5))))))"

section \<open>Writing and reading the log\<close>

definition wal_frame :: "wal_entry \<Rightarrow> byte list" where
  "wal_frame w = put_u32 (word_of_nat (length (encode_entry w))) @ encode_entry w"

definition wal_flush :: "wal_batch \<Rightarrow> byte list \<Rightarrow> byte list" where
  "wal_flush batch log = log @ concat (map wal_frame batch)"

text \<open>\<open>wal.read\<close> until the end of the file or a frame of length zero.\<close>

function wal_read :: "byte list \<Rightarrow> storage_error + wal_batch" where
  "wal_read bs =
     (if bs = [] then Inr []
      else case read_full 4 bs of
        Inl e \<Rightarrow> Inl e
      | Inr (lenBuf, r) \<Rightarrow>
          (let tupleLen = le_value lenBuf
           in if tupleLen = 0 then Inr []
              else case read_full tupleLen r of
                Inl e \<Rightarrow> Inl e
              | Inr (tupleBuf, r') \<Rightarrow>
                  and_then (decode_entry tupleBuf) (\<lambda>(w, _).
                  and_then (wal_read r') (\<lambda>ws. Inr (w # ws)))))"
  by pat_completeness auto
termination
  by (relation "measure length") (auto simp: read_full_def split: if_splits)

declare wal_read.simps [simp del]

section \<open>Replay\<close>

text \<open>One entry of a replay: go on, or stop with the result given (\<open>return nil\<close> inside the loop).\<close>

datatype replayed = Continue | Stop

definition replay_entry :: "(byte list \<Rightarrow> string option) \<Rightarrow> nat \<Rightarrow> wal_entry \<Rightarrow> (file_store, replayed) action" where
  "replay_entry tm fuel w =
     seq (modify (\<lambda>f. f\<lparr>fs_nextLSN := w_LSN w\<rparr>)) (\<lambda>_.
     seq (fetch_page (w_pageID w)) (\<lambda>p.
     seq (node_of fileStore p) (\<lambda>n.
     if w_LSN w \<le> lastLSN n then ret Continue
     else if w_op w = OpInsert then
       (\<lambda>s. case insertKey fileStore fuel (w_cellID w) (w_LSN w) (w_val w) (fileOffset n) s of
              (r, s1) \<Rightarrow>
                (case r of
                   Inl e \<Rightarrow> if e = KeyAlreadyExists then (Inr Continue, op_incrementLastKey fileStore s1) else (Inl e, s1)
                 | Inr _ \<Rightarrow> (Inr Continue, op_incrementLastKey fileStore s1)))
     else if w_op w = OpUpdate then
       (case decode_tuple tm pageTableSchema (w_val w) Map.empty of
          Inl e \<Rightarrow> fail e
        | Inr _ \<Rightarrow>
            (case updateCell (w_cellID w) (w_val w) n of
               Inl e \<Rightarrow> if e = Panic then fail Panic else ret Stop
             | Inr n' \<Rightarrow> seq (change fileStore p (\<lambda>_. markDirty (w_LSN w) n')) (\<lambda>_. ret Continue)))
     else if w_op w = OpDelete then
       seq (lift (findCellOffsetByKey (w_cellID w) n)) (\<lambda>(i, found).
       if \<not> found then fail NoSuchRecord
       else
         seq (lift (cell_at (leafCells n) i)) (\<lambda>c.
         seq (change fileStore p (\<lambda>n. markDirty (w_LSN w) (n\<lparr>leafCells := (leafCells n)[i := Some (c\<lparr>lc_deleted := True\<rparr>)]\<rparr>))) (\<lambda>_.
           ret Continue)))
     else ret Continue)))"

fun replay_entries :: "(byte list \<Rightarrow> string option) \<Rightarrow> nat \<Rightarrow> wal_batch \<Rightarrow> (file_store, replayed) action" where
  "replay_entries tm fuel [] = ret Continue"
| "replay_entries tm fuel (w # ws) =
     seq (replay_entry tm fuel w) (\<lambda>r. case r of Stop \<Rightarrow> ret Stop | Continue \<Rightarrow> replay_entries tm fuel ws)"

text \<open>\<open>order\<close> is the iteration order of the cache when the pages are flushed at the end.\<close>

definition replay :: "(byte list \<Rightarrow> string option) \<Rightarrow> nat \<Rightarrow> (file_store \<Rightarrow> nat list) \<Rightarrow> wal_batch \<Rightarrow> (file_store, unit) action" where
  "replay tm fuel order batch =
     seq (replay_entries tm fuel batch) (\<lambda>r. case r of
         Stop \<Rightarrow> ret ()
       | Continue \<Rightarrow>
           seq (modify (\<lambda>f. f\<lparr>fs_nextLSN := fs_nextLSN f + 1\<rparr>)) (\<lambda>_. \<lambda>s. flushPages (order s) s))"

section \<open>Round trip of the log\<close>

definition entry_ok :: "wal_entry \<Rightarrow> bool" where
  "entry_ok w \<longleftrightarrow> length (w_val w) < 2 ^ 32 - 25"

interpretation entry_codec: codec encode_entry decode_entry entry_ok
  by unfold_locales (simp add: entry_ok_def encode_entry_def decode_entry_def codec_simps)

lemma frame_read:
  assumes "entry_ok w"
  shows "wal_read (wal_frame w @ rest) = and_then (wal_read rest) (\<lambda>ws. Inr (w # ws))"
proof -
  let ?n = "length (encode_entry w)"
  have n: "0 < ?n" "?n < 2 ^ 32" using assms by (simp_all add: entry_ok_def encode_entry_def)
  have v: "le_value (put_u32 (word_of_nat ?n)) = ?n"
    using n(2) by (simp add: put_u32_def le_value_bytes unat_of_nat)
  have "wal_frame w @ rest = put_u32 (word_of_nat ?n) @ encode_entry w @ rest" by (simp add: wal_frame_def)
  moreover have "put_u32 (word_of_nat ?n) \<noteq> []" using put_lengths(3) by (metis length_0_conv zero_neq_numeral)
  ultimately show ?thesis
    using n(1) v entry_codec.dec_end[OF assms] by (subst wal_read.simps) (simp add: Let_def)
qed

text \<open>
  C29.  The log survives a restart: reading the file after any sequence of flushes to an empty log
  returns the entries of all batches, in the order they were written.
\<close>
theorem wal_round_trip:
  assumes "\<forall>batch \<in> set batches. \<forall>w \<in> set batch. entry_ok w"
  shows "wal_read (foldl (\<lambda>log batch. wal_flush batch log) [] batches) = Inr (concat batches)"
proof -
  have log: "foldl (\<lambda>log batch. wal_flush batch log) l batches = l @ concat (map wal_frame (concat batches))" for l
    by (induction batches arbitrary: l) (simp_all add: wal_flush_def)
  have "wal_read (concat (map wal_frame ws)) = Inr ws" if "\<forall>w \<in> set ws. entry_ok w" for ws
    using that
  proof (induction ws)
    case Nil
    then show ?case by (simp add: wal_read.simps)
  next
    case (Cons w ws)
    then show ?case using frame_read[of w "concat (map wal_frame ws)"] by simp
  qed
  with assms show ?thesis by (simp add: log)
qed

definition sample_entry :: wal_entry where
  "sample_entry = \<lparr>w_op = OpInsert, w_LSN = 5, w_pageID = 4096, w_cellID = 3, w_val = [0, 1]\<rparr>"

lemma wal_round_trip_witness:
  "wal_read (wal_flush [sample_entry] (wal_flush [sample_entry, sample_entry] [])) = Inr [sample_entry, sample_entry, sample_entry]"
  using wal_round_trip[of "[[sample_entry, sample_entry], [sample_entry]]"]
  by (simp add: sample_entry_def entry_ok_def)

text \<open>
  A torn tail makes the whole log unreadable: when the last write was cut anywhere inside its
  frame, reading the log fails instead of returning the complete entries before it, so the recovery at
  the next start fails.
\<close>
theorem torn_log_rejected:
  assumes "\<forall>w \<in> set batch. entry_ok w" and "entry_ok w" and "0 < k" and "k < length (wal_frame w)"
  shows "wal_read (wal_flush batch [] @ take k (wal_frame w)) \<in> {Inl EndOfInput, Inl UnexpectedEnd}"
proof -
  let ?n = "length (encode_entry w)"
  have n: "0 < ?n" "?n < 2 ^ 32" using assms(2) by (simp_all add: entry_ok_def encode_entry_def)
  have v: "le_value (put_u32 (word_of_nat ?n)) = ?n"
    using n(2) by (simp add: put_u32_def le_value_bytes unat_of_nat)
  have torn: "wal_read (take k (wal_frame w)) \<in> {Inl EndOfInput, Inl UnexpectedEnd}"
  proof (cases "k < 4")
    case True
    have "length (take k (wal_frame w)) = k" using assms(4) by simp
    then show ?thesis using True assms(3) by (subst wal_read.simps) (auto simp: read_full_def)
  next
    case False
    then have "take k (wal_frame w) = put_u32 (word_of_nat ?n) @ take (k - 4) (encode_entry w)"
      by (simp add: wal_frame_def)
    moreover have "k - 4 < ?n" using assms(4) False by (simp add: wal_frame_def)
    moreover have "put_u32 (word_of_nat ?n) \<noteq> []" using put_lengths(3) by (metis length_0_conv zero_neq_numeral)
    ultimately show ?thesis using n(1) v
      by (subst wal_read.simps) (simp add: Let_def read_full_def)
  qed
  show ?thesis
    using assms(1)
  proof (induction batch)
    case Nil
    then show ?case using torn by (simp add: wal_flush_def)
  next
    case (Cons x xs)
    then show ?case using frame_read[of x "concat (map wal_frame xs) @ take k (wal_frame w)"]
      by (auto simp: wal_flush_def)
  qed
qed

lemma torn_log_rejected_witness:
  "wal_read (wal_flush [sample_entry] [] @ take 10 (wal_frame sample_entry)) \<in> {Inl EndOfInput, Inl UnexpectedEnd}"
  by (rule torn_log_rejected) (simp_all add: sample_entry_def entry_ok_def wal_frame_def encode_entry_def)

end
