(* ===== verification/Relations.thy ===== *)
theory Relations
  imports Wal
begin

text \<open>
  The relation service (\<open>src/sql/storage/relation.go\<close>, \<open>file.go\<close> and \<open>InitStorage\<close> of \<open>wal.go\<close>): the page
  table and the schema table of a database, tables, and the insertion, update, deletion and reading of
  rows.  Every operation acts on the file store of its database; the log entries it produces are its
  result.  A database is the content of its table file and of its log file.
\<close>

abbreviation FS :: "file_store store_ops" where "FS \<equiv> fileStore"

definition pageTableName :: string where "pageTableName = ''sys_pages''"
definition schemaTableName :: string where "schemaTableName = ''sys_schema''"
definition initialPageTableOffset :: "64 word" where "initialPageTableOffset = word_of_nat pageSize"
definition initialSchemaTableOffset :: "64 word" where "initialSchemaTableOffset = initialPageTableOffset * 2"

type_synonym time_codec = "byte list \<Rightarrow> string option"

section \<open>Page table and schema table\<close>

definition createPage :: "(file_store, nat) action" where
  "createPage = seq (alloc FS (markDirty 0 (zero_node\<lparr>isLeaf := True\<rparr>))) (\<lambda>p. seq (append_page p) (\<lambda>_. ret p))"

text \<open>The decoded row of a cell, the first step of every scan.\<close>

definition cell_row :: "time_codec \<Rightarrow> schema \<Rightarrow> nat \<Rightarrow> nat \<Rightarrow> (file_store, leafCell \<times> row_values) action" where
  "cell_row tm fs pg i =
     seq (node_of FS pg) (\<lambda>n.
     seq (lift (cell_at (leafCells n) i)) (\<lambda>c.
     seq (lift (decode_tuple tm fs (lc_valueBytes c) Map.empty)) (\<lambda>vals. ret (c, vals))))"

text \<open>Changes a row in place and returns the log entry, as \<open>updatePageTable\<close> and \<open>Update\<close> do.\<close>

definition rewrite_cell :: "nat \<Rightarrow> 32 word \<Rightarrow> byte list \<Rightarrow> (file_store, wal_entry) action" where
  "rewrite_cell pg key buf =
     seq (node_of FS pg) (\<lambda>n.
     seq (lift (updateCell key buf n)) (\<lambda>n'.
     seq (change FS pg (\<lambda>_. n')) (\<lambda>_.
     seq (gets fs_nextLSN) (\<lambda>lsn.
     seq (change FS pg (markDirty lsn)) (\<lambda>_.
     seq (modify (op_incrLSN FS)) (\<lambda>_.
       ret \<lparr>w_op = OpUpdate, w_LSN = lsn, w_pageID = fileOffset n', w_cellID = key, w_val = buf\<rparr>))))))"

definition insertPageTable :: "nat \<Rightarrow> nat \<Rightarrow> string \<Rightarrow> (file_store, unit) action" where
  "insertPageTable fuel pg tableName =
     seq (node_of FS pg) (\<lambda>n.
     seq (lift (encode_tuple pageTableSchema
           [''table_name'' \<mapsto> VStr tableName, ''file_offset'' \<mapsto> VInt (fileOffset n)])) (\<lambda>buf.
     seq (gets fs_pageTableRoot) (\<lambda>root.
     seq (fetch_page root) (\<lambda>pgTable.
     seq (node_of FS pgTable) (\<lambda>t.
     seq (bt_insert FS fuel buf (fileOffset t)) (\<lambda>(key, lsn, root').
     seq (getRoot FS root') (\<lambda>cur.
     seq (node_of FS cur) (\<lambda>c.
       if fileOffset c \<noteq> fileOffset t then modify (setPageTableRoot cur) else ret ()))))))))"

definition update_page_row :: "time_codec \<Rightarrow> string \<Rightarrow> 64 word \<Rightarrow> (file_store, wal_batch) cell_scanner" where
  "update_page_row tm tableName off pg i logs =
     seq (cell_row tm pageTableSchema pg i) (\<lambda>(c, vals).
       if vals ''table_name'' = Some (VStr tableName)
       then seq (lift (encode_tuple pageTableSchema (vals(''file_offset'' \<mapsto> VInt off)))) (\<lambda>buf.
            seq (rewrite_cell pg (lc_key c) buf) (\<lambda>e. ret (False, logs @ [e])))
       else ret (True, logs))"

definition updatePageTable :: "time_codec \<Rightarrow> nat \<Rightarrow> 64 word \<Rightarrow> string \<Rightarrow> (file_store, wal_batch) action" where
  "updatePageTable tm fuel off tableName =
     seq (gets fs_pageTableRoot) (\<lambda>root.
     seq (fetch_page root) (\<lambda>pgTable.
     seq (node_of FS pgTable) (\<lambda>t.
     seq (scanRight FS fuel (fileOffset t) (update_page_row tm tableName off) []) (\<lambda>logs.
       if logs = [] then fail NoPageTableEntry else ret logs))))"

definition find_table :: "time_codec \<Rightarrow> string \<Rightarrow> (file_store, 64 word option) cell_scanner" where
  "find_table tm relName pg i found =
     seq (cell_row tm pageTableSchema pg i) (\<lambda>(c, vals).
       if vals ''table_name'' = Some (VStr relName)
       then (case vals ''file_offset'' of Some (VInt off) \<Rightarrow> ret (False, Some off) | _ \<Rightarrow> fail Panic)
       else ret (True, found))"

definition getRelationFileOffset :: "time_codec \<Rightarrow> nat \<Rightarrow> string \<Rightarrow> (file_store, 64 word) action" where
  "getRelationFileOffset tm fuel relName =
     seq (gets fs_pageTableRoot) (\<lambda>root.
     seq (fetch_page root) (\<lambda>pgTable.
     seq (node_of FS pgTable) (\<lambda>t.
     seq (scanRight FS fuel (fileOffset t) (find_table tm relName) None) (\<lambda>found.
       case found of None \<Rightarrow> fail TableNotExist | Some off \<Rightarrow> ret off))))"

text \<open>\<open>DataType(v)\<close> keeps the low byte of the stored number.\<close>

definition read_field :: "time_codec \<Rightarrow> string \<Rightarrow> (file_store, schema) cell_scanner" where
  "read_field tm relName pg i fs =
     seq (cell_row tm schemaTableSchema pg i) (\<lambda>(c, vals).
       if vals ''table_name'' = Some (VStr relName)
       then (case (vals ''field_name'', vals ''field_length'', vals ''field_type'') of
               (Some (VStr name), Some (VInt len), Some (VInt t)) \<Rightarrow>
                 ret (True, fs @ [\<lparr>fd_type = ucast t, fd_name = name, fd_len = len\<rparr>])
             | _ \<Rightarrow> fail Panic)
       else ret (True, fs))"

definition getRelationSchema :: "time_codec \<Rightarrow> nat \<Rightarrow> string \<Rightarrow> (file_store, schema) action" where
  "getRelationSchema tm fuel relName =
     seq (getRelationFileOffset tm fuel schemaTableName) (\<lambda>off.
     seq (fetch_page off) (\<lambda>pg.
     seq (node_of FS pg) (\<lambda>n. scanRight FS fuel (fileOffset n) (read_field tm relName) [])))"

definition schema_row :: "string \<Rightarrow> field_def \<Rightarrow> row_values" where
  "schema_row tableName fd =
     [''table_name'' \<mapsto> VStr tableName, ''field_name'' \<mapsto> VStr (fd_name fd),
      ''field_type'' \<mapsto> VInt (ucast (fd_type fd)), ''field_length'' \<mapsto> VInt (fd_len fd)]"

fun insert_fields :: "time_codec \<Rightarrow> nat \<Rightarrow> string \<Rightarrow> field_def list \<Rightarrow> nat \<Rightarrow> (file_store, unit) action" where
  "insert_fields tm fuel tableName [] schemaPg = ret ()"
| "insert_fields tm fuel tableName (fd # fds) schemaPg =
     seq (lift (encode_tuple schemaTableSchema (schema_row tableName fd))) (\<lambda>buf.
     seq (node_of FS schemaPg) (\<lambda>n.
     seq (bt_insert FS fuel buf (fileOffset n)) (\<lambda>(key, lsn, root').
     seq (getRoot FS root') (\<lambda>newRoot.
     seq (node_of FS newRoot) (\<lambda>r.
     seq (node_of FS schemaPg) (\<lambda>n1.
       if fileOffset r \<noteq> fileOffset n1
       then seq (updatePageTable tm fuel (fileOffset r) schemaTableName) (\<lambda>_. insert_fields tm fuel tableName fds newRoot)
       else insert_fields tm fuel tableName fds schemaPg))))))"

definition insertSchemaTable :: "time_codec \<Rightarrow> nat \<Rightarrow> schema \<Rightarrow> string \<Rightarrow> (file_store, unit) action" where
  "insertSchemaTable tm fuel r tableName =
     seq (getRelationFileOffset tm fuel schemaTableName) (\<lambda>off.
     seq (fetch_page off) (\<lambda>pg. insert_fields tm fuel tableName r pg))"

section \<open>Tables\<close>

text \<open>\<open>order\<close> is the iteration order of the cache map at a flush.\<close>

definition flush_in :: "(file_store \<Rightarrow> nat list) \<Rightarrow> (file_store, unit) action" where
  "flush_in order f = flushPages (order f) f"

text \<open>Any outcome of the lookup other than "table does not exist", an error included, refuses the name.\<close>

definition CreateTable :: "time_codec \<Rightarrow> nat \<Rightarrow> (file_store \<Rightarrow> nat list) \<Rightarrow> schema \<Rightarrow> string \<Rightarrow> (file_store, unit) action" where
  "CreateTable tm fuel order r tableName f =
     (case getRelationFileOffset tm fuel tableName f of
        (Inl TableNotExist, f1) \<Rightarrow>
          seq createPage (\<lambda>pg.
          seq (insertPageTable fuel pg tableName) (\<lambda>_.
          seq (insertSchemaTable tm fuel r tableName) (\<lambda>_. flush_in order))) f1
      | (_, f1) \<Rightarrow> (Inl TableAlreadyExist, f1))"

definition scan_row :: "time_codec \<Rightarrow> schema \<Rightarrow> field_ref list \<Rightarrow> (file_store, sql_row list) cell_scanner" where
  "scan_row tm r flds pg i rows =
     seq (cell_row tm r pg i) (\<lambda>(c, vals).
       ret (True, rows @ [\<lparr>row_id = lc_key c, row_vals = map (\<lambda>f. vals (fr_column f)) flds\<rparr>]))"

definition scanRelation :: "time_codec \<Rightarrow> nat \<Rightarrow> 64 word \<Rightarrow> schema \<Rightarrow> field_ref list \<Rightarrow> (file_store, sql_row list) action" where
  "scanRelation tm fuel off r flds =
     seq (fetch_page off) (\<lambda>pg.
     seq (node_of FS pg) (\<lambda>n. scanRight FS fuel (fileOffset n) (scan_row tm r flds) []))"

definition FetchTable :: "time_codec \<Rightarrow> nat \<Rightarrow> string \<Rightarrow> (file_store, sql_row list \<times> field_ref list) action" where
  "FetchTable tm fuel tableName =
     seq (getRelationFileOffset tm fuel tableName) (\<lambda>off.
     seq (getRelationSchema tm fuel tableName) (\<lambda>r.
       let flds = map (\<lambda>fd. \<lparr>fr_table = '''', fr_column = fd_name fd\<rparr>) r
       in seq (scanRelation tm fuel off r flds) (\<lambda>rows. ret (rows, flds))))"

section \<open>Rows\<close>

text \<open>Assignments to a Go map in order; assigning \<open>nil\<close> makes the value absent.\<close>

definition assign :: "string list \<Rightarrow> sql_value option list \<Rightarrow> row_values \<Rightarrow> row_values" where
  "assign cols vals m = foldl (\<lambda>m (c, v). m(c := v)) m (zip cols vals)"

definition InsertRow :: "time_codec \<Rightarrow> nat \<Rightarrow> string \<Rightarrow> string list \<Rightarrow> sql_value option list \<Rightarrow> (file_store, wal_batch) action" where
  "InsertRow tm fuel tableName cols vals =
     seq (getRelationFileOffset tm fuel tableName) (\<lambda>off.
     seq (fetch_page off) (\<lambda>tablePg.
     seq (getRelationSchema tm fuel tableName) (\<lambda>r.
       let cols' = (if cols = [] then map fd_name r else cols)
       in if length cols' \<noteq> length vals then fail ColCountMismatch
          else
            seq (lift (encode_tuple r (assign cols' vals Map.empty))) (\<lambda>buf.
            seq (node_of FS tablePg) (\<lambda>t.
            seq (bt_insert FS fuel buf (fileOffset t)) (\<lambda>(key, lsn, root').
            seq (getRoot FS root') (\<lambda>cur.
            seq (node_of FS cur) (\<lambda>c.
            seq (node_of FS tablePg) (\<lambda>t1.
            let entry = \<lparr>w_op = OpInsert, w_LSN = lsn, w_pageID = off, w_cellID = key, w_val = buf\<rparr>
            in if fileOffset c \<noteq> fileOffset t1
               then seq (updatePageTable tm fuel (fileOffset c) tableName) (\<lambda>logs. ret (entry # logs))
               else ret [entry]))))))))) "

definition update_row :: "time_codec \<Rightarrow> schema \<Rightarrow> 32 word \<Rightarrow> string list \<Rightarrow> sql_value option list \<Rightarrow> (file_store, wal_batch) cell_scanner" where
  "update_row tm r rowID cols src pg i logs =
     seq (node_of FS pg) (\<lambda>n.
     seq (lift (cell_at (leafCells n) i)) (\<lambda>c.
       if lc_key c \<noteq> rowID then ret (True, logs)
       else
         seq (lift (decode_tuple tm r (lc_valueBytes c) Map.empty)) (\<lambda>vals.
         if length src < length cols then fail Panic
         else
           seq (lift (encode_tuple r (assign cols src vals))) (\<lambda>buf.
           seq (rewrite_cell pg (lc_key c) buf) (\<lambda>e. ret (True, logs @ [e]))))))"

definition UpdateRow :: "time_codec \<Rightarrow> nat \<Rightarrow> string \<Rightarrow> 32 word \<Rightarrow> string list \<Rightarrow> sql_value option list \<Rightarrow> (file_store, wal_batch) action" where
  "UpdateRow tm fuel tableName rowID cols src =
     seq (getRelationFileOffset tm fuel tableName) (\<lambda>off.
     seq (fetch_page off) (\<lambda>pg.
     seq (getRelationSchema tm fuel tableName) (\<lambda>r.
     seq (node_of FS pg) (\<lambda>n. scanRight FS fuel (fileOffset n) (update_row tm r rowID cols src) []))))"

text \<open>\<open>MarkDeleted\<close> takes the next log sequence number without incrementing it.\<close>

definition MarkDeleted :: "time_codec \<Rightarrow> nat \<Rightarrow> string \<Rightarrow> 32 word \<Rightarrow> (file_store, wal_batch) action" where
  "MarkDeleted tm fuel tableName rowID =
     seq (getRelationFileOffset tm fuel tableName) (\<lambda>off.
     seq (fetch_page off) (\<lambda>pg.
     seq (node_of FS pg) (\<lambda>n.
     seq (findCell FS fuel rowID (fileOffset n)) (\<lambda>found.
       case found of
         None \<Rightarrow> fail NoSuchRecord
       | Some (p, i) \<Rightarrow>
           seq (node_of FS p) (\<lambda>m.
           seq (lift (cell_at (leafCells m) i)) (\<lambda>c.
           seq (change FS p (\<lambda>m. m\<lparr>leafCells := (leafCells m)[i := Some (c\<lparr>lc_deleted := True\<rparr>)]\<rparr>)) (\<lambda>_.
           seq (gets fs_nextLSN) (\<lambda>lsn.
           seq (change FS p (markDirty lsn)) (\<lambda>_.
             ret [\<lparr>w_op = OpDelete, w_LSN = lsn, w_pageID = fileOffset m, w_cellID = lc_key c, w_val = []\<rparr>]))))))))) "

section \<open>Databases\<close>

datatype db_error = DBExists | DBNotExist | DBNotSelected | StorageError storage_error

record db_files =
  table_file :: "byte list option"
  log_file :: "byte list"

type_synonym data_dir = "string \<rightharpoonup> db_files"

definition dbFilePath :: "data_dir \<Rightarrow> string \<Rightarrow> db_error + bool" where
  "dbFilePath dir db =
     (if db = '''' then Inl DBNotSelected
      else Inr (case dir (to_lower db) of Some d \<Rightarrow> table_file d \<noteq> None | None \<Rightarrow> False))"

text \<open>\<open>CreateDB\<close> up to the closing flush: the two system tables on a new file.\<close>

definition create_system_tables :: "time_codec \<Rightarrow> nat \<Rightarrow> (file_store \<Rightarrow> nat list) \<Rightarrow> (file_store, unit) action" where
  "create_system_tables tm fuel order =
     seq createPage (\<lambda>pgTbl.
     seq (node_of FS pgTbl) (\<lambda>n.
     if fileOffset n \<noteq> initialPageTableOffset then fail BadOffset
     else
       seq (modify (setPageTableRoot pgTbl)) (\<lambda>_.
       seq (insertPageTable fuel pgTbl pageTableName) (\<lambda>_.
       seq createPage (\<lambda>schemaTbl.
       seq (node_of FS schemaTbl) (\<lambda>m.
       if fileOffset m \<noteq> initialSchemaTableOffset then fail BadOffset
       else
         seq (insertPageTable fuel schemaTbl schemaTableName) (\<lambda>_.
         seq (insertSchemaTable tm fuel pageTableSchema pageTableName) (\<lambda>_.
         seq (insertSchemaTable tm fuel schemaTableSchema schemaTableName) (\<lambda>_. flush_in order)))))))))"

definition empty_database :: file_store where
  "empty_database = save_header ((newFileStore [])\<lparr>fs_nextFreeOffset := word_of_nat pageSize\<rparr>)"

text \<open>The deferred \<open>rs.Close\<close> flushes once more, on success and on errors.\<close>

definition CreateDB :: "time_codec \<Rightarrow> nat \<Rightarrow> (file_store \<Rightarrow> nat list) \<Rightarrow> string \<Rightarrow> data_dir \<Rightarrow> db_error option \<times> data_dir" where
  "CreateDB tm fuel order db dir =
     (case dbFilePath dir db of
        Inl e \<Rightarrow> (Some e, dir)
      | Inr True \<Rightarrow> (Some DBExists, dir)
      | Inr False \<Rightarrow>
          (case create_system_tables tm fuel order empty_database of
             (r, f1) \<Rightarrow>
               (let f2 = snd (flush_in order f1);
                    log = (case dir (to_lower db) of Some d \<Rightarrow> log_file d | None \<Rightarrow> [])
                in (case r of Inl e \<Rightarrow> Some (StorageError e) | Inr _ \<Rightarrow> None,
                    dir(to_lower db \<mapsto> \<lparr>table_file = Some (fs_file f2), log_file = log\<rparr>)))))"

definition OpenRelation :: "string \<Rightarrow> data_dir \<Rightarrow> db_error + file_store" where
  "OpenRelation db dir =
     (case dbFilePath dir db of
        Inl e \<Rightarrow> Inl e
      | Inr False \<Rightarrow> Inl DBNotExist
      | Inr True \<Rightarrow>
          (case open_store_file (newFileStore (case dir (to_lower db) of Some d \<Rightarrow> the (table_file d) | None \<Rightarrow> [])) of
             (Inl e, _) \<Rightarrow> Inl (StorageError e)
           | (Inr _, f) \<Rightarrow> Inr f))"

definition FlushWALBatch :: "string \<Rightarrow> wal_batch \<Rightarrow> data_dir \<Rightarrow> data_dir" where
  "FlushWALBatch db batch dir =
     (case dir (to_lower db) of
        None \<Rightarrow> dir
      | Some d \<Rightarrow> dir(to_lower db \<mapsto> d\<lparr>log_file := wal_flush batch (log_file d)\<rparr>))"

text \<open>\<open>InitStorage\<close> for one database directory: replay the log and close the store.  The log is read
  after the store is opened, and the deferred close flushes also when the replay fails.\<close>

definition recover_db :: "time_codec \<Rightarrow> nat \<Rightarrow> (file_store \<Rightarrow> nat list) \<Rightarrow> db_files \<Rightarrow> storage_error option \<times> db_files" where
  "recover_db tm fuel order d =
     (case table_file d of
        None \<Rightarrow> (None, d)
      | Some content \<Rightarrow>
          (case open_store_file (newFileStore content) of
             (Inl e, _) \<Rightarrow> (Some e, d)
           | (Inr _, f) \<Rightarrow>
               (case wal_read (log_file d) of
                  Inl e \<Rightarrow> (Some e, d\<lparr>table_file := Some (fs_file (snd (flush_in order f)))\<rparr>)
                | Inr batch \<Rightarrow>
                    (case replay tm fuel order batch f of
                       (r, f1) \<Rightarrow>
                         (case r of Inl e \<Rightarrow> Some e | Inr _ \<Rightarrow> None,
                          d\<lparr>table_file := Some (fs_file (snd (flush_in order f1)))\<rparr>)))))"

fun InitStorage :: "time_codec \<Rightarrow> nat \<Rightarrow> (file_store \<Rightarrow> nat list) \<Rightarrow> string list \<Rightarrow> data_dir \<Rightarrow> storage_error option \<times> data_dir" where
  "InitStorage tm fuel order [] dir = (None, dir)"
| "InitStorage tm fuel order (db # dbs) dir =
     (case dir (to_lower db) of
        None \<Rightarrow> InitStorage tm fuel order dbs dir
      | Some d \<Rightarrow>
          (case recover_db tm fuel order d of
             (Some e, d') \<Rightarrow> (Some e, dir(to_lower db \<mapsto> d'))
           | (None, d') \<Rightarrow> InitStorage tm fuel order dbs (dir(to_lower db \<mapsto> d'))))"

end
