(* ===== verification/SqlText.thy ===== *)
theory SqlText
  imports Prelude
begin

text \<open>
  Preparing SQL text for SQLite: quoting helpers (\<open>app/sql_helpers.go\<close>), the rewriting of queries and
  their dispatch (\<open>sanitizeSQLQuery\<close>, \<open>fixTuplegetterQuotes\<close>, \<open>SqlDML\<close>, \<open>SelectAll\<close> of
  \<open>app/app.go\<close>).  The \<open>database/sql\<close> driver is an argument; the loop that looks for
  \<open>_tuplegetter\<close> may not end, so it is a partial function whose value \<open>None\<close> is not returning.
  Case conversion is that of ASCII.
\<close>

section \<open>Text functions of the standard library\<close>

definition upper_char :: "char \<Rightarrow> char" where
  "upper_char c = (if 97 \<le> (of_char c :: nat) \<and> (of_char c :: nat) \<le> 122 then char_of ((of_char c :: nat) - 32) else c)"

definition to_upper :: "string \<Rightarrow> string" where
  "to_upper s = map upper_char s"

definition trim_char :: "char \<Rightarrow> string \<Rightarrow> string" where
  "trim_char q s = rev (dropWhile (\<lambda>c. c = q) (rev (dropWhile (\<lambda>c. c = q) s)))"

text \<open>\<open>strings.Index\<close>, \<open>strings.Replace\<close> with count 1 and \<open>strings.ReplaceAll\<close> (for a non-empty pattern).\<close>

fun str_index :: "string \<Rightarrow> string \<Rightarrow> nat option" where
  "str_index [] p = (if p = [] then Some 0 else None)"
| "str_index (c # s) p = (if has_prefix (c # s) p then Some 0 else map_option Suc (str_index s p))"

fun replace_first :: "string \<Rightarrow> string \<Rightarrow> string \<Rightarrow> string" where
  "replace_first p q [] = []"
| "replace_first p q (c # s) =
     (if has_prefix (c # s) p then q @ drop (length p) (c # s) else c # replace_first p q s)"

function replace_all :: "string \<Rightarrow> string \<Rightarrow> string \<Rightarrow> string" where
  "replace_all p q [] = []"
| "replace_all p q (c # s) =
     (if p \<noteq> [] \<and> has_prefix (c # s) p then q @ replace_all p q (drop (length p) (c # s))
      else c # replace_all p q s)"
  by pat_completeness auto
termination
  by (relation "measure (\<lambda>(p, q, s). length s)") (auto simp: neq_Nil_conv)

section \<open>Quoting identifiers\<close>

definition quote_char :: char where "quote_char = CHR 34"

definition QuoteIdentifier :: "string \<Rightarrow> string" where
  "QuoteIdentifier name = quote_char # trim_char quote_char name @ [quote_char]"

definition QuoteIdentifiers :: "string list \<Rightarrow> string" where
  "QuoteIdentifiers names = join_with '', '' (map QuoteIdentifier names)"

definition BuildSafeSelect :: "string list \<Rightarrow> string \<Rightarrow> string \<Rightarrow> string" where
  "BuildSafeSelect columns table whereClause =
     (let quotedCols = QuoteIdentifiers columns; quotedTable = QuoteIdentifier table
      in if whereClause = '''' then ''SELECT '' @ quotedCols @ '' FROM '' @ quotedTable
         else ''SELECT '' @ quotedCols @ '' FROM '' @ quotedTable @ '' WHERE '' @ whereClause)"

definition SQLiteReservedWords :: "string list" where
  "SQLiteReservedWords =
    [''ABORT'', ''ACTION'', ''ADD'', ''AFTER'', ''ALL'', ''ALTER'', ''ALWAYS'', ''ANALYZE'', ''AND'', ''AS'',
     ''ASC'', ''ATTACH'', ''AUTOINCREMENT'', ''BEFORE'', ''BEGIN'', ''BETWEEN'', ''BY'', ''CASCADE'', ''CASE'',
     ''CAST'', ''CHECK'', ''COLLATE'', ''COLUMN'', ''COMMIT'', ''CONFLICT'', ''CONSTRAINT'', ''CREATE'',
     ''CROSS'', ''CURRENT'', ''CURRENT_DATE'', ''CURRENT_TIME'', ''CURRENT_TIMESTAMP'', ''DATABASE'',
     ''DEFAULT'', ''DEFERRABLE'', ''DEFERRED'', ''DELETE'', ''DESC'', ''DETACH'', ''DISTINCT'', ''DO'',
     ''DROP'', ''EACH'', ''ELSE'', ''END'', ''ESCAPE'', ''EXCEPT'', ''EXCLUDE'', ''EXCLUSIVE'', ''EXISTS'',
     ''EXPLAIN'', ''FAIL'', ''FILTER'', ''FIRST'', ''FOLLOWING'', ''FOR'', ''FOREIGN'', ''FROM'', ''FULL'',
     ''GENERATED'', ''GLOB'', ''GROUP'', ''GROUPS'', ''HAVING'', ''IF'', ''IGNORE'', ''IMMEDIATE'', ''IN'',
     ''INDEX'', ''INDEXED'', ''INITIALLY'', ''INNER'', ''INSERT'', ''INSTEAD'', ''INTERSECT'', ''INTO'',
     ''IS'', ''ISNULL'', ''JOIN'', ''KEY'', ''LAST'', ''LEFT'', ''LIKE'', ''LIMIT'', ''MATCH'',
     ''MATERIALIZED'', ''NATURAL'', ''NO'', ''NOT'', ''NOTHING'', ''NOTNULL'', ''NULL'', ''NULLS'', ''OF'',
     ''OFFSET'', ''ON'', ''OR'', ''ORDER'', ''OTHERS'', ''OUTER'', ''OVER'', ''PARTITION'', ''PLAN'',
     ''PRAGMA'', ''PRECEDING'', ''PRIMARY'', ''QUERY'', ''RAISE'', ''RANGE'', ''RECURSIVE'', ''REFERENCES'',
     ''REGEXP'', ''REINDEX'', ''RELEASE'', ''RENAME'', ''REPLACE'', ''RESTRICT'', ''RETURNING'', ''RIGHT'',
     ''ROLLBACK'', ''ROW'', ''ROWS'', ''SAVEPOINT'', ''SELECT'', ''SET'', ''TABLE'', ''TEMP'', ''TEMPORARY'',
     ''THEN'', ''TIES'', ''TO'', ''TRANSACTION'', ''TRIGGER'', ''UNBOUNDED'', ''UNION'', ''UNIQUE'',
     ''UPDATE'', ''USING'', ''VACUUM'', ''VALUES'', ''VIEW'', ''VIRTUAL'', ''WHEN'', ''WHERE'', ''WINDOW'',
     ''WITH'', ''WITHOUT'', ''Alias'', ''Component'', ''Status'', ''Type'', ''Name'']"

definition IsReservedWord :: "string \<Rightarrow> bool" where
  "IsReservedWord word = (to_upper word \<in> set SQLiteReservedWords)"

definition ShouldQuote :: "string \<Rightarrow> bool" where
  "ShouldQuote identifier =
     (IsReservedWord identifier \<or> list_ex (\<lambda>c. c \<in> {CHR '' '', CHR ''-'', CHR ''.'', CHR '':''}) identifier)"

section \<open>Rewriting queries\<close>

definition sanitizedWords :: "string list" where
  "sanitizedWords = [''Alias'', ''Component'', ''Status'', ''Type'', ''Name'', ''Group'', ''Order'', ''Index'', ''Key'',
     ''Value'', ''Table'', ''Column'']"

definition quoted :: "string \<Rightarrow> string" where
  "quoted w = quote_char # w @ [quote_char]"

definition sanitize_word :: "string \<Rightarrow> string \<Rightarrow> string" where
  "sanitize_word word r0 =
     (let r1 = replace_all ('' '' @ word @ '','') ('' '' @ quoted word @ '','') r0;
          r2 = replace_all ('' '' @ word @ '' '') ('' '' @ quoted word @ '' '') r1;
          r3 = replace_all ('' '' @ word @ '')'') ('' '' @ quoted word @ '')'') r2
      in if has_prefix (trim_space (to_upper r3)) (''SELECT '' @ to_upper word)
         then replace_first (''select '' @ word) (''select '' @ quoted word)
                (replace_first (''SELECT '' @ word) (''SELECT '' @ quoted word) r3)
         else r3)"

definition sanitizeSQLQuery :: "string \<Rightarrow> string" where
  "sanitizeSQLQuery query = foldl (\<lambda>result word. sanitize_word word result) query sanitizedWords"

text \<open>The position behind the parenthesis that closes the one before \<open>i\<close>, and the depth reached there.\<close>

function matching_paren :: "string \<Rightarrow> nat \<Rightarrow> nat \<Rightarrow> nat \<times> nat" where
  "matching_paren s depth i =
     (if i < length s \<and> depth > 0 then
        matching_paren s (if s ! i = CHR ''('' then depth + 1 else if s ! i = CHR '')'' then depth - 1 else depth) (i + 1)
      else (i, depth))"
  by pat_completeness auto
termination
  by (relation "measure (\<lambda>(s, d, i). length s - i)") auto

declare matching_paren.simps [simp del]

definition apostrophe :: char where "apostrophe = CHR 39"

fun double_quotes :: "string \<Rightarrow> string" where
  "double_quotes [] = []"
| "double_quotes [c] = (if c = apostrophe then [apostrophe, apostrophe] else [c])"
| "double_quotes (c # d # s) =
     (if c \<noteq> apostrophe then c # double_quotes (d # s)
      else if d = apostrophe then apostrophe # apostrophe # double_quotes s
      else apostrophe # apostrophe # double_quotes (d # s))"

text \<open>One turn of the loop of \<open>fixTuplegetterQuotes\<close>, \<open>None\<close> when it breaks: \<open>strings.Index\<close> is applied to
  a suffix of the query, and its answer is used as a position in the whole query.\<close>

definition tuplegetter :: string where "tuplegetter = ''_tuplegetter''"

definition fix_turn :: "string \<Rightarrow> nat \<Rightarrow> (string \<times> nat) option" where
  "fix_turn result tupleStart0 =
     (case str_index (drop tupleStart0 result) tuplegetter of
        None \<Rightarrow> None
      | Some tupleStart \<Rightarrow>
          (case str_index (drop tupleStart result) ''('' of
             None \<Rightarrow> None
           | Some k \<Rightarrow>
               (let parenStart = k + tupleStart
                in case matching_paren result 1 (parenStart + 1) of
                     (parenEnd, depth) \<Rightarrow>
                       if depth \<noteq> 0 then Some (result, parenEnd)
                       else let tupleContent = take (parenEnd - 1 - (parenStart + 1)) (drop (parenStart + 1) result)
                            in Some (take (parenStart + 1) result @ double_quotes tupleContent @ drop (parenEnd - 1) result,
                                     parenEnd))))"

partial_function (option) fix_loop :: "string \<Rightarrow> nat \<Rightarrow> string option" where
  "fix_loop result tupleStart =
     (case fix_turn result tupleStart of None \<Rightarrow> Some result | Some (result', tupleStart') \<Rightarrow> fix_loop result' tupleStart')"

definition fixTuplegetterQuotes :: "string \<Rightarrow> string option" where
  "fixTuplegetterQuotes query = fix_loop query 0"

section \<open>Running statements\<close>

text \<open>What the driver answers: the columns, the rows (\<open>None\<close> when scanning one fails) and whether the
  iteration ended with an error.\<close>

datatype 'v cell = CBytes string | CText string | COther 'v

record 'v result_set =
  rs_columns :: "string list"
  rs_rows :: "'v cell list option list"
  rs_err :: bool

record ('d, 'v) sql_driver =
  run_query :: "string \<Rightarrow> 'd \<Rightarrow> 'v result_set option \<times> 'd"
  run_exec :: "string \<Rightarrow> 'd \<Rightarrow> nat option \<times> 'd"

datatype sql_failure = QueryFailed | ScanFailed | RowsFailed | ExecFailed

datatype 'v sql_answer = Rows "(string, 'v cell) gomap list" | Affected nat

definition row_map :: "string list \<Rightarrow> 'v cell list \<Rightarrow> (string, 'v cell) gomap" where
  "row_map columns values = foldl (\<lambda>m (c, v). gm_set c v m) [] (zip columns values)"

definition is_select :: "string \<Rightarrow> bool" where
  "is_select stmt = has_prefix (trim_space (to_upper stmt)) ''SELECT''"

definition prepared :: "string \<Rightarrow> string option" where
  "prepared stmt = map_option (\<lambda>s. if is_select s then sanitizeSQLQuery s else s) (fixTuplegetterQuotes stmt)"

definition SqlDML :: "('d, 'v) sql_driver \<Rightarrow> string \<Rightarrow> 'd \<Rightarrow> ((sql_failure + 'v sql_answer) \<times> 'd) option" where
  "SqlDML drv stmt0 d = map_option (\<lambda>stmt.
     if is_select stmt then
       (case run_query drv stmt d of
          (None, d') \<Rightarrow> (Inl QueryFailed, d')
        | (Some rs, d') \<Rightarrow> (case those (rs_rows rs) of
             None \<Rightarrow> (Inl ScanFailed, d')
           | Some rows \<Rightarrow> (Inr (Rows (map (row_map (rs_columns rs)) rows)), d')))
     else
       (case run_exec drv stmt d of (None, d') \<Rightarrow> (Inl ExecFailed, d') | (Some n, d') \<Rightarrow> (Inr (Affected n), d')))
     (prepared stmt0)"

definition cell_text :: "'v cell \<Rightarrow> 'v cell" where
  "cell_text c = (case c of CBytes b \<Rightarrow> CText b | _ \<Rightarrow> c)"

definition SelectAll :: "('d, 'v) sql_driver \<Rightarrow> string \<Rightarrow> 'd \<Rightarrow> (sql_failure + (string, 'v cell) gomap list) \<times> 'd" where
  "SelectAll drv stmt d =
     (case run_query drv stmt d of
        (None, d') \<Rightarrow> (Inl QueryFailed, d')
      | (Some rs, d') \<Rightarrow> (case those (rs_rows rs) of
           None \<Rightarrow> (Inl ScanFailed, d')
         | Some rows \<Rightarrow>
             if rs_err rs then (Inl RowsFailed, d')
             else (Inr (map (\<lambda>r. row_map (rs_columns rs) (map cell_text r)) rows), d')))"

section \<open>The rewriting of \<open>_tuplegetter\<close>\<close>

lemma str_index_found: "x \<notin> set a \<Longrightarrow> str_index (a @ (x # p) @ z) (x # p) = Some (length a)"
proof (induction a)
  case Nil
  have "has_prefix (x # p @ z) (x # p)" by (subst has_prefix_iff) simp
  then show ?case by simp
qed auto

lemma str_index_absent: "x \<notin> set s \<Longrightarrow> str_index s (x # p) = None"
  by (induction s) auto

lemma matching_paren_flat:
  "CHR ''('' \<notin> set c \<Longrightarrow> CHR '')'' \<notin> set c \<Longrightarrow>
   matching_paren (a @ c @ CHR '')'' # z) 1 (length a) = (length a + length c + 1, 0)"
proof (induction c arbitrary: a)
  case Nil
  then show ?case by (subst matching_paren.simps) (simp add: nth_append matching_paren.simps[of _ 0])
next
  case (Cons x c)
  from Cons.IH[of "a @ [x]"] Cons.prems show ?case
    by (subst matching_paren.simps) (auto simp: nth_append)
qed

lemma double_quotes_idem [simp]: "double_quotes (double_quotes c) = double_quotes c"
proof (induction c rule: double_quotes.induct)
  case (3 c d s)
  have "x \<noteq> apostrophe \<Longrightarrow> double_quotes (x # t) = x # double_quotes t" for x t by (cases t) auto
  with 3 show ?case by auto
qed auto

lemma double_quotes_set: "set (double_quotes c) \<subseteq> set c"
  by (induction c rule: double_quotes.induct) auto

lemma double_quotes_length: "length c \<le> length (double_quotes c)"
  by (induction c rule: double_quotes.induct) auto

text \<open>A query with a \<open>_tuplegetter\<close> whose arguments are flat, seen from a position from which it is the
  next one in the whole query.\<close>

definition call :: "string \<Rightarrow> string" where
  "call c = tuplegetter @ ''('' @ c @ '')''"

lemma fix_turn_call:
  assumes "str_index (drop i (a @ call c @ z)) tuplegetter = Some r" and "r \<le> length a + 12"
    and "CHR ''('' \<notin> set a" and "CHR ''('' \<notin> set c" and "CHR '')'' \<notin> set c"
  shows "fix_turn (a @ call c @ z) i = Some (a @ call (double_quotes c) @ z, length a + 13 + length c + 1)"
proof -
  let ?b = "a @ tuplegetter"
  have q: "a @ call c @ z = ?b @ (CHR ''('' # c @ CHR '')'' # z)" "length ?b = length a + 12"
    by (simp_all add: call_def tuplegetter_def)
  have "CHR ''('' \<notin> set (drop r ?b)" using assms(3) by (auto simp: tuplegetter_def dest: in_set_dropD)
  from str_index_found[OF this, of "[]" "c @ CHR '')'' # z"]
  have paren: "str_index (drop r (a @ call c @ z)) ''('' = Some (length a + 12 - r)"
    using assms(2) q(2) by (simp add: q(1))
  have "matching_paren ((?b @ ''('') @ c @ CHR '')'' # z) 1 (length (?b @ ''('')) = (length (?b @ ''('') + length c + 1, 0)"
    using assms(4,5) by (rule matching_paren_flat)
  then have close: "matching_paren (a @ call c @ z) 1 (Suc (length a + 12)) = (Suc (length a + 12) + length c + 1, 0)"
    using q by simp
  have parts: "take (Suc (length a + 12)) (a @ call c @ z) = ?b @ ''(''"
    "drop (Suc (length a + 12)) (a @ call c @ z) = c @ CHR '')'' # z"
    "drop (Suc (length a + 12) + length c) (a @ call c @ z) = CHR '')'' # z"
    unfolding q(1) using q(2) by simp_all
  show ?thesis
    using assms(1,2) paren close parts
    by (simp add: fix_turn_def Let_def call_def tuplegetter_def)
qed

lemma next_call: "CHR ''_'' \<notin> set a \<Longrightarrow> str_index (a @ call c @ z) tuplegetter = Some (length a)"
  using str_index_found[of "CHR ''_''" a "''tuplegetter''"] by (simp add: call_def tuplegetter_def)

lemma after_call: "drop (length a + 13 + k + 1) (a @ call c' @ z) = drop (k + 1) (c' @ CHR '')'' # z)"
proof -
  have "a @ call c' @ z = (a @ tuplegetter @ ''('') @ (c' @ CHR '')'' # z)" by (simp add: call_def)
  moreover have "length (a @ tuplegetter @ ''('') = length a + 13" by (simp add: tuplegetter_def)
  moreover have "drop (length p + n) (p @ s) = drop n s" for p s :: string and n by simp
  ultimately show ?thesis by (metis add.assoc)
qed

lemma single_call_fixed:
  assumes "CHR ''_'' \<notin> set a" and "CHR ''_'' \<notin> set c" and "CHR ''_'' \<notin> set z" and "CHR ''('' \<notin> set a"
    and "CHR ''('' \<notin> set c" and "CHR '')'' \<notin> set c"
  shows "fixTuplegetterQuotes (a @ call c @ z) = Some (a @ call (double_quotes c) @ z)"
proof -
  let ?q = "a @ call (double_quotes c) @ z" and ?i = "length a + 13 + length c + 1"
  have turn: "fix_turn (a @ call c @ z) 0 = Some (?q, ?i)"
    by (rule fix_turn_call[where r = "length a"]) (use assms next_call in auto)
  have "CHR ''_'' \<notin> set (drop ?i ?q)"
    unfolding after_call using assms(2,3) double_quotes_set[of c] by (auto dest!: in_set_dropD)
  then have "fix_turn ?q ?i = None"
    using str_index_absent[of "CHR ''_''" _ "''tuplegetter''"] by (simp add: fix_turn_def tuplegetter_def)
  then show ?thesis
    unfolding fixTuplegetterQuotes_def using turn by (simp add: fix_loop.simps)
qed

lemma never_returns:
  assumes "fix_turn q i = Some (q, i)"
  shows "fix_loop q i = None"
proof -
  have "q' \<noteq> q \<or> i' \<noteq> i" if "fix_loop q' i' = Some r" for q' i' r
    using that
  proof (rule fix_loop.raw_induct[rotated])
    fix f q' i' r
    assume "\<And>q' i' r. f q' i' = Some r \<Longrightarrow> q' \<noteq> q \<or> i' \<noteq> i"
      and "(case fix_turn q' i' of None \<Rightarrow> Some q' | Some (result', tupleStart') \<Rightarrow> f result' tupleStart') = Some r"
    then show "q' \<noteq> q \<or> i' \<noteq> i" using assms by (fastforce split: option.splits)
  qed
  then show ?thesis by (cases "fix_loop q i") blast+
qed

lemma two_calls_loop:
  assumes "CHR ''_'' \<notin> set a" and "CHR ''_'' \<notin> set c" and "CHR ''_'' \<notin> set m" and "CHR ''('' \<notin> set a"
    and "CHR ''('' \<notin> set c" and "CHR '')'' \<notin> set c"
    and near: "length m + length (double_quotes c) \<le> length a + 12 + length c"
  shows "fixTuplegetterQuotes (a @ call c @ m @ call d @ z) = None"
proof -
  let ?z = "m @ call d @ z" and ?c = "double_quotes c"
  let ?q = "a @ call ?c @ ?z" and ?i = "length a + 13 + length c + 1" and ?j = "length a + 13 + length (double_quotes c) + 1"
  note sub = double_quotes_set[of c]
  have turn: "fix_turn (a @ call c @ ?z) 0 = Some (?q, ?i)"
    by (rule fix_turn_call[where r = "length a"]) (use assms next_call in auto)
  have from_to: "\<exists>r. str_index (drop (length a + 13 + k + 1) ?q) tuplegetter = Some r \<and> r \<le> length m + (length ?c - k)"
    if k: "k \<le> length ?c" for k
  proof -
    let ?t = "drop (k + 1) (?c @ '')'')"
    have "drop (length a + 13 + k + 1) ?q = (?t @ m) @ call d @ z"
      unfolding after_call using k by (cases "k = length (double_quotes c)") simp_all
    moreover have "CHR ''_'' \<notin> set (?t @ m)" using sub assms(2,3) by (auto dest!: in_set_dropD)
    ultimately show ?thesis using next_call[of "?t @ m" d z] k by simp
  qed
  have flat: "CHR ''('' \<notin> set ?c" "CHR '')'' \<notin> set ?c" using sub assms(5,6) by auto
  have step: "fix_turn ?q (length a + 13 + k + 1) = Some (?q, ?j)" if k: "length c \<le> k" "k \<le> length ?c" for k
  proof -
    from from_to[OF k(2)] obtain r where "str_index (drop (length a + 13 + k + 1) ?q) tuplegetter = Some r"
      "r \<le> length m + (length ?c - k)" by blast
    moreover from this(2) have "r \<le> length a + 12" using near k by linarith
    ultimately show ?thesis using fix_turn_call[OF _ _ assms(4) flat] by simp
  qed
  have "fix_loop ?q ?j = None" by (rule never_returns) (use step[of "length ?c"] double_quotes_length[of c] in simp)
  moreover have "fix_turn ?q ?i = Some (?q, ?j)" using step[of "length c"] double_quotes_length[of c] by simp
  ultimately show ?thesis
    unfolding fixTuplegetterQuotes_def using turn by (simp add: fix_loop.simps)
qed

text \<open>
  C36.  A statement with two \<open>_tuplegetter\<close> calls hangs its handler: when no other underscore occurs before
  the second call and the text between them is at most about as long as the text before the first
  one, as in \<open>WHERE a='_tuplegetter(0)' AND b='_tuplegetter(1)'\<close>, the rewriting never returns, so neither does
  \<open>SqlDML\<close>, whatever the database; with one such call it returns, the apostrophes inside the call
  doubled and the rest unchanged.
\<close>
theorem two_tuplegetters_hang:
  assumes "CHR ''_'' \<notin> set (a @ c @ m)" and "CHR ''('' \<notin> set (a @ c)" and "CHR '')'' \<notin> set c"
  shows "(length m + length (double_quotes c) \<le> length a + 12 + length c
      \<longrightarrow> SqlDML drv (a @ call c @ m @ call d @ z) st = None)
    \<and> fixTuplegetterQuotes (a @ call c @ m) = Some (a @ call (double_quotes c) @ m)"
  using two_calls_loop[of a c m d z] single_call_fixed[of a c m] assms by (auto simp: SqlDML_def prepared_def)

theorem two_tuplegetters_hang_witness:
  "\<forall>(drv :: (unit, unit) sql_driver) st. SqlDML drv ''SELECT x WHERE a=_tuplegetter(0) AND b=_tuplegetter(1)'' st = None"
proof (intro allI)
  fix drv :: "(unit, unit) sql_driver" and st
  show "SqlDML drv ''SELECT x WHERE a=_tuplegetter(0) AND b=_tuplegetter(1)'' st = None"
    using two_tuplegetters_hang[of "''SELECT x WHERE a=''" "''0''" "'' AND b=''" drv "''1''" "''''" st]
    by (simp add: call_def tuplegetter_def apostrophe_def)
qed

end
