(* ===== verification/QueryEngine.thy ===== *)
theory QueryEngine
  imports Query
begin

text \<open>
  The query engine (\<open>queryengine/\<close>): a cache of answers with a lifetime (\<open>cache.go\<close>), the worker pool that
  asks the peers (\<open>worker_pool.go\<close>) and the engine that joins them (\<open>engine.go\<close>).  The clock and
  \<open>digest\<close>, the hexadecimal SHA-256 of the JSON of a value, are arguments.  The pool is a step relation over
  the channels and the goroutines: the one that sends the jobs, the workers, and the expiry of the
  context.  What a peer answers (\<open>None\<close> for an error) is an argument.
\<close>

section \<open>The cache\<close>

record cache_entry =
  ce_Data :: "document list"
  ce_ExpiresAt :: int
  ce_CreatedAt :: int

record simple_cache =
  entries :: "(string, cache_entry) gomap"
  ttl :: int
  hits :: int
  misses :: int

definition NewSimpleCache :: "int \<Rightarrow> simple_cache" where
  "NewSimpleCache t = \<lparr>entries = [], ttl = t, hits = 0, misses = 0\<rparr>"

definition recordHit :: "simple_cache \<Rightarrow> simple_cache" where
  "recordHit sc = sc\<lparr>hits := hits sc + 1\<rparr>"

definition recordMiss :: "simple_cache \<Rightarrow> simple_cache" where
  "recordMiss sc = sc\<lparr>misses := misses sc + 1\<rparr>"

definition generateKey :: "(json \<Rightarrow> string) \<Rightarrow> document list \<Rightarrow> string" where
  "generateKey digest criteria = digest (JArr (map JObj criteria))"

definition cache_Get :: "(json \<Rightarrow> string) \<Rightarrow> int \<Rightarrow> document list \<Rightarrow> simple_cache \<Rightarrow> document list option \<times> simple_cache" where
  "cache_Get digest t criteria sc =
     (case gm_get (entries sc) (generateKey digest criteria) of
        None \<Rightarrow> (None, recordMiss sc)
      | Some e \<Rightarrow> if t > ce_ExpiresAt e then (None, recordMiss sc) else (Some (ce_Data e), recordHit sc))"

definition cache_Set :: "(json \<Rightarrow> string) \<Rightarrow> int \<Rightarrow> document list \<Rightarrow> document list \<Rightarrow> simple_cache \<Rightarrow> simple_cache" where
  "cache_Set digest t criteria rows sc =
     sc\<lparr>entries := gm_set (generateKey digest criteria) \<lparr>ce_Data = rows, ce_ExpiresAt = t + ttl sc, ce_CreatedAt = t\<rparr> (entries sc)\<rparr>"

text \<open>One tick of \<open>cleanup\<close>.\<close>

definition cleanup_tick :: "int \<Rightarrow> simple_cache \<Rightarrow> simple_cache" where
  "cleanup_tick t sc = sc\<lparr>entries := filter (\<lambda>(k, e). \<not> t > ce_ExpiresAt e) (entries sc)\<rparr>"

record cache_stats =
  st_entries :: nat
  st_ttl :: int
  st_hits :: int
  st_misses :: int
  st_hit_rate :: real

definition Stats :: "simple_cache \<Rightarrow> cache_stats" where
  "Stats sc = (let sum = hits sc + misses sc in
     \<lparr>st_entries = length (entries sc), st_ttl = ttl sc, st_hits = hits sc, st_misses = misses sc,
      st_hit_rate = (if sum > 0 then real_of_int (hits sc) / real_of_int sum * 100 else 0)\<rparr>)"

definition cache_Clear :: "simple_cache \<Rightarrow> simple_cache" where
  "cache_Clear sc = sc\<lparr>entries := []\<rparr>"

section \<open>The worker pool\<close>

datatype 'p worker = Idle | Busy 'p | Gone

record 'p pool =
  unsent :: "'p list"
  jobs :: "'p list"
  workers :: "'p worker list"
  answered :: "('p \<times> document list option) list"
  expired :: bool

definition start_pool :: "int \<Rightarrow> 'p list \<Rightarrow> 'p pool" where
  "start_pool maxWorkers peers =
     \<lparr>unsent = peers, jobs = [], workers = replicate (nat (min maxWorkers (int (length peers)))) Idle,
      answered = [], expired = False\<rparr>"

text \<open>The sender offers every peer to the buffered channel; once the context has expired it may skip
  one (its \<open>break\<close> only leaves the \<open>select\<close>).  A worker that receives a job after the expiry returns
  without asking.\<close>

inductive pool_step :: "('p \<Rightarrow> document list option) \<Rightarrow> 'p pool \<Rightarrow> 'p pool \<Rightarrow> bool" for reply where
  expire: "\<not> expired s \<Longrightarrow> pool_step reply s (s\<lparr>expired := True\<rparr>)"
| send: "unsent s = p # ps \<Longrightarrow> pool_step reply s (s\<lparr>unsent := ps, jobs := jobs s @ [p]\<rparr>)"
| skip: "unsent s = p # ps \<Longrightarrow> expired s \<Longrightarrow> pool_step reply s (s\<lparr>unsent := ps\<rparr>)"
| take: "i < length (workers s) \<Longrightarrow> workers s ! i = Idle \<Longrightarrow> jobs s = p # ps \<Longrightarrow> \<not> expired s \<Longrightarrow>
    pool_step reply s (s\<lparr>jobs := ps, workers := (workers s)[i := Busy p]\<rparr>)"
| abandon: "i < length (workers s) \<Longrightarrow> workers s ! i = Idle \<Longrightarrow> jobs s = p # ps \<Longrightarrow> expired s \<Longrightarrow>
    pool_step reply s (s\<lparr>jobs := ps, workers := (workers s)[i := Gone]\<rparr>)"
| answer: "i < length (workers s) \<Longrightarrow> workers s ! i = Busy p \<Longrightarrow> r = reply p \<or> expired s \<and> r = None \<Longrightarrow>
    pool_step reply s (s\<lparr>workers := (workers s)[i := Idle], answered := answered s @ [(p, r)]\<rparr>)"
| leave: "i < length (workers s) \<Longrightarrow> workers s ! i = Idle \<Longrightarrow> jobs s = [] \<Longrightarrow> unsent s = [] \<Longrightarrow>
    pool_step reply s (s\<lparr>workers := (workers s)[i := Gone]\<rparr>)"

inductive_cases pool_stepE: "pool_step reply s s'"

inductive pool_reach :: "('p \<Rightarrow> document list option) \<Rightarrow> 'p pool \<Rightarrow> 'p pool \<Rightarrow> bool" for reply s where
  reach_refl: "pool_reach reply s s"
| reach_step: "pool_reach reply s t \<Longrightarrow> pool_step reply t u \<Longrightarrow> pool_reach reply s u"

text \<open>\<open>results\<close> is closed when all workers have returned; then the collecting loop ends.\<close>

definition pool_finished :: "'p pool \<Rightarrow> bool" where
  "pool_finished s \<longleftrightarrow> (\<forall>w \<in> set (workers s). w = Gone)"

text \<open>The request to one peer; \<open>exchange\<close> opens the stream, sends the JSON and decodes the response.\<close>

definition queryPeer ::
  "(document \<Rightarrow> document list option) \<Rightarrow> string \<Rightarrow> document list \<Rightarrow> string \<Rightarrow> string list \<Rightarrow> document list option" where
  "queryPeer exchange selfID criteria traceID tracePath = exchange
     [(''criteria'', JArr (map JObj criteria)), (''trace_id'', JStr traceID),
      (''trace_path'', json_path (tracePath @ [selfID])),
      (''options'', JObj [(''strategy'', JStr ''LOCAL_ONLY''), (''include_local'', JBool True),
                          (''annotate_source'', JBool True)])]"

definition generateItemKey :: "(json \<Rightarrow> string) \<Rightarrow> document \<Rightarrow> string" where
  "generateItemKey digest item = (case gm_get item ''_id'' of Some (JStr s) \<Rightarrow> s | _ \<Rightarrow> digest (JObj item))"

definition collectResults :: "(json \<Rightarrow> string) \<Rightarrow> ('p \<times> document list option) list \<Rightarrow> document list" where
  "collectResults digest results =
     claim_rows (generateItemKey digest) {} (concat (map (\<lambda>(p, r). case r of Some rows \<Rightarrow> rows | None \<Rightarrow> []) results))"

section \<open>The engine\<close>

text \<open>\<open>Query\<close> on the peers of the peer store, with what the pool collects for the peers other than the
  node itself.\<close>

definition engine_Query ::
  "(json \<Rightarrow> string) \<Rightarrow> (int \<times> int) \<Rightarrow> ('p list \<Rightarrow> ('p \<times> document list option) list) \<Rightarrow> 'p \<Rightarrow> 'p list \<Rightarrow> document list
   \<Rightarrow> simple_cache \<Rightarrow> document list \<times> simple_cache" where
  "engine_Query digest clk pool_run selfID allPeers criteria sc =
     (case cache_Get digest (fst clk) criteria sc of
        (Some cached, sc1) \<Rightarrow> (cached, sc1)
      | (None, sc1) \<Rightarrow>
          (let peers = filter (\<lambda>p. p \<noteq> selfID) allPeers
           in if peers = [] then ([], sc1)
              else let results = collectResults digest (pool_run peers)
                   in (results, if results = [] then sc1 else cache_Set digest (snd clk) criteria results sc1)))"

section \<open>The cache answers with fresh rows only\<close>

datatype cache_op = CSet int "document list" "document list" | CGet int "document list" | CCleanup int | CClear

fun op_time :: "cache_op \<Rightarrow> int option" where
  "op_time (CSet t _ _) = Some t" | "op_time (CGet t _) = Some t" | "op_time (CCleanup t) = Some t" | "op_time CClear = None"

fun cache_step :: "(json \<Rightarrow> string) \<Rightarrow> simple_cache \<Rightarrow> cache_op \<Rightarrow> simple_cache" where
  "cache_step digest sc (CSet t c rows) = cache_Set digest t c rows sc"
| "cache_step digest sc (CGet t c) = snd (cache_Get digest t c sc)"
| "cache_step digest sc (CCleanup t) = cleanup_tick t sc"
| "cache_step digest sc CClear = cache_Clear sc"

text \<open>The reference: the last answer stored for a key since the cache was cleared, with its time.\<close>

fun last_set :: "(json \<Rightarrow> string) \<Rightarrow> string \<Rightarrow> (int \<times> document list) option \<Rightarrow> cache_op \<Rightarrow> (int \<times> document list) option" where
  "last_set digest k acc (CSet t c rows) = (if generateKey digest c = k then Some (t, rows) else acc)"
| "last_set digest k acc CClear = None"
| "last_set digest k acc _ = acc"

lemma cache_step_ttl [simp]: "ttl (cache_step digest sc op) = ttl sc"
  by (cases op) (auto simp: cache_Set_def cache_Get_def recordHit_def recordMiss_def cleanup_tick_def cache_Clear_def split: option.splits)

lemma gm_get_filter:
  "gm_wf m \<Longrightarrow> gm_get (filter (\<lambda>(k, v). P v) m) k = (case gm_get m k of Some v \<Rightarrow> if P v then Some v else None | None \<Rightarrow> None)"
proof (induction m)
  case (Cons x m)
  have "gm_get m k = None" if "fst x = k" using Cons.prems that by (simp add: map_of_eq_None_iff)
  then show ?case using Cons by (cases x) auto
qed simp

text \<open>The entry of a key: either the last answer stored, or that answer has already expired.\<close>

definition entry_agrees :: "int \<Rightarrow> int \<Rightarrow> (int \<times> document list) option \<Rightarrow> cache_entry option \<Rightarrow> bool" where
  "entry_agrees life t stored e = (case e of
       Some e \<Rightarrow> stored = Some (ce_CreatedAt e, ce_Data e) \<and> ce_ExpiresAt e = ce_CreatedAt e + life
     | None \<Rightarrow> (case stored of None \<Rightarrow> True | Some (t0, rows) \<Rightarrow> t0 + life < t))"

definition cache_agrees :: "int \<Rightarrow> (string \<Rightarrow> (int \<times> document list) option) \<Rightarrow> simple_cache \<Rightarrow> bool" where
  "cache_agrees t stored sc \<longleftrightarrow> gm_wf (entries sc) \<and> (\<forall>k. entry_agrees (ttl sc) t (stored k) (gm_get (entries sc) k))"

lemma entry_agrees_later: "entry_agrees life t stored e \<Longrightarrow> t \<le> t' \<Longrightarrow> entry_agrees life t' stored e"
  by (auto simp: entry_agrees_def split: option.splits)

lemma entry_agrees_clean:
  "entry_agrees life t stored e \<Longrightarrow> entry_agrees life t stored (case e of Some v \<Rightarrow> if \<not> t > ce_ExpiresAt v then Some v else None | None \<Rightarrow> None)"
  by (auto simp: entry_agrees_def split: option.splits)

lemma cache_Get_entries [simp]: "entries (snd (cache_Get digest t c sc)) = entries sc"
  by (simp add: cache_Get_def recordHit_def recordMiss_def split: option.split)

definition after :: "int \<Rightarrow> cache_op \<Rightarrow> int" where
  "after t op = (case op_time op of Some u \<Rightarrow> u | None \<Rightarrow> t)"

lemma cache_agrees_step:
  assumes "cache_agrees t stored sc" and "t \<le> after t op"
  shows "cache_agrees (after t op) (\<lambda>k. last_set digest k (stored k) op) (cache_step digest sc op)"
proof -
  have wf: "gm_wf (entries sc)" and agree: "entry_agrees (ttl sc) (after t op) (stored k) (gm_get (entries sc) k)" for k
    using assms entry_agrees_later unfolding cache_agrees_def by blast+
  have "entry_agrees (ttl sc) (after t op) (last_set digest k (stored k) op) (gm_get (entries (cache_step digest sc op)) k)" for k
    using agree[of k] entry_agrees_clean[OF agree[of k]]
    by (cases op) (auto simp: cache_Set_def cache_Clear_def cleanup_tick_def gm_get_filter[OF wf] entry_agrees_def[of _ _ _ "Some _"]
        entry_agrees_def[of _ _ None None] after_def cong: option.case_cong)
  moreover have "gm_wf (entries (cache_step digest sc op))"
    using wf by (cases op) (auto simp: cache_Set_def cleanup_tick_def cache_Clear_def distinct_map_filter)
  ultimately show ?thesis by (simp add: cache_agrees_def)
qed

fun in_time :: "int \<Rightarrow> cache_op list \<Rightarrow> bool" where
  "in_time t [] = True" | "in_time t (op # ops) = (t \<le> after t op \<and> in_time (after t op) ops)"

lemma cache_agrees_run:
  "cache_agrees t stored sc \<Longrightarrow> in_time t ops \<Longrightarrow>
   cache_agrees (foldl after t ops) (\<lambda>k. foldl (last_set digest k) (stored k) ops) (foldl (cache_step digest) sc ops)"
proof (induction ops arbitrary: t stored sc)
  case (Cons op ops)
  from Cons.IH[OF cache_agrees_step[OF Cons.prems(1)]] Cons.prems(2) show ?case by simp
qed simp

lemma ttl_run [simp]: "ttl (foldl (cache_step digest) sc ops) = ttl sc"
  by (induction ops arbitrary: sc) simp_all

text \<open>
  C37.  The cache answers a query exactly when its last answer is fresh: after any operations in the order of
  the clock, cleanups at any moments included, a lookup returns the rows that were stored last under
  the key of the criteria since the cache was cleared, as long as their lifetime has not passed, and
  nothing otherwise.
\<close>
theorem cache_answers_fresh_rows:
  assumes "in_time t0 (ops @ [CGet t criteria])"
  shows "fst (cache_Get digest t criteria (foldl (cache_step digest) (NewSimpleCache life) ops)) =
    (case foldl (last_set digest (generateKey digest criteria)) None ops of
       Some (t1, rows) \<Rightarrow> if t \<le> t1 + life then Some rows else None | None \<Rightarrow> None)"
proof -
  let ?sc = "foldl (cache_step digest) (NewSimpleCache life) ops" and ?k = "generateKey digest criteria"
  have split: "in_time u (ops @ [op]) \<Longrightarrow> in_time u ops \<and> foldl after u ops \<le> after (foldl after u ops) op" for u op
    by (induction ops arbitrary: u) auto
  have "cache_agrees t0 (\<lambda>_. None) (NewSimpleCache life)"
    by (simp add: cache_agrees_def NewSimpleCache_def entry_agrees_def)
  from cache_agrees_run[OF this, of ops digest] split[OF assms]
  have "entry_agrees life (foldl after t0 ops) (foldl (last_set digest ?k) None ops) (gm_get (entries ?sc) ?k)"
    "foldl after t0 ops \<le> t"
    by (simp_all add: cache_agrees_def NewSimpleCache_def after_def)
  then show ?thesis
    by (auto simp: cache_Get_def entry_agrees_def recordHit_def recordMiss_def split: option.splits)
qed


theorem cache_answers_fresh_rows_witness:
  "fst (cache_Get (\<lambda>_. ''k'') 14 [] (cache_step (\<lambda>_. ''k'') (cache_step (\<lambda>_. ''k'') (NewSimpleCache 10) (CSet 5 [] [[]])) (CCleanup 12))) = Some [[]]"
  using cache_answers_fresh_rows[of 0 "[CSet 5 [] [[]], CCleanup 12]" 14 "[]" "\<lambda>_. ''k''" 10]
  by (simp add: after_def generateKey_def)

section \<open>The pool asks every peer once\<close>

lemma sum_list_update:
  "i < length ws \<Longrightarrow> sum_list (map f (ws[i := w])) + f (ws ! i) = sum_list (map f ws) + (f w :: 'b :: comm_monoid_add)"
proof (induction ws arbitrary: i)
  case (Cons v ws)
  then show ?case by (cases i) (simp_all add: ac_simps)
qed simp

definition in_hand :: "'p worker \<Rightarrow> 'p multiset" where
  "in_hand w = (case w of Busy p \<Rightarrow> {#p#} | _ \<Rightarrow> {#})"

definition under_way :: "'p pool \<Rightarrow> 'p multiset" where
  "under_way s = mset (unsent s) + mset (jobs s) + sum_list (map in_hand (workers s)) + mset (map fst (answered s))"

definition effort :: "'p worker \<Rightarrow> nat" where
  "effort w = (case w of Idle \<Rightarrow> 1 | Busy _ \<Rightarrow> 3 | Gone \<Rightarrow> 0)"

definition pool_work :: "'p pool \<Rightarrow> nat" where
  "pool_work s = 4 * length (unsent s) + 3 * length (jobs s) + sum_list (map effort (workers s)) + (if expired s then 0 else 1)"

definition pool_inv :: "('p \<Rightarrow> document list option) \<Rightarrow> 'p list \<Rightarrow> 'p pool \<Rightarrow> bool" where
  "pool_inv reply peers s \<longleftrightarrow> under_way s \<subseteq># mset peers \<and> (\<not> expired s \<longrightarrow> under_way s = mset peers)
     \<and> (\<forall>(p, r) \<in> set (answered s). r = reply p \<or> expired s \<and> r = None)
     \<and> (Gone \<in> set (workers s) \<longrightarrow> expired s \<or> unsent s = [] \<and> jobs s = [])"

lemma hand_update:
  "i < length ws \<Longrightarrow> ws ! i = v \<Longrightarrow> sum_list (map in_hand (ws[i := w])) + in_hand v = sum_list (map in_hand ws) + in_hand w"
  "i < length ws \<Longrightarrow> ws ! i = v \<Longrightarrow> sum_list (map effort (ws[i := w])) + effort v = sum_list (map effort ws) + effort w"
  using sum_list_update[of i ws in_hand w] sum_list_update[of i ws effort w] by auto

lemma under_way_step:
  "pool_step reply s s' \<Longrightarrow> under_way s' \<subseteq># under_way s \<and> (\<not> expired s \<longrightarrow> under_way s' = under_way s)"
proof (induction rule: pool_step.induct)
  case (take i s p ps)
  then show ?case using hand_update(1)[of i "workers s" Idle "Busy p"] by (simp add: under_way_def in_hand_def)
next
  case (abandon i s p ps)
  then show ?case using hand_update(1)[of i "workers s" Idle Gone] by (simp add: under_way_def in_hand_def)
next
  case (answer i s p r)
  then show ?case using hand_update(1)[of i "workers s" "Busy p" Idle] by (simp add: under_way_def in_hand_def)
next
  case (leave i s)
  then show ?case using hand_update(1)[of i "workers s" Idle Gone] by (simp add: under_way_def in_hand_def)
qed (simp_all add: under_way_def)

lemma pool_inv_step: "pool_inv reply peers s \<Longrightarrow> pool_step reply s s' \<Longrightarrow> pool_inv reply peers s'"
proof -
  assume inv: "pool_inv reply peers s" and step: "pool_step reply s s'"
  have mono: "expired s \<Longrightarrow> expired s'" using step by cases simp_all
  have "under_way s' \<subseteq># mset peers \<and> (\<not> expired s' \<longrightarrow> under_way s' = mset peers)"
    using inv under_way_step[OF step] mono unfolding pool_inv_def by (metis subset_mset.trans)
  moreover have "(\<forall>(p, r) \<in> set (answered s'). r = reply p \<or> expired s' \<and> r = None)
     \<and> (Gone \<in> set (workers s') \<longrightarrow> expired s' \<or> unsent s' = [] \<and> jobs s' = [])"
    using step inv by cases (auto simp: pool_inv_def dest!: set_update_subset_insert[THEN subsetD])
  ultimately show ?thesis by (simp add: pool_inv_def)
qed

lemma pool_inv_start: "pool_inv reply peers (start_pool n peers)"
proof -
  have "sum_list (map in_hand (replicate k Idle)) = {#}" for k by (induction k) (simp_all add: in_hand_def)
  then show ?thesis by (simp add: pool_inv_def start_pool_def under_way_def)
qed

lemma pool_inv_reach: "pool_reach reply (start_pool n peers) s \<Longrightarrow> pool_inv reply peers s \<and> length (workers s) = nat (min n (int (length peers)))"
proof (induction rule: pool_reach.induct)
  case reach_refl
  then show ?case by (simp add: pool_inv_start) (simp add: start_pool_def)
next
  case (reach_step t u)
  moreover from reach_step.hyps(2) have "length (workers u) = length (workers t)" by cases simp_all
  ultimately show ?case using pool_inv_step by metis
qed

lemma pool_work_decreases: "pool_step reply s s' \<Longrightarrow> pool_work s' < pool_work s"
proof (induction rule: pool_step.induct)
  case (take i s p ps)
  then show ?case using hand_update(2)[of i "workers s" Idle "Busy p"] by (simp add: pool_work_def effort_def)
next
  case (abandon i s p ps)
  then show ?case using hand_update(2)[of i "workers s" Idle Gone] by (simp add: pool_work_def effort_def)
next
  case (answer i s p r)
  then show ?case using hand_update(2)[of i "workers s" "Busy p" Idle] by (simp add: pool_work_def effort_def)
next
  case (leave i s)
  then show ?case using hand_update(2)[of i "workers s" Idle Gone] by (simp add: pool_work_def effort_def)
qed (simp_all add: pool_work_def)

lemma pool_progress: "\<not> pool_finished s \<Longrightarrow> \<exists>s'. pool_step reply s s'"
proof -
  assume "\<not> pool_finished s"
  then obtain i where i: "i < length (workers s)" "workers s ! i \<noteq> Gone"
    by (auto simp: pool_finished_def in_set_conv_nth)
  show ?thesis
  proof (cases "workers s ! i")
    case Idle
    then show ?thesis using i(1) pool_step.intros by (metis list.exhaust)
  next
    case (Busy p)
    then show ?thesis using i(1) pool_step.answer by metis
  qed (use i in simp)
qed

lemma pool_finished_hands: "pool_finished s \<Longrightarrow> sum_list (map in_hand (workers s)) = {#}"
proof -
  assume "pool_finished s"
  then have "map in_hand (workers s) = map (\<lambda>_. {#}) (workers s)" by (auto simp: pool_finished_def in_hand_def)
  then show ?thesis by (simp only: sum_list_0)
qed

lemma finished_pool:
  assumes "0 < n" and "peers \<noteq> []" and "pool_reach reply (start_pool n peers) s" and "pool_finished s" and "\<not> expired s"
  shows "mset (answered s) = mset (map (\<lambda>p. (p, reply p)) peers)"
proof -
  have inv: "pool_inv reply peers s" and len: "length (workers s) = nat (min n (int (length peers)))"
    using pool_inv_reach[OF assms(3)] by auto
  have "workers s \<noteq> []" using len assms(1,2) by (metis length_0_conv length_greater_0_conv min_less_iff_conj of_nat_0_less_iff zero_less_nat_eq less_irrefl)
  then have "Gone \<in> set (workers s)" using assms(4) unfolding pool_finished_def by (metis list.set_sel(1))
  then have "unsent s = []" "jobs s = []" "under_way s = mset peers"
    using inv assms(5) by (auto simp: pool_inv_def)
  then have "mset (map fst (answered s)) = mset peers"
    using pool_finished_hands[OF assms(4)] by (simp add: under_way_def)
  then have "image_mset (\<lambda>p. (p, reply p)) (mset (map fst (answered s))) = mset (map (\<lambda>p. (p, reply p)) peers)" by simp
  moreover have "map (\<lambda>p. (p, reply p)) (map fst (answered s)) = answered s"
    using inv assms(5) by (auto simp: pool_inv_def intro!: map_idI)
  ultimately show ?thesis by (metis mset_map)
qed


section \<open>An answer of the engine\<close>

text \<open>A worker's request makes the peer answer with its own rows only, unless it is the sender itself.\<close>

lemma queryPeer_local_rows:
  assumes "criteria \<noteq> []" and "self_id w \<noteq> selfID"
  shows "queryPeer (\<lambda>msg. Some (handleQueryStream w msg)) selfID criteria traceID [] =
    Some (local_tagged w default_options criteria traceID [selfID, self_id w])"
  using peer_request_local_only[OF assms(1), of w selfID traceID "[]"] assms(2)
  by (simp add: queryPeer_def peer_request_def)

definition rows_of :: "('p \<Rightarrow> document list option) \<Rightarrow> 'p list \<Rightarrow> document set" where
  "rows_of reply peers = {x. \<exists>p \<in> set peers. \<exists>rows. reply p = Some rows \<and> x \<in> set rows}"

lemma collected_keys:
  assumes "mset results = mset (map (\<lambda>p. (p, reply p)) peers)"
  shows "generateItemKey digest ` set (collectResults digest results) = generateItemKey digest ` rows_of reply peers
    \<and> distinct (map (generateItemKey digest) (collectResults digest results))
    \<and> set (collectResults digest results) \<subseteq> rows_of reply peers"
proof -
  have s: "set results = (\<lambda>p. (p, reply p)) ` set peers" using mset_eq_setD[OF assms] by simp
  have "x \<in> set (case r of Some rows \<Rightarrow> rows | None \<Rightarrow> []) \<longleftrightarrow> (\<exists>rows. r = Some rows \<and> x \<in> set rows)" for x r
    by (cases r) auto
  then have "set (concat (map (\<lambda>(p, r). case r of Some rows \<Rightarrow> rows | None \<Rightarrow> []) results)) = rows_of reply peers"
    by (auto simp: set_concat s rows_of_def set_eq_iff eq_commute)
  then show ?thesis
    unfolding collectResults_def
    using claim_rows_keys[of "generateItemKey digest" "{}"] claim_rows_distinct[of "generateItemKey digest" "{}"]
      claim_rows_subset[of "generateItemKey digest" "{}"] by (metis Diff_empty)
qed

text \<open>
  An answer of the query engine is complete and is served again from the cache: when the cache has no
  fresh answer and the pool ends before the context expires, the engine returns exactly one row for
  every key found at any peer other than the node itself; and the same query within the lifetime
  returns the same rows without asking anybody, provided there are any.
\<close>
theorem engine_answer_complete:
  fixes reply :: "'p \<Rightarrow> document list option"
  defines "peers allPeers self \<equiv> filter (\<lambda>p. p \<noteq> self) (allPeers :: 'p list)"
  assumes "fst (cache_Get digest (fst clk) criteria sc) = None" and "0 < n" and "peers allPeers self \<noteq> []"
    and "pool_reach reply (start_pool n (peers allPeers self)) s" and "pool_finished s" and "\<not> expired s"
    and "engine_Query digest clk (\<lambda>_. answered s) self allPeers criteria sc = (rows, sc')"
  shows "generateItemKey digest ` set rows = generateItemKey digest ` rows_of reply (peers allPeers self)
    \<and> distinct (map (generateItemKey digest) rows)
    \<and> (rows \<noteq> [] \<and> fst clk' \<le> snd clk + ttl sc \<longrightarrow>
        fst (engine_Query digest clk' run self allPeers criteria sc') = rows)"
proof -
  let ?r = "collectResults digest (answered s)" and ?sc1 = "snd (cache_Get digest (fst clk) criteria sc)"
  have rows: "rows = ?r" "sc' = (if ?r = [] then ?sc1 else cache_Set digest (snd clk) criteria ?r ?sc1)"
    using assms(2,4,8) by (auto simp: engine_Query_def peers_def Let_def split: prod.splits)
  have "ttl ?sc1 = ttl sc" by (simp add: cache_Get_def recordHit_def recordMiss_def split: option.split)
  then have "fst (engine_Query digest clk' run self allPeers criteria sc') = rows" if "rows \<noteq> []" "fst clk' \<le> snd clk + ttl sc"
    using that rows by (simp add: engine_Query_def cache_Get_def[of _ "fst clk'"] cache_Set_def)
  moreover note collected_keys[OF finished_pool[OF assms(3-7)], of digest, folded rows(1)]
  ultimately show ?thesis by simp
qed

section \<open>Witnesses\<close>

definition one_row :: "nat \<Rightarrow> document list option" where
  "one_row p = Some [[(''_id'', JStr ''x'')]]"

text \<open>A full run of the pool with one peer and one worker.\<close>

definition finished_run :: "nat pool" where
  "finished_run = \<lparr>unsent = [], jobs = [], workers = [Gone], answered = [(7, one_row 7)], expired = False\<rparr>"

lemma one_peer_run: "pool_reach one_row (start_pool 1 [7]) finished_run"
proof -
  let ?s1 = "\<lparr>unsent = [], jobs = [7 :: nat], workers = [Idle], answered = [], expired = False\<rparr>"
  let ?s2 = "\<lparr>unsent = [], jobs = [], workers = [Busy 7], answered = [], expired = False\<rparr>"
  let ?s3 = "\<lparr>unsent = [], jobs = [], workers = [Idle], answered = [(7, one_row 7)], expired = False\<rparr>"
  have "start_pool 1 [7 :: nat] = \<lparr>unsent = [7], jobs = [], workers = [Idle], answered = [], expired = False\<rparr>"
    by (simp add: start_pool_def)
  then have "pool_step one_row (start_pool 1 [7]) ?s1" using pool_step.send[of "start_pool 1 [7]" 7 "[]" one_row] by simp
  moreover have "pool_step one_row ?s1 ?s2" using pool_step.take[of 0 ?s1 7 "[]" one_row] by simp
  moreover have "pool_step one_row ?s2 ?s3" using pool_step.answer[of 0 ?s2 7 "one_row 7" one_row] by simp
  moreover have "pool_step one_row ?s3 finished_run" using pool_step.leave[of 0 ?s3 one_row] by (simp add: finished_run_def)
  ultimately show ?thesis by (meson reach_refl reach_step)
qed


theorem engine_answer_complete_witness:
  "\<exists>rows sc'. engine_Query (\<lambda>_. ''k'') (0, 1) (\<lambda>_. answered finished_run) 3 [3, 7] [] (NewSimpleCache 10) = (rows, sc')
     \<and> generateItemKey (\<lambda>_. ''k'') ` set rows = {''x''}"
proof -
  obtain rows sc' where r: "engine_Query (\<lambda>_. ''k'') (0, 1) (\<lambda>_. answered finished_run) 3 [3, 7] [] (NewSimpleCache 10) = (rows, sc')"
    by force
  have p: "pool_reach one_row (start_pool 1 (filter (\<lambda>p. p \<noteq> 3) [3, 7])) finished_run" using one_peer_run by simp
  have "fst (cache_Get (\<lambda>_. ''k'') (fst (0, 1 :: int)) [] (NewSimpleCache 10)) = None"
    by (simp add: cache_Get_def NewSimpleCache_def)
  from engine_answer_complete[OF this _ _ p _ _ r]
  have "generateItemKey (\<lambda>_. ''k'') ` set rows = generateItemKey (\<lambda>_. ''k'') ` rows_of one_row [7]"
    by (simp add: pool_finished_def finished_run_def)
  moreover have "rows_of one_row [7] = {[(''_id'', JStr ''x'')]}" by (auto simp: rows_of_def one_row_def)
  ultimately show ?thesis using r by (auto simp: generateItemKey_def)
qed

end
