(* ===== verification/SqlScan.thy ===== *)
theory SqlScan
  imports SqlText Tuple
begin

text \<open>
  The scanner of the SQL engine (\<open>sql/sql/go_scanner.go\<close>, \<open>sql/sql/scanner.go\<close>): from the characters of
  a statement to its tokens.  The state holds the input from the look-ahead character on, so the source
  buffer of the code does not appear and the text of a token is the input consumed by it; the
  characters are those of ASCII.  Errors of the scanner are only printed by the code: they are counted.
\<close>

section \<open>Characters\<close>

definition newline :: char where "newline = CHR 10"

definition code :: "char \<Rightarrow> nat" where "code c = of_char c"

definition lower :: "char \<Rightarrow> char" where
  "lower c = (if (code c div 32) mod 2 = 0 then char_of (code c + 32) else c)"

definition isDecimal :: "char \<Rightarrow> bool" where
  "isDecimal c \<longleftrightarrow> 48 \<le> code c \<and> code c \<le> 57"

definition isHex :: "char \<Rightarrow> bool" where
  "isHex c \<longleftrightarrow> isDecimal c \<or> 97 \<le> code (lower c) \<and> code (lower c) \<le> 102"

definition isLetter :: "char \<Rightarrow> bool" where
  "isLetter c \<longleftrightarrow> 65 \<le> code c \<and> code c \<le> 90 \<or> 97 \<le> code c \<and> code c \<le> 122"

definition isIdentRune :: "char \<Rightarrow> nat \<Rightarrow> bool" where
  "isIdentRune c i \<longleftrightarrow> c = CHR ''_'' \<or> isLetter c \<or> isDecimal c \<and> i > 0"

definition GoWhitespace :: "char \<Rightarrow> bool" where
  "GoWhitespace c \<longleftrightarrow> code c \<in> {9, 10, 13, 32}"

section \<open>Reading characters\<close>

record scanner =
  input :: string
  line :: nat
  column :: nat
  lastLineLen :: nat
  lastCharLen :: nat
  started :: bool
  ErrorCount :: nat
  pos_Line :: nat
  pos_Column :: nat

definition Init :: "string \<Rightarrow> scanner" where
  "Init src = \<lparr>input = src, line = 1, column = 0, lastLineLen = 0, lastCharLen = 0, started = False,
     ErrorCount = 0, pos_Line = 0, pos_Column = 0\<rparr>"

definition scan_error :: "scanner \<Rightarrow> scanner" where
  "scan_error s = s\<lparr>ErrorCount := ErrorCount s + 1\<rparr>"

definition read_char :: "string \<Rightarrow> scanner \<Rightarrow> scanner" where
  "read_char inp s =
     (case inp of
        [] \<Rightarrow> s\<lparr>input := [], column := (if lastCharLen s > 0 then column s + 1 else column s), lastCharLen := 0\<rparr>
      | c # _ \<Rightarrow>
          (let s1 = s\<lparr>input := inp, lastCharLen := 1, column := column s + 1\<rparr>
           in if code c = 0 then scan_error s1
              else if c = newline then s1\<lparr>line := line s + 1, lastLineLen := column s1, column := 0\<rparr>
              else s1))"

text \<open>\<open>next\<close>: drop the look-ahead character and read another one.\<close>

definition next_ch :: "scanner \<Rightarrow> scanner" where
  "next_ch s = read_char (tl (input s)) s"

definition Peek :: "scanner \<Rightarrow> scanner" where
  "Peek s = (if started s then s else (read_char (input s) s)\<lparr>started := True\<rparr>)"

definition at_char :: "(char \<Rightarrow> bool) \<Rightarrow> scanner \<Rightarrow> bool" where
  "at_char P s = (case input s of [] \<Rightarrow> False | c # _ \<Rightarrow> P c)"

lemma input_read_char [simp]: "input (read_char inp s) = inp"
  by (simp add: read_char_def Let_def scan_error_def split: list.split)

lemma input_next_ch [simp]: "input (next_ch s) = tl (input s)"
  by (simp add: next_ch_def)

lemma input_Peek [simp]: "input (Peek s) = input s"
  by (simp add: Peek_def)

lemma input_scan_error [simp]: "input (scan_error s) = input s"
  by (simp add: scan_error_def)

lemma at_char_input: "at_char P s \<longleftrightarrow> (\<exists>c cs. input s = c # cs \<and> P c)"
  by (auto simp: at_char_def split: list.split)

function scan_while :: "(char \<Rightarrow> bool) \<Rightarrow> scanner \<Rightarrow> scanner" where
  "scan_while P s = (if at_char P s then scan_while P (next_ch s) else s)"
  by pat_completeness auto
termination
  by (relation "measure (\<lambda>(P, s). length (input s))") (auto simp: at_char_input)

declare scan_while.simps [simp del]

definition consumed :: "scanner \<Rightarrow> scanner \<Rightarrow> string" where
  "consumed s s' = take (length (input s) - length (input s')) (input s)"

definition scanIdentifier :: "scanner \<Rightarrow> scanner" where
  "scanIdentifier s = scan_while (\<lambda>c. isIdentRune c 1) (next_ch s)"

section \<open>Numbers\<close>

text \<open>The result of \<open>digits\<close>: whether there were digits, whether there were separators, and the first
  digit that is too large for the base.\<close>

definition digits :: "nat \<Rightarrow> char option \<Rightarrow> scanner \<Rightarrow> scanner \<times> (bool \<times> bool) \<times> char option" where
  "digits base invalid s =
     (let s' = scan_while (\<lambda>c. (if base \<le> 10 then isDecimal c else isHex c) \<or> c = CHR ''_'') s;
          txt = consumed s s'
      in (s', (list_ex (\<lambda>c. c \<noteq> CHR ''_'') txt, list_ex (\<lambda>c. c = CHR ''_'') txt),
          (if base \<le> 10 \<and> invalid = None then find (\<lambda>c. c \<noteq> CHR ''_'' \<and> code c \<ge> 48 + base) txt else invalid)))"

datatype scan_tok = EOFr | Ident | DelimIdent | IntLit | FloatLit | StringLit | RawString | Rune char

text \<open>\<open>invalidSep\<close>: the first separator that does not stand between digits, walking over the digits
  (\<open>d\<close> is the class of the previous character: a separator, a digit, anything else).\<close>

fun invalid_sep_from :: "char \<Rightarrow> char \<Rightarrow> nat \<Rightarrow> string \<Rightarrow> nat option" where
  "invalid_sep_from x1 d i [] = (if d = CHR ''_'' then Some (i - 1) else None)"
| "invalid_sep_from x1 d i (c # cs) =
     (if c = CHR ''_'' then (if d \<noteq> CHR ''0'' then Some i else invalid_sep_from x1 c (i + 1) cs)
      else if isDecimal c \<or> x1 = CHR ''x'' \<and> isHex c then invalid_sep_from x1 (CHR ''0'') (i + 1) cs
      else if d = CHR ''_'' then Some (i - 1)
      else invalid_sep_from x1 (CHR ''.'') (i + 1) cs)"

definition invalidSep :: "string \<Rightarrow> nat option" where
  "invalidSep x =
     (if length x \<ge> 2 \<and> x ! 0 = CHR ''0'' then
        (let x1 = lower (x ! 1)
         in if x1 \<in> {CHR ''x'', CHR ''o'', CHR ''b''} then invalid_sep_from x1 (CHR ''0'') 2 (drop 2 x)
            else invalid_sep_from x1 (CHR ''.'') 0 x)
      else invalid_sep_from (CHR '' '') (CHR ''.'') 0 x)"

text \<open>The prefix of an integer literal: its letter (\<open>0\<close> for an octal one), its base, whether a digit has
  been seen.\<close>

definition number_prefix :: "scanner \<Rightarrow> (char option \<times> nat \<times> bool) \<times> scanner" where
  "number_prefix s =
     (if at_char (\<lambda>c. c = CHR ''0'') s then
        (let s1 = next_ch s
         in if at_char (\<lambda>c. lower c = CHR ''x'') s1 then ((Some (CHR ''x''), 16, False), next_ch s1)
            else if at_char (\<lambda>c. lower c = CHR ''o'') s1 then ((Some (CHR ''o''), 8, False), next_ch s1)
            else if at_char (\<lambda>c. lower c = CHR ''b'') s1 then ((Some (CHR ''b''), 2, False), next_ch s1)
            else ((Some (CHR ''0''), 8, True), s1))
      else ((None, 10, False), s))"

text \<open>\<open>scanNumber\<close>: \<open>start\<close> is the state at the start of the token.\<close>

definition when_error :: "bool \<Rightarrow> scanner \<Rightarrow> scanner" where
  "when_error b s = (if b then scan_error s else s)"

definition integer_part :: "bool \<Rightarrow> scanner \<Rightarrow> (char option \<times> nat \<times> bool \<times> bool \<times> char option \<times> bool) \<times> scanner" where
  "integer_part seenDot s =
     (if seenDot then ((None, 10, False, False, None, True), s)
      else (case number_prefix s of ((prefix, base, dig0), s1) \<Rightarrow>
        (case digits base None s1 of (s2, (dig, sep), invalid) \<Rightarrow>
           if at_char (\<lambda>c. c = CHR ''.'') s2 then ((prefix, base, dig0 \<or> dig, sep, invalid, True), next_ch s2)
           else ((prefix, base, dig0 \<or> dig, sep, invalid, False), s2))))"

definition exponent_part :: "char option \<Rightarrow> scan_tok \<Rightarrow> scanner \<Rightarrow> scan_tok \<times> bool \<times> scanner" where
  "exponent_part prefix tok s =
     (if at_char (\<lambda>c. lower c = CHR ''e'' \<or> lower c = CHR ''p'') s then
        (let s1 = when_error (if at_char (\<lambda>c. lower c = CHR ''e'') s then prefix \<noteq> None \<and> prefix \<noteq> Some (CHR ''0'')
                              else prefix \<noteq> Some (CHR ''x'')) s;
             s2 = next_ch s1;
             s3 = (if at_char (\<lambda>c. c = CHR ''+'' \<or> c = CHR ''-'') s2 then next_ch s2 else s2)
         in case digits 10 None s3 of (s4, (dig, sep), _) \<Rightarrow> (FloatLit, sep, when_error (\<not> dig) s4))
      else (tok, False, when_error (prefix = Some (CHR ''x'') \<and> tok = FloatLit) s))"

definition scanNumber :: "scanner \<Rightarrow> bool \<Rightarrow> scanner \<Rightarrow> scan_tok \<times> scanner" where
  "scanNumber start seenDot0 s =
     (case integer_part seenDot0 s of ((prefix, base, dig1, sep1, invalid, seenDot), s1) \<Rightarrow>
       (case (if seenDot then
                (case digits base invalid (when_error (prefix = Some (CHR ''o'') \<or> prefix = Some (CHR ''b'')) s1) of
                   (s2, (dig, sep), invalid') \<Rightarrow> (FloatLit, dig1 \<or> dig, sep1 \<or> sep, invalid', s2))
              else (IntLit, dig1, sep1, invalid, s1)) of
          (tok, dig2, sep2, invalid2, s2) \<Rightarrow>
            (case exponent_part prefix tok (when_error (\<not> dig2) s2) of
               (tok', sep3, s3) \<Rightarrow>
                 (let s4 = when_error (tok' = IntLit \<and> invalid2 \<noteq> None) s3
                  in (tok', when_error ((sep2 \<or> sep3) \<and> invalidSep (consumed start s4) \<noteq> None) s4)))))"

section \<open>Strings and comments\<close>

definition digitVal :: "char \<Rightarrow> nat" where
  "digitVal c = (if isDecimal c then code c - 48
     else if 97 \<le> code (lower c) \<and> code (lower c) \<le> 102 then code (lower c) - 97 + 10 else 16)"

fun scanDigits :: "nat \<Rightarrow> nat \<Rightarrow> scanner \<Rightarrow> scanner" where
  "scanDigits base 0 s = s"
| "scanDigits base (Suc n) s =
     (if at_char (\<lambda>c. digitVal c < base) s then scanDigits base n (next_ch s) else scan_error s)"

definition scanEscape :: "char \<Rightarrow> scanner \<Rightarrow> scanner" where
  "scanEscape quote s =
     (let s1 = next_ch s
      in if at_char (\<lambda>c. c \<in> set ''abfnrtv'' \<or> code c = 92 \<or> c = quote) s1 then next_ch s1
         else if at_char (\<lambda>c. c \<in> set ''01234567'') s1 then scanDigits 8 3 s1
         else if at_char (\<lambda>c. c = CHR ''x'') s1 then scanDigits 16 2 (next_ch s1)
         else if at_char (\<lambda>c. c = CHR ''u'') s1 then scanDigits 16 4 (next_ch s1)
         else if at_char (\<lambda>c. c = CHR ''U'') s1 then scanDigits 16 8 (next_ch s1)
         else scan_error s1)"

lemma scanDigits_shorter: "length (input (scanDigits base n s)) \<le> length (input s)"
  by (induction base n s rule: scanDigits.induct) auto

lemma scanEscape_shorter: "input s \<noteq> [] \<Longrightarrow> length (input (scanEscape q s)) < length (input s)"
proof -
  assume "input s \<noteq> []"
  then have l: "length (input (next_ch s)) < length (input s)" by simp
  have le: "length (input (scanDigits b n (next_ch (next_ch s)))) < length (input s)"
    "length (input (scanDigits b n (next_ch s))) < length (input s)" for b n
    using scanDigits_shorter[of b n "next_ch (next_ch s)"] scanDigits_shorter[of b n "next_ch s"] l by auto
  show ?thesis using l le by (auto simp: scanEscape_def Let_def)
qed

function scan_string_body :: "char \<Rightarrow> scanner \<Rightarrow> scanner" where
  "scan_string_body quote s =
     (case input s of
        [] \<Rightarrow> scan_error s
      | c # _ \<Rightarrow>
          (if c = quote then s
           else if c = newline then scan_error s
           else if code c = 92 then scan_string_body quote (scanEscape quote s)
           else scan_string_body quote (next_ch s)))"
  by pat_completeness auto
termination
proof (relation "measure (\<lambda>(q, s). length (input s))")
  show "((quote, scanEscape quote s), quote, s) \<in> measure (\<lambda>(q, s). length (input s))"
    if "input s = c # cs" for quote s c and cs :: string
    using scanEscape_shorter[of s quote] that by simp
qed auto

declare scan_string_body.simps [simp del]

definition scanString :: "char \<Rightarrow> scanner \<Rightarrow> scanner" where
  "scanString quote s = scan_string_body quote (next_ch s)"

definition scanRawString :: "scanner \<Rightarrow> scanner" where
  "scanRawString s =
     (let s1 = scan_while (\<lambda>c. code c \<noteq> 96) (next_ch s) in when_error (input s1 = []) s1)"

function general_comment :: "scanner \<Rightarrow> scanner" where
  "general_comment s =
     (case input s of
        [] \<Rightarrow> scan_error s
      | c # _ \<Rightarrow>
          (let s1 = next_ch s
           in if c = CHR ''*'' \<and> at_char (\<lambda>c. c = CHR ''/'') s1 then next_ch s1 else general_comment s1))"
  by pat_completeness auto
termination
  by (relation "measure (\<lambda>s. length (input s))") auto

declare general_comment.simps [simp del]

definition scanComment :: "scanner \<Rightarrow> scanner" where
  "scanComment s =
     (if at_char (\<lambda>c. c = CHR ''/'') s then scan_while (\<lambda>c. c \<noteq> newline) (next_ch s) else general_comment (next_ch s))"


section \<open>Tokens of the scanner\<close>

lemma scan_while_shorter: "length (input (scan_while P s)) \<le> length (input s)"
  by (induction P s rule: scan_while.induct) (subst scan_while.simps, auto)

lemma digits_shorter: "digits b i s = (s', r) \<Longrightarrow> length (input s') \<le> length (input s)"
  by (auto simp: digits_def Let_def scan_while_shorter)

lemma number_prefix_shorter: "number_prefix s = (r, s') \<Longrightarrow> length (input s') \<le> length (input s)"
  by (auto simp: number_prefix_def Let_def split: if_splits)

lemma input_when_error [simp]: "input (when_error b s) = input s"
  by (simp add: when_error_def)

lemma integer_part_shorter: "integer_part d s = (r, s') \<Longrightarrow> length (input s') \<le> length (input s)"
  by (auto simp: integer_part_def dest!: digits_shorter number_prefix_shorter split: if_splits prod.splits)

lemma exponent_part_shorter: "exponent_part p t s = (t', x, s') \<Longrightarrow> length (input s') \<le> length (input s)"
proof -
  assume "exponent_part p t s = (t', x, s')"
  moreover have "length (input (if b then next_ch (next_ch u) else next_ch u)) \<le> length (input u)" for b u by auto
  ultimately show ?thesis
    by (fastforce simp: exponent_part_def Let_def dest!: digits_shorter split: if_splits prod.splits)
qed

lemma scanNumber_shorter: "scanNumber start d s = (t, s') \<Longrightarrow> length (input s') \<le> length (input s)"
  by (fastforce simp: scanNumber_def Let_def dest!: integer_part_shorter exponent_part_shorter digits_shorter
      split: if_splits prod.splits)

text \<open>The position of a token, set when its first character is the look-ahead.\<close>

definition mark_position :: "scanner \<Rightarrow> scanner" where
  "mark_position s =
     (if column s > 0 then s\<lparr>pos_Line := line s, pos_Column := column s\<rparr>
      else s\<lparr>pos_Line := line s - 1, pos_Column := lastLineLen s\<rparr>)"

lemma input_mark [simp]: "input (mark_position s) = input s"
  by (simp add: mark_position_def)

text \<open>One token, \<open>None\<close> for a comment, which is skipped, starting at a character that is no white space.\<close>

definition scan_token :: "scanner \<Rightarrow> scan_tok option \<times> scanner" where
  "scan_token s =
     (case input s of
        [] \<Rightarrow> (Some EOFr, s)
      | ch # _ \<Rightarrow>
          (if isIdentRune ch 0 then (Some Ident, scanIdentifier s)
           else if isDecimal ch then (case scanNumber s False s of (t, s') \<Rightarrow> (Some t, s'))
           else if ch = quote_char then (Some DelimIdent, next_ch (scanString quote_char s))
           else if ch = apostrophe then (Some StringLit, next_ch (scanString apostrophe s))
           else if ch = CHR ''.'' then
             (if at_char isDecimal (next_ch s) then (case scanNumber s True (next_ch s) of (t, s') \<Rightarrow> (Some t, s'))
              else (Some (Rune ch), next_ch s))
           else if ch = CHR ''/'' then
             (if at_char (\<lambda>c. c = CHR ''/'' \<or> c = CHR ''*'') (next_ch s) then (None, scanComment (next_ch s))
              else (Some (Rune ch), next_ch s))
           else if code ch = 96 then (Some RawString, next_ch (scanRawString s))
           else (Some (Rune ch), next_ch s)))"

lemma string_body_shorter: "length (input (scan_string_body q s)) \<le> length (input s)"
proof (induction q s rule: scan_string_body.induct)
  case (1 q s)
  show ?case
  proof (cases "input s")
    case (Cons c cs)
    then show ?thesis using 1 scanEscape_shorter[of s q] by (subst scan_string_body.simps) fastforce
  qed (subst scan_string_body.simps, simp)
qed

lemma general_comment_shorter: "length (input (general_comment s)) \<le> length (input s)"
proof (induction s rule: general_comment.induct)
  case (1 s)
  then show ?case by (subst general_comment.simps) (fastforce simp: Let_def split: list.split)
qed

lemma scanComment_shorter: "length (input (scanComment s)) \<le> length (input s)"
  using general_comment_shorter[of "next_ch s"] scan_while_shorter[of "\<lambda>c. c \<noteq> newline" "next_ch s"]
  by (auto simp: scanComment_def)

text \<open>Every token but the end of the input, and every comment, is made of at least one character.\<close>

lemma scanNumber_digit:
  assumes "input s = c # cs" and "isDecimal c"
  shows "length (input (snd (scanNumber start False s))) < length (input s)"
proof -
  have "length (input (snd (integer_part False s))) < length (input s)"
  proof (cases "c = CHR ''0''")
    case True
    then have "length (input (snd (number_prefix s))) < length (input s)"
      using assms(1) by (auto simp: number_prefix_def Let_def at_char_def)
    then show ?thesis
      by (fastforce simp: integer_part_def dest: digits_shorter split: prod.splits if_splits)
  next
    case False
    then have p: "number_prefix s = ((None, 10, False), s)" using assms(1) by (simp add: number_prefix_def at_char_def)
    have "scan_while (\<lambda>c. (if (10 :: nat) \<le> 10 then isDecimal c else isHex c) \<or> c = CHR ''_'') s
        = scan_while (\<lambda>c. (if (10 :: nat) \<le> 10 then isDecimal c else isHex c) \<or> c = CHR ''_'') (next_ch s)"
      using assms by (subst scan_while.simps) (simp add: at_char_def)
    then have "length (input (fst (digits 10 None s))) < length (input s)"
      using scan_while_shorter[of _ "next_ch s"] assms(1) by (simp add: digits_def Let_def le_imp_less_Suc)
    with p show ?thesis by (auto simp: integer_part_def split: prod.splits if_splits)
  qed
  then show ?thesis
    by (fastforce simp: scanNumber_def Let_def dest!: exponent_part_shorter digits_shorter split: if_splits prod.splits)
qed

lemma scan_token_shorter:
  assumes "scan_token s = (t, s')"
  shows "length (input s') \<le> length (input s)" and "t \<noteq> Some EOFr \<Longrightarrow> length (input s') < length (input s)"
proof -
  have less: "length (input s') < length (input s)" if c: "input s = c # cs" for c cs
  proof -
    have n: "length (input (next_ch s)) < length (input s)" using c by simp
    have parts: "length (input (scanIdentifier s)) < length (input s)"
      "length (input (next_ch (scanString q s))) < length (input s)"
      "length (input (next_ch (scanRawString s))) < length (input s)"
      "length (input (scanComment (next_ch s))) < length (input s)" for q
      using scan_while_shorter[of _ "next_ch s"] string_body_shorter[of q "next_ch s"] scanComment_shorter[of "next_ch s"] n
      by (auto simp: scanIdentifier_def scanString_def scanRawString_def Let_def intro: le_less_trans less_imp_diff_less)
    have "length (input (snd (scanNumber s True (next_ch s)))) < length (input s)"
      using scanNumber_shorter[of s True "next_ch s"] n by (metis order_le_less_trans surjective_pairing)
    with assms c n parts scanNumber_digit[OF c, of s] show ?thesis
      by (auto simp: scan_token_def split: if_splits prod.splits)
  qed
  show "length (input s') \<le> length (input s)"
    using less assms by (cases "input s") (auto simp: scan_token_def less_imp_le)
  show "length (input s') < length (input s)" if "t \<noteq> Some EOFr"
    using less assms that by (cases "input s") (auto simp: scan_token_def)
qed

text \<open>\<open>Scan\<close> with its jump back after a comment; the result has the text of the token.\<close>

function Scan_redo :: "scanner \<Rightarrow> scan_tok \<times> string \<times> scanner" where
  "Scan_redo s0 =
     (let s = mark_position (scan_while GoWhitespace s0)
      in case scan_token s of
           (None, s') \<Rightarrow> Scan_redo s'
         | (Some t, s') \<Rightarrow> (t, consumed s s', s'))"
  by pat_completeness auto
termination
proof (relation "measure (\<lambda>s. length (input s))")
  show "(s', s0) \<in> measure (\<lambda>s. length (input s))"
    if "s = mark_position (scan_while GoWhitespace s0)" "(t, s') = scan_token s" "t = None"
    for s0 s p t s'
    using that scan_token_shorter(2)[of s t s'] scan_while_shorter[of GoWhitespace s0] by simp
qed simp

declare Scan_redo.simps [simp del]

definition Scan :: "scanner \<Rightarrow> scan_tok \<times> string \<times> scanner" where
  "Scan s = Scan_redo (Peek s)"

lemma Scan_redo_shorter:
  "Scan_redo s = (t, text_of, s') \<Longrightarrow> length (input s') \<le> length (input s) \<and> (t \<noteq> EOFr \<longrightarrow> length (input s') < length (input s))"
proof (induction s arbitrary: t text_of s' rule: Scan_redo.induct)
  case (1 s0)
  define s where "s = mark_position (scan_while GoWhitespace s0)"
  have le: "length (input s) \<le> length (input s0)" by (simp add: s_def scan_while_shorter)
  obtain r s1 where r: "scan_token s = (r, s1)" by force
  note sh = scan_token_shorter[OF r]
  show ?case
  proof (cases r)
    case None
    then have "Scan_redo s1 = (t, text_of, s')" using 1(2) r by (subst (asm) Scan_redo.simps) (simp add: s_def)
    from "1.IH"[OF s_def _ _ this, of r] r None sh le show ?thesis by (auto simp: s_def)
  next
    case (Some u)
    then have "t = u" "s' = s1" using 1(2) r by (subst (asm) Scan_redo.simps, simp add: s_def)+
    with sh Some le show ?thesis by auto
  qed
qed

section \<open>Tokens of the language\<close>

text \<open>The token types with the prefix \<open>TK_\<close>, numbered as the code does, with the markers that delimit the
  literals and the reserved words.\<close>

type_synonym token_type = int

abbreviation TK_EOF :: token_type where "TK_EOF \<equiv> - 1"
abbreviation TK_IDENT :: token_type where "TK_IDENT \<equiv> 0"
abbreviation TK_literal_start :: token_type where "TK_literal_start \<equiv> 1"
abbreviation TK_INT :: token_type where "TK_INT \<equiv> 2"
abbreviation TK_STR :: token_type where "TK_STR \<equiv> 3"
abbreviation TK_reserved_word_start :: token_type where "TK_reserved_word_start \<equiv> 4"
abbreviation TK_TRUE :: token_type where "TK_TRUE \<equiv> 5"
abbreviation TK_FALSE :: token_type where "TK_FALSE \<equiv> 6"
abbreviation TK_literal_end :: token_type where "TK_literal_end \<equiv> 7"
abbreviation TK_BANG :: token_type where "TK_BANG \<equiv> 8"
abbreviation TK_AND :: token_type where "TK_AND \<equiv> 9"
abbreviation TK_OR :: token_type where "TK_OR \<equiv> 10"
abbreviation TK_ASTRSK :: token_type where "TK_ASTRSK \<equiv> 11"
abbreviation TK_EQ :: token_type where "TK_EQ \<equiv> 12"
abbreviation TK_NEQ :: token_type where "TK_NEQ \<equiv> 13"
abbreviation TK_GT :: token_type where "TK_GT \<equiv> 14"
abbreviation TK_LT :: token_type where "TK_LT \<equiv> 15"
abbreviation TK_LTE :: token_type where "TK_LTE \<equiv> 16"
abbreviation TK_GTE :: token_type where "TK_GTE \<equiv> 17"
abbreviation TK_LPAREN :: token_type where "TK_LPAREN \<equiv> 18"
abbreviation TK_RPAREN :: token_type where "TK_RPAREN \<equiv> 19"
abbreviation TK_AS :: token_type where "TK_AS \<equiv> 20"
abbreviation TK_ASC :: token_type where "TK_ASC \<equiv> 21"
abbreviation TK_AVG :: token_type where "TK_AVG \<equiv> 22"
abbreviation TK_BEGIN :: token_type where "TK_BEGIN \<equiv> 23"
abbreviation TK_BY :: token_type where "TK_BY \<equiv> 24"
abbreviation TK_CASE :: token_type where "TK_CASE \<equiv> 25"
abbreviation TK_COMMA :: token_type where "TK_COMMA \<equiv> 26"
abbreviation TK_COMMIT :: token_type where "TK_COMMIT \<equiv> 27"
abbreviation TK_COUNT :: token_type where "TK_COUNT \<equiv> 28"
abbreviation TK_CREATE :: token_type where "TK_CREATE \<equiv> 29"
abbreviation TK_DATABASE :: token_type where "TK_DATABASE \<equiv> 30"
abbreviation TK_DELETE :: token_type where "TK_DELETE \<equiv> 31"
abbreviation TK_DESC :: token_type where "TK_DESC \<equiv> 32"
abbreviation TK_DISTINCT :: token_type where "TK_DISTINCT \<equiv> 33"
abbreviation TK_DOT :: token_type where "TK_DOT \<equiv> 34"
abbreviation TK_ELSE :: token_type where "TK_ELSE \<equiv> 35"
abbreviation TK_END :: token_type where "TK_END \<equiv> 36"
abbreviation TK_EXISTS :: token_type where "TK_EXISTS \<equiv> 37"
abbreviation TK_FROM :: token_type where "TK_FROM \<equiv> 38"
abbreviation TK_FULL :: token_type where "TK_FULL \<equiv> 39"
abbreviation TK_GROUP :: token_type where "TK_GROUP \<equiv> 40"
abbreviation TK_HAVING :: token_type where "TK_HAVING \<equiv> 41"
abbreviation TK_IN :: token_type where "TK_IN \<equiv> 42"
abbreviation TK_INNER :: token_type where "TK_INNER \<equiv> 43"
abbreviation TK_INSERT :: token_type where "TK_INSERT \<equiv> 44"
abbreviation TK_INTO :: token_type where "TK_INTO \<equiv> 45"
abbreviation TK_JOIN :: token_type where "TK_JOIN \<equiv> 46"
abbreviation TK_LEFT :: token_type where "TK_LEFT \<equiv> 47"
abbreviation TK_LIKE :: token_type where "TK_LIKE \<equiv> 48"
abbreviation TK_LIMIT :: token_type where "TK_LIMIT \<equiv> 49"
abbreviation TK_MAX :: token_type where "TK_MAX \<equiv> 50"
abbreviation TK_MIN :: token_type where "TK_MIN \<equiv> 51"
abbreviation TK_NOT :: token_type where "TK_NOT \<equiv> 52"
abbreviation TK_NULL :: token_type where "TK_NULL \<equiv> 53"
abbreviation TK_OFFSET :: token_type where "TK_OFFSET \<equiv> 54"
abbreviation TK_ON :: token_type where "TK_ON \<equiv> 55"
abbreviation TK_ORDER :: token_type where "TK_ORDER \<equiv> 56"
abbreviation TK_OUTER :: token_type where "TK_OUTER \<equiv> 57"
abbreviation TK_RIGHT :: token_type where "TK_RIGHT \<equiv> 58"
abbreviation TK_SELECT :: token_type where "TK_SELECT \<equiv> 59"
abbreviation TK_SEMICOLON :: token_type where "TK_SEMICOLON \<equiv> 60"
abbreviation TK_SET :: token_type where "TK_SET \<equiv> 61"
abbreviation TK_SHOW :: token_type where "TK_SHOW \<equiv> 62"
abbreviation TK_SUM :: token_type where "TK_SUM \<equiv> 63"
abbreviation TK_T_BOOL :: token_type where "TK_T_BOOL \<equiv> 64"
abbreviation TK_T_INT :: token_type where "TK_T_INT \<equiv> 65"
abbreviation TK_T_BIGINT :: token_type where "TK_T_BIGINT \<equiv> 66"
abbreviation TK_T_VARCHAR :: token_type where "TK_T_VARCHAR \<equiv> 67"
abbreviation TK_TABLE :: token_type where "TK_TABLE \<equiv> 68"
abbreviation TK_THEN :: token_type where "TK_THEN \<equiv> 69"
abbreviation TK_UNION :: token_type where "TK_UNION \<equiv> 70"
abbreviation TK_UNIQUE :: token_type where "TK_UNIQUE \<equiv> 71"
abbreviation TK_UPDATE :: token_type where "TK_UPDATE \<equiv> 72"
abbreviation TK_USE :: token_type where "TK_USE \<equiv> 73"
abbreviation TK_VALUES :: token_type where "TK_VALUES \<equiv> 74"
abbreviation TK_WHEN :: token_type where "TK_WHEN \<equiv> 75"
abbreviation TK_WHERE :: token_type where "TK_WHERE \<equiv> 76"
abbreviation TK_WITH :: token_type where "TK_WITH \<equiv> 77"
abbreviation TK_reserved_word_end :: token_type where "TK_reserved_word_end \<equiv> 78"

text \<open>The reserved words with the texts of the map \<open>Tokens\<close>.\<close>

definition keyword_table :: "(string \<times> token_type) list" where
  "keyword_table =
    [(''TRUE'', TK_TRUE), (''FALSE'', TK_FALSE), (''!'', TK_BANG), (''AND'', TK_AND), (''OR'', TK_OR), (''*'', TK_ASTRSK),
     (''='', TK_EQ), (''!='', TK_NEQ), (''>'', TK_GT), (''<'', TK_LT), (''<='', TK_LTE), (''>='', TK_GTE), (''('', TK_LPAREN),
     ('')'', TK_RPAREN), (''AS'', TK_AS), (''ASC'', TK_ASC), (''AVG'', TK_AVG), (''BEGIN'', TK_BEGIN), (''BY'', TK_BY),
     (''CASE'', TK_CASE), ('','', TK_COMMA), (''COMMIT'', TK_COMMIT), (''COUNT'', TK_COUNT), (''CREATE'', TK_CREATE),
     (''DATABASE'', TK_DATABASE), (''DELETE'', TK_DELETE), (''DESC'', TK_DESC), (''DISTINCT'', TK_DISTINCT), (''.'', TK_DOT),
     (''ELSE'', TK_ELSE), (''END'', TK_END), (''EXISTS'', TK_EXISTS), (''FROM'', TK_FROM), (''FULL'', TK_FULL),
     (''GROUP'', TK_GROUP), (''HAVING'', TK_HAVING), (''IN'', TK_IN), (''INNER'', TK_INNER), (''INSERT'', TK_INSERT),
     (''INTO'', TK_INTO), (''JOIN'', TK_JOIN), (''LEFT'', TK_LEFT), (''LIKE'', TK_LIKE), (''LIMIT'', TK_LIMIT),
     (''MAX'', TK_MAX), (''MIN'', TK_MIN), (''NOT'', TK_NOT), (''NULL'', TK_NULL), (''OFFSET'', TK_OFFSET), (''ON'', TK_ON),
     (''ORDER'', TK_ORDER), (''OUTER'', TK_OUTER), (''RIGHT'', TK_RIGHT), (''SELECT'', TK_SELECT), ('';'', TK_SEMICOLON),
     (''SET'', TK_SET), (''SHOW'', TK_SHOW), (''SUM'', TK_SUM), (''BOOLEAN'', TK_T_BOOL), (''INT'', TK_T_INT),
     (''BIGINT'', TK_T_BIGINT), (''VARCHAR'', TK_T_VARCHAR), (''TABLE'', TK_TABLE), (''THEN'', TK_THEN), (''UNION'', TK_UNION),
     (''UNIQUE'', TK_UNIQUE), (''UPDATE'', TK_UPDATE), (''USE'', TK_USE), (''VALUES'', TK_VALUES), (''WHEN'', TK_WHEN),
     (''WHERE'', TK_WHERE), (''WITH'', TK_WITH)]"

definition keyword_of :: "string \<Rightarrow> token_type option" where
  "keyword_of s = map_of keyword_table (to_upper s)"

definition IsLiteral :: "token_type \<Rightarrow> bool" where
  "IsLiteral t \<longleftrightarrow> TK_literal_start < t \<and> t < TK_literal_end"

definition IsReservedWord_token :: "token_type \<Rightarrow> bool" where
  "IsReservedWord_token t \<longleftrightarrow> TK_reserved_word_start < t \<and> t < TK_reserved_word_end"

text \<open>The list \<open>literals\<close> holds every number between the markers.\<close>

definition literals :: "token_type list" where
  "literals = [TK_INT, TK_STR, TK_reserved_word_start, TK_TRUE, TK_FALSE]"

record token =
  tk_Type :: token_type
  tk_Line :: nat
  tk_Column :: nat
  tk_Text :: string

datatype parse_error =
    SyntaxErr string
  | UnexpectedToken token_type "token_type list"
  | AmbiguousGroupByColumn
  | InvalidGroupByColumn
  | NegativeLimit
  | NegativeOffset
  | AvgNeedsColumn
  | BadNumber
  | UnsupportedToken
  | ParsePanic

text \<open>\<open>strconv.Atoi\<close>: an optional sign and decimal digits, within 64 bits.\<close>

definition digits_value :: "string \<Rightarrow> nat" where
  "digits_value s = foldl (\<lambda>n c. 10 * n + (code c - 48)) 0 s"

definition Atoi :: "string \<Rightarrow> 64 word option" where
  "Atoi s =
     (let (neg, ds) = (case s of c # cs \<Rightarrow> if c = CHR ''-'' then (True, cs) else if c = CHR ''+'' then (False, cs) else (False, s)
                       | [] \<Rightarrow> (False, s));
          v = (if neg then - int (digits_value ds) else int (digits_value ds))
      in if ds = [] \<or> \<not> list_all isDecimal ds \<or> v < - (2 ^ 63) \<or> 2 ^ 63 \<le> v then None else Some (word_of_int v))"

definition token_Val :: "token \<Rightarrow> parse_error + sql_value" where
  "token_Val t =
     (if tk_Type t = TK_STR then Inr (VStr (tk_Text t))
      else if tk_Type t = TK_INT then (case Atoi (tk_Text t) of None \<Rightarrow> Inl BadNumber | Some v \<Rightarrow> Inr (VInt v))
      else if tk_Type t = TK_TRUE then Inr (VBool True)
      else if tk_Type t = TK_FALSE then Inr (VBool False)
      else Inl UnsupportedToken)"

text \<open>\<open>text[1 : len(text)-1]\<close> panics on a single quote.\<close>

definition strip_quotes :: "string \<Rightarrow> string option" where
  "strip_quotes s = (if length s < 2 then None else Some (butlast (tl s)))"

text \<open>\<open>tokenScanner.Cur\<close>: the token of the last scan; for a comparison of two characters it scans on.\<close>

definition scanner_Cur :: "scan_tok \<Rightarrow> string \<Rightarrow> scanner \<Rightarrow> parse_error + (token \<times> scanner)" where
  "scanner_Cur cur ttext s =
     (let tok = (\<lambda>ty t s'. Inr (\<lparr>tk_Type = ty, tk_Line = pos_Line s, tk_Column = pos_Column s, tk_Text = t\<rparr>, s'));
          followed_by_eq = at_char (\<lambda>c. c = CHR ''='') s;
          advanced = snd (snd (Scan s))
      in case cur of
           EOFr \<Rightarrow> tok TK_EOF '''' s
         | Ident \<Rightarrow> tok (case keyword_of ttext of Some kw \<Rightarrow> kw | None \<Rightarrow> TK_IDENT) ttext s
         | IntLit \<Rightarrow> tok TK_INT ttext s
         | DelimIdent \<Rightarrow> (case strip_quotes ttext of None \<Rightarrow> Inl ParsePanic | Some t \<Rightarrow> tok TK_IDENT t s)
         | _ \<Rightarrow>
             (case keyword_of ttext of
                Some kw \<Rightarrow>
                  (if kw = TK_BANG \<and> followed_by_eq then tok TK_NEQ ttext advanced
                   else if kw = TK_GT \<and> followed_by_eq then tok TK_GTE ttext advanced
                   else if kw = TK_LT \<and> followed_by_eq then tok TK_LTE ttext advanced
                   else tok kw ttext s)
              | None \<Rightarrow>
                  (if cur = StringLit then
                     (case strip_quotes ttext of None \<Rightarrow> Inl ParsePanic | Some t \<Rightarrow> tok TK_STR t s)
                   else tok TK_STR ttext s)))"

lemma input_Scan_shorter: "length (input (snd (snd (Scan s)))) \<le> length (input s)"
proof -
  obtain t x s' where "Scan_redo (Peek s) = (t, x, s')" by (metis prod_cases3)
  from Scan_redo_shorter[OF this] this show ?thesis by (simp add: Scan_def)
qed

lemma scanner_Cur_shorter: "scanner_Cur cur x s = Inr (t, s') \<Longrightarrow> length (input s') \<le> length (input s)"
  using input_Scan_shorter[of s]
  by (auto simp: scanner_Cur_def Let_def split: scan_tok.splits option.splits if_splits)

text \<open>The loop of \<open>parseSQL\<close> that collects the tokens.\<close>

function tokenize_from :: "scanner \<Rightarrow> parse_error + token list" where
  "tokenize_from s =
     (case Scan s of (cur, ttext, s1) \<Rightarrow>
        if cur = EOFr then Inr []
        else case scanner_Cur cur ttext s1 of
               Inl e \<Rightarrow> Inl e
             | Inr (t, s2) \<Rightarrow> (case tokenize_from s2 of Inl e \<Rightarrow> Inl e | Inr ts \<Rightarrow> Inr (t # ts)))"
  by pat_completeness auto
termination
proof (relation "measure (\<lambda>s. length (input s))")
  show "(s2, s) \<in> measure (\<lambda>s. length (input s))"
    if "(cur, b) = Scan s" "(ttext, s1) = b" "cur \<noteq> EOFr" "scanner_Cur cur ttext s1 = Inr y" "(t, s2) = y"
    for s cur b ttext s1 y t s2
    using that Scan_redo_shorter[of "Peek s" cur ttext s1] scanner_Cur_shorter[of cur ttext s1 t s2]
    by (auto simp: Scan_def)
qed simp

declare tokenize_from.simps [simp del]

definition tokenize :: "string \<Rightarrow> parse_error + token list" where
  "tokenize q = tokenize_from (Init q)"

section \<open>The list of tokens under the parser\<close>

definition EOFToken :: token where
  "EOFToken = \<lparr>tk_Type = TK_EOF, tk_Line = 0, tk_Column = 0, tk_Text = ''''\<rparr>"

end
