(* ===== verification/SqlParse.thy ===== *)
theory SqlParse
  imports SqlScan
begin

text \<open>
  The parser of the SQL engine (\<open>sql/sql/parser.go\<close>).  The state is the list of the tokens that are left;
  a parser gives a value and the tokens after it, or the error the code returns, where
  \<open>ParsePanic\<close> is a failed type assertion.
\<close>

section \<open>Statements\<close>

record column_reference =
  Qualifier :: string
  ColumnName :: string

text \<open>What the code holds in \<open>interface{}\<close>: an operand, a comparison, a \<open>BooleanTerm\<close> and a
  \<open>SearchCondition\<close>, whose left-hand side is always a comparison.\<close>

datatype operand = OVal sql_value | OCol column_reference

record comparison =
  cp_LHS :: operand
  cp_Op :: token_type
  cp_RHS :: operand

datatype condition =
    Operand operand
  | Comparison comparison
  | BooleanTerm comparison condition
  | SearchCondition comparison condition

datatype set_function = Count "column_reference option" | Average column_reference

datatype value_primary = Asterisk | SetFunction set_function | Expr condition

record derived_column =
  dc_Value :: value_primary
  dc_AsClause :: string

datatype join_type = FULL_JOIN | LEFT_JOIN | RIGHT_JOIN | INNER_JOIN

datatype table_reference =
    TableName "string option" string
  | QualifiedJoin table_reference join_type table_reference condition

record sort_spec =
  ss_Key :: column_reference
  ss_Order :: token_type

record limit_offset =
  LimitActive :: bool
  OffsetActive :: bool
  lo_Limit :: int
  lo_Offset :: int

record select_stmt =
  sel_List :: "derived_column list"
  sel_From :: "table_reference option"
  sel_Where :: "condition option"
  sel_GroupBy :: "column_reference list"
  sel_Sort :: "sort_spec list"
  sel_Limit :: limit_offset

datatype column_type = NumericType | BigIntType | CharacterStringType "64 word" | BooleanType

datatype statement =
    ShowDatabase
  | CreateDatabase string
  | CreateTableStmt string "(string \<times> column_type) list"
  | SelectStmt select_stmt
  | InsertStmt string "string list" "sql_value list list"
  | UpdateStmt string "(string \<times> operand) list" "condition option"
  | DeleteStmt string "condition option"
  | UseStmt string

definition IsColumnReference :: "derived_column \<Rightarrow> bool" where
  "IsColumnReference d \<longleftrightarrow> (case dc_Value d of Expr (Operand (OCol _)) \<Rightarrow> True | _ \<Rightarrow> False)"

definition column_equals :: "column_reference \<Rightarrow> column_reference \<Rightarrow> bool" where
  "column_equals v rhs \<longleftrightarrow>
     (if (Qualifier v = '''') \<noteq> (Qualifier rhs = '''') then False
      else if Qualifier v \<noteq> Qualifier rhs then False
      else ColumnName v = ColumnName rhs)"

definition Matches :: "derived_column \<Rightarrow> column_reference \<Rightarrow> bool" where
  "Matches d rhs \<longleftrightarrow>
     (case dc_Value d of
        Expr (Operand (OCol lhs)) \<Rightarrow>
          column_equals lhs rhs \<or> dc_AsClause d = ColumnName rhs
          \<or> ColumnName lhs = ColumnName rhs \<and> Qualifier rhs = ''''
      | _ \<Rightarrow> False)"

definition HasAggrFunc :: "derived_column list \<Rightarrow> bool" where
  "HasAggrFunc sl \<longleftrightarrow> list_ex (\<lambda>d. case dc_Value d of SetFunction _ \<Rightarrow> True | _ \<Rightarrow> False) sl"

section \<open>Reading tokens\<close>

type_synonym 'a parser = "token list \<Rightarrow> parse_error + 'a \<times> token list"

text \<open>\<open>match\<close> gives the matched token, the code's \<open>Prev\<close>.\<close>

definition cur_type :: "token list \<Rightarrow> token_type" where
  "cur_type ts = (case ts of [] \<Rightarrow> TK_EOF | t # _ \<Rightarrow> tk_Type t)"

definition match_token :: "token_type list \<Rightarrow> token list \<Rightarrow> (token \<times> token list) option" where
  "match_token types ts = (case ts of [] \<Rightarrow> None | t # r \<Rightarrow> if tk_Type t \<in> set types then Some (t, r) else None)"

definition unexpectedTypeErr :: "token_type list \<Rightarrow> token list \<Rightarrow> parse_error" where
  "unexpectedTypeErr types ts = UnexpectedToken (cur_type ts) types"

definition requireMatch :: "token_type list \<Rightarrow> token parser" where
  "requireMatch types ts =
     (case match_token types ts of Some r \<Rightarrow> Inr r | None \<Rightarrow> Inl (unexpectedTypeErr types ts))"

text \<open>\<open>requireInt\<close> asserts the type of a value that is nil when the number does not fit.\<close>

definition requireInt :: "64 word parser" where
  "requireInt ts = and_then (requireMatch [TK_INT] ts) (\<lambda>(t, r).
     case token_Val t of Inr (VInt v) \<Rightarrow> Inr (v, r) | _ \<Rightarrow> Inl ParsePanic)"

lemma match_token_Some: "match_token types ts = Some (t, r) \<longleftrightarrow> ts = t # r \<and> tk_Type t \<in> set types"
  by (auto simp: match_token_def split: list.split)

lemma match_token_None: "match_token types ts = None \<longleftrightarrow> (\<forall>t r. ts = t # r \<longrightarrow> tk_Type t \<notin> set types)"
  by (auto simp: match_token_def split: list.split)

lemma match_token_Cons [simp]:
  "match_token types [] = None"
  "match_token types (t # r) = (if tk_Type t \<in> set types then Some (t, r) else None)"
  by (simp_all add: match_token_def)

lemma requireMatch_Inr: "requireMatch types ts = Inr (t, r) \<longleftrightarrow> ts = t # r \<and> tk_Type t \<in> set types"
  by (auto simp: requireMatch_def match_token_Some split: option.split)

section \<open>Operands and conditions\<close>

text \<open>\<open>ColumnReference\<close>: \<open>None\<close> when there is no identifier.\<close>

definition ColumnReference :: "column_reference option parser" where
  "ColumnReference ts =
     (case match_token [TK_IDENT] ts of
        None \<Rightarrow> Inr (None, ts)
      | Some (t, r) \<Rightarrow>
          (if cur_type r = TK_DOT then
             and_then (requireMatch [TK_IDENT] (tl r)) (\<lambda>(c, r').
               Inr (Some \<lparr>Qualifier = tk_Text t, ColumnName = tk_Text c\<rparr>, r'))
           else Inr (Some \<lparr>Qualifier = '''', ColumnName = tk_Text t\<rparr>, r)))"

definition ValueExpression :: "operand parser" where
  "ValueExpression ts =
     (case match_token literals ts of
        Some (t, r) \<Rightarrow> and_then (token_Val t) (\<lambda>v. Inr (OVal v, r))
      | None \<Rightarrow> and_then (ColumnReference ts) (\<lambda>(cr, r).
          case cr of Some c \<Rightarrow> Inr (OCol c, r) | None \<Rightarrow> Inl (unexpectedTypeErr literals ts)))"

definition comparison_ops :: "token_type list" where
  "comparison_ops = [TK_EQ, TK_NEQ, TK_LT, TK_GT, TK_LTE, TK_GTE]"

text \<open>\<open>Predicate\<close> and \<open>ComparisonPredicate\<close>: a comparison, or an operand alone.\<close>

definition ParsePredicate :: "condition parser" where
  "ParsePredicate ts = and_then (ValueExpression ts) (\<lambda>(lhs, r).
     case match_token comparison_ops r of
       None \<Rightarrow> Inr (Operand lhs, r)
     | Some (t, r1) \<Rightarrow> and_then (ValueExpression r1) (\<lambda>(rhs, r2).
         Inr (Comparison \<lparr>cp_LHS = lhs, cp_Op = tk_Type t, cp_RHS = rhs\<rparr>, r2)))"

lemma ColumnReference_shorter: "ColumnReference ts = Inr (cr, r) \<Longrightarrow> length r \<le> length ts \<and> (cr \<noteq> None \<longrightarrow> length r < length ts)"
  by (auto simp: ColumnReference_def and_then_Inr_iff requireMatch_Inr match_token_Some cur_type_def
      split: option.splits if_splits list.splits)

lemma ValueExpression_shorter: "ValueExpression ts = Inr (v, r) \<Longrightarrow> length r < length ts"
  by (auto simp: ValueExpression_def and_then_Inr_iff match_token_Some dest!: ColumnReference_shorter split: option.splits)

lemma ParsePredicate_shorter: "ParsePredicate ts = Inr (v, r) \<Longrightarrow> length r < length ts"
  by (auto simp: ParsePredicate_def and_then_Inr_iff match_token_Some dest!: ValueExpression_shorter split: option.splits)

text \<open>\<open>AndCondition\<close> and \<open>OrCondition\<close>.  The recursive call consumes every further operator, so the
  body of the code's loop runs at most once (lemmas \<open>AndCondition_stops\<close> and \<open>OrCondition_stops\<close>).\<close>

definition as_comparison :: "condition \<Rightarrow> parse_error + comparison" where
  "as_comparison c = (case c of Comparison p \<Rightarrow> Inr p | _ \<Rightarrow> Inl ParsePanic)"

function AndCondition :: "condition parser" where
  "AndCondition ts = and_then (ParsePredicate ts) (\<lambda>(ret, r).
     case match_token [TK_AND] r of
       None \<Rightarrow> Inr (ret, r)
     | Some (_, r1) \<Rightarrow> and_then (as_comparison ret) (\<lambda>lhs.
         and_then (AndCondition r1) (\<lambda>(rhs, r2). Inr (BooleanTerm lhs rhs, r2))))"
  by pat_completeness auto
termination
  by (relation "measure length") (auto simp: match_token_Some dest!: ParsePredicate_shorter)

declare AndCondition.simps [simp del]

lemma AndCondition_shorter: "AndCondition ts = Inr (c, r) \<Longrightarrow> length r < length ts"
proof (induction ts arbitrary: c r rule: AndCondition.induct)
  case (1 ts)
  then obtain ret r0 where p: "ParsePredicate ts = Inr (ret, r0)"
    by (subst (asm) AndCondition.simps) (auto simp: and_then_Inr_iff)
  note ParsePredicate_shorter[OF p]
  then show ?case
    using 1 p by (subst (asm) (2) AndCondition.simps) (fastforce simp: and_then_Inr_iff match_token_Some split: option.splits)
qed

function OrCondition :: "condition parser" where
  "OrCondition ts = and_then (AndCondition ts) (\<lambda>(ret, r).
     case match_token [TK_OR] r of
       None \<Rightarrow> Inr (ret, r)
     | Some (_, r1) \<Rightarrow> and_then (as_comparison ret) (\<lambda>lhs.
         and_then (OrCondition r1) (\<lambda>(rhs, r2). Inr (SearchCondition lhs rhs, r2))))"
  by pat_completeness auto
termination
  by (relation "measure length") (auto simp: match_token_Some dest!: AndCondition_shorter)

declare OrCondition.simps [simp del]

lemma OrCondition_shorter: "OrCondition ts = Inr (c, r) \<Longrightarrow> length r < length ts"
proof (induction ts arbitrary: c r rule: OrCondition.induct)
  case (1 ts)
  then obtain ret r0 where p: "AndCondition ts = Inr (ret, r0)"
    by (subst (asm) OrCondition.simps) (auto simp: and_then_Inr_iff)
  note AndCondition_shorter[OF p]
  then show ?case
    using 1 p by (subst (asm) (2) OrCondition.simps) (fastforce simp: and_then_Inr_iff match_token_Some split: option.splits)
qed

lemma AndCondition_cases:
  "AndCondition ts = Inr (c, r) \<Longrightarrow>
     ParsePredicate ts = Inr (c, r) \<and> match_token [TK_AND] r = None
     \<or> (\<exists>lhs rhs r0 t r1. ParsePredicate ts = Inr (Comparison lhs, r0) \<and> match_token [TK_AND] r0 = Some (t, r1)
          \<and> AndCondition r1 = Inr (rhs, r) \<and> c = BooleanTerm lhs rhs)"
  by (subst (asm) AndCondition.simps)
    (auto simp: and_then_Inr_iff as_comparison_def split: option.splits condition.splits)

lemma OrCondition_cases:
  "OrCondition ts = Inr (c, r) \<Longrightarrow>
     AndCondition ts = Inr (c, r) \<and> match_token [TK_OR] r = None
     \<or> (\<exists>lhs rhs r0 t r1. AndCondition ts = Inr (Comparison lhs, r0) \<and> match_token [TK_OR] r0 = Some (t, r1)
          \<and> OrCondition r1 = Inr (rhs, r) \<and> c = SearchCondition lhs rhs)"
  by (subst (asm) OrCondition.simps)
    (auto simp: and_then_Inr_iff as_comparison_def split: option.splits condition.splits)

lemma AndCondition_stops: "AndCondition ts = Inr (c, r) \<Longrightarrow> match_token [TK_AND] r = None"
proof (induction ts arbitrary: c rule: measure_induct_rule[of length])
  case (less ts)
  from AndCondition_cases[OF less.prems] consider "match_token [TK_AND] r = None"
    | r1 rhs where "length r1 < length ts" "AndCondition r1 = Inr (rhs, r)"
    by (auto simp: match_token_Some dest!: ParsePredicate_shorter Suc_lessD)
  then show ?case using less.IH by cases blast+
qed

lemma OrCondition_stops: "OrCondition ts = Inr (c, r) \<Longrightarrow> match_token [TK_OR] r = None"
proof (induction ts arbitrary: c rule: measure_induct_rule[of length])
  case (less ts)
  from OrCondition_cases[OF less.prems] consider "match_token [TK_OR] r = None"
    | r1 rhs where "length r1 < length ts" "OrCondition r1 = Inr (rhs, r)"
    by (auto simp: match_token_Some dest!: AndCondition_shorter Suc_lessD)
  then show ?case using less.IH by cases blast+
qed

section \<open>Clauses of a query\<close>

definition ParseTableName :: "table_reference parser" where
  "ParseTableName ts = and_then (requireMatch [TK_IDENT] ts) (\<lambda>(t, r).
     case match_token [TK_IDENT] r of
       None \<Rightarrow> Inr (TableName None (tk_Text t), r)
     | Some (c, r1) \<Rightarrow> Inr (TableName (Some (tk_Text c)) (tk_Text t), r1))"

text \<open>The type of a join and the tokens from \<open>JOIN\<close> on.\<close>

definition join_kind :: "token list \<Rightarrow> join_type \<times> token list" where
  "join_kind ts =
     (case match_token [TK_LEFT] ts of Some (_, r) \<Rightarrow> (LEFT_JOIN, r) | None \<Rightarrow>
      (case match_token [TK_RIGHT] ts of Some (_, r) \<Rightarrow> (RIGHT_JOIN, r) | None \<Rightarrow>
       (case match_token [TK_INNER] ts of Some (_, r) \<Rightarrow> (INNER_JOIN, r) | None \<Rightarrow> (INNER_JOIN, ts))))"

lemma ParseTableName_shorter: "ParseTableName ts = Inr (t, r) \<Longrightarrow> length r < length ts"
  by (auto simp: ParseTableName_def and_then_Inr_iff requireMatch_Inr match_token_Some split: option.splits)

lemma join_kind_shorter: "join_kind ts = (k, r) \<Longrightarrow> length r \<le> length ts"
  by (auto simp: join_kind_def match_token_Some split: option.splits)

function join_loop :: "table_reference \<Rightarrow> table_reference parser" where
  "join_loop tblRef ts =
     (if cur_type ts \<in> {TK_JOIN, TK_LEFT, TK_RIGHT, TK_INNER} then
        (case join_kind ts of (jt, r0) \<Rightarrow>
           and_then (requireMatch [TK_JOIN] r0) (\<lambda>(_, r1).
           and_then (ParseTableName r1) (\<lambda>(rhs, r2).
           and_then (requireMatch [TK_ON] r2) (\<lambda>(_, r3).
           and_then (OrCondition r3) (\<lambda>(c, r4).
             join_loop (QualifiedJoin tblRef jt rhs c) r4)))))
      else Inr (tblRef, ts))"
  by pat_completeness auto
termination
proof (relation "measure (\<lambda>(t, ts). length ts)")
  show "((QualifiedJoin tblRef jt rhs c, r4), tblRef, ts) \<in> measure (\<lambda>(t, ts). length ts)"
    if "(jt, r0) = join_kind ts" "requireMatch [TK_JOIN] r0 = Inr x1" "(y1, r1) = x1" "ParseTableName r1 = Inr x2" "(rhs, r2) = x2"
      "requireMatch [TK_ON] r2 = Inr x3" "(y3, r3) = x3" "OrCondition r3 = Inr x4" "(c, r4) = x4"
    for tblRef jt rhs c r0 r1 r2 r3 r4 ts x1 x2 x3 x4 y1 y3
    using that join_kind_shorter[of ts jt r0] ParseTableName_shorter[of r1 rhs r2] OrCondition_shorter[of r3 c r4]
    by (auto simp: requireMatch_Inr)
qed simp

declare join_loop.simps [simp del]

definition FromClause :: "table_reference option parser" where
  "FromClause ts =
     (case match_token [TK_FROM] ts of
        None \<Rightarrow> Inr (None, ts)
      | Some (_, r) \<Rightarrow>
          and_then (ParseTableName r) (\<lambda>(tn, r1). and_then (join_loop tn r1) (\<lambda>(t, r2). Inr (Some t, r2))))"

definition WhereClause :: "condition option parser" where
  "WhereClause ts =
     (case match_token [TK_WHERE] ts of
        None \<Rightarrow> Inr (None, ts)
      | Some (_, r) \<Rightarrow> and_then (OrCondition r) (\<lambda>(c, r1). Inr (Some c, r1)))"

function column_list :: "column_reference list parser" where
  "column_list ts = and_then (ColumnReference ts) (\<lambda>(cr, r).
     case cr of
       None \<Rightarrow> Inr ([], r)
     | Some c \<Rightarrow> and_then (column_list r) (\<lambda>(cs, r1). Inr (c # cs, r1)))"
  by pat_completeness auto
termination
  by (relation "measure length") (auto dest!: ColumnReference_shorter)

declare column_list.simps [simp del]

definition GroupByClause :: "column_reference list parser" where
  "GroupByClause ts =
     (case match_token [TK_GROUP] ts of
        None \<Rightarrow> Inr ([], ts)
      | Some (_, r) \<Rightarrow> and_then (requireMatch [TK_BY] r) (\<lambda>(_, r1). column_list r1))"

text \<open>The clauses after the select list; the second result is the code's \<open>found\<close>.\<close>

definition TableExpression ::
  "token list \<Rightarrow> parse_error + (table_reference option \<times> condition option \<times> column_reference list) \<times> token list" where
  "TableExpression ts = and_then (FromClause ts) (\<lambda>(from, r).
     case from of
       None \<Rightarrow> Inr ((None, None, []), r)
     | Some t \<Rightarrow> and_then (WhereClause r) (\<lambda>(wh, r1).
         and_then (GroupByClause r1) (\<lambda>(gb, r2). Inr ((Some t, wh, gb), r2))))"

function sort_list :: "sort_spec list parser" where
  "sort_list ts = and_then (ColumnReference ts) (\<lambda>(cr, r).
     case cr of
       None \<Rightarrow> Inl (unexpectedTypeErr [TK_IDENT] r)
     | Some c \<Rightarrow>
         (case (case match_token [TK_ASC, TK_DESC] r of
                  Some (t, r1) \<Rightarrow> (\<lparr>ss_Key = c, ss_Order = tk_Type t\<rparr>, r1)
                | None \<Rightarrow> (\<lparr>ss_Key = c, ss_Order = TK_ASC\<rparr>, r)) of (s, r1) \<Rightarrow>
            (case match_token [TK_COMMA] r1 of
               None \<Rightarrow> Inr ([s], r1)
             | Some (_, r2) \<Rightarrow> and_then (sort_list r2) (\<lambda>(ss, r3). Inr (s # ss, r3)))))"
  by pat_completeness auto
termination
  by (relation "measure length") (auto simp: match_token_Some dest!: ColumnReference_shorter split: option.splits)

declare sort_list.simps [simp del]

definition SortSpecificationList :: "sort_spec list parser" where
  "SortSpecificationList ts =
     (case match_token [TK_ORDER] ts of
        None \<Rightarrow> Inr ([], ts)
      | Some (_, r) \<Rightarrow> and_then (requireMatch [TK_BY] r) (\<lambda>(_, r1). sort_list r1))"

lemma requireInt_shorter: "requireInt ts = Inr (v, r) \<Longrightarrow> length r < length ts"
proof -
  assume "requireInt ts = Inr (v, r)"
  then obtain t r' where m: "requireMatch [TK_INT] ts = Inr (t, r')"
    and v: "(case token_Val t of Inr (VInt v) \<Rightarrow> Inr (v, r') | _ \<Rightarrow> Inl ParsePanic) = Inr (v, r)"
    by (auto simp: requireInt_def and_then_Inr_iff)
  from v have "r' = r" by (cases "token_Val t") (simp_all split: sql_value.splits)
  with m show ?thesis by (simp add: requireMatch_Inr)
qed

function limit_loop :: "limit_offset \<Rightarrow> limit_offset parser" where
  "limit_loop lc ts =
     (case match_token [TK_LIMIT, TK_OFFSET] ts of
        None \<Rightarrow> Inr (lc, ts)
      | Some (t, r) \<Rightarrow>
          (if tk_Type t = TK_LIMIT \<and> \<not> LimitActive lc then
             and_then (requireInt r) (\<lambda>(n, r1). limit_loop (lc\<lparr>LimitActive := True, lo_Limit := sint n\<rparr>) r1)
           else if tk_Type t = TK_OFFSET \<and> \<not> OffsetActive lc then
             and_then (requireInt r) (\<lambda>(n, r1). limit_loop (lc\<lparr>OffsetActive := True, lo_Offset := sint n\<rparr>) r1)
           else limit_loop lc r))"
  by pat_completeness auto
termination
  by (relation "measure (\<lambda>(l, ts). length ts)") (auto simp: match_token_Some dest!: requireInt_shorter)

declare limit_loop.simps [simp del]

definition no_limit :: limit_offset where
  "no_limit = \<lparr>LimitActive = False, OffsetActive = False, lo_Limit = 0, lo_Offset = 0\<rparr>"

definition ParseLimitOffset :: "limit_offset parser" where
  "ParseLimitOffset ts = and_then (limit_loop no_limit ts) (\<lambda>(lc, r).
     if lo_Limit lc < 0 then Inl NegativeLimit else if lo_Offset lc < 0 then Inl NegativeOffset else Inr (lc, r))"

section \<open>Queries\<close>

text \<open>\<open>SetFunctionSpecification\<close>: \<open>None\<close> when there is no aggregate function.\<close>

definition SetFunctionSpecification :: "set_function option parser" where
  "SetFunctionSpecification ts =
     (case match_token [TK_COUNT] ts of
        Some (_, r) \<Rightarrow>
          and_then (requireMatch [TK_LPAREN] r) (\<lambda>(_, r1).
          and_then (ColumnReference r1) (\<lambda>(cr, r2).
          and_then (case cr of Some _ \<Rightarrow> Inr r2 | None \<Rightarrow> and_then (requireMatch [TK_ASTRSK] r2) (\<lambda>(_, r'). Inr r')) (\<lambda>r3.
          and_then (requireMatch [TK_RPAREN] r3) (\<lambda>(_, r4). Inr (Some (Count cr), r4)))))
      | None \<Rightarrow>
          (case match_token [TK_AVG] ts of
             Some (_, r) \<Rightarrow>
               and_then (requireMatch [TK_LPAREN] r) (\<lambda>(_, r1).
               and_then (ColumnReference r1) (\<lambda>(cr, r2).
                 case cr of
                   None \<Rightarrow> Inl AvgNeedsColumn
                 | Some c \<Rightarrow> and_then (requireMatch [TK_RPAREN] r2) (\<lambda>(_, r3). Inr (Some (Average c), r3))))
           | None \<Rightarrow> Inr (None, ts)))"

definition DerivedColumn :: "value_primary parser" where
  "DerivedColumn ts = and_then (SetFunctionSpecification ts) (\<lambda>(f, r).
     case f of
       Some sf \<Rightarrow> Inr (SetFunction sf, r)
     | None \<Rightarrow> and_then (OrCondition r) (\<lambda>(c, r1). Inr (Expr c, r1)))"

text \<open>The optional alias after a column of the select list.\<close>

definition as_clause :: "string parser" where
  "as_clause ts =
     (case match_token [TK_AS] ts of
        Some (_, r) \<Rightarrow>
          (if cur_type r \<noteq> TK_IDENT then Inl (unexpectedTypeErr [TK_IDENT] r) else Inr (tk_Text (hd r), tl r))
      | None \<Rightarrow> (case match_token [TK_IDENT] ts of Some (t, r) \<Rightarrow> Inr (tk_Text t, r) | None \<Rightarrow> Inr ('''', ts)))"

lemma SetFunctionSpecification_shorter:
  "SetFunctionSpecification ts = Inr (f, r) \<Longrightarrow> length r \<le> length ts \<and> (f \<noteq> None \<longrightarrow> length r < length ts)"
  by (fastforce simp: SetFunctionSpecification_def and_then_Inr_iff requireMatch_Inr match_token_Some
      dest!: ColumnReference_shorter split: option.splits)

lemma DerivedColumn_shorter: "DerivedColumn ts = Inr (v, r) \<Longrightarrow> length r < length ts"
  by (fastforce simp: DerivedColumn_def and_then_Inr_iff dest!: SetFunctionSpecification_shorter OrCondition_shorter
      split: option.splits)

lemma as_clause_shorter: "as_clause ts = Inr (a, r) \<Longrightarrow> length r \<le> length ts"
  by (auto simp: as_clause_def match_token_Some cur_type_def split: option.splits if_splits list.splits)

function select_columns :: "derived_column list parser" where
  "select_columns ts = and_then (DerivedColumn ts) (\<lambda>(v, r).
     and_then (as_clause r) (\<lambda>(a, r1).
       case match_token [TK_COMMA] r1 of
         None \<Rightarrow> Inr ([\<lparr>dc_Value = v, dc_AsClause = a\<rparr>], r1)
       | Some (_, r2) \<Rightarrow> and_then (select_columns r2) (\<lambda>(cs, r3). Inr (\<lparr>dc_Value = v, dc_AsClause = a\<rparr> # cs, r3))))"
  by pat_completeness auto
termination
proof (relation "measure length")
  show "(r2, ts) \<in> measure length"
    if "DerivedColumn ts = Inr x" "(v, r) = x" "as_clause r = Inr y" "(a, r1) = y" "match_token [TK_COMMA] r1 = Some z" "(t, r2) = z"
    for ts x v r y a r1 z t r2
    using that DerivedColumn_shorter[of ts v r] as_clause_shorter[of r a r1] by (auto simp: match_token_Some)
qed simp

declare select_columns.simps [simp del]

definition SelectList :: "derived_column list parser" where
  "SelectList ts =
     (case match_token [TK_ASTRSK] ts of
        Some (_, r) \<Rightarrow> Inr ([\<lparr>dc_Value = Asterisk, dc_AsClause = ''''\<rparr>], r)
      | None \<Rightarrow> select_columns ts)"

text \<open>\<open>validateGroupByFields\<close>: the second pass finds a grouping column that matches two columns.\<close>

definition validateGroupByFields :: "derived_column list \<Rightarrow> column_reference list \<Rightarrow> parse_error option" where
  "validateGroupByFields sl gb =
     (if \<not> HasAggrFunc sl \<and> gb = [] then None
      else if list_ex (\<lambda>d. IsColumnReference d \<and> \<not> list_ex (Matches d) gb) sl then Some InvalidGroupByColumn
      else if list_ex (\<lambda>g. length (filter (\<lambda>d. IsColumnReference d \<and> Matches d g) sl) \<ge> 2) gb then Some AmbiguousGroupByColumn
      else None)"

definition ParseSelect :: "statement parser" where
  "ParseSelect ts = and_then (SelectList ts) (\<lambda>(sl, r).
     and_then (TableExpression r) (\<lambda>((from, wh, gb), r1).
       if from = None \<and> length r1 \<ge> 2 then Inl (unexpectedTypeErr [TK_FROM] r1)
       else case validateGroupByFields sl gb of
         Some e \<Rightarrow> Inl e
       | None \<Rightarrow> and_then (SortSpecificationList r1) (\<lambda>(ss, r2).
           and_then (ParseLimitOffset r2) (\<lambda>(lc, r3).
             Inr (SelectStmt \<lparr>sel_List = sl, sel_From = from, sel_Where = wh, sel_GroupBy = gb, sel_Sort = ss, sel_Limit = lc\<rparr>, r3)))))"

section \<open>Other statements\<close>

text \<open>The type of a column, from the token after its name on.\<close>

definition column_type_of :: "column_type parser" where
  "column_type_of ts =
     (let r = tl ts
      in if cur_type ts = TK_T_INT then Inr (NumericType, r)
         else if cur_type ts = TK_T_BIGINT then Inr (BigIntType, r)
         else if cur_type ts = TK_T_VARCHAR then
           and_then (requireMatch [TK_LPAREN] r) (\<lambda>(_, r1).
           and_then (requireInt r1) (\<lambda>(n, r2).
           and_then (requireMatch [TK_RPAREN] r2) (\<lambda>(_, r3). Inr (CharacterStringType n, r3))))
         else if cur_type ts = TK_T_BOOL then Inr (BooleanType, r)
         else Inl (SyntaxErr (case ts of [] \<Rightarrow> '''' | t # _ \<Rightarrow> tk_Text t)))"

lemma column_type_of_shorter: "column_type_of ts = Inr (t, r) \<Longrightarrow> length r \<le> length ts"
proof -
  assume t: "column_type_of ts = Inr (t, r)"
  have "r = tl ts \<or> (\<exists>n r1 r2 x y. requireMatch [TK_LPAREN] (tl ts) = Inr (x, r1) \<and> requireInt r1 = Inr (n, r2)
      \<and> requireMatch [TK_RPAREN] r2 = Inr (y, r))"
    using t by (auto simp: column_type_of_def Let_def and_then_Inr_iff split: if_splits)
  then show ?thesis
  proof (elim disjE exE conjE)
    fix n r1 r2 x y
    assume "requireMatch [TK_LPAREN] (tl ts) = Inr (x, r1)" "requireInt r1 = Inr (n, r2)" "requireMatch [TK_RPAREN] r2 = Inr (y, r)"
    then have "length r < length (tl ts)" using requireInt_shorter[of r1 n r2] by (simp add: requireMatch_Inr)
    then show ?thesis by simp
  qed simp
qed

function element_list :: "(string \<times> column_type) list parser" where
  "element_list ts =
     (case match_token [TK_IDENT] ts of
        None \<Rightarrow> Inr ([], ts)
      | Some (t, r) \<Rightarrow> and_then (column_type_of r) (\<lambda>(ty, r1).
          case match_token [TK_COMMA] r1 of
            None \<Rightarrow> Inr ([(tk_Text t, ty)], r1)
          | Some (_, r2) \<Rightarrow> and_then (element_list r2) (\<lambda>(es, r3). Inr ((tk_Text t, ty) # es, r3))))"
  by pat_completeness auto
termination
  by (relation "measure length") (auto simp: match_token_Some dest!: column_type_of_shorter)

declare element_list.simps [simp del]

definition TableElements :: "(string \<times> column_type) list parser" where
  "TableElements ts = and_then (requireMatch [TK_LPAREN] ts) (\<lambda>(_, r).
     and_then (element_list r) (\<lambda>(es, r1). and_then (requireMatch [TK_RPAREN] r1) (\<lambda>(_, r2). Inr (es, r2))))"

definition ParseCreateTable :: "statement parser" where
  "ParseCreateTable ts =
     (let (name, r) = (case match_token [TK_IDENT] ts of Some (t, r) \<Rightarrow> (tk_Text t, r) | None \<Rightarrow> ('''', ts))
      in and_then (TableElements r) (\<lambda>(es, r1). Inr (CreateTableStmt name es, r1)))"

definition cur_text :: "token list \<Rightarrow> string" where
  "cur_text ts = (case ts of [] \<Rightarrow> '''' | t # _ \<Rightarrow> tk_Text t)"

definition ParseCreate :: "statement parser" where
  "ParseCreate ts =
     (if cur_type ts = TK_DATABASE then
        and_then (requireMatch [TK_IDENT] (tl ts)) (\<lambda>(t, r). Inr (CreateDatabase (tk_Text t), r))
      else if cur_type ts = TK_TABLE then ParseCreateTable (tl ts)
      else Inl (SyntaxErr (cur_text ts)))"

definition ParseShow :: "statement parser" where
  "ParseShow ts =
     (if cur_type ts = TK_DATABASE \<or> cur_type ts = TK_IDENT \<and> to_lower (cur_text ts) = ''databases'' then Inr (ShowDatabase, tl ts)
      else Inl (SyntaxErr (cur_text ts)))"

function ident_list :: "token list \<Rightarrow> string list \<times> token list" where
  "ident_list ts =
     (case match_token [TK_IDENT] ts of
        None \<Rightarrow> ([], ts)
      | Some (t, r) \<Rightarrow>
          (case match_token [TK_COMMA] r of
             None \<Rightarrow> ([tk_Text t], r)
           | Some (_, r1) \<Rightarrow> (case ident_list r1 of (xs, r2) \<Rightarrow> (tk_Text t # xs, r2))))"
  by pat_completeness auto
termination
  by (relation "measure length") (auto simp: match_token_Some)

declare ident_list.simps [simp del]

function literal_list :: "sql_value list parser" where
  "literal_list ts =
     (case match_token literals ts of
        None \<Rightarrow> Inr ([], ts)
      | Some (t, r) \<Rightarrow> and_then (token_Val t) (\<lambda>v.
          case match_token [TK_COMMA] r of
            None \<Rightarrow> Inr ([v], r)
          | Some (_, r1) \<Rightarrow> and_then (literal_list r1) (\<lambda>(vs, r2). Inr (v # vs, r2))))"
  by pat_completeness auto
termination
  by (relation "measure length") (auto simp: match_token_Some)

declare literal_list.simps [simp del]

lemma literal_list_shorter: "literal_list ts = Inr (vs, r) \<Longrightarrow> length r \<le> length ts"
proof (induction ts arbitrary: vs r rule: literal_list.induct)
  case (1 ts)
  then show ?case
    by (subst (asm) (2) literal_list.simps) (fastforce simp: and_then_Inr_iff match_token_Some split: option.splits)
qed

function row_list :: "sql_value list list parser" where
  "row_list ts =
     (case match_token [TK_LPAREN] ts of
        None \<Rightarrow> Inr ([], ts)
      | Some (_, r) \<Rightarrow> and_then (literal_list r) (\<lambda>(vs, r1).
          and_then (requireMatch [TK_RPAREN] r1) (\<lambda>(_, r2).
            case match_token [TK_COMMA] r2 of
              None \<Rightarrow> Inr ([vs], r2)
            | Some (_, r3) \<Rightarrow> and_then (row_list r3) (\<lambda>(rows, r4). Inr (vs # rows, r4)))))"
  by pat_completeness auto
termination
  by (relation "measure length") (fastforce simp: match_token_Some requireMatch_Inr dest!: literal_list_shorter)+

declare row_list.simps [simp del]

definition ParseInsert :: "statement parser" where
  "ParseInsert ts = and_then (requireMatch [TK_INTO] ts) (\<lambda>(_, r).
     and_then (requireMatch [TK_IDENT] r) (\<lambda>(t, r1).
     and_then (case match_token [TK_LPAREN] r1 of
                 None \<Rightarrow> Inr ([], r1)
               | Some (_, r2) \<Rightarrow> (case ident_list r2 of (cols, r3) \<Rightarrow>
                   and_then (requireMatch [TK_RPAREN] r3) (\<lambda>(_, r4). Inr (cols, r4)))) (\<lambda>(cols, r5).
     and_then (requireMatch [TK_VALUES] r5) (\<lambda>(_, r6).
     and_then (row_list r6) (\<lambda>(rows, r7). Inr (InsertStmt (tk_Text t) cols rows, r7))))))"

function set_list :: "(string \<times> operand) list parser" where
  "set_list ts =
     (case match_token [TK_IDENT] ts of
        None \<Rightarrow> Inr ([], ts)
      | Some (t, r) \<Rightarrow> and_then (requireMatch [TK_EQ] r) (\<lambda>(_, r1).
          and_then (ValueExpression r1) (\<lambda>(v, r2).
            case match_token [TK_COMMA] r2 of
              None \<Rightarrow> Inr ([(tk_Text t, v)], r2)
            | Some (_, r3) \<Rightarrow> and_then (set_list r3) (\<lambda>(ss, r4). Inr ((tk_Text t, v) # ss, r4)))))"
  by pat_completeness auto
termination
proof (relation "measure length")
  show "(r3, ts) \<in> measure length"
    if "match_token [TK_IDENT] ts = Some x" "(t, r) = x" "requireMatch [TK_EQ] r = Inr y" "(u, r1) = y" "ValueExpression r1 = Inr z" "(v, r2) = z" "match_token [TK_COMMA] r2 = Some p" "(q, r3) = p"
    for ts x t r y u r1 z v r2 p q r3
    using that ValueExpression_shorter[of r1 v r2] by (auto simp: match_token_Some requireMatch_Inr)
qed simp

declare set_list.simps [simp del]

definition ParseUpdate :: "statement parser" where
  "ParseUpdate ts = and_then (requireMatch [TK_IDENT] ts) (\<lambda>(t, r).
     and_then (requireMatch [TK_SET] r) (\<lambda>(_, r1).
     and_then (set_list r1) (\<lambda>(ss, r2).
     and_then (WhereClause r2) (\<lambda>(wh, r3). Inr (UpdateStmt (tk_Text t) ss wh, r3)))))"

definition ParseUse :: "statement parser" where
  "ParseUse ts = and_then (requireMatch [TK_IDENT] ts) (\<lambda>(t, r). Inr (UseStmt (tk_Text t), r))"

definition ParseDelete :: "statement parser" where
  "ParseDelete ts = and_then (requireMatch [TK_FROM] ts) (\<lambda>(_, r).
     and_then (requireMatch [TK_IDENT] r) (\<lambda>(t, r1).
     and_then (WhereClause r1) (\<lambda>(wh, r2). Inr (DeleteStmt (tk_Text t) wh, r2))))"

text \<open>\<open>Parse\<close>: tokens left over after the statement are not looked at.\<close>

definition Parse :: "token list \<Rightarrow> parse_error + statement" where
  "Parse ts =
     (let r = tl ts; ty = cur_type ts
      in and_then
           (if ty = TK_CREATE then ParseCreate r
            else if ty = TK_SELECT then ParseSelect r
            else if ty = TK_INSERT then ParseInsert r
            else if ty = TK_UPDATE then ParseUpdate r
            else if ty = TK_USE then ParseUse r
            else if ty = TK_DELETE then ParseDelete r
            else if ty = TK_SHOW then ParseShow r
            else Inl (SyntaxErr (cur_text ts))) (\<lambda>(stmt, _). Inr stmt))"

definition parseSQL :: "string \<Rightarrow> parse_error + statement" where
  "parseSQL q = and_then (tokenize q) Parse"

end
