(* ===== verification/SqlGrammar.thy ===== *)
theory SqlGrammar
  imports SqlParse
begin

text \<open>
  What the parser of the SQL engine accepts: the tokens that write a condition, the conditions the parser
  can build from tokens, and its behaviour on text it does not understand.
\<close>

section \<open>Writing a condition as tokens\<close>

definition tok :: "token_type \<Rightarrow> string \<Rightarrow> token" where
  "tok ty s = \<lparr>tk_Type = ty, tk_Line = 0, tk_Column = 0, tk_Text = s\<rparr>"

definition column_tokens :: "column_reference \<Rightarrow> token list" where
  "column_tokens c =
     (if Qualifier c = '''' then [tok TK_IDENT (ColumnName c)]
      else [tok TK_IDENT (Qualifier c), tok TK_DOT ''.'', tok TK_IDENT (ColumnName c)])"

definition value_token :: "sql_value \<Rightarrow> token" where
  "value_token v =
     (case v of VInt w \<Rightarrow> tok TK_INT (dec_nat (unat w))
      | VStr s \<Rightarrow> tok TK_STR s
      | VBool b \<Rightarrow> (if b then tok TK_TRUE ''true'' else tok TK_FALSE ''false'')
      | VTime s \<Rightarrow> tok TK_STR s)"

definition operand_tokens :: "operand \<Rightarrow> token list" where
  "operand_tokens e = (case e of OVal v \<Rightarrow> [value_token v] | OCol c \<Rightarrow> column_tokens c)"

definition comparison_tokens :: "comparison \<Rightarrow> token list" where
  "comparison_tokens p = operand_tokens (cp_LHS p) @ tok (cp_Op p) '''' # operand_tokens (cp_RHS p)"

fun condition_tokens :: "condition \<Rightarrow> token list" where
  "condition_tokens (Operand e) = operand_tokens e"
| "condition_tokens (Comparison p) = comparison_tokens p"
| "condition_tokens (BooleanTerm p c) = comparison_tokens p @ tok TK_AND ''AND'' # condition_tokens c"
| "condition_tokens (SearchCondition p c) = comparison_tokens p @ tok TK_OR ''OR'' # condition_tokens c"

text \<open>Operands that can be written: numbers without a sign, no time stamps.\<close>

definition writable :: "operand \<Rightarrow> bool" where
  "writable e \<longleftrightarrow> (case e of OVal (VInt w) \<Rightarrow> 0 \<le> sint w | OVal (VTime _) \<Rightarrow> False | _ \<Rightarrow> True)"

definition writable_comparison :: "comparison \<Rightarrow> bool" where
  "writable_comparison p \<longleftrightarrow> writable (cp_LHS p) \<and> writable (cp_RHS p) \<and> cp_Op p \<in> set comparison_ops"

fun writable_condition :: "condition \<Rightarrow> bool" where
  "writable_condition (Operand e) = writable e"
| "writable_condition (Comparison p) = writable_comparison p"
| "writable_condition (BooleanTerm p c) = (writable_comparison p \<and> writable_condition c)"
| "writable_condition (SearchCondition p c) = (writable_comparison p \<and> writable_condition c)"

text \<open>The shapes of the grammar: a chain of conjunctions has no disjunction inside, and a disjunction
  starts with a single comparison.\<close>

fun and_chain :: "condition \<Rightarrow> bool" where
  "and_chain (BooleanTerm p c) = and_chain c"
| "and_chain (SearchCondition p c) = False"
| "and_chain _ = True"

fun or_chain :: "condition \<Rightarrow> bool" where
  "or_chain (SearchCondition p c) = or_chain c"
| "or_chain c = and_chain c"

section \<open>Reading it back\<close>

lemma digits_value_dec_nat: "digits_value (dec_nat n) = n"
proof (induction n rule: dec_nat.induct)
  case (1 n)
  then show ?case
    by (subst dec_nat.simps) (auto simp: digits_value_def code_def of_char_of)
qed

lemma Atoi_dec_nat:
  assumes "0 \<le> sint (w :: 64 word)"
  shows "Atoi (dec_nat (unat w)) = Some w"
proof -
  obtain c cs where d: "dec_nat (unat w) = c # cs" by (cases "dec_nat (unat w)") auto
  have dig: "list_all isDecimal (dec_nat (unat w))"
    using dec_nat_digits[of "unat w"] by (fastforce simp: list_all_iff isDecimal_def code_def)
  then have "c \<noteq> CHR ''-''" "c \<noteq> CHR ''+''" using d by (auto simp: isDecimal_def code_def)
  moreover have "uint w = sint w"
    using assms sint_lt[of w] by (simp add: uint_sint take_bit_eq_mod)
  then have "uint w < 2 ^ 63" using sint_lt[of w] by simp
  then have "int (unat w) < int (2 ^ 63)" by simp
  then have "unat w < 2 ^ 63" by (simp only: of_nat_less_iff)
  ultimately show ?thesis
    using d dig digits_value_dec_nat[of "unat w"] by (auto simp: Atoi_def Let_def)
qed

definition stops :: "token list \<Rightarrow> bool" where
  "stops ts \<longleftrightarrow> cur_type ts \<notin> {TK_AND, TK_OR, TK_DOT} \<and> cur_type ts \<notin> set comparison_ops"

lemma tok_simps [simp]: "tk_Type (tok ty s) = ty" "tk_Text (tok ty s) = s"
  by (simp_all add: tok_def)

lemma ValueExpression_tokens:
  assumes "writable e" and "cur_type r \<noteq> TK_DOT"
  shows "ValueExpression (operand_tokens e @ r) = Inr (e, r)"
  using assms
  by (auto simp: ValueExpression_def operand_tokens_def writable_def value_token_def column_tokens_def literals_def
      ColumnReference_def token_Val_def requireMatch_def cur_type_def Atoi_dec_nat split: operand.splits sql_value.splits list.splits)

lemma stops_op: "match_token [TK_AND] r = None" "match_token [TK_OR] r = None" "match_token comparison_ops r = None" "cur_type r \<noteq> TK_DOT"
  if "stops r"
  using that by (auto simp: stops_def cur_type_def match_token_def split: list.splits)

lemma comparison_ops_op: "t \<in> set comparison_ops \<Longrightarrow> t \<noteq> TK_DOT" "TK_AND \<notin> set comparison_ops" "TK_OR \<notin> set comparison_ops"
  by (auto simp: comparison_ops_def)

lemma ParsePredicate_tokens:
  assumes "writable_comparison p" and "cur_type r \<noteq> TK_DOT"
  shows "ParsePredicate (comparison_tokens p @ r) = Inr (Comparison p, r)"
  using assms comparison_ops_op(1)
  by (auto simp: ParsePredicate_def comparison_tokens_def writable_comparison_def ValueExpression_tokens cur_type_def and_then_def)

lemma AndCondition_tokens:
  "\<lbrakk>and_chain c; writable_condition c; cur_type r \<noteq> TK_AND; cur_type r \<noteq> TK_DOT; cur_type r \<notin> set comparison_ops\<rbrakk>
     \<Longrightarrow> AndCondition (condition_tokens c @ r) = Inr (c, r)"
proof (induction c)
  case (Operand e)
  then show ?case
    by (subst AndCondition.simps) (auto simp: ParsePredicate_def ValueExpression_tokens match_token_def cur_type_def split: list.splits)
next
  case (Comparison p)
  then show ?case
    by (subst AndCondition.simps) (auto simp: ParsePredicate_tokens match_token_def cur_type_def split: list.splits)
next
  case (BooleanTerm p c)
  then show ?case
    by (subst AndCondition.simps) (simp add: ParsePredicate_tokens as_comparison_def cur_type_def)
qed simp

lemma OrCondition_and_chain:
  assumes "and_chain c" and "writable_condition c" and "stops r"
  shows "OrCondition (condition_tokens c @ r) = Inr (c, r)"
proof -
  have "AndCondition (condition_tokens c @ r) = Inr (c, r)"
    using assms AndCondition_tokens[of c r] by (simp add: stops_def)
  then show ?thesis using stops_op[OF assms(3)] by (subst OrCondition.simps) simp
qed


definition eq_comparison :: "column_reference \<Rightarrow> sql_value \<Rightarrow> comparison" where
  "eq_comparison c v = \<lparr>cp_LHS = OCol c, cp_Op = TK_EQ, cp_RHS = OVal v\<rparr>"

definition sample_condition :: condition where
  "sample_condition =
     SearchCondition (eq_comparison \<lparr>Qualifier = ''t'', ColumnName = ''a''\<rparr> (VInt 5))
       (BooleanTerm (eq_comparison \<lparr>Qualifier = '''', ColumnName = ''b''\<rparr> (VBool True)) (Operand (OVal (VStr ''x''))))"


text \<open>Conversely the parser builds no other conditions.\<close>

lemma after_predicate: "\<lbrakk>ParsePredicate ts = Inr (x, r0); match_token k r0 = Some (t, r1)\<rbrakk> \<Longrightarrow> length r1 < length ts"
  by (auto simp: match_token_Some dest!: ParsePredicate_shorter)

lemma after_and: "\<lbrakk>AndCondition ts = Inr (x, r0); match_token k r0 = Some (t, r1)\<rbrakk> \<Longrightarrow> length r1 < length ts"
  by (auto simp: match_token_Some dest!: AndCondition_shorter)

lemma AndCondition_shape: "AndCondition ts = Inr (c, r) \<Longrightarrow> and_chain c"
proof (induction ts arbitrary: c rule: measure_induct_rule[of length])
  case (less ts)
  have base: "and_chain c'" if "ParsePredicate us = Inr (c', r')" for us c' r'
    using that by (auto simp: ParsePredicate_def and_then_Inr_iff split: option.splits)
  from AndCondition_cases[OF less.prems] consider "ParsePredicate ts = Inr (c, r)"
    | p r1 rhs where "length r1 < length ts" "AndCondition r1 = Inr (rhs, r)" "c = BooleanTerm p rhs"
    by (elim disjE exE conjE) (auto dest: after_predicate)
  then show ?case using base less.IH by cases auto
qed

lemma OrCondition_shape: "OrCondition ts = Inr (c, r) \<Longrightarrow> or_chain c"
proof (induction ts arbitrary: c rule: measure_induct_rule[of length])
  case (less ts)
  have base: "or_chain c'" if "and_chain c'" for c' using that by (cases c') auto
  from OrCondition_cases[OF less.prems] consider "AndCondition ts = Inr (c, r)"
    | p r1 rhs where "length r1 < length ts" "OrCondition r1 = Inr (rhs, r)" "c = SearchCondition p rhs"
    by (elim disjE exE conjE) (auto dest: after_and)
  then show ?case using base less.IH AndCondition_shape by cases auto
qed

section \<open>Text that is not understood\<close>

text \<open>
  C2. A conjunction followed by \<open>OR\<close> crashes the parser, whatever comes next: the left-hand side of a
  disjunction has to be a single comparison.
\<close>
theorem and_or_panics:
  assumes "and_chain c" and "writable_comparison p" and "writable_condition c"
  shows "WhereClause (tok TK_WHERE ''WHERE'' # condition_tokens (BooleanTerm p c) @ tok TK_OR ''OR'' # r) = Inl ParsePanic"
proof -
  have "AndCondition (condition_tokens (BooleanTerm p c) @ tok TK_OR ''OR'' # r)
      = Inr (BooleanTerm p c, tok TK_OR ''OR'' # r)"
    using assms by (intro AndCondition_tokens) (auto simp: cur_type_def comparison_ops_op)
  then have "OrCondition (condition_tokens (BooleanTerm p c) @ tok TK_OR ''OR'' # r) = Inl ParsePanic"
    by (subst OrCondition.simps) (simp add: as_comparison_def)
  then show ?thesis by (simp add: WhereClause_def)
qed

theorem and_or_panics_witness:
  "WhereClause (tok TK_WHERE ''WHERE'' #
        condition_tokens (BooleanTerm (eq_comparison \<lparr>Qualifier = '''', ColumnName = ''a''\<rparr> (VInt 1)) (Operand (OVal (VBool True))))
        @ tok TK_OR ''OR'' # [tok TK_TRUE ''true'']) = Inl ParsePanic"
  by (intro and_or_panics)
    (simp_all add: writable_comparison_def writable_def eq_comparison_def comparison_ops_def)

text \<open>The parser reports success on a prefix: what follows the part it understands is dropped.\<close>

lemma delete_ignores_unparsed:
  assumes "cur_type r \<noteq> TK_WHERE"
  shows "Parse (tok TK_DELETE d # tok TK_FROM f # tok TK_IDENT t # r) = Inr (DeleteStmt t None)"
proof -
  have "WhereClause r = Inr (None, r)"
    using assms by (simp add: WhereClause_def match_token_def cur_type_def split: list.splits)
  then show ?thesis by (simp add: Parse_def cur_type_def ParseDelete_def requireMatch_def)
qed

end
