(* ===== verification/SqlEval.thy ===== *)
theory SqlEval
  imports SqlParse Wal
begin

text \<open>
  The evaluation of queries (\<open>sql/engine/select.go\<close>): conditions on a row, joins, projection, aggregation,
  sorting and limits.  The relation manager, an interface of the code, is a record of operations on a state;
  \<open>sort.Slice\<close> is an argument.  A cell without a value is \<open>None\<close>; \<open>EvalPanic\<close> is a failed type assertion or
  an index out of range.
\<close>

type_synonym cell = "sql_value option"

datatype eval_error =
    StorageErr storage_error
  | IncompatTypeCompare
  | NonBoolJoinCond
  | SortFieldNotFound
  | TmpUnsupported
  | NothingToEvaluate
  | NothingToCompare
  | EvalPanic

record 's relation_manager =
  rm_CreateTable :: "schema \<Rightarrow> string \<Rightarrow> ('s, unit) action"
  rm_MarkDeleted :: "string \<Rightarrow> 32 word \<Rightarrow> ('s, wal_batch) action"
  rm_Fetch :: "string \<Rightarrow> ('s, sql_row list \<times> field_ref list) action"
  rm_Update :: "string \<Rightarrow> 32 word \<Rightarrow> string list \<Rightarrow> cell list \<Rightarrow> ('s, wal_batch) action"
  rm_Insert :: "string \<Rightarrow> string list \<Rightarrow> cell list \<Rightarrow> ('s, wal_batch) action"
  rm_FlushWALBatch :: "wal_batch \<Rightarrow> ('s, unit) action"

section \<open>Conditions\<close>

definition findColumnInFieldList :: "column_reference \<Rightarrow> field_ref list \<Rightarrow> eval_error + nat" where
  "findColumnInFieldList c fs =
     (case (if Qualifier c \<noteq> '''' then LookupColIdxByID fs (Qualifier c) (ColumnName c)
            else LookupFieldIdx fs (ColumnName c)) of
        Inl e \<Rightarrow> Inl (StorageErr e)
      | Inr i \<Rightarrow> Inr i)"

definition row_cell :: "sql_row \<Rightarrow> nat \<Rightarrow> eval_error + cell" where
  "row_cell row i = (if i < length (row_vals row) then Inr (row_vals row ! i) else Inl EvalPanic)"

definition evalPrimary :: "field_ref list \<Rightarrow> sql_row \<Rightarrow> operand \<Rightarrow> eval_error + cell" where
  "evalPrimary fs row e =
     (case e of OVal v \<Rightarrow> Inr (Some v) | OCol c \<Rightarrow> and_then (findColumnInFieldList c fs) (row_cell row))"

text \<open>An ordering comparison of two numbers or two strings; the error for a left-hand side of another type
  depends on the operator.\<close>

definition compare_ordered ::
  "eval_error \<Rightarrow> (int \<Rightarrow> int \<Rightarrow> bool) \<Rightarrow> (string \<Rightarrow> string \<Rightarrow> bool) \<Rightarrow> cell \<Rightarrow> cell \<Rightarrow> eval_error + bool" where
  "compare_ordered other int_cmp str_cmp lhs rhs =
     (case lhs of
        Some (VInt a) \<Rightarrow> (case rhs of Some (VInt b) \<Rightarrow> Inr (int_cmp (sint a) (sint b)) | _ \<Rightarrow> Inl IncompatTypeCompare)
      | Some (VStr a) \<Rightarrow> (case rhs of Some (VStr b) \<Rightarrow> Inr (str_cmp a b) | _ \<Rightarrow> Inl IncompatTypeCompare)
      | _ \<Rightarrow> Inl other)"

definition compare_cells :: "token_type \<Rightarrow> cell \<Rightarrow> cell \<Rightarrow> eval_error + bool" where
  "compare_cells op lhs rhs =
     (if op = TK_EQ then Inr (lhs = rhs)
      else if op = TK_NEQ then Inr (lhs \<noteq> rhs)
      else if op = TK_GT then compare_ordered NothingToCompare (\<lambda>a b. b < a) (\<lambda>a b. b < a) lhs rhs
      else if op = TK_GTE then compare_ordered IncompatTypeCompare (\<lambda>a b. b \<le> a) (\<lambda>a b. b \<le> a) lhs rhs
      else if op = TK_LT then compare_ordered NothingToCompare (\<lambda>a b. a < b) (\<lambda>a b. a < b) lhs rhs
      else if op = TK_LTE then compare_ordered IncompatTypeCompare (\<lambda>a b. a \<le> b) (\<lambda>a b. a \<le> b) lhs rhs
      else Inl NothingToCompare)"

definition evalComparisonPredicate :: "field_ref list \<Rightarrow> sql_row \<Rightarrow> comparison \<Rightarrow> eval_error + bool" where
  "evalComparisonPredicate fs row p =
     and_then (evalPrimary fs row (cp_LHS p)) (\<lambda>lhs.
     and_then (evalPrimary fs row (cp_RHS p)) (\<lambda>rhs. compare_cells (cp_Op p) lhs rhs))"

text \<open>\<open>evalOr\<close> and \<open>evalAnd\<close> evaluate both sides.\<close>

definition both_bools :: "(bool \<Rightarrow> bool \<Rightarrow> bool) \<Rightarrow> bool \<Rightarrow> sql_value \<Rightarrow> eval_error + sql_value" where
  "both_bools f l r = (case r of VBool b \<Rightarrow> Inr (VBool (f l b)) | _ \<Rightarrow> Inl IncompatTypeCompare)"

fun evaluate :: "field_ref list \<Rightarrow> sql_row \<Rightarrow> condition \<Rightarrow> eval_error + sql_value" where
  "evaluate fs row (SearchCondition p c) =
     and_then (evalComparisonPredicate fs row p) (\<lambda>l. and_then (evaluate fs row c) (both_bools (\<or>) l))"
| "evaluate fs row (BooleanTerm p c) =
     and_then (evalComparisonPredicate fs row p) (\<lambda>l. and_then (evaluate fs row c) (both_bools (\<and>) l))"
| "evaluate fs row (Comparison p) = and_then (evalComparisonPredicate fs row p) (\<lambda>b. Inr (VBool b))"
| "evaluate fs row (Operand e) =
     (case e of OVal (VInt w) \<Rightarrow> Inr (VInt w) | OVal (VStr s) \<Rightarrow> Inr (VStr s) | OVal (VBool b) \<Rightarrow> Inr (VBool b)
      | _ \<Rightarrow> Inl NothingToEvaluate)"

fun filterRows :: "condition \<Rightarrow> field_ref list \<Rightarrow> sql_row list \<Rightarrow> eval_error + sql_row list" where
  "filterRows c fs [] = Inr []"
| "filterRows c fs (row # rows) =
     and_then (evaluate fs row c) (\<lambda>v.
     and_then (filterRows c fs rows) (\<lambda>ans. Inr (if v = VBool True then row # ans else ans)))"

section \<open>Joins\<close>

text \<open>The rows that satisfy a join condition, in order.\<close>

fun joined_rows :: "condition \<Rightarrow> field_ref list \<Rightarrow> sql_row list \<Rightarrow> eval_error + sql_row list" where
  "joined_rows c fs [] = Inr []"
| "joined_rows c fs (row # rows) =
     and_then (evaluate fs row c) (\<lambda>v.
       case v of
         VBool b \<Rightarrow> and_then (joined_rows c fs rows) (\<lambda>ans. Inr (if b then row # ans else ans))
       | _ \<Rightarrow> Inl NonBoolJoinCond)"

text \<open>The outer loop: the candidates of each row, and what stands for them when none is joined.\<close>

fun join_rows :: "condition \<Rightarrow> field_ref list \<Rightarrow> (sql_row \<Rightarrow> sql_row list) \<Rightarrow> (sql_row \<Rightarrow> sql_row list) \<Rightarrow> sql_row list
    \<Rightarrow> eval_error + sql_row list" where
  "join_rows c fs candidates padded [] = Inr []"
| "join_rows c fs candidates padded (row # rows) =
     and_then (joined_rows c fs (candidates row)) (\<lambda>ms.
     and_then (join_rows c fs candidates padded rows) (\<lambda>rest. Inr ((if ms = [] then padded row else ms) @ rest)))"

definition empty_cells :: "nat \<Rightarrow> sql_row" where
  "empty_cells n = \<lparr>row_id = 0, row_vals = replicate n None\<rparr>"

definition join_tables :: "join_type \<Rightarrow> condition \<Rightarrow> sql_row list \<times> field_ref list \<Rightarrow> sql_row list \<times> field_ref list
    \<Rightarrow> eval_error + sql_row list \<times> field_ref list" where
  "join_tables jt c l r =
     (case (l, r) of ((lRows, lFields), (rRows, rFields)) \<Rightarrow>
        let fs = lFields @ rFields
        in and_then
             (case jt of
                INNER_JOIN \<Rightarrow> join_rows c fs (\<lambda>lRow. map (merge_rows lRow) rRows) (\<lambda>_. []) lRows
              | LEFT_JOIN \<Rightarrow>
                  join_rows c fs (\<lambda>lRow. map (merge_rows lRow) rRows)
                    (\<lambda>lRow. [merge_rows lRow (empty_cells (length rFields))]) lRows
              | RIGHT_JOIN \<Rightarrow>
                  join_rows c fs (\<lambda>rRow. map (\<lambda>lRow. merge_rows lRow rRow) lRows)
                    (\<lambda>rRow. [merge_rows (empty_cells (length lFields)) rRow]) rRows
              | FULL_JOIN \<Rightarrow> Inr [])
             (\<lambda>rows. Inr (rows, fs)))"

fun nestedLoopJoin :: "('s, 'm) relation_manager_scheme \<Rightarrow> table_reference \<Rightarrow> 's
    \<Rightarrow> (eval_error + sql_row list \<times> field_ref list) \<times> 's" where
  "nestedLoopJoin rm (TableName corr name) s =
     (case rm_Fetch rm name s of
        (Inl e, s') \<Rightarrow> (Inl (StorageErr e), s')
      | (Inr (rows, fs), s') \<Rightarrow>
          (Inr (rows, map (\<lambda>f. f\<lparr>fr_table := (case corr of Some i \<Rightarrow> i | None \<Rightarrow> name)\<rparr>) fs), s'))"
| "nestedLoopJoin rm (QualifiedJoin l jt r c) s =
     (case nestedLoopJoin rm l s of
        (Inl e, s1) \<Rightarrow> (Inl e, s1)
      | (Inr lt, s1) \<Rightarrow>
          (case nestedLoopJoin rm r s1 of
             (Inl e, s2) \<Rightarrow> (Inl e, s2)
           | (Inr rt, s2) \<Rightarrow> (join_tables jt c lt rt, s2)))"

section \<open>Projection\<close>

text \<open>The column an element of the select list reads, if any, and the position the lookup gives it.\<close>

definition column_of :: "value_primary \<Rightarrow> column_reference option" where
  "column_of v =
     (case v of
        SetFunction (Average c) \<Rightarrow> Some c
      | SetFunction (Count c) \<Rightarrow> c
      | Expr (Operand (OCol c)) \<Rightarrow> Some c
      | _ \<Rightarrow> None)"

fun lookup_columns :: "field_ref list \<Rightarrow> derived_column list \<Rightarrow> eval_error + (derived_column \<times> nat option) list" where
  "lookup_columns fs [] = Inr []"
| "lookup_columns fs (d # ds) =
     and_then (case column_of (dc_Value d) of
                 None \<Rightarrow> Inr None
               | Some c \<Rightarrow> and_then (findColumnInFieldList c fs) (\<lambda>i. Inr (Some i))) (\<lambda>i.
     and_then (lookup_columns fs ds) (\<lambda>rest. Inr ((d, i) # rest)))"

definition project_cell :: "field_ref list \<Rightarrow> sql_row \<Rightarrow> derived_column \<times> nat option \<Rightarrow> eval_error + cell" where
  "project_cell fs row di =
     (case di of (d, i) \<Rightarrow>
        let read = row_cell row (case i of Some i \<Rightarrow> i | None \<Rightarrow> 0)
        in case dc_Value d of
             SetFunction (Average _) \<Rightarrow> and_then read (\<lambda>v. case v of Some (VInt w) \<Rightarrow> Inr v | _ \<Rightarrow> Inl EvalPanic)
           | SetFunction (Count (Some _)) \<Rightarrow> and_then read (\<lambda>v. Inr (Some (VInt (if v \<noteq> None then 1 else 0))))
           | SetFunction (Count None) \<Rightarrow> Inr (Some (VInt 1))
           | Expr (Operand (OCol _)) \<Rightarrow> read
           | Expr c \<Rightarrow> and_then (evaluate fs row c) (\<lambda>v. Inr (Some v))
           | Asterisk \<Rightarrow> Inl NothingToEvaluate)"

fun project_row :: "field_ref list \<Rightarrow> sql_row \<Rightarrow> (derived_column \<times> nat option) list \<Rightarrow> eval_error + cell list" where
  "project_row fs row [] = Inr []"
| "project_row fs row (d # ds) =
     and_then (project_cell fs row d) (\<lambda>v. and_then (project_row fs row ds) (\<lambda>vs. Inr (v # vs)))"

fun project_rows :: "field_ref list \<Rightarrow> (derived_column \<times> nat option) list \<Rightarrow> sql_row list \<Rightarrow> eval_error + sql_row list" where
  "project_rows fs ds [] = Inr []"
| "project_rows fs ds (row # rows) =
     and_then (project_row fs row ds) (\<lambda>vs.
     and_then (project_rows fs ds rows) (\<lambda>rest. Inr (row\<lparr>row_vals := vs\<rparr> # rest)))"

definition column_text :: "column_reference \<Rightarrow> string" where
  "column_text c = (if Qualifier c \<noteq> '''' then Qualifier c @ ''.'' @ ColumnName c else ColumnName c)"

text \<open>The header holds pointers: an entry for a column is the field of the table itself, so an alias given
  to it renames that field everywhere it occurs.\<close>

datatype header_field = FieldAt nat | NewField field_ref

fun header_loop :: "(derived_column \<times> nat option) list \<Rightarrow> field_ref list \<Rightarrow> header_field list \<Rightarrow> field_ref list" where
  "header_loop [] fs hs = map (\<lambda>h. case h of FieldAt i \<Rightarrow> fs ! i | NewField f \<Rightarrow> f) hs"
| "header_loop ((d, i) # ds) fs hs =
     (let alias = dc_AsClause d;
          own = (\<lambda>name. header_loop ds fs
                   (hs @ [NewField \<lparr>fr_table = '''', fr_column = (if alias \<noteq> '''' then alias else name)\<rparr>]))
      in case dc_Value d of
           SetFunction (Average c) \<Rightarrow> own (''avg('' @ column_text c @ '')'')
         | SetFunction (Count (Some c)) \<Rightarrow> own (''count('' @ column_text c @ '')'')
         | SetFunction (Count None) \<Rightarrow> own ''count(*)''
         | Expr (Operand (OCol _)) \<Rightarrow>
             (let k = (case i of Some i \<Rightarrow> i | None \<Rightarrow> 0)
              in header_loop ds (if alias \<noteq> '''' then fs[k := (fs ! k)\<lparr>fr_column := alias\<rparr>] else fs) (hs @ [FieldAt k]))
         | _ \<Rightarrow> own ''?'')"

definition projectColumns :: "derived_column list \<Rightarrow> field_ref list \<Rightarrow> sql_row list
    \<Rightarrow> eval_error + sql_row list \<times> field_ref list" where
  "projectColumns sl fs rows =
     (case sl of
        [] \<Rightarrow> Inl EvalPanic
      | d # _ \<Rightarrow>
          (if dc_Value d = Asterisk then Inr (rows, fs)
           else and_then (lookup_columns fs sl) (\<lambda>ds.
                and_then (project_rows fs ds rows) (\<lambda>rows'. Inr (rows', header_loop ds fs [])))))"

section \<open>Aggregation\<close>

text \<open>\<open>%v\<close> of a cell.\<close>

definition value_text :: "cell \<Rightarrow> string" where
  "value_text v =
     (case v of None \<Rightarrow> ''<nil>''
      | Some (VInt w) \<Rightarrow> (if sint w < 0 then ''-'' @ dec_nat (nat (- sint w)) else dec_nat (nat (sint w)))
      | Some (VStr s) \<Rightarrow> s
      | Some (VBool b) \<Rightarrow> (if b then ''true'' else ''false'')
      | Some (VTime s) \<Rightarrow> s)"

text \<open>\<open>colToIdx\<close>: the last element of the select list that is this column; a column that is not in the
  list is looked up as position 0.\<close>

definition colToIdx :: "derived_column list \<Rightarrow> column_reference \<Rightarrow> nat" where
  "colToIdx sl c =
     (case filter (\<lambda>i. dc_Value (sl ! i) = Expr (Operand (OCol c))) (rev [0..<length sl]) of [] \<Rightarrow> 0 | i # _ \<Rightarrow> i)"

fun groupKey :: "derived_column list \<Rightarrow> column_reference list \<Rightarrow> sql_row \<Rightarrow> eval_error + string" where
  "groupKey sl [] row = Inr []"
| "groupKey sl (c # cs) row =
     and_then (row_cell row (colToIdx sl c)) (\<lambda>v. and_then (groupKey sl cs row) (\<lambda>k. Inr (value_text v @ k)))"

text \<open>\<open>math.Round\<close> of a quotient, half away from zero.  The code divides 64-bit floats, which agrees for
  sums below \<open>2 ^ 52\<close>.\<close>

definition round_quotient :: "int \<Rightarrow> int \<Rightarrow> int" where
  "round_quotient a b = (if a \<ge> 0 then (2 * a + b) div (2 * b) else - ((2 * (- a) + b) div (2 * b)))"

definition cumulative_average :: "64 word \<Rightarrow> int \<Rightarrow> 64 word \<Rightarrow> 64 word" where
  "cumulative_average avg n x = word_of_int (round_quotient (sint (avg * (word_of_int n - 1) + x)) n)"

record aggregation =
  ag_rows :: "sql_row list"
  ag_keys :: "string \<rightharpoonup> nat"
  ag_counts :: "string \<Rightarrow> int"

definition set_cell :: "nat \<Rightarrow> nat \<Rightarrow> cell \<Rightarrow> aggregation \<Rightarrow> aggregation" where
  "set_cell g i v a = a\<lparr>ag_rows := (ag_rows a)[g := (ag_rows a ! g)\<lparr>row_vals := (row_vals (ag_rows a ! g))[i := v]\<rparr>]\<rparr>"

text \<open>One element of the select list at position \<open>i\<close>, for a row of the group at position \<open>g\<close>; when the
  row is the first of its group it is the aggregated row itself.\<close>

definition aggregate_cell :: "string \<Rightarrow> nat \<Rightarrow> bool \<Rightarrow> sql_row \<Rightarrow> value_primary \<Rightarrow> nat \<Rightarrow> aggregation \<Rightarrow> eval_error + aggregation" where
  "aggregate_cell key g first row v i a =
     (let own = (if first then ag_rows a ! g else row)
      in case v of
           SetFunction (Count _) \<Rightarrow>
             (if first then Inr a
              else and_then (row_cell (ag_rows a ! g) i) (\<lambda>x. and_then (row_cell own i) (\<lambda>y.
                     case (x, y) of (Some (VInt m), Some (VInt n)) \<Rightarrow> Inr (set_cell g i (Some (VInt (m + n))) a)
                     | _ \<Rightarrow> Inl EvalPanic)))
         | SetFunction (Average c) \<Rightarrow>
             (let countKey = key @ column_text c; n = ag_counts a countKey + 1; a1 = a\<lparr>ag_counts := (ag_counts a)(countKey := n)\<rparr>
              in and_then (row_cell (ag_rows a ! g) i) (\<lambda>x. and_then (row_cell own i) (\<lambda>y.
                     case (x, y) of (Some (VInt m), Some (VInt k)) \<Rightarrow> Inr (set_cell g i (Some (VInt (cumulative_average m n k))) a1)
                     | _ \<Rightarrow> Inl EvalPanic)))
         | _ \<Rightarrow> Inr a)"

fun aggregate_cells :: "string \<Rightarrow> nat \<Rightarrow> bool \<Rightarrow> sql_row \<Rightarrow> derived_column list \<Rightarrow> nat \<Rightarrow> aggregation \<Rightarrow> eval_error + aggregation" where
  "aggregate_cells key g first row [] i a = Inr a"
| "aggregate_cells key g first row (d # ds) i a =
     and_then (aggregate_cell key g first row (dc_Value d) i a) (aggregate_cells key g first row ds (i + 1))"

definition aggregate_row :: "derived_column list \<Rightarrow> column_reference list \<Rightarrow> sql_row \<Rightarrow> aggregation \<Rightarrow> eval_error + aggregation" where
  "aggregate_row sl gb row a =
     and_then (groupKey sl gb row) (\<lambda>key.
       case ag_keys a key of
         None \<Rightarrow>
           (let g = length (ag_rows a)
            in aggregate_cells key g True row sl 0 (a\<lparr>ag_rows := ag_rows a @ [row], ag_keys := (ag_keys a)(key \<mapsto> g)\<rparr>))
       | Some g \<Rightarrow> aggregate_cells key g False row sl 0 a)"

fun aggregate_loop :: "derived_column list \<Rightarrow> column_reference list \<Rightarrow> sql_row list \<Rightarrow> aggregation \<Rightarrow> eval_error + aggregation" where
  "aggregate_loop sl gb [] a = Inr a"
| "aggregate_loop sl gb (row # rows) a = and_then (aggregate_row sl gb row a) (aggregate_loop sl gb rows)"

fun empty_aggregate :: "derived_column list \<Rightarrow> cell list \<Rightarrow> eval_error + cell list" where
  "empty_aggregate [] vs = Inr vs"
| "empty_aggregate (d # ds) vs =
     (case dc_Value d of
        SetFunction _ \<Rightarrow> empty_aggregate ds (vs @ [Some (VInt 0)])
      | Expr c \<Rightarrow> and_then (evaluate [] \<lparr>row_id = 0, row_vals = vs\<rparr> c) (\<lambda>v. empty_aggregate ds (vs @ [Some v]))
      | Asterisk \<Rightarrow> Inl NothingToEvaluate)"

definition emptyAggregateRow :: "derived_column list \<Rightarrow> eval_error + sql_row list" where
  "emptyAggregateRow sl = and_then (empty_aggregate sl []) (\<lambda>vs. Inr [\<lparr>row_id = 0, row_vals = vs\<rparr>])"

definition no_groups :: aggregation where
  "no_groups = \<lparr>ag_rows = [], ag_keys = Map.empty, ag_counts = (\<lambda>_. 0)\<rparr>"

definition aggregateRows :: "derived_column list \<Rightarrow> column_reference list \<Rightarrow> sql_row list \<Rightarrow> eval_error + sql_row list" where
  "aggregateRows sl gb rows =
     (if \<not> HasAggrFunc sl then Inr rows
      else if gb = [] \<and> rows = [] then emptyAggregateRow sl
      else and_then (aggregate_loop sl gb rows no_groups) (\<lambda>a. Inr (ag_rows a)))"

section \<open>Sorting and limits\<close>

text \<open>The comparison of \<open>sortColumns\<close>, \<open>None\<close> where it panics.\<close>

fun sort_less :: "(nat \<times> bool) list \<Rightarrow> sql_row \<Rightarrow> sql_row \<Rightarrow> bool option" where
  "sort_less [] a b = Some False"
| "sort_less ((i, descending) # ks) a b =
     (case (row_cell a i, row_cell b i) of
        (Inr l, Inr r) \<Rightarrow>
          (if l = r then sort_less ks a b
           else (case (l, r) of
                   (Some (VInt m), Some (VInt n)) \<Rightarrow> Some ((sint m < sint n) \<noteq> descending)
                 | (Some (VStr m), Some (VStr n)) \<Rightarrow> Some ((m < n) \<noteq> descending)
                 | (Some (VBool m), Some (VBool n)) \<Rightarrow> Some ((\<not> m \<and> n) \<noteq> descending)
                 | _ \<Rightarrow> None))
      | _ \<Rightarrow> None)"

text \<open>\<open>sort.Slice\<close>: the rows it leaves, \<open>None\<close> when a comparison panics.\<close>

type_synonym slice_sort = "(sql_row \<Rightarrow> sql_row \<Rightarrow> bool option) \<Rightarrow> sql_row list \<Rightarrow> sql_row list option"

fun sort_positions :: "sort_spec list \<Rightarrow> field_ref list \<Rightarrow> eval_error + (nat \<times> bool) list" where
  "sort_positions [] fs = Inr []"
| "sort_positions (ss # sss) fs =
     (case findColumnInFieldList (ss_Key ss) fs of
        Inl e \<Rightarrow> Inl (if e = StorageErr FieldNotFound then SortFieldNotFound else e)
      | Inr i \<Rightarrow> and_then (sort_positions sss fs) (\<lambda>ks. Inr ((i, ss_Order ss = TK_DESC) # ks)))"

definition sortColumns :: "slice_sort \<Rightarrow> sort_spec list \<Rightarrow> field_ref list \<Rightarrow> sql_row list \<Rightarrow> eval_error + sql_row list" where
  "sortColumns sort_slice ssl fs rows =
     and_then (sort_positions ssl fs) (\<lambda>ks.
       case sort_slice (sort_less ks) rows of None \<Rightarrow> Inl EvalPanic | Some rows' \<Rightarrow> Inr rows')"

definition limit_rows :: "int \<Rightarrow> sql_row list \<Rightarrow> sql_row list" where
  "limit_rows n rows = (if n > int (length rows) then rows else take (nat n) rows)"

definition offset_rows :: "int \<Rightarrow> sql_row list \<Rightarrow> sql_row list" where
  "offset_rows n rows = (if n \<ge> int (length rows) then [] else drop (nat n) rows)"

definition window_rows :: "limit_offset \<Rightarrow> sql_row list \<Rightarrow> sql_row list" where
  "window_rows lc rows =
     (let rows' = (if OffsetActive lc then offset_rows (lo_Offset lc) rows else rows)
      in if LimitActive lc then limit_rows (lo_Limit lc) rows' else rows')"

definition EvaluateSelect :: "slice_sort \<Rightarrow> ('s, 'm) relation_manager_scheme \<Rightarrow> select_stmt \<Rightarrow> 's
    \<Rightarrow> (eval_error + sql_row list \<times> field_ref list) \<times> 's" where
  "EvaluateSelect sort_slice rm q s =
     (case sel_From q of
        None \<Rightarrow> (projectColumns (sel_List q) [] [\<lparr>row_id = 0, row_vals = []\<rparr>], s)
      | Some t \<Rightarrow>
          (case nestedLoopJoin rm t s of
             (Inl e, s') \<Rightarrow> (Inl e, s')
           | (Inr (rows, fs), s') \<Rightarrow>
               (and_then (case sel_Where q of None \<Rightarrow> Inr rows | Some c \<Rightarrow> filterRows c fs rows) (\<lambda>rows1.
                and_then (projectColumns (sel_List q) fs rows1) (\<lambda>(rows2, header).
                and_then (aggregateRows (sel_List q) (sel_GroupBy q) rows2) (\<lambda>rows3.
                and_then (sortColumns sort_slice (sel_Sort q) header rows3) (\<lambda>rows4.
                  Inr (window_rows (sel_Limit q) rows4, header))))), s')))"

end
