(* ===== verification/SqlQuery.thy ===== *)
theory SqlQuery
  imports SqlEval "HOL-Library.Multiset"
begin

text \<open>
  What queries read: well-typed conditions never fail, and joins against the product of the tables.
\<close>

section \<open>Types of conditions\<close>

datatype sql_type = IntT | StrT | BoolT

definition has_type :: "sql_type \<Rightarrow> sql_value \<Rightarrow> bool" where
  "has_type t v \<longleftrightarrow> (case v of VInt _ \<Rightarrow> t = IntT | VStr _ \<Rightarrow> t = StrT | VBool _ \<Rightarrow> t = BoolT | VTime _ \<Rightarrow> False)"

text \<open>The columns of a row: their types and whether a value may be missing.\<close>

definition row_typed :: "(sql_type \<times> bool) list \<Rightarrow> sql_row \<Rightarrow> bool" where
  "row_typed ts row \<longleftrightarrow>
     list_all2 (\<lambda>(t, nullable) v. case v of None \<Rightarrow> nullable | Some x \<Rightarrow> has_type t x) ts (row_vals row)"

definition operand_type :: "field_ref list \<Rightarrow> (sql_type \<times> bool) list \<Rightarrow> operand \<Rightarrow> (sql_type \<times> bool) option" where
  "operand_type fs ts e =
     (case e of
        OVal (VInt _) \<Rightarrow> Some (IntT, False) | OVal (VStr _) \<Rightarrow> Some (StrT, False) | OVal (VBool _) \<Rightarrow> Some (BoolT, False)
      | OVal (VTime _) \<Rightarrow> None
      | OCol c \<Rightarrow> (case findColumnInFieldList c fs of Inr i \<Rightarrow> if i < length ts then Some (ts ! i) else None | Inl _ \<Rightarrow> None))"

text \<open>Equality is defined on all values; the orderings need two numbers or two strings that are present.\<close>

definition comparison_typed :: "field_ref list \<Rightarrow> (sql_type \<times> bool) list \<Rightarrow> comparison \<Rightarrow> bool" where
  "comparison_typed fs ts p \<longleftrightarrow>
     (case (operand_type fs ts (cp_LHS p), operand_type fs ts (cp_RHS p)) of
        (Some (t, n), Some (u, m)) \<Rightarrow>
          cp_Op p \<in> {TK_EQ, TK_NEQ}
          \<or> cp_Op p \<in> {TK_GT, TK_GTE, TK_LT, TK_LTE} \<and> t = u \<and> t \<in> {IntT, StrT} \<and> \<not> n \<and> \<not> m
      | _ \<Rightarrow> False)"

fun condition_typed :: "field_ref list \<Rightarrow> (sql_type \<times> bool) list \<Rightarrow> condition \<Rightarrow> bool" where
  "condition_typed fs ts (Operand e) = (\<exists>b. e = OVal (VBool b))"
| "condition_typed fs ts (Comparison p) = comparison_typed fs ts p"
| "condition_typed fs ts (BooleanTerm p c) = (comparison_typed fs ts p \<and> condition_typed fs ts c)"
| "condition_typed fs ts (SearchCondition p c) = (comparison_typed fs ts p \<and> condition_typed fs ts c)"

lemma operand_typed:
  assumes "row_typed ts row" and "operand_type fs ts e = Some (t, n)"
  shows "\<exists>v. evalPrimary fs row e = Inr v \<and> (case v of None \<Rightarrow> n | Some x \<Rightarrow> has_type t x)"
proof (cases e)
  case (OVal v)
  then show ?thesis using assms(2) by (auto simp: operand_type_def evalPrimary_def has_type_def split: sql_value.splits)
next
  case (OCol c)
  then obtain i where i: "findColumnInFieldList c fs = Inr i" "i < length ts" "ts ! i = (t, n)"
    using assms(2) by (auto simp: operand_type_def split: sum.splits if_splits)
  then have "i < length (row_vals row)" and "case row_vals row ! i of None \<Rightarrow> n | Some x \<Rightarrow> has_type t x"
    using assms(1) by (auto simp: row_typed_def list_all2_conv_all_nth)
  then show ?thesis using OCol i by (simp add: evalPrimary_def row_cell_def)
qed

lemma comparison_evaluates:
  assumes "row_typed ts row" and "comparison_typed fs ts p"
  shows "\<exists>b. evalComparisonPredicate fs row p = Inr b"
proof -
  obtain t n u m where ty: "operand_type fs ts (cp_LHS p) = Some (t, n)" "operand_type fs ts (cp_RHS p) = Some (u, m)"
    using assms(2) by (auto simp: comparison_typed_def split: option.splits)
  obtain x y where "evalPrimary fs row (cp_LHS p) = Inr x" "case x of None \<Rightarrow> n | Some v \<Rightarrow> has_type t v"
    and "evalPrimary fs row (cp_RHS p) = Inr y" "case y of None \<Rightarrow> m | Some v \<Rightarrow> has_type u v"
    using operand_typed[OF assms(1) ty(1)] operand_typed[OF assms(1) ty(2)] by blast
  then show ?thesis
    using assms(2) ty
    by (auto simp: evalComparisonPredicate_def comparison_typed_def compare_cells_def compare_ordered_def has_type_def
        split: option.splits sql_value.splits)
qed

lemma condition_evaluates:
  assumes "row_typed ts row" and "condition_typed fs ts c"
  shows "\<exists>b. evaluate fs row c = Inr (VBool b)"
  using assms(2)
proof (induction c)
  case (BooleanTerm p c)
  then show ?case using comparison_evaluates[OF assms(1), of fs p] by (auto simp: both_bools_def)
next
  case (SearchCondition p c)
  then show ?case using comparison_evaluates[OF assms(1), of fs p] by (auto simp: both_bools_def)
next
  case (Comparison p)
  then show ?case using comparison_evaluates[OF assms(1), of fs p] by auto
qed auto

definition satisfies :: "condition \<Rightarrow> field_ref list \<Rightarrow> sql_row \<Rightarrow> bool" where
  "satisfies c fs row \<longleftrightarrow> evaluate fs row c = Inr (VBool True)"

lemma filterRows_total:
  "\<forall>row\<in>set rows. \<exists>v. evaluate fs row c = Inr v \<Longrightarrow> filterRows c fs rows = Inr (filter (satisfies c fs) rows)"
  by (induction rows) (auto simp: satisfies_def)




section \<open>Joins\<close>

definition product_rows :: "sql_row list \<Rightarrow> sql_row list \<Rightarrow> sql_row list" where
  "product_rows L R = concat (map (\<lambda>l. map (merge_rows l) R) L)"

lemma joined_rows_total:
  "\<forall>row\<in>set rows. \<exists>b. evaluate fs row c = Inr (VBool b) \<Longrightarrow> joined_rows c fs rows = Inr (filter (satisfies c fs) rows)"
  by (induction rows) (auto simp: satisfies_def)

lemma join_rows_total:
  assumes "\<forall>o'\<in>set outer. \<forall>row\<in>set (candidates o'). \<exists>b. evaluate fs row c = Inr (VBool b)"
  shows "join_rows c fs candidates padded outer =
    Inr (concat (map (\<lambda>o'. let ms = filter (satisfies c fs) (candidates o') in if ms = [] then padded o' else ms) outer))"
  using assms by (induction outer) (auto simp: joined_rows_total Let_def)

lemma matches_and_padding:
  "mset (concat (map (\<lambda>o'. let ms = filter P (candidates o') in if ms = [] then [pad o'] else ms) outer))
   = mset (filter P (concat (map candidates outer)))
     + image_mset pad (mset (filter (\<lambda>o'. \<forall>row\<in>set (candidates o'). \<not> P row) outer))"
  by (induction outer) (auto simp: Let_def filter_empty_conv)

lemma mset_product_swap:
  "mset (concat (map (\<lambda>r. map (\<lambda>l. merge_rows l r) L) R)) = mset (product_rows L R)"
proof (induction L)
  case (Cons l L)
  have "mset (concat (map (\<lambda>r. f r # g r) R)) = mset (map f R) + mset (concat (map g R))"
    for f :: "sql_row \<Rightarrow> sql_row" and g
    by (induction R) auto
  from this[of "merge_rows l"] Cons show ?case by (simp add: product_rows_def)
qed (simp add: product_rows_def)

text \<open>
  C31.  When the join condition yields a truth value on every pair, an inner join is the product of the two
  tables filtered by the condition; a left (right) join holds these rows and, for every left (right) row
  without a partner, that row once with empty cells on the other side, and nothing else.
\<close>
theorem joins_against_product:
  assumes "\<forall>l\<in>set L. \<forall>r\<in>set R. \<exists>b. evaluate (lf @ rf) (merge_rows l r) c = Inr (VBool b)"
  shows "join_tables INNER_JOIN c (L, lf) (R, rf) = Inr (filter (satisfies c (lf @ rf)) (product_rows L R), lf @ rf)
    \<and> (\<exists>rows. join_tables LEFT_JOIN c (L, lf) (R, rf) = Inr (rows, lf @ rf)
        \<and> mset rows = mset (filter (satisfies c (lf @ rf)) (product_rows L R))
            + {#merge_rows l (empty_cells (length rf)). l \<in># filter_mset (\<lambda>l. \<forall>r\<in>set R. \<not> satisfies c (lf @ rf) (merge_rows l r)) (mset L)#})
    \<and> (\<exists>rows. join_tables RIGHT_JOIN c (L, lf) (R, rf) = Inr (rows, lf @ rf)
        \<and> mset rows = mset (filter (satisfies c (lf @ rf)) (product_rows L R))
            + {#merge_rows (empty_cells (length lf)) r. r \<in># filter_mset (\<lambda>r. \<forall>l\<in>set L. \<not> satisfies c (lf @ rf) (merge_rows l r)) (mset R)#})"
proof (intro conjI)
  let ?P = "satisfies c (lf @ rf)"
  have "concat (map (\<lambda>l. let ms = filter ?P (map (merge_rows l) R) in if ms = [] then [] else ms) L)
      = filter ?P (product_rows L R)"
    unfolding product_rows_def by (induction L) (auto simp: Let_def)
  then show "join_tables INNER_JOIN c (L, lf) (R, rf) = Inr (filter ?P (product_rows L R), lf @ rf)"
    using assms by (simp add: join_tables_def Let_def join_rows_total)
  show "\<exists>rows. join_tables LEFT_JOIN c (L, lf) (R, rf) = Inr (rows, lf @ rf)
      \<and> mset rows = mset (filter ?P (product_rows L R))
          + {#merge_rows l (empty_cells (length rf)). l \<in># filter_mset (\<lambda>l. \<forall>r\<in>set R. \<not> ?P (merge_rows l r)) (mset L)#}"
    using assms matches_and_padding[of ?P "\<lambda>l. map (merge_rows l) R" "\<lambda>l. merge_rows l (empty_cells (length rf))" L]
    by (simp add: join_tables_def Let_def join_rows_total product_rows_def)
  have swap: "mset (filter ?P (concat (map (\<lambda>r. map (\<lambda>l. merge_rows l r) L) R))) = mset (filter ?P (product_rows L R))"
    by (simp add: mset_product_swap)
  show "\<exists>rows. join_tables RIGHT_JOIN c (L, lf) (R, rf) = Inr (rows, lf @ rf)
      \<and> mset rows = mset (filter ?P (product_rows L R))
          + {#merge_rows (empty_cells (length lf)) r. r \<in># filter_mset (\<lambda>r. \<forall>l\<in>set L. \<not> ?P (merge_rows l r)) (mset R)#}"
    using assms matches_and_padding[of ?P "\<lambda>r. map (\<lambda>l. merge_rows l r) L" "\<lambda>r. merge_rows (empty_cells (length lf)) r" R] swap
    by (simp add: join_tables_def Let_def join_rows_total)
qed

definition on_b :: condition where
  "on_b = Comparison \<lparr>cp_LHS = OCol \<lparr>Qualifier = ''t'', ColumnName = ''a''\<rparr>, cp_Op = TK_EQ,
            cp_RHS = OCol \<lparr>Qualifier = ''u'', ColumnName = ''b''\<rparr>\<rparr>"

theorem joins_against_product_witness:
  "join_tables INNER_JOIN on_b
     ([\<lparr>row_id = 1, row_vals = [Some (VInt 1)]\<rparr>, \<lparr>row_id = 2, row_vals = [Some (VInt 2)]\<rparr>], [\<lparr>fr_table = ''t'', fr_column = ''a''\<rparr>])
     ([\<lparr>row_id = 1, row_vals = [Some (VInt 2)]\<rparr>], [\<lparr>fr_table = ''u'', fr_column = ''b''\<rparr>])
   = Inr ([\<lparr>row_id = 0, row_vals = [Some (VInt 2), Some (VInt 2)]\<rparr>],
          [\<lparr>fr_table = ''t'', fr_column = ''a''\<rparr>, \<lparr>fr_table = ''u'', fr_column = ''b''\<rparr>])"
proof -
  let ?L = "[\<lparr>row_id = 1, row_vals = [Some (VInt 1)]\<rparr>, \<lparr>row_id = 2, row_vals = [Some (VInt 2)]\<rparr>] :: sql_row list"
  let ?R = "[\<lparr>row_id = 1, row_vals = [Some (VInt 2)]\<rparr>] :: sql_row list"
  let ?fs = "[\<lparr>fr_table = ''t'', fr_column = ''a''\<rparr>] @ [\<lparr>fr_table = ''u'', fr_column = ''b''\<rparr>]"
  have "evaluate ?fs (merge_rows (?L ! 0) (?R ! 0)) on_b = Inr (VBool False)"
    "evaluate ?fs (merge_rows (?L ! 1) (?R ! 0)) on_b = Inr (VBool True)"
    by code_simp+
  then have hyp: "\<forall>l\<in>set ?L. \<forall>r\<in>set ?R. \<exists>b. evaluate ?fs (merge_rows l r) on_b = Inr (VBool b)"
    and "filter (satisfies on_b ?fs) (product_rows ?L ?R) = [\<lparr>row_id = 0, row_vals = [Some (VInt 2), Some (VInt 2)]\<rparr>]"
    by (auto simp: satisfies_def product_rows_def merge_rows_def)
  then show ?thesis using conjunct1[OF joins_against_product[OF hyp]] by simp
qed

end
