(* ===== verification/SqlGroups.thy ===== *)
theory SqlGroups
  imports SqlQuery
begin

text \<open>
  Aggregation: the groups of a query with their counts, and where averages go wrong.
\<close>

section \<open>Groups\<close>

definition firsts :: "('a \<Rightarrow> 'k) \<Rightarrow> 'a list \<Rightarrow> 'a list" where
  "firsts f xs = foldl (\<lambda>acc x. if f x \<in> f ` set acc then acc else acc @ [x]) [] xs"

lemma firsts_Nil [simp]: "firsts f [] = []"
  by (simp add: firsts_def)

lemma firsts_keys [simp]: "f ` set (firsts f xs) = f ` set xs"
  by (induction xs rule: rev_induct) (auto simp: firsts_def)

lemma firsts_snoc: "firsts f (xs @ [x]) = (if f x \<in> f ` set xs then firsts f xs else firsts f xs @ [x])"
  using firsts_keys[of f xs] by (simp add: firsts_def)

lemma firsts_distinct: "distinct (map f (firsts f xs))"
proof (induction xs rule: rev_induct)
  case (snoc x xs)
  then show ?case using firsts_keys[of f xs] by (auto simp: firsts_snoc)
qed simp

text \<open>\<open>SELECT c, count(*) ... GROUP BY c\<close>: the select list, and a row after the projection.\<close>

definition count_list :: "column_reference \<Rightarrow> derived_column list" where
  "count_list c = [\<lparr>dc_Value = Expr (Operand (OCol c)), dc_AsClause = ''''\<rparr>, \<lparr>dc_Value = SetFunction (Count None), dc_AsClause = ''''\<rparr>]"

definition counted :: "32 word \<times> cell \<Rightarrow> 64 word \<Rightarrow> sql_row" where
  "counted x n = \<lparr>row_id = fst x, row_vals = [snd x, Some (VInt n)]\<rparr>"

abbreviation key_of :: "32 word \<times> cell \<Rightarrow> string" where "key_of x \<equiv> value_text (snd x)"

definition occurrences :: "(32 word \<times> cell) list \<Rightarrow> 32 word \<times> cell \<Rightarrow> nat" where
  "occurrences xs x = length (filter (\<lambda>y. key_of y = key_of x) xs)"

definition counting :: "(32 word \<times> cell) list \<Rightarrow> aggregation \<Rightarrow> bool" where
  "counting xs a \<longleftrightarrow>
     ag_rows a = map (\<lambda>x. counted x (word_of_nat (occurrences xs x))) (firsts key_of xs)
     \<and> (\<forall>k g. ag_keys a k = Some g \<longleftrightarrow> g < length (firsts key_of xs) \<and> key_of (firsts key_of xs ! g) = k)"

lemma occurrences_snoc: "occurrences (xs @ [x]) y = occurrences xs y + (if key_of x = key_of y then 1 else 0)"
  by (simp add: occurrences_def)

lemma groupKey_count: "groupKey (count_list c) [c] (counted x n) = Inr (key_of x)"
  by (simp add: count_list_def counted_def colToIdx_def row_cell_def)

lemma aggregate_row_count:
  "aggregate_row (count_list c) [c] (counted x n) a =
     (case ag_keys a (key_of x) of
        None \<Rightarrow> aggregate_cells (key_of x) (length (ag_rows a)) True (counted x n) (count_list c) 0
                  (a\<lparr>ag_rows := ag_rows a @ [counted x n], ag_keys := (ag_keys a)(key_of x \<mapsto> length (ag_rows a))\<rparr>)
      | Some g \<Rightarrow> aggregate_cells (key_of x) g False (counted x n) (count_list c) 0 a)"
  by (simp only: aggregate_row_def groupKey_count and_then_def sum.case Let_def)

lemma cells_first: "aggregate_cells k g True row (count_list c) 0 a = Inr a"
  by (simp add: count_list_def aggregate_cell_def Let_def)

lemma cells_next:
  "ag_rows a ! g = counted y m \<Longrightarrow>
     aggregate_cells k g False (counted x n) (count_list c) 0 a = Inr (set_cell g 1 (Some (VInt (m + n))) a)"
  by (simp add: count_list_def aggregate_cell_def counted_def row_cell_def Let_def)

lemma counting_new:
  assumes inv: "counting xs a" and new: "key_of x \<notin> key_of ` set xs"
  shows "\<exists>a'. aggregate_row (count_list c) [c] (counted x 1) a = Inr a' \<and> counting (xs @ [x]) a'"
proof -
  let ?F = "firsts key_of xs"
  let ?a = "a\<lparr>ag_rows := ag_rows a @ [counted x 1], ag_keys := (ag_keys a)(key_of x \<mapsto> length (ag_rows a))\<rparr>"
  have len: "length (ag_rows a) = length ?F" using inv by (simp add: counting_def)
  have notin: "key_of (?F ! g) \<noteq> key_of x" if "g < length ?F" for g
  proof -
    have "key_of (?F ! g) \<in> key_of ` set ?F" by (rule imageI) (rule nth_mem[OF that])
    then have "key_of (?F ! g) \<in> key_of ` set xs" by (simp only: firsts_keys)
    then show ?thesis using new by metis
  qed
  have "ag_keys a (key_of x) \<noteq> Some g" for g using inv notin by (auto simp: counting_def)
  then have "ag_keys a (key_of x) = None" by (cases "ag_keys a (key_of x)") auto
  then have "aggregate_row (count_list c) [c] (counted x 1) a = Inr ?a"
    by (simp add: aggregate_row_count cells_first)
  moreover have "counting (xs @ [x]) ?a"
  proof -
    have "\<forall>y\<in>set xs. key_of y \<noteq> key_of x" using new by (metis imageI)
    then have "occurrences xs x = 0" unfolding occurrences_def by (simp only: length_0_conv filter_empty_conv)
    moreover have other: "key_of x \<noteq> key_of y" if "y \<in> set ?F" for y
      using imageI[OF that, of key_of] new by (metis firsts_keys)
    ultimately have "map (\<lambda>y. counted y (word_of_nat (occurrences (xs @ [x]) y))) (firsts key_of (xs @ [x]))
        = map (\<lambda>y. counted y (word_of_nat (occurrences xs y))) ?F @ [counted x 1]"
      using new other by (simp add: firsts_snoc occurrences_snoc cong: map_cong)
    then show ?thesis
      using inv len new notin by (auto simp: counting_def firsts_snoc nth_append less_Suc_eq)
  qed
  ultimately show ?thesis by blast
qed

lemma counting_old:
  assumes inv: "counting xs a" and old: "key_of x \<in> key_of ` set xs"
  shows "\<exists>a'. aggregate_row (count_list c) [c] (counted x 1) a = Inr a' \<and> counting (xs @ [x]) a'"
proof -
  let ?F = "firsts key_of xs"
  obtain g where g: "g < length ?F" "key_of (?F ! g) = key_of x"
  proof -
    have "key_of x \<in> key_of ` set ?F" using old by (simp only: firsts_keys)
    then obtain y where "y \<in> set ?F" "key_of x = key_of y" by (rule imageE) simp
    then show thesis using that unfolding in_set_conv_nth by metis
  qed
  let ?n = "word_of_nat (occurrences xs (?F ! g)) :: 64 word"
  let ?a = "set_cell g 1 (Some (VInt (?n + 1))) a"
  have rows: "ag_rows a = map (\<lambda>x. counted x (word_of_nat (occurrences xs x))) ?F"
    and "ag_keys a (key_of x) = Some g"
    using inv g by (auto simp: counting_def)
  then have "aggregate_row (count_list c) [c] (counted x 1) a = Inr ?a"
    using g cells_next[of a g "firsts key_of xs ! g" ?n "key_of x" x 1 c] by (simp add: aggregate_row_count)
  moreover have "counting (xs @ [x]) ?a"
  proof -
    have "(ag_rows a)[g := counted (?F ! g) (?n + 1)]
        = map (\<lambda>y. counted y (word_of_nat (occurrences (xs @ [x]) y))) ?F"
    proof (rule nth_equalityI)
      fix h assume "h < length ((ag_rows a)[g := counted (?F ! g) (?n + 1)])"
      then have h: "h < length ?F" using rows by simp
      have "h \<noteq> g \<Longrightarrow> key_of (?F ! h) \<noteq> key_of x"
        using h g nth_eq_iff_index_eq[OF firsts_distinct[of key_of xs], of h g] by auto
      then show "(ag_rows a)[g := counted (?F ! g) (?n + 1)] ! h
          = map (\<lambda>y. counted y (word_of_nat (occurrences (xs @ [x]) y))) ?F ! h"
        using h g rows by (cases "h = g") (simp_all add: occurrences_snoc add.commute)
    qed (use rows in simp)
    moreover have "ag_rows ?a = (ag_rows a)[g := counted (?F ! g) (?n + 1)]"
      using g rows by (simp add: set_cell_def counted_def)
    moreover have "ag_keys ?a = ag_keys a" by (simp add: set_cell_def)
    ultimately show ?thesis using inv old by (simp add: counting_def firsts_snoc)
  qed
  ultimately show ?thesis by blast
qed

lemma counting_loop:
  "counting ys a \<Longrightarrow> \<exists>a'. aggregate_loop (count_list c) [c] (map (\<lambda>x. counted x 1) xs) a = Inr a' \<and> counting (ys @ xs) a'"
proof (induction xs arbitrary: ys a)
  case (Cons x xs)
  then obtain a1 where a1: "aggregate_row (count_list c) [c] (counted x 1) a = Inr a1" "counting (ys @ [x]) a1"
    using counting_new counting_old by blast
  from Cons.IH[OF a1(2)] a1(1) show ?case by simp
qed simp

lemma group_counts:
  "aggregateRows (count_list c) [c] (map (\<lambda>x. counted x 1) xs)
   = Inr (map (\<lambda>x. counted x (word_of_nat (occurrences xs x))) (firsts key_of xs))"
proof -
  have "counting [] no_groups" by (simp add: counting_def no_groups_def)
  from counting_loop[OF this, of c xs] obtain a
    where "aggregate_loop (count_list c) [c] (map (\<lambda>x. counted x 1) xs) no_groups = Inr a" "counting xs a"
    by auto
  moreover have "HasAggrFunc (count_list c)" by (simp add: HasAggrFunc_def count_list_def)
  ultimately show ?thesis by (simp add: aggregateRows_def counting_def)
qed


text \<open>\<open>sort.Slice\<close> rearranges the rows when no comparison panics.  Up to twelve rows it is the insertion sort
  below, which moves every row back past the larger ones.\<close>

definition rearranges :: "slice_sort \<Rightarrow> bool" where
  "rearranges sort_slice \<longleftrightarrow>
     (\<forall>lt rows. (\<forall>a\<in>set rows. \<forall>b\<in>set rows. lt a b \<noteq> None) \<longrightarrow>
        (\<exists>rows'. sort_slice lt rows = Some rows' \<and> mset rows' = mset rows))"

fun insert_back :: "(sql_row \<Rightarrow> sql_row \<Rightarrow> bool option) \<Rightarrow> sql_row \<Rightarrow> sql_row list \<Rightarrow> sql_row list option" where
  "insert_back lt x [] = Some [x]"
| "insert_back lt x (y # ys) =
     (case lt x y of
        None \<Rightarrow> None
      | Some True \<Rightarrow> map_option ((#) y) (insert_back lt x ys)
      | Some False \<Rightarrow> Some (x # y # ys))"

fun insertion_rev :: "(sql_row \<Rightarrow> sql_row \<Rightarrow> bool option) \<Rightarrow> sql_row list \<Rightarrow> sql_row list \<Rightarrow> sql_row list option" where
  "insertion_rev lt acc [] = Some acc"
| "insertion_rev lt acc (x # xs) =
     (case insert_back lt x acc of None \<Rightarrow> None | Some acc' \<Rightarrow> insertion_rev lt acc' xs)"

definition insertionSort :: slice_sort where
  "insertionSort lt rows = map_option rev (insertion_rev lt [] rows)"

lemma insert_back_some:
  "\<forall>y\<in>set ys. lt x y \<noteq> None \<Longrightarrow> \<exists>zs. insert_back lt x ys = Some zs \<and> mset zs = add_mset x (mset ys)"
  by (induction ys) (auto split: option.splits bool.splits)

lemma insertion_rev_some:
  "\<forall>a\<in>set acc \<union> set xs. \<forall>b\<in>set acc \<union> set xs. lt a b \<noteq> None
   \<Longrightarrow> \<exists>zs. insertion_rev lt acc xs = Some zs \<and> mset zs = mset acc + mset xs"
proof (induction xs arbitrary: acc)
  case (Cons x xs)
  then obtain acc' where a: "insert_back lt x acc = Some acc'" "mset acc' = add_mset x (mset acc)"
    using insert_back_some[of acc lt x] by auto
  then have "set acc' = insert x (set acc)" by (metis set_mset_add_mset_insert set_mset_mset)
  with Cons.IH[of acc'] Cons.prems a show ?case by auto
qed simp

lemma insertionSort_rearranges: "rearranges insertionSort"
  unfolding rearranges_def
proof (intro allI impI)
  fix lt and rows :: "sql_row list"
  assume "\<forall>a\<in>set rows. \<forall>b\<in>set rows. lt a b \<noteq> (None :: bool option)"
  with insertion_rev_some[of "[]" rows lt] obtain zs where "insertion_rev lt [] rows = Some zs" "mset zs = mset rows" by auto
  then show "\<exists>rows'. insertionSort lt rows = Some rows' \<and> mset rows' = mset rows" by (simp add: insertionSort_def)
qed

section \<open>The whole query\<close>

definition count_query :: "string \<Rightarrow> column_reference \<Rightarrow> select_stmt" where
  "count_query t c =
     \<lparr>sel_List = count_list c, sel_From = Some (TableName None t), sel_Where = None, sel_GroupBy = [c], sel_Sort = [],
      sel_Limit = no_limit\<rparr>"

lemma project_count:
  assumes "findColumnInFieldList c fs = Inr i" and "\<forall>row\<in>set rows. i < length (row_vals row)"
  shows "projectColumns (count_list c) fs rows
    = Inr (map (\<lambda>row. counted (row_id row, row_vals row ! i) 1) rows, [fs ! i, \<lparr>fr_table = '''', fr_column = ''count(*)''\<rparr>])"
proof -
  have l: "lookup_columns fs (count_list c) = Inr [(count_list c ! 0, Some i), (count_list c ! 1, None)]"
    using assms(1) by (simp add: count_list_def column_of_def)
  have "project_rows fs [(count_list c ! 0, Some i), (count_list c ! 1, None)] rows
      = Inr (map (\<lambda>row. counted (row_id row, row_vals row ! i) 1) rows)"
    using assms(2) by (induction rows) (simp_all add: project_cell_def count_list_def row_cell_def counted_def)
  with l show ?thesis by (simp add: projectColumns_def) (simp add: count_list_def)
qed

text \<open>
  C3. \<open>SELECT c, count(*) FROM t GROUP BY c\<close> answers, for the rows the relation manager reads from the table,
  with one row per printed value of the column, holding the number of the rows that have it (modulo
  \<open>2 ^ 64\<close>), in an order the sort chooses.
\<close>
theorem group_counts_exact:
  assumes "rearranges sort_slice" and "rm_Fetch rm t s = (Inr (rows, fs), s')"
    and "findColumnInFieldList c (map (fr_table_update (\<lambda>_. t)) fs) = Inr i"
    and "\<forall>row\<in>set rows. i < length (row_vals row)"
  shows "\<exists>answer header. EvaluateSelect sort_slice rm (count_query t c) s = (Inr (answer, header), s')
    \<and> mset answer = mset (map (\<lambda>x. counted x (word_of_nat (occurrences (map (\<lambda>row. (row_id row, row_vals row ! i)) rows) x)))
                            (firsts key_of (map (\<lambda>row. (row_id row, row_vals row ! i)) rows)))"
proof -
  let ?xs = "map (\<lambda>row. (row_id row, row_vals row ! i)) rows"
  let ?groups = "map (\<lambda>x. counted x (word_of_nat (occurrences ?xs x))) (firsts key_of ?xs)"
  have "aggregateRows (count_list c) [c] (map (\<lambda>x. counted x 1) ?xs) = Inr ?groups" by (rule group_counts)
  then have groups: "aggregateRows (count_list c) [c] (map (\<lambda>row. counted (row_id row, row_vals row ! i) 1) rows) = Inr ?groups"
    by (simp add: comp_def)
  obtain answer where "sort_slice (sort_less []) ?groups = Some answer" "mset answer = mset ?groups"
    using assms(1)[unfolded rearranges_def, rule_format, of ?groups "sort_less []"] by auto
  then have "sortColumns sort_slice [] hs ?groups = Inr answer" for hs by (simp add: sortColumns_def)
  moreover have "nestedLoopJoin rm (TableName None t) s = (Inr (rows, map (fr_table_update (\<lambda>_. t)) fs), s')"
    using assms(2) by simp
  ultimately have "EvaluateSelect sort_slice rm (count_query t c) s
      = (Inr (answer, [map (fr_table_update (\<lambda>_. t)) fs ! i, \<lparr>fr_table = '''', fr_column = ''count(*)''\<rparr>]), s')"
    using groups project_count[OF assms(3,4)]
    by (simp add: EvaluateSelect_def count_query_def window_rows_def no_limit_def del: nestedLoopJoin.simps)
  with \<open>mset answer = mset ?groups\<close> show ?thesis by blast
qed


definition one_table :: "sql_row list \<Rightarrow> field_ref list \<Rightarrow> unit relation_manager" where
  "one_table rows fs =
     \<lparr>rm_CreateTable = (\<lambda>_ _. ret ()), rm_MarkDeleted = (\<lambda>_ _. ret []), rm_Fetch = (\<lambda>_. ret (rows, fs)),
      rm_Update = (\<lambda>_ _ _ _. ret []), rm_Insert = (\<lambda>_ _ _. ret []), rm_FlushWALBatch = (\<lambda>_. ret ())\<rparr>"

theorem group_counts_exact_witness:
  "\<exists>answer header. EvaluateSelect insertionSort
       (one_table [\<lparr>row_id = 1, row_vals = [Some (VInt 5)]\<rparr>, \<lparr>row_id = 2, row_vals = [None]\<rparr>, \<lparr>row_id = 3, row_vals = [Some (VInt 5)]\<rparr>]
          [\<lparr>fr_table = '''', fr_column = ''a''\<rparr>])
       (count_query ''t'' \<lparr>Qualifier = '''', ColumnName = ''a''\<rparr>) () = (Inr (answer, header), ())
     \<and> mset answer = {#counted (1, Some (VInt 5)) 2, counted (2, None) 1#}"
proof -
  let ?rows = "[\<lparr>row_id = 1, row_vals = [Some (VInt 5)]\<rparr>, \<lparr>row_id = 2, row_vals = [None]\<rparr>, \<lparr>row_id = 3, row_vals = [Some (VInt 5)]\<rparr>] :: sql_row list"
  let ?xs = "map (\<lambda>row. (row_id row, row_vals row ! 0)) ?rows"
  have f: "rm_Fetch (one_table ?rows [\<lparr>fr_table = '''', fr_column = ''a''\<rparr>]) ''t'' () = (Inr (?rows, [\<lparr>fr_table = '''', fr_column = ''a''\<rparr>]), ())"
    by (simp add: one_table_def ret_def)
  have i: "findColumnInFieldList \<lparr>Qualifier = '''', ColumnName = ''a''\<rparr> (map (fr_table_update (\<lambda>_. ''t'')) [\<lparr>fr_table = '''', fr_column = ''a''\<rparr>]) = Inr 0"
    by code_simp
  have l: "\<forall>row\<in>set ?rows. 0 < length (row_vals row)" by simp
  have g: "map (\<lambda>x. counted x (word_of_nat (occurrences ?xs x))) (firsts key_of ?xs) = [counted (1, Some (VInt 5)) 2, counted (2, None) 1]"
    by code_simp
  show ?thesis using group_counts_exact[OF insertionSort_rearranges f i l] unfolding g by simp
qed

section \<open>Averages\<close>

definition average_list :: "column_reference \<Rightarrow> derived_column list" where
  "average_list c = [\<lparr>dc_Value = SetFunction (Average c), dc_AsClause = ''''\<rparr>]"

definition value_row :: "64 word \<Rightarrow> sql_row" where
  "value_row v = \<lparr>row_id = 0, row_vals = [Some (VInt v)]\<rparr>"

definition averaging :: "column_reference \<Rightarrow> nat \<Rightarrow> 64 word \<Rightarrow> aggregation \<Rightarrow> bool" where
  "averaging c n avg a \<longleftrightarrow>
     ag_rows a = [value_row avg] \<and> ag_keys a = [[] \<mapsto> 0] \<and> ag_counts a (column_text c) = int n"

lemma averaging_step:
  "averaging c n avg a \<Longrightarrow> \<exists>a'. aggregate_row (average_list c) [] (value_row v) a = Inr a'
      \<and> averaging c (n + 1) (cumulative_average avg (int n + 1) v) a'"
  by (simp add: averaging_def aggregate_row_def average_list_def aggregate_cell_def value_row_def row_cell_def
      set_cell_def Let_def add.commute)

lemma averaging_start:
  "\<exists>a. aggregate_row (average_list c) [] (value_row v) no_groups = Inr a \<and> averaging c 1 (cumulative_average v 1 v) a"
  by (simp add: averaging_def no_groups_def aggregate_row_def average_list_def aggregate_cell_def value_row_def row_cell_def
      set_cell_def Let_def)

lemma average_of_one: "cumulative_average v 1 v = v"
proof -
  have "(1 - 2 * sint v) div 2 = - sint v" by presburger
  then show ?thesis by (simp add: cumulative_average_def round_quotient_def)
qed

lemma average_stays:
  assumes "2 \<le> n" and "n < 2 ^ 63"
  shows "cumulative_average 1 n 0 = 1"
proof -
  have "sint (1 * (word_of_int n - 1) + 0 :: 64 word) = n - 1"
  proof -
    have "1 * (word_of_int n - 1) + 0 = (word_of_int (n - 1) :: 64 word)" by simp
    then show ?thesis using assms by (simp only: sint_sbintrunc') (simp add: signed_take_bit_int_eq_self)
  qed
  moreover have "(2 * (n - 1) + n) div (2 * n) = 1"
    using assms by (intro div_pos_geq[THEN trans]) (simp_all add: div_pos_pos_trivial)
  ultimately show ?thesis using assms by (simp add: cumulative_average_def round_quotient_def)
qed

text \<open>
  The average of a column is rounded after every row, so it does not forget: the average of the numbers
  0, 1 and any amount of zeros after them is 1.
\<close>
theorem average_drifts:
  assumes "k < 2 ^ 62"
  shows "aggregateRows (average_list c) [] (map value_row ([0, 1] @ replicate k 0)) = Inr [value_row 1]"
proof -
  have loop: "\<lbrakk>averaging c n 1 a; 2 \<le> n; int n + int m < 2 ^ 63\<rbrakk> \<Longrightarrow>
      \<exists>a'. aggregate_loop (average_list c) [] (map value_row (replicate m 0)) a = Inr a' \<and> averaging c (n + m) 1 a'" for a n m
  proof (induction m arbitrary: n a)
    case (Suc m)
    from averaging_step[OF Suc.prems(1), of 0] average_stays[of "int n + 1"] Suc.prems
    obtain a1 where a1: "aggregate_row (average_list c) [] (value_row 0) a = Inr a1" "averaging c (n + 1) 1 a1" by auto
    from Suc.IH[OF a1(2)] Suc.prems a1(1) show ?case by auto
  qed auto
  obtain a1 where a1: "aggregate_row (average_list c) [] (value_row 0) no_groups = Inr a1" "averaging c 1 0 a1"
    using averaging_start[of c 0] average_of_one[of 0] by auto
  have "cumulative_average 0 2 1 = 1" by code_simp
  then obtain a2 where a2: "aggregate_row (average_list c) [] (value_row 1) a1 = Inr a2" "averaging c 2 1 a2"
    using averaging_step[OF a1(2), of 1] by (auto simp: numeral_2_eq_2)
  from loop[OF a2(2), of k] assms obtain a3
    where "aggregate_loop (average_list c) [] (map value_row (replicate k 0)) a2 = Inr a3" "averaging c (2 + k) 1 a3"
    by auto
  then have "aggregate_loop (average_list c) [] (map value_row ([0, 1] @ replicate k 0)) no_groups = Inr a3"
    using a1 a2 by simp
  moreover have "HasAggrFunc (average_list c)" by (simp add: HasAggrFunc_def average_list_def)
  ultimately show ?thesis using \<open>averaging c (2 + k) 1 a3\<close> by (simp add: aggregateRows_def averaging_def)
qed

theorem average_drifts_witness:
  "aggregateRows (average_list \<lparr>Qualifier = '''', ColumnName = ''a''\<rparr>) []
     (map value_row ([0, 1] @ replicate 98 0)) = Inr [value_row 1]"
  by (rule average_drifts) simp

end
