(* ===== verification/SqlEngine.thy ===== *)
theory SqlEngine
  imports SqlEval Relations
begin

text \<open>
  The statements that change data and the session of the SQL engine (\<open>sql/engine/create.go\<close>, \<open>insert.go\<close>,
  \<open>update.go\<close>, \<open>delete.go\<close>, \<open>show.go\<close>, \<open>session.go\<close>).  The session holds the selected database and its
  relation service: the cached pages of the open file store.  The data directory always shows the bytes
  that the store has written.
\<close>

section \<open>Statements over a relation manager\<close>

definition column_field :: "string \<times> column_type \<Rightarrow> field_def" where
  "column_field e =
     (case e of (name, t) \<Rightarrow>
        (case t of
           NumericType \<Rightarrow> \<lparr>fd_type = TypeInt, fd_name = name, fd_len = 0\<rparr>
         | BigIntType \<Rightarrow> \<lparr>fd_type = TypeBigInt, fd_name = name, fd_len = 0\<rparr>
         | CharacterStringType len \<Rightarrow> \<lparr>fd_type = TypeVarchar, fd_name = name, fd_len = len\<rparr>
         | BooleanType \<Rightarrow> \<lparr>fd_type = TypeBoolean, fd_name = name, fd_len = 0\<rparr>))"

definition EvaluateCreateTable :: "('s, 'm) relation_manager_scheme \<Rightarrow> string \<Rightarrow> (string \<times> column_type) list \<Rightarrow> ('s, unit) action" where
  "EvaluateCreateTable rm name elems = rm_CreateTable rm (map column_field elems) name"

text \<open>The entries of a sequence of operations, until the first that fails.\<close>

fun collect_batch :: "('s, wal_batch) action list \<Rightarrow> ('s, wal_batch) action" where
  "collect_batch [] = ret []"
| "collect_batch (m # ms) = seq m (\<lambda>entries. seq (collect_batch ms) (\<lambda>batch. ret (entries @ batch)))"

definition EvaluateInsert :: "('s, 'm) relation_manager_scheme \<Rightarrow> string \<Rightarrow> string list \<Rightarrow> sql_value list list \<Rightarrow> ('s, nat) action" where
  "EvaluateInsert rm tbl cols rows =
     seq (collect_batch (map (\<lambda>vals. rm_Insert rm tbl cols (map Some vals)) rows)) (\<lambda>batch.
     seq (rm_FlushWALBatch rm batch) (\<lambda>_. ret (length rows)))"

text \<open>The rows of a table that satisfy the \<open>WHERE\<close> clause, if there is one.\<close>

definition matching_rows :: "('s, 'm) relation_manager_scheme \<Rightarrow> string \<Rightarrow> condition option \<Rightarrow> 's \<Rightarrow> (eval_error + sql_row list) \<times> 's" where
  "matching_rows rm table wh s =
     (case rm_Fetch rm table s of
        (Inl e, s') \<Rightarrow> (Inl (StorageErr e), s')
      | (Inr (rows, fs), s') \<Rightarrow> (case wh of None \<Rightarrow> Inr rows | Some c \<Rightarrow> filterRows c fs rows, s'))"

definition storage_result :: "(storage_error + 'a) \<times> 's \<Rightarrow> (eval_error + 'a) \<times> 's" where
  "storage_result r = (case r of (Inl e, s) \<Rightarrow> (Inl (StorageErr e), s) | (Inr x, s) \<Rightarrow> (Inr x, s))"

definition EvaluateDelete :: "('s, 'm) relation_manager_scheme \<Rightarrow> string \<Rightarrow> condition option \<Rightarrow> 's \<Rightarrow> (eval_error + nat) \<times> 's" where
  "EvaluateDelete rm table wh s =
     (case matching_rows rm table wh s of
        (Inl e, s') \<Rightarrow> (Inl e, s')
      | (Inr rows, s') \<Rightarrow>
          storage_result
            (seq (collect_batch (map (\<lambda>row. rm_MarkDeleted rm table (row_id row)) rows)) (\<lambda>batch.
             seq (rm_FlushWALBatch rm batch) (\<lambda>_. ret (length rows))) s'))"

definition EvaluateUpdate :: "('s, 'm) relation_manager_scheme \<Rightarrow> string \<Rightarrow> (string \<times> operand) list \<Rightarrow> condition option
    \<Rightarrow> 's \<Rightarrow> (eval_error + unit) \<times> 's" where
  "EvaluateUpdate rm table sets wh s =
     (if list_ex (\<lambda>(_, v). case v of OCol _ \<Rightarrow> True | OVal _ \<Rightarrow> False) sets then (Inl TmpUnsupported, s)
      else case matching_rows rm table wh s of
        (Inl e, s') \<Rightarrow> (Inl e, s')
      | (Inr rows, s') \<Rightarrow>
          (let cols = map fst sets; src = map (\<lambda>(_, v). case v of OVal x \<Rightarrow> Some x | OCol _ \<Rightarrow> None) sets
           in storage_result
                (seq (collect_batch (map (\<lambda>row. rm_Update rm table (row_id row) cols src) rows)) (\<lambda>batch.
                 rm_FlushWALBatch rm batch) s')))"

section \<open>The session\<close>

record session =
  CurDB :: string
  Service :: "(string \<times> file_store) option"
  Dir :: data_dir

definition no_session :: "data_dir \<Rightarrow> session" where
  "no_session dir = \<lparr>CurDB = '''', Service = None, Dir = dir\<rparr>"

text \<open>An operation of the relation service; without a service the code dereferences a nil pointer.\<close>

definition written_file :: "string \<Rightarrow> file_store \<Rightarrow> data_dir \<Rightarrow> data_dir" where
  "written_file db f dir =
     (case dir (to_lower db) of
        None \<Rightarrow> dir
      | Some d \<Rightarrow> dir(to_lower db \<mapsto> d\<lparr>table_file := Some (fs_file f)\<rparr>))"

definition on_service :: "(file_store, 'a) action \<Rightarrow> (session, 'a) action" where
  "on_service act st =
     (case Service st of
        None \<Rightarrow> (Inl Panic, st)
      | Some (db, f) \<Rightarrow>
          (case act f of (r, f') \<Rightarrow> (r, st\<lparr>Service := Some (db, f'), Dir := written_file db f' (Dir st)\<rparr>)))"

definition flush_log :: "wal_batch \<Rightarrow> (session, unit) action" where
  "flush_log batch st =
     (case Service st of
        None \<Rightarrow> (Inl Panic, st)
      | Some (db, f) \<Rightarrow> (Inr (), st\<lparr>Dir := FlushWALBatch db batch (Dir st)\<rparr>))"

definition relation_service :: "time_codec \<Rightarrow> nat \<Rightarrow> (file_store \<Rightarrow> nat list) \<Rightarrow> session relation_manager" where
  "relation_service tm fuel order =
     \<lparr>rm_CreateTable = (\<lambda>r name. on_service (CreateTable tm fuel order r name)),
      rm_MarkDeleted = (\<lambda>table rowID. on_service (MarkDeleted tm fuel table rowID)),
      rm_Fetch = (\<lambda>table. on_service (FetchTable tm fuel table)),
      rm_Update = (\<lambda>table rowID cols src. on_service (UpdateRow tm fuel table rowID cols src)),
      rm_Insert = (\<lambda>table cols vals. on_service (InsertRow tm fuel table cols vals)),
      rm_FlushWALBatch = flush_log\<rparr>"

text \<open>\<open>ShowDB\<close> for the directories that \<open>listDBs\<close> finds.\<close>

definition ShowDB :: "string list \<Rightarrow> sql_row list \<times> field_ref list" where
  "ShowDB dbs =
     (map (\<lambda>(i, db). \<lparr>row_id = word_of_nat i, row_vals = [Some (VStr db)]\<rparr>) (enumerate 0 (sort dbs)),
      [\<lparr>fr_table = '''', fr_column = ''Name''\<rparr>])"

datatype exec_error = ParseErr parse_error | DBErr db_error | NoDatabase | EvalErr eval_error

datatype exec_output =
    CreatedDatabase string
  | SelectedDatabase string
  | ResultTable "sql_row list" "field_ref list"
  | CreatedTable string
  | InsertedRows nat string
  | UpdatedTable string
  | DeletedRows nat string

definition exec_result :: "('a \<Rightarrow> exec_output) \<Rightarrow> (eval_error + 'a) \<times> 's \<Rightarrow> (exec_error + exec_output) \<times> 's" where
  "exec_result out r = (case r of (Inl e, s) \<Rightarrow> (Inl (EvalErr e), s) | (Inr x, s) \<Rightarrow> (Inr (out x), s))"

record engine =
  en_time :: time_codec
  en_fuel :: nat
  en_order :: "file_store \<Rightarrow> nat list"
  en_sort :: slice_sort
  en_listDBs :: "data_dir \<Rightarrow> string list"

definition exec_statement :: "engine \<Rightarrow> statement \<Rightarrow> session \<Rightarrow> (exec_error + exec_output) \<times> session" where
  "exec_statement en stmt st =
     (let rm = relation_service (en_time en) (en_fuel en) (en_order en);
          in_database = (\<lambda>run. if CurDB st = '''' then (Inl NoDatabase, st) else run)
      in case stmt of
           CreateDatabase name \<Rightarrow>
             (case CreateDB (en_time en) (en_fuel en) (en_order en) name (Dir st) of
                (Some e, dir) \<Rightarrow> (Inl (DBErr e), st\<lparr>Dir := dir\<rparr>)
              | (None, dir) \<Rightarrow> (Inr (CreatedDatabase name), st\<lparr>Dir := dir\<rparr>))
         | UseStmt name \<Rightarrow>
             (case OpenRelation name (Dir st) of
                Inl e \<Rightarrow> (Inl (DBErr e), st\<lparr>CurDB := name, Service := None\<rparr>)
              | Inr f \<Rightarrow> (Inr (SelectedDatabase name), st\<lparr>CurDB := name, Service := Some (name, f)\<rparr>))
         | ShowDatabase \<Rightarrow> (case ShowDB (en_listDBs en (Dir st)) of (rows, fs) \<Rightarrow> (Inr (ResultTable rows fs), st))
         | CreateTableStmt name elems \<Rightarrow>
             in_database (exec_result (\<lambda>_. CreatedTable name) (storage_result (EvaluateCreateTable rm name elems st)))
         | SelectStmt q \<Rightarrow>
             in_database (exec_result (\<lambda>(rows, fs). ResultTable rows fs) (EvaluateSelect (en_sort en) rm q st))
         | InsertStmt table cols rows \<Rightarrow>
             in_database (exec_result (\<lambda>n. InsertedRows n table) (storage_result (EvaluateInsert rm table cols rows st)))
         | UpdateStmt table sets wh \<Rightarrow>
             in_database (exec_result (\<lambda>_. UpdatedTable table) (EvaluateUpdate rm table sets wh st))
         | DeleteStmt table wh \<Rightarrow>
             in_database (exec_result (\<lambda>n. DeletedRows n table) (EvaluateDelete rm table wh st)))"

definition ExecQuery :: "engine \<Rightarrow> string \<Rightarrow> session \<Rightarrow> (exec_error + exec_output) \<times> session" where
  "ExecQuery en q st =
     (case parseSQL q of
        Inl e \<Rightarrow> (Inl (ParseErr e), st)
      | Inr stmt \<Rightarrow> exec_statement en stmt st)"

definition close_session :: "engine \<Rightarrow> session \<Rightarrow> session" where
  "close_session en st = snd (on_service (flush_in (en_order en)) st)"

end
