(* ===== verification/SqlSession.thy ===== *)
theory SqlSession
  imports SqlEngine
begin

text \<open>
  What statements do to the database of a session: which log entries an insert leaves, and statements that
  are not what they look like.
\<close>

section \<open>Inserts and the log\<close>

text \<open>The log of the selected database, if it is open.\<close>

definition log_of :: "session \<Rightarrow> byte list option" where
  "log_of st =
     (case Service st of None \<Rightarrow> None
      | Some (db, _) \<Rightarrow> (case Dir st (to_lower db) of None \<Rightarrow> None | Some d \<Rightarrow> Some (log_file d)))"

lemma log_on_service: "on_service act st = (r, st') \<Longrightarrow> log_of st' = log_of st"
  by (auto simp: on_service_def log_of_def written_file_def split: option.splits prod.splits)

lemma seq_Inr_iff: "seq m f s = (Inr y, s') \<longleftrightarrow> (\<exists>x s1. m s = (Inr x, s1) \<and> f x s1 = (Inr y, s'))"
  by (auto simp: seq_def split: prod.splits sum.splits)

lemma seq_Inl_iff: "seq m f s = (Inl e, s') \<longleftrightarrow> m s = (Inl e, s') \<or> (\<exists>x s1. m s = (Inr x, s1) \<and> f x s1 = (Inl e, s'))"
  by (auto simp: seq_def split: prod.splits sum.splits)

lemma collect_log:
  assumes "\<And>x st r st'. f x st = (r, st') \<Longrightarrow> log_of st' = log_of st"
  shows "collect_batch (map f xs) st = (r, st') \<Longrightarrow> log_of st' = log_of st"
proof (induction xs arbitrary: st r st')
  case (Cons x xs)
  show ?case
  proof (cases r)
    case (Inl e)
    then show ?thesis using Cons assms by (auto simp: seq_Inl_iff ret_def)
  next
    case (Inr b)
    then show ?thesis using Cons assms by (auto simp: seq_Inr_iff ret_def)
  qed
qed (simp add: ret_def)

lemma collect_groups:
  "collect_batch (map f xs) st = (Inr batch, st') \<Longrightarrow>
     \<exists>groups. batch = concat groups \<and> list_all2 (\<lambda>x g. \<exists>s s'. f x s = (Inr g, s')) xs groups"
proof (induction xs arbitrary: st batch)
  case (Cons x xs)
  then obtain entries s1 rest where "f x st = (Inr entries, s1)" "collect_batch (map f xs) s1 = (Inr rest, st')"
    and "batch = entries @ rest"
    by (auto simp: seq_Inr_iff ret_def)
  moreover from this Cons.IH obtain groups where "rest = concat groups" "list_all2 (\<lambda>x g. \<exists>s s'. f x s = (Inr g, s')) xs groups"
    by blast
  ultimately show ?case by (intro exI[of _ "entries # groups"]) auto
qed (simp add: ret_def)

text \<open>The entries of one inserted row: the row itself, encoded by a schema, and updates of the page table.\<close>

definition row_entries :: "string list \<Rightarrow> sql_value list \<Rightarrow> wal_batch \<Rightarrow> bool" where
  "row_entries cols vals g \<longleftrightarrow>
     (\<exists>entry updates r. g = entry # updates \<and> w_op entry = OpInsert
        \<and> encode_tuple r (assign (if cols = [] then map fd_name r else cols) (map Some vals) Map.empty) = Inr (w_val entry))"

lemma InsertRow_entries:
  assumes "InsertRow tm fuel t cols (map Some vals) f = (Inr g, f')"
  shows "row_entries cols vals g"
proof -
  obtain r buf logs lsn off key
    where "encode_tuple r (assign (if cols = [] then map fd_name r else cols) (map Some vals) Map.empty) = Inr buf"
      and "g = \<lparr>w_op = OpInsert, w_LSN = lsn, w_pageID = off, w_cellID = key, w_val = buf\<rparr> # logs"
    using assms unfolding InsertRow_def Let_def seq_Inr_iff
    by (auto simp: lift_def fail_def ret_def seq_Inr_iff split: if_splits)
  then show ?thesis by (force simp: row_entries_def)
qed


section \<open>Statements that are not what they look like\<close>

text \<open>
  C6. A misspelt \<open>WHERE\<close> deletes the whole table: in every session the statement does what a \<open>DELETE\<close>
  without a condition does.
\<close>
theorem mistyped_where_deletes_all:
  "ExecQuery en ''DELETE FROM t WHEER a = 1'' st = ExecQuery en ''DELETE FROM t'' st
   \<and> ExecQuery en ''DELETE FROM t'' st = exec_statement en (DeleteStmt ''t'' None) st"
proof -
  have "parseSQL ''DELETE FROM t WHEER a = 1'' = Inr (DeleteStmt ''t'' None)"
    and "parseSQL ''DELETE FROM t'' = Inr (DeleteStmt ''t'' None)"
    by code_simp+
  then show ?thesis by (simp add: ExecQuery_def)
qed

text \<open>
  Selecting a database that does not exist leaves the session without a service but with a current
  database, so the next statement on a table crashes instead of being refused.
\<close>
theorem failed_use_crashes_next:
  assumes "db \<noteq> ''''" and "Dir st (to_lower db) = None"
  shows "fst (exec_statement en (UseStmt db) st) = Inl (DBErr DBNotExist)
    \<and> fst (exec_statement en (DeleteStmt t wh) (snd (exec_statement en (UseStmt db) st))) = Inl (EvalErr (StorageErr Panic))
    \<and> fst (exec_statement en (InsertStmt t cols rows) (snd (exec_statement en (UseStmt db) st))) = Inl (EvalErr (StorageErr Panic))
    \<and> fst (exec_statement en (CreateTableStmt t elems) (snd (exec_statement en (UseStmt db) st))) = Inl (EvalErr (StorageErr Panic))"
proof -
  let ?st = "st\<lparr>CurDB := db, Service := None\<rparr>"
  have u: "exec_statement en (UseStmt db) st = (Inl (DBErr DBNotExist), ?st)"
    using assms by (simp add: exec_statement_def Let_def OpenRelation_def dbFilePath_def)
  have nil: "on_service act ?st = (Inl Panic, ?st)" for act :: "(file_store, 'a) action"
    by (simp add: on_service_def)
  have nilf: "flush_log batch ?st = (Inl Panic, ?st)" for batch by (simp add: flush_log_def)
  have "fst (EvaluateInsert (relation_service tm fuel order) t cols rows ?st) = Inl Panic" for tm fuel order
    by (cases rows) (simp_all add: EvaluateInsert_def relation_service_def nil nilf seq_def ret_def)
  then have i: "fst (exec_statement en (InsertStmt t cols rows) ?st) = Inl (EvalErr (StorageErr Panic))"
  proof -
    obtain s' where "EvaluateInsert (relation_service (en_time en) (en_fuel en) (en_order en)) t cols rows ?st = (Inl Panic, s')"
      using \<open>\<And>tm fuel order. fst (EvaluateInsert (relation_service tm fuel order) t cols rows ?st) = Inl Panic\<close> by (metis prod.collapse)
    then show ?thesis using assms(1) by (simp add: exec_statement_def Let_def exec_result_def storage_result_def)
  qed
  have d: "fst (exec_statement en (DeleteStmt t wh) ?st) = Inl (EvalErr (StorageErr Panic))"
    using assms(1) by (simp add: exec_statement_def Let_def exec_result_def EvaluateDelete_def matching_rows_def relation_service_def nil)
  have c: "fst (exec_statement en (CreateTableStmt t elems) ?st) = Inl (EvalErr (StorageErr Panic))"
    using assms(1)
    by (simp add: exec_statement_def Let_def exec_result_def storage_result_def EvaluateCreateTable_def relation_service_def nil)
  show ?thesis using u i d c by simp
qed


definition sample_engine :: engine where
  "sample_engine =
     \<lparr>en_time = (\<lambda>_. None), en_fuel = 50, en_order = (\<lambda>f. map snd (lru_list (fs_cache f))),
      en_sort = (\<lambda>_ rows. Some rows), en_listDBs = (\<lambda>_. [])\<rparr>"

theorem failed_use_crashes_next_witness:
  "fst (exec_statement sample_engine (DeleteStmt ''t'' None)
          (snd (exec_statement sample_engine (UseStmt ''d'') (no_session Map.empty)))) = Inl (EvalErr (StorageErr Panic))"
  using failed_use_crashes_next[of "''d''" "no_session Map.empty" sample_engine "''t''" None "[]" "[]" "[]"]
  by (simp add: no_session_def)

end
