(* ===== verification/Service.thy ===== *)
theory Service
  imports Crud QueryEngine SqlText
begin

text \<open>
  The service loop (\<open>Service\<close>, \<open>deliver\<close>, \<open>handleRequest\<close> of \<open>app/service.go\<close>): one request is dispatched
  to the query strategies, the query cache, the SQL statements or the record handlers.  The IPFS commands,
  the benchmark and the contributions are an argument that leaves the stores alone.

  Rows are Go maps shared by reference: \<open>annotate\<close> changes the rows of peers that the query cache holds.
\<close>

section \<open>Requests\<close>

record request_options =
  qo_Strategy :: string
  qo_Consistency :: string
  qo_TimeBudgetMs :: int
  qo_QuorumN :: int
  qo_MinRows :: int
  qo_MaxPeers :: int
  qo_IncludeLocal :: bool
  qo_AnnotateSource :: bool
  qo_ForceRemote :: bool
  qo_DSType :: string

record request =
  rq_Cmd :: string
  rq_Args :: "string list"
  rq_DSType :: string
  rq_SQLDML :: string
  rq_UpdateData :: "document list"
  rq_Criteria :: "document list"
  rq_Options :: "request_options option"
  rq_RawOK :: bool

definition LOCAL_ONLY :: string where "LOCAL_ONLY = ''LOCAL_ONLY''"
definition REMOTE_ONLY :: string where "REMOTE_ONLY = ''REMOTE_ONLY''"
definition LOCAL_THEN_REMOTE_MERGE :: string where "LOCAL_THEN_REMOTE_MERGE = ''LOCAL_THEN_REMOTE_MERGE''"
definition PARALLEL_MERGE :: string where "PARALLEL_MERGE = ''PARALLEL_MERGE''"
definition QUORUM :: string where "QUORUM = ''QUORUM''"

lemmas strategies = LOCAL_ONLY_def REMOTE_ONLY_def LOCAL_THEN_REMOTE_MERGE_def PARALLEL_MERGE_def QUORUM_def

definition default_request_options :: request_options where
  "default_request_options =
     \<lparr>qo_Strategy = LOCAL_THEN_REMOTE_MERGE, qo_Consistency = ''BEST_EFFORT'', qo_TimeBudgetMs = 1200, qo_QuorumN = 0,
      qo_MinRows = 0, qo_MaxPeers = 0, qo_IncludeLocal = True, qo_AnnotateSource = True, qo_ForceRemote = False,
      qo_DSType = ''''\<rparr>"

definition overridden :: "request_options \<Rightarrow> request_options \<Rightarrow> request_options" where
  "overridden o1 opt =
     opt\<lparr>qo_Strategy := (if qo_Strategy o1 \<noteq> '''' then qo_Strategy o1 else qo_Strategy opt),
         qo_Consistency := (if qo_Consistency o1 \<noteq> '''' then qo_Consistency o1 else qo_Consistency opt),
         qo_TimeBudgetMs := (if qo_TimeBudgetMs o1 > 0 then qo_TimeBudgetMs o1 else qo_TimeBudgetMs opt),
         qo_MinRows := (if qo_MinRows o1 > 0 then qo_MinRows o1 else qo_MinRows opt),
         qo_QuorumN := (if qo_QuorumN o1 > 0 then qo_QuorumN o1 else qo_QuorumN opt),
         qo_MaxPeers := (if qo_MaxPeers o1 > 0 then qo_MaxPeers o1 else qo_MaxPeers opt),
         qo_ForceRemote := qo_ForceRemote o1,
         qo_IncludeLocal := qo_IncludeLocal o1,
         qo_AnnotateSource := qo_AnnotateSource o1\<rparr>"

definition effective_options :: "request \<Rightarrow> request_options" where
  "effective_options req =
     (case rq_Options req of None \<Rightarrow> default_request_options | Some o1 \<Rightarrow> overridden o1 default_request_options)
       \<lparr>qo_DSType := rq_DSType req\<rparr>"

definition merge_options :: "request_options \<Rightarrow> queryOptions" where
  "merge_options opt =
     \<lparr>opt_IncludeLocal = qo_IncludeLocal opt, opt_ForceRemote = qo_ForceRemote opt,
      opt_AnnotateSource = qo_AnnotateSource opt, opt_MinRows = qo_MinRows opt, opt_QuorumN = qo_QuorumN opt,
      opt_QuorumConsistency = (qo_Consistency opt = ''QUORUM'')\<rparr>"

section \<open>The state and the surroundings of the service\<close>

record 'd service =
  node :: node_db
  engine_cache :: "simple_cache option"
  sqlite :: 'd

text \<open>What the service is connected to: the registry's surroundings, the encodings and clocks of the other
  theories, the answers of the peers (for the worker pool, for a quorum, for a SQL statement), the driver of
  SQLite, the metadata generated for an inserted SQL row and its row of \<open>metadata_catalog\<close>, and the answer of
  the other commands.\<close>

record ('d, 'v) surroundings =
  sv_env :: env
  sv_lib :: golib
  sv_cfg :: settings
  sv_fmt :: "json \<Rightarrow> string"
  sv_clk :: clock
  sv_hash :: "document \<Rightarrow> string"
  sv_sched :: "document list \<Rightarrow> document list"
  sv_digest :: "json \<Rightarrow> string"
  sv_times :: "int \<times> int"
  sv_self :: string
  sv_peers :: "string list"
  sv_pool_run :: "document list \<Rightarrow> int \<Rightarrow> string list \<Rightarrow> (string \<times> document list option) list"
  sv_arrivals :: "document list \<Rightarrow> request_options \<Rightarrow> document list option list"
  sv_driver :: "('d, 'v) sql_driver"
  sv_row :: "(string, 'v cell) gomap \<Rightarrow> document"
  sv_sql_peer :: "string \<Rightarrow> request \<Rightarrow> document list option"
  sv_sql_metadata :: "string \<Rightarrow> document"
  sv_catalog :: "string \<Rightarrow> 'd \<Rightarrow> 'd"
  sv_other :: "request \<Rightarrow> json"

datatype reply =
    RRows "document list"
  | RRaw "string list"
  | RText string
  | RFailed
  | RStats cache_stats
  | RRecords "document list"
  | RSuccess
  | ROther json
  | RNothing

section \<open>Queries\<close>

text \<open>The local replica of the named store, which is created when there is none; \<open>None\<close> is an error.\<close>

definition on_replica :: "env \<Rightarrow> string \<Rightarrow> (docstore \<Rightarrow> 'a option) \<Rightarrow> kb \<Rightarrow> 'a option \<times> kb" where
  "on_replica env dstype f kb =
     (case ResolveDocStore env dstype StoreCreate kb of
        (Inl e, kb') \<Rightarrow> (None, kb')
      | (Inr (s, n), kb') \<Rightarrow> (f (documents s), kb'))"

definition ten_minutes :: int where "ten_minutes = 600"

text \<open>\<open>queryRemote\<close> and \<open>queryPeersOptimized\<close>: the engine is made on first use; annotating the rows
  annotates the ones in the cache.\<close>

definition annotate_cached ::
  "(json \<Rightarrow> string) \<Rightarrow> document list \<Rightarrow> string \<Rightarrow> document list \<Rightarrow> simple_cache \<Rightarrow> simple_cache" where
  "annotate_cached digest criteria strategy rows sc =
     (case gm_get (entries sc) (generateKey digest criteria) of
        None \<Rightarrow> sc
      | Some e \<Rightarrow> if rows = [] then sc else sc\<lparr>entries := gm_set (generateKey digest criteria)
                                 (e\<lparr>ce_Data := annotate ''peer'' '''' strategy (ce_Data e)\<rparr>) (entries sc)\<rparr>)"

definition ask_peers :: "('d, 'v) surroundings \<Rightarrow> int \<Rightarrow> bool \<Rightarrow> string \<Rightarrow> document list \<Rightarrow> simple_cache option
    \<Rightarrow> document list \<times> simple_cache option" where
  "ask_peers sv budget annotated strategy criteria c =
     (let sc = (case c of Some sc \<Rightarrow> sc | None \<Rightarrow> NewSimpleCache ten_minutes)
      in case engine_Query (sv_digest sv) (sv_times sv) (sv_pool_run sv criteria budget) (sv_self sv) (sv_peers sv) criteria sc of
           (rows, sc1) \<Rightarrow>
             (if annotated then (annotate ''peer'' '''' strategy rows, Some (annotate_cached (sv_digest sv) criteria strategy rows sc1))
              else (rows, Some sc1)))"

definition queryRemote :: "('d, 'v) surroundings \<Rightarrow> request_options \<Rightarrow> string \<Rightarrow> document list \<Rightarrow> simple_cache option
    \<Rightarrow> document list \<times> simple_cache option" where
  "queryRemote sv opt =
     ask_peers sv (if qo_TimeBudgetMs opt \<le> 0 then 1200 else qo_TimeBudgetMs opt) (qo_AnnotateSource opt)"

text \<open>The rows of a query (\<open>None\<close> is an error), the registry and the cache after it.\<close>

definition run_strategy :: "('d, 'v) surroundings \<Rightarrow> request_options \<Rightarrow> document list \<Rightarrow> kb \<Rightarrow> simple_cache option
    \<Rightarrow> document list option \<times> kb \<times> simple_cache option" where
  "run_strategy sv opt criteria kb c =
     (let replica = on_replica (sv_env sv) (qo_DSType opt) (\<lambda>s. queryLocalDB (sv_lib sv) s criteria);
          local_answer = (if qo_IncludeLocal opt then replica kb else (None, kb));
          mo = merge_options opt;
          strategy = qo_Strategy opt
      in if strategy = LOCAL_ONLY then
           (case replica kb of (rows, kb1) \<Rightarrow>
              (map_option (\<lambda>r. if qo_AnnotateSource opt then annotate ''local'' '''' LOCAL_ONLY r else r) rows, kb1, c))
         else if strategy = REMOTE_ONLY then
           (case ask_peers sv 0 (qo_AnnotateSource opt) REMOTE_ONLY criteria c of (rows, c1) \<Rightarrow> (Some rows, kb, c1))
         else if strategy = PARALLEL_MERGE then
           (case local_answer of (loc, kb1) \<Rightarrow>
            case queryRemote sv opt PARALLEL_MERGE criteria c of (remote, c1) \<Rightarrow>
              (parallelMerge (sv_hash sv) (sv_sched sv) mo loc (Some remote), kb1, c1))
         else if strategy = QUORUM then
           (case replica kb of (loc, kb1) \<Rightarrow>
              (Some (quorumMerge (sv_hash sv) (sv_sched sv) mo loc (sv_arrivals sv criteria opt)), kb1, c))
         else
           (case local_answer of (loc, kb1) \<Rightarrow>
              (if qo_IncludeLocal opt \<and> \<not> qo_ForceRemote opt \<and> loc \<noteq> None \<and> the loc \<noteq> []
                  \<and> (qo_MinRows opt \<le> 0 \<or> int (length (the loc)) \<ge> qo_MinRows opt)
               then (localThenRemoteMerge (sv_hash sv) (sv_sched sv) mo loc None, kb1, c)
               else case queryRemote sv opt LOCAL_THEN_REMOTE_MERGE criteria c of (remote, c1) \<Rightarrow>
                      (localThenRemoteMerge (sv_hash sv) (sv_sched sv) mo loc (Some remote), kb1, c1))))"

text \<open>The local answer as stored JSON, when it is the local rows unchanged.\<close>

definition raw_allowed :: "request \<Rightarrow> request_options \<Rightarrow> bool" where
  "raw_allowed req opt \<longleftrightarrow> rq_RawOK req \<and> \<not> qo_AnnotateSource opt \<and> \<not> qo_ForceRemote opt \<and> qo_MinRows opt \<le> 0
     \<and> qo_IncludeLocal opt \<and> (qo_Strategy opt = LOCAL_ONLY \<or> qo_Strategy opt = LOCAL_THEN_REMOTE_MERGE)"

definition raw_answer :: "('d, 'v) surroundings \<Rightarrow> string \<Rightarrow> document list \<Rightarrow> kb \<Rightarrow> string list option \<times> kb" where
  "raw_answer sv dstype criteria =
     on_replica (sv_env sv) dstype (\<lambda>s. case queryLocalRaw (sv_lib sv) s criteria of Inr (Some raw) \<Rightarrow> Some raw | _ \<Rightarrow> None)"

definition handle_query :: "('d, 'v) surroundings \<Rightarrow> request \<Rightarrow> 'd service \<Rightarrow> reply \<times> 'd service" where
  "handle_query sv req st =
     (let opt = effective_options req;
          (raw, kb1) = (if raw_allowed req opt then raw_answer sv (rq_DSType req) (rq_Criteria req) (stores (node st))
                        else (None, stores (node st)))
      in case raw of
           Some (r # rs) \<Rightarrow> (RRaw (r # rs), st\<lparr>node := (node st)\<lparr>stores := kb1\<rparr>\<rparr>)
         | _ \<Rightarrow>
           (case run_strategy sv opt (rq_Criteria req) kb1 (engine_cache st) of
              (out, kb2, c) \<Rightarrow>
                (case out of
                   None \<Rightarrow> (RFailed, st\<lparr>node := (node st)\<lparr>stores := kb2\<rparr>, engine_cache := c\<rparr>)
                 | Some rows \<Rightarrow>
                     (RRows rows,
                      st\<lparr>node := (node st)\<lparr>stores := persistRemoteRows (sv_env sv) (sv_cfg sv) (rq_DSType req) rows kb2\<rparr>,
                         engine_cache := c\<rparr>))))"

section \<open>SQL statements\<close>

definition queryRemoteSQLitePeers :: "('d, 'v) surroundings \<Rightarrow> request \<Rightarrow> document list" where
  "queryRemoteSQLitePeers sv req =
     concat (List.map_filter (\<lambda>p. sv_sql_peer sv p req) (filter (\<lambda>p. p \<noteq> sv_self sv) (sv_peers sv)))"

text \<open>The metadata of an inserted row is stored in the background, as a document and as a row of SQLite.\<close>

definition inserts :: "string \<Rightarrow> bool" where
  "inserts stmt \<longleftrightarrow> has_prefix (to_upper (trim_space stmt)) ''INSERT''"

definition store_sql_metadata :: "('d, 'v) surroundings \<Rightarrow> string \<Rightarrow> node_db \<Rightarrow> node_db" where
  "store_sql_metadata sv stmt db =
     (if inserts stmt \<and> gm_get (builtinDocStores (stores db)) ''kbmetadata'' \<noteq> None
      then db\<lparr>stores := snd (change_store ''kbmetadata'' (store_Put (JObj (sv_sql_metadata sv stmt))) (stores db))\<rparr>
      else db)"

definition SQLDMLWithPeerFallback :: "('d, 'v) surroundings \<Rightarrow> request \<Rightarrow> 'd service \<Rightarrow> (reply \<times> 'd service) option" where
  "SQLDMLWithPeerFallback sv req st =
     map_option (\<lambda>(result, d).
       let st1 = st\<lparr>sqlite := d\<rparr>
       in case result of
            Inl e \<Rightarrow> (RText ''ERROR! #120 Failed to execute SQL statement'', st1)
          | Inr answer \<Rightarrow>
              (let st2 = st1\<lparr>node := store_sql_metadata sv (rq_SQLDML req) (node st1),
                              sqlite := (if inserts (rq_SQLDML req) then sv_catalog sv (rq_SQLDML req) d else d)\<rparr>
               in case answer of
                    Rows rows \<Rightarrow>
                      (let records = map (sv_row sv) rows;
                           remote = (if records = [] then queryRemoteSQLitePeers sv req else [])
                       in (RRecords (if remote \<noteq> [] then DedupSQLResults (sv_hash sv) (sv_sched sv (records @ remote)) else records), st2))
                  | Affected n \<Rightarrow> (RSuccess, st2)))
     (SqlDML (sv_driver sv) (rq_SQLDML req) (sqlite st))"

text \<open>\<open>AwaitRegisterSQLDMLStreamHandler\<close>: what a peer is sent; \<open>None\<close> when the stream is closed without an
  answer (or the handler hangs).\<close>

definition serve_sql_peer :: "('d, 'v) surroundings \<Rightarrow> request \<Rightarrow> 'd \<Rightarrow> document list option \<times> 'd" where
  "serve_sql_peer sv req d =
     (case SqlDML (sv_driver sv) (rq_SQLDML req) d of
        None \<Rightarrow> (None, d)
      | Some (Inl e, d') \<Rightarrow> (None, d')
      | Some (Inr (Rows rows), d') \<Rightarrow> (Some (map (sv_row sv) rows), d')
      | Some (Inr (Affected n), d') \<Rightarrow> (Some [], d'))"

section \<open>Dispatch\<close>

definition count_text :: "nat \<Rightarrow> string \<Rightarrow> string" where
  "count_text n what = ''SUCCESS! '' @ dec_nat n @ '' document(s) '' @ what"

text \<open>The answer to one request; \<open>None\<close> when it is never answered.  The texts of errors are left out of the
  messages.\<close>

definition handleRequest :: "('d, 'v) surroundings \<Rightarrow> request \<Rightarrow> 'd service \<Rightarrow> (reply \<times> 'd service) option" where
  "handleRequest sv req st =
     (let cmd = to_lower (rq_Cmd req); env = sv_env sv; db = node st
      in if cmd = ''query'' then Some (handle_query sv req st)
         else if cmd = ''cachestats'' then
           Some (case engine_cache st of Some sc \<Rightarrow> RStats (Stats sc) | None \<Rightarrow> RFailed, st)
         else if cmd = ''clearcache'' then
           Some (case engine_cache st of
                   Some sc \<Rightarrow> (RText ''Cache cleared successfully'', st\<lparr>engine_cache := Some (cache_Clear sc)\<rparr>)
                 | None \<Rightarrow> (RText ''Query engine not initialized'', st))
         else if cmd = ''sqldml'' then SQLDMLWithPeerFallback sv req st
         else if cmd = ''crudget'' then
           Some (case crudGetDocStoreRev env (sv_lib sv) (rq_DSType req) (rq_Criteria req) db of
                   (Inl e, db') \<Rightarrow> (RText ''ERROR! #114 Failed to get records'', st\<lparr>node := db'\<rparr>)
                 | (Inr rows, db') \<Rightarrow> (RRows rows, st\<lparr>node := db'\<rparr>))
         else if cmd = ''crudput'' then
           Some (case crudPutDocStoreRev env (sv_cfg sv) (sv_clk sv) (rq_DSType req) (rq_Criteria req) db of
                   ((_, Some e), db') \<Rightarrow> (RText ''ERROR! #112 Failed to insert records'', st\<lparr>node := db'\<rparr>)
                 | ((_, None), db') \<Rightarrow> (RText ''OK: Successfully inserted records'', st\<lparr>node := db'\<rparr>))
         else if cmd = ''crudupdate'' then
           Some (case crudUpdateDocStoreRev env (sv_lib sv) (sv_cfg sv) (sv_fmt sv) (sv_clk sv) (rq_DSType req) (rq_Criteria req)
                        (rq_UpdateData req) db of
                   ((_, Some e), db') \<Rightarrow> (RText ''ERROR! Update failed'', st\<lparr>node := db'\<rparr>)
                 | ((n, None), db') \<Rightarrow> (RText (count_text n ''updated''), st\<lparr>node := db'\<rparr>))
         else if cmd = ''cruddelete'' then
           Some (case crudDeleteDocStoreRev env (sv_lib sv) (sv_fmt sv) (rq_DSType req) (rq_Criteria req) db of
                   ((_, Some e), db') \<Rightarrow> (RText ''ERROR! Delete failed'', st\<lparr>node := db'\<rparr>)
                 | ((n, None), db') \<Rightarrow> (RText (count_text n ''deleted''), st\<lparr>node := db'\<rparr>))
         else if cmd = ''help'' then Some (RNothing, st)
         else if cmd \<in> {''get'', ''post'', ''connect'', ''contri'', ''benchmark''} then Some (ROther (sv_other sv req), st)
         else Some (RText (''Unknown command'' @ rq_Cmd req @ ''. Use HELP for the list of available commands.''), st))"

text \<open>\<open>deliver\<close>: to the channel of the request, or to the shared one.\<close>

datatype channel = OwnReply | SharedReply

definition deliver :: "bool \<Rightarrow> channel" where
  "deliver has_reply = (if has_reply then OwnReply else SharedReply)"

definition serviceConcurrency :: "int option \<Rightarrow> int" where
  "serviceConcurrency configured = (case configured of Some v \<Rightarrow> if v > 0 then v else 32 | None \<Rightarrow> 32)"

end
