(* ===== verification/ServiceFacts.thy ===== *)
theory ServiceFacts
  imports Service
begin

text \<open>
  Properties of requests: reads that do not write, and what the query cache does to rows of peers.
\<close>

section \<open>Reads\<close>

lemma on_replica_present:
  "store_of kb (store_name d) = Some s \<Longrightarrow> store_name d \<noteq> ''contributions'' \<Longrightarrow>
   on_replica env d f kb = (f (documents s), kb)"
  by (simp add: on_replica_def resolve_present)

lemma stored_doc_has_key:
  assumes "well_keyed s" and "gm_wf (index (ix s))" and "r \<in> set (stored_docs s)"
  shows "HasKey s (row_id r)"
proof -
  from assms(3) obtain k raw where k: "(k, raw) \<in> set (index (ix s))" "r = decoded s raw"
    by (auto simp: stored_docs_def)
  then have "index_Get (ix s) k = Some raw" using assms(2) by (simp add: index_Get_def)
  then have "row_id r = k" using well_keyed_get(2)[OF assms(1)] k(2) by (auto simp: row_id_def field_def)
  then show ?thesis using \<open>index_Get (ix s) k = Some raw\<close> by (simp add: HasKey_def hasKey_def index_Get_def)
qed

lemma annotate_row_id: "r \<in> set (annotate src p strategy rows) \<Longrightarrow> \<exists>r' \<in> set rows. row_id r = row_id r'"
  by (auto simp: annotate_def row_id_def field_def Let_def)

text \<open>Writing back rows that are all stored under their identifiers changes nothing.\<close>

lemma persist_known_rows:
  assumes "registry_ok kb" and "store_of kb (store_name d) = Some s" and "store_name d \<noteq> ''contributions''"
    and "\<forall>r\<in>set rows. HasKey (documents s) (row_id r)"
  shows "store_of (persistRemoteRows env cfg d rows kb) = store_of kb"
proof (cases "rows = []")
  case False
  have "missing_rows (documents s) rows = []" using assms(4) by (simp add: missing_rows_def)
  then have "persistRemoteRows env cfg d rows kb = set_store (store_name d) s kb"
    using False by (simp add: persistRemoteRows_def on_store_def resolve_present[OF assms(2,3)] store_missing_def)
  then show ?thesis using set_store_ok[OF assms(1), of "store_name d" s] assms(2) by (auto simp: fun_upd_idem)
qed (simp add: persistRemoteRows_def)

text \<open>
  C11. Reading does not write: a local query is answered, and leaves every store, the query cache, the lineage
  jobs and the SQL database as they were.
\<close>
theorem local_query_writes_nothing:
  assumes "registry_ok (stores (node st))" and "store_of (stores (node st)) (store_name (rq_DSType req)) = Some s"
    and "store_name (rq_DSType req) \<noteq> ''contributions''"
    and "loaded_store (documents s)" and "plain_criteria (rq_Criteria req)"
    and "to_lower (rq_Cmd req) = ''query''" and "qo_Strategy (effective_options req) = LOCAL_ONLY"
  shows "\<exists>reply st'. handleRequest sv req st = Some (reply, st') \<and> reply \<noteq> RFailed
    \<and> store_of (stores (node st')) = store_of (stores (node st)) \<and> engine_cache st' = engine_cache st \<and> sqlite st' = sqlite st
    \<and> lineage_jobs (node st') = lineage_jobs (node st) \<and> lineage_calls (node st') = lineage_calls (node st)"
proof -
  let ?kb = "stores (node st)" and ?opt = "effective_options req"
  have d: "qo_DSType ?opt = rq_DSType req" by (simp add: effective_options_def)
  obtain rows where rows: "queryLocalDB (sv_lib sv) (documents s) (rq_Criteria req) = Some rows"
    and "mset rows = mset (filter (criteria_match (sv_lib sv) (rq_Criteria req)) (stored_docs (documents s)))"
    using local_query_rows[OF assms(4,5)] by blast
  then have sub: "set rows \<subseteq> set (stored_docs (documents s))" by (metis filter_is_subset set_mset_mset)
  note ld = loaded_storeD[OF assms(4)]
  have known: "\<forall>r\<in>set rows. HasKey (documents s) (row_id r)"
    using stored_doc_has_key[OF ld(3,2)] sub by blast
  define out where "out = (if qo_AnnotateSource ?opt then annotate ''local'' '''' LOCAL_ONLY rows else rows)"
  have out: "\<forall>r\<in>set out. HasKey (documents s) (row_id r)"
  proof
    fix r assume "r \<in> set out"
    then obtain r' where "r' \<in> set rows" "row_id r = row_id r'"
      using annotate_row_id[of r "''local''" "''''" LOCAL_ONLY rows] by (auto simp: out_def split: if_splits)
    then show "HasKey (documents s) (row_id r)" using known by simp
  qed
  have run: "run_strategy sv ?opt (rq_Criteria req) ?kb (engine_cache st) = (Some out, ?kb, engine_cache st)"
    using rows by (simp add: run_strategy_def Let_def assms(7) d on_replica_present[OF assms(2,3)] out_def)
  have raw: "\<exists>raw. (if raw_allowed req ?opt then raw_answer sv (rq_DSType req) (rq_Criteria req) ?kb else (None, ?kb)) = (raw, ?kb)"
    by (simp add: raw_answer_def on_replica_present[OF assms(2,3)])
  then obtain raw where raw: "(if raw_allowed req ?opt then raw_answer sv (rq_DSType req) (rq_Criteria req) ?kb else (None, ?kb)) = (raw, ?kb)"
    by blast
  have "handle_query sv req st = (case raw of
       Some (r # rs) \<Rightarrow> (RRaw (r # rs), st\<lparr>node := (node st)\<lparr>stores := ?kb\<rparr>\<rparr>)
     | _ \<Rightarrow> (RRows out, st\<lparr>node := (node st)\<lparr>stores := persistRemoteRows (sv_env sv) (sv_cfg sv) (rq_DSType req) out ?kb\<rparr>,
                      engine_cache := engine_cache st\<rparr>))"
    by (simp add: handle_query_def Let_def raw run split: option.split list.split)
  then show ?thesis
    using persist_known_rows[OF assms(1-3) out] assms(6)
    by (auto simp: handleRequest_def Let_def split: option.split list.split)
qed

section \<open>Rows of peers\<close>

definition remote_request :: "string \<Rightarrow> document list \<Rightarrow> bool \<Rightarrow> request" where
  "remote_request dstype criteria annotated =
     \<lparr>rq_Cmd = ''query'', rq_Args = [], rq_DSType = dstype, rq_SQLDML = '''', rq_UpdateData = [], rq_Criteria = criteria,
      rq_Options = Some (default_request_options\<lparr>qo_Strategy := REMOTE_ONLY, qo_AnnotateSource := annotated\<rparr>), rq_RawOK = True\<rparr>"

lemma remote_options:
  "effective_options (remote_request d criteria annotated) =
     default_request_options\<lparr>qo_Strategy := REMOTE_ONLY, qo_AnnotateSource := annotated, qo_DSType := d\<rparr>"
  by (simp add: effective_options_def remote_request_def overridden_def default_request_options_def strategies)

lemma lower_query: "to_lower ''query'' = ''query''"
  by code_simp

lemma handle_remote:
  "ask_peers sv 0 annotated REMOTE_ONLY criteria (engine_cache st) = (rows, c) \<Longrightarrow>
   handleRequest sv (remote_request d criteria annotated) st =
     Some (RRows rows, st\<lparr>node := (node st)\<lparr>stores := persistRemoteRows (sv_env sv) (sv_cfg sv) d rows (stores (node st))\<rparr>,
                          engine_cache := c\<rparr>)"
  by (simp add: handleRequest_def handle_query_def run_strategy_def remote_options raw_allowed_def strategies Let_def)
    (simp add: remote_request_def lower_query)

text \<open>
  A remote query ignores the store it names: the peers are asked, and the cache is consulted, for the
  criteria alone, so every store name is answered with the same rows, and these are then written into the
  store that was named.
\<close>
theorem remote_query_ignores_store:
  "\<exists>rows c. \<forall>d. handleRequest sv (remote_request d criteria annotated) st =
     Some (RRows rows, st\<lparr>node := (node st)\<lparr>stores := persistRemoteRows (sv_env sv) (sv_cfg sv) d rows (stores (node st))\<rparr>,
                          engine_cache := c\<rparr>)"
proof -
  obtain rows c where "ask_peers sv 0 annotated REMOTE_ONLY criteria (engine_cache st) = (rows, c)" by force
  then show ?thesis using handle_remote by blast
qed

text \<open>
  Annotations leak through the query cache: after a query that asked for annotated rows, the same query
  without annotations is answered, until the entry expires, with the rows annotated for the first one.
\<close>
theorem annotations_leak:
  assumes "handleRequest sv (remote_request d criteria True) st = Some (RRows (row # rows), st1)"
    and "engine_cache st = None" and "fst (sv_times sv2) \<le> snd (sv_times sv) + ten_minutes"
    and "sv_digest sv2 = sv_digest sv"
  shows "\<exists>st2. handleRequest sv2 (remote_request d2 criteria False) st1 = Some (RRows (row # rows), st2)
    \<and> gm_get row ''_source'' \<noteq> None \<and> gm_get row ''_trace'' \<noteq> None"
proof -
  let ?ann = "annotate ''peer'' '''' REMOTE_ONLY"
  let ?res = "collectResults (sv_digest sv) (sv_pool_run sv criteria 0 (filter (\<lambda>p. p \<noteq> sv_self sv) (sv_peers sv)))"
  obtain answer c where a: "ask_peers sv 0 True REMOTE_ONLY criteria None = (answer, c)" by force
  from handle_remote[of sv True criteria st answer c d] assms(1,2) a
  have ans: "answer = row # rows" and c: "engine_cache st1 = c" by auto
  have "engine_Query (sv_digest sv) (sv_times sv) (sv_pool_run sv criteria 0) (sv_self sv) (sv_peers sv) criteria (NewSimpleCache ten_minutes)
      = (if filter (\<lambda>p. p \<noteq> sv_self sv) (sv_peers sv) = [] then ([], recordMiss (NewSimpleCache ten_minutes))
         else (?res, if ?res = [] then recordMiss (NewSimpleCache ten_minutes)
                     else cache_Set (sv_digest sv) (snd (sv_times sv)) criteria ?res (recordMiss (NewSimpleCache ten_minutes))))"
    by (simp add: engine_Query_def cache_Get_def NewSimpleCache_def Let_def recordMiss_def)
  then have res: "answer = ?ann ?res" "?res \<noteq> []"
    and ccache: "c = Some (annotate_cached (sv_digest sv) criteria REMOTE_ONLY ?res
        (cache_Set (sv_digest sv) (snd (sv_times sv)) criteria ?res (recordMiss (NewSimpleCache ten_minutes))))"
    using a ans by (auto simp: ask_peers_def annotate_def split: if_splits)
  have get: "cache_Get (sv_digest sv) (fst (sv_times sv2)) criteria (the c)
      = (Some answer, recordHit (the c))"
    using assms(3) res
    by (simp add: ccache annotate_cached_def cache_Set_def cache_Get_def NewSimpleCache_def recordMiss_def)
  have "ask_peers sv2 0 False REMOTE_ONLY criteria c = (answer, Some (recordHit (the c)))"
    using get ccache assms(4) by (simp add: ask_peers_def engine_Query_def)
  from handle_remote[of sv2 False criteria st1 _ _ d2] this c ans
  have "\<exists>st2. handleRequest sv2 (remote_request d2 criteria False) st1 = Some (RRows (row # rows), st2)" by simp
  moreover have "row \<in> set (?ann ?res)" using ans res by simp
  then have "gm_get row ''_source'' \<noteq> None \<and> gm_get row ''_trace'' \<noteq> None"
    by (auto simp: annotate_def Let_def)
  ultimately show ?thesis by blast
qed

section \<open>Examples\<close>

definition sample_service :: "unit service" where
  "sample_service = \<lparr>node = sample_db (mirror_store [] [put_entry 1 ''a'']), engine_cache = None, sqlite = ()\<rparr>"

text \<open>One peer \<open>q\<close>, which answers every query with one row.\<close>

definition sample_surroundings :: "int \<times> int \<Rightarrow> (unit, unit) surroundings" where
  "sample_surroundings ts =
     \<lparr>sv_env = sample_env, sv_lib = plain_lib, sv_cfg = single_puts, sv_fmt = (\<lambda>_. ''?''), sv_clk = sample_clock,
      sv_hash = (\<lambda>_. ''h''), sv_sched = (\<lambda>ds. ds), sv_digest = (\<lambda>_. ''k''), sv_times = ts, sv_self = ''me'',
      sv_peers = [''me'', ''q''], sv_pool_run = (\<lambda>_ _ ps. map (\<lambda>p. (p, Some [[(''_id'', JStr ''x'')]])) ps),
      sv_arrivals = (\<lambda>_ _. []), sv_driver = \<lparr>run_query = (\<lambda>_ d. (None, d)), run_exec = (\<lambda>_ d. (None, d))\<rparr>,
      sv_row = (\<lambda>_. []), sv_sql_peer = (\<lambda>_ _. None), sv_sql_metadata = (\<lambda>_. []), sv_catalog = (\<lambda>_ d. d), sv_other = (\<lambda>_. JNull)\<rparr>"

definition local_request :: request where
  "local_request = (remote_request '''' [[(''v'', JStr ''a'')]] False)
     \<lparr>rq_Options := Some (default_request_options\<lparr>qo_Strategy := LOCAL_ONLY\<rparr>)\<rparr>"

theorem local_query_writes_nothing_witness:
  "\<exists>reply st'. handleRequest (sample_surroundings (0, 1)) local_request sample_service = Some (reply, st') \<and> reply \<noteq> RFailed
     \<and> store_of (stores (node st')) ''dsswres'' = Some \<lparr>documents = mirror_store [] [put_entry 1 ''a''], address = ''zdpa''\<rparr>"
proof -
  let ?s = "mirror_store [] [put_entry 1 ''a'']"
  have p: "plain_criteria (rq_Criteria local_request)"
    by (simp add: local_request_def remote_request_def plain_criteria_def typed_filter_def idOnlyCriteria_def idOnlyFilter_def)
  have q: "to_lower (rq_Cmd local_request) = ''query''" "rq_DSType local_request = ''''" "node sample_service = sample_db ?s"
    "qo_Strategy (effective_options local_request) = LOCAL_ONLY"
    by (simp_all add: local_request_def remote_request_def lower_query sample_service_def effective_options_def overridden_def strategies)
  have l: "loaded_store (documents \<lparr>documents = ?s, address = ''zdpa''\<rparr>)" by (simp add: mirror_loaded_store)
  note ok = sample_db_store(1,2)[of ?s] sample_db_store(3)
  from local_query_writes_nothing[of sample_service local_request "\<lparr>documents = ?s, address = ''zdpa''\<rparr>" "sample_surroundings (0, 1)",
      unfolded q(2,3), OF ok l p q(1,4)]
  show ?thesis using sample_db_store(2)[of ?s] by (auto simp: default_name)
qed

theorem annotations_leak_witness:
  "\<exists>row st1 st2. handleRequest (sample_surroundings (0, 1)) (remote_request '''' [] True) sample_service = Some (RRows [row], st1)
     \<and> handleRequest (sample_surroundings (500, 501)) (remote_request ''other'' [] False) st1 = Some (RRows [row], st2)
     \<and> gm_get row ''_source'' \<noteq> None"
proof -
  have "\<exists>row c. ask_peers (sample_surroundings (0, 1)) 0 True REMOTE_ONLY [] None = ([row], c)"
    by (simp add: ask_peers_def sample_surroundings_def engine_Query_def cache_Get_def NewSimpleCache_def Let_def
        collectResults_def annotate_def generateKey_def recordMiss_def)
  then obtain row c where "ask_peers (sample_surroundings (0, 1)) 0 True REMOTE_ONLY [] (engine_cache sample_service) = ([row], c)"
    by (auto simp: sample_service_def)
  from handle_remote[OF this, of "''''"]
  obtain st1 where r: "handleRequest (sample_surroundings (0, 1)) (remote_request '''' [] True) sample_service = Some (RRows [row], st1)" by simp
  have "engine_cache sample_service = None" "fst (sv_times (sample_surroundings (500, 501))) \<le> snd (sv_times (sample_surroundings (0, 1))) + ten_minutes"
    "sv_digest (sample_surroundings (500, 501)) = sv_digest (sample_surroundings (0, 1))"
    by (simp_all add: sample_service_def sample_surroundings_def ten_minutes_def)
  from annotations_leak[OF r this, of "''other''"] r show ?thesis by blast
qed

end
