(* ===== verification/RestApi.thy ===== *)
theory RestApi
  imports ServiceFacts Capacity
begin

text \<open>
  The HTTP handlers of \<open>api/http.go\<close> for stores, capacities, service requests and single documents.

  A request's body is the value its JSON text stands for (\<open>None\<close> when it is not JSON), with the literals
  that are integers as \<open>JInt\<close>; keys are matched exactly.  The texts of errors that come from libraries, the
  quoting of \<open>%q\<close>, clocks and UUIDs are arguments.
\<close>

section \<open>Requests and responses\<close>

record http_request =
  hr_Method :: string
  hr_Path :: string
  hr_Vars :: "(string, string) gomap"
  hr_Query :: "(string, string) gomap"
  hr_Body :: "json option"

datatype payload =
    Empty
  | ErrorText string
  | StoreList "(string \<times> string \<times> string) list"
  | StoreCreated string string bool
  | Detached string
  | Reservation reservation
  | ReservationView reservation bool
  | CDT document
  | ReservationList nat "(string, string) gomap" "reservation list"
  | Data reply

record http_response =
  status :: nat
  payload :: payload

definition answer :: "nat \<Rightarrow> payload \<Rightarrow> http_response" where
  "answer code p = \<lparr>status = code, payload = p\<rparr>"

definition storeError :: "nat \<Rightarrow> string \<Rightarrow> http_response" where
  "storeError code msg = answer code (ErrorText msg)"

definition form_value :: "(string, string) gomap \<Rightarrow> string \<Rightarrow> string" where
  "form_value m k = (case gm_get m k of Some v \<Rightarrow> v | None \<Rightarrow> '''')"

text \<open>Texts: of an undecodable body, of an error of the registry, of the library error inside a capacity
  error, and \<open>%q\<close>.\<close>

record texts =
  json_text :: "json option \<Rightarrow> string"
  store_text :: "store_error \<Rightarrow> string"
  cause_text :: "capacity_error \<Rightarrow> string"
  quote :: "string \<Rightarrow> string"

definition bad_json :: "texts \<Rightarrow> json option \<Rightarrow> http_response" where
  "bad_json tx b = storeError 400 (''invalid JSON body: '' @ json_text tx b)"

section \<open>Stores\<close>

text \<open>Decoding a body into a struct: \<open>null\<close> leaves the zero values.\<close>

definition decode_struct :: "json option \<Rightarrow> document option" where
  "decode_struct b = (case b of Some (JObj m) \<Rightarrow> Some m | Some JNull \<Rightarrow> Some [] | _ \<Rightarrow> None)"

definition createStoreRequest :: "json option \<Rightarrow> string option" where
  "createStoreRequest b = (case decode_struct b of Some m \<Rightarrow> read_text m ''name'' | None \<Rightarrow> None)"

definition create_store :: "texts \<Rightarrow> env \<Rightarrow> string \<Rightarrow> kb \<Rightarrow> http_response \<times> kb" where
  "create_store tx env given kb =
     (let name = to_lower (trim_space given);
          existed = list_ex (\<lambda>(n, k, a). n = name) (ListStores kb)
      in if name = '''' then (storeError 400 (''field \"name\" is required''), kb)
         else case (if IsBuiltinStore kb name then None else ValidateStoreName name) of
           Some e \<Rightarrow> (storeError 400 (store_text tx (BadName e)), kb)
         | None \<Rightarrow>
             (case EnsureDocStore env name kb of
                (Inl e, kb') \<Rightarrow> (storeError 500 (store_text tx e), kb')
              | (Inr s, kb') \<Rightarrow> (answer (if existed then 200 else 201) (StoreCreated name (address s) (\<not> existed)), kb')))"

definition storesHandler :: "texts \<Rightarrow> env \<Rightarrow> http_request \<Rightarrow> kb \<Rightarrow> http_response \<times> kb" where
  "storesHandler tx env r kb =
     (if hr_Method r = ''OPTIONS'' then (answer 204 Empty, kb)
      else if hr_Method r = ''GET'' then (answer 200 (StoreList (ListStores kb)), kb)
      else if hr_Method r = ''POST'' then
        (case createStoreRequest (hr_Body r) of
           None \<Rightarrow> (bad_json tx (hr_Body r), kb)
         | Some given \<Rightarrow> create_store tx env given kb)
      else (storeError 405 ''method not allowed'', kb))"

definition trim_slashes :: "string \<Rightarrow> string" where
  "trim_slashes s = rev (dropWhile (\<lambda>c. c = CHR ''/'') (rev (dropWhile (\<lambda>c. c = CHR ''/'') s)))"

definition path_parts :: "http_request \<Rightarrow> string list" where
  "path_parts r = split_on (CHR ''/'') (trim_slashes (hr_Path r))"

definition storeDeleteHandler :: "texts \<Rightarrow> env \<Rightarrow> http_request \<Rightarrow> kb \<Rightarrow> http_response \<times> kb" where
  "storeDeleteHandler tx env r kb =
     (if hr_Method r = ''OPTIONS'' then (answer 204 Empty, kb)
      else let var = form_value (hr_Vars r) ''name'';
               name = (if var = '''' then last (path_parts r) else var)
           in case DropDynamicStore env name kb of
                (Some e, kb') \<Rightarrow> (storeError 400 (store_text tx e), kb')
              | (None, kb') \<Rightarrow> (answer 200 (Detached name), kb'))"

section \<open>Capacities\<close>

fun after_capacity :: "string list \<Rightarrow> string" where
  "after_capacity (p # q # ps) =
     (if p = ''capacity'' then (if q = ''reserve'' then '''' else q) else after_capacity (q # ps))"
| "after_capacity ps = ''''"

definition capIDFromRequest :: "http_request \<Rightarrow> string" where
  "capIDFromRequest r =
     (let v = form_value (hr_Vars r) ''capID'' in if v \<noteq> '''' then v else after_capacity (path_parts r))"

definition CapacityRequest :: "json option \<Rightarrow> capacity_request option" where
  "CapacityRequest b =
     (case decode_struct b of
        None \<Rightarrow> None
      | Some m \<Rightarrow>
          (case (those (map (read_text m) [''provider_id'', ''provider_name'', ''capacity_type'', ''capacity_name'', ''region'',
                   ''cdt_version'', ''expected_ra'']), read_object m ''attributes'') of
             (Some [p, pn, ty, nm, rg, v, ra], Some attrs) \<Rightarrow>
               Some \<lparr>rq_ProviderID = p, rq_ProviderName = pn, rq_CapacityType = ty, rq_CapacityName = nm, rq_Region = rg,
                     rq_CDTVersion = v, rq_ExpectedRA = ra, rq_Attributes = attrs\<rparr>
           | _ \<Rightarrow> None))"

text \<open>The texts of the errors of the registry of capacities; \<open>doing\<close> is the wrapping of a failed write.\<close>

definition capacity_text :: "texts \<Rightarrow> string \<Rightarrow> string \<Rightarrow> capacity_error \<Rightarrow> string" where
  "capacity_text tx doing capID e =
     (case e of
        ProviderRequired \<Rightarrow> ''provider_id is required''
      | TypeRequired \<Rightarrow> ''capacity_type is required''
      | NoPeerID \<Rightarrow> ''agent peer ID not available yet'' @ cause_text tx NoPeerID
      | BadCapID \<Rightarrow> ''generated capID contains non-printable characters'' @ cause_text tx BadCapID
      | StoreUnavailable se \<Rightarrow> ''capacity store: '' @ store_text tx se
      | WriteRefused \<Rightarrow> doing @ capID @ '': '' @ cause_text tx WriteRefused
      | CapIDRequired \<Rightarrow> ''capID is required''
      | LookupFailed \<Rightarrow> cause_text tx LookupFailed
      | UnexpectedRecord \<Rightarrow> ''unexpected record type for '' @ trim_space capID
      | CDTEmpty \<Rightarrow> ''cdt body is empty''
      | UnknownCapID \<Rightarrow> ''unknown capID '' @ quote tx capID @ cause_text tx UnknownCapID
      | ReleasedCapID \<Rightarrow> ''capID '' @ quote tx capID @ '' was released and cannot accept a CDT''
      | ListFailed \<Rightarrow> cause_text tx ListFailed)"

text \<open>The surroundings of a capacity request: the agent, the UUID, the clock and the readings of \<open>time\<close>.\<close>

record capacity_world =
  cw_agent :: agent
  cw_uuid :: string
  cw_now :: string
  cw_expires :: string
  cw_parse :: "string \<Rightarrow> int option"
  cw_instant :: int
  cw_arrange :: "reservation list \<Rightarrow> reservation list"

definition capacityReserveHandler ::
  "texts \<Rightarrow> env \<Rightarrow> capacity_world \<Rightarrow> http_request \<Rightarrow> kb \<Rightarrow> http_response \<times> kb" where
  "capacityReserveHandler tx env cw r kb =
     (if hr_Method r = ''OPTIONS'' then (answer 204 Empty, kb)
      else case CapacityRequest (hr_Body r) of
        None \<Rightarrow> (bad_json tx (hr_Body r), kb)
      | Some req \<Rightarrow>
          (case ReserveCapacity env (cw_agent cw) (cw_uuid cw) (cw_now cw) (cw_expires cw) req kb of
             (Inl e, kb') \<Rightarrow>
               (let msg = capacity_text tx ''persist reservation '' (case GenerateCapID (cw_agent cw) (cw_uuid cw) of Inr c \<Rightarrow> c | Inl _ \<Rightarrow> '''') e
                in (storeError (if contains_str msg ''is required'' then 400 else 500) msg, kb'))
           | (Inr res, kb') \<Rightarrow> (answer 201 (Reservation res), kb')))"

definition capacityCDTHandler ::
  "texts \<Rightarrow> env \<Rightarrow> capacity_world \<Rightarrow> http_request \<Rightarrow> kb \<Rightarrow> http_response \<times> kb" where
  "capacityCDTHandler tx env cw r kb =
     (if hr_Method r = ''OPTIONS'' then (answer 204 Empty, kb)
      else let capID = capIDFromRequest r
      in if capID = '''' then (storeError 400 ''capID missing from path'', kb)
         else case decode_struct (hr_Body r) of
           None \<Rightarrow> (bad_json tx (hr_Body r), kb)
         | Some body0 \<Rightarrow>
             (let body = norm_object body0;
                  cdt = (case gm_get body ''cdt'' of Some (JObj inner) \<Rightarrow> inner | _ \<Rightarrow> body)
              in case AttachCDT env (cw_now cw) capID cdt kb of
                   (Inl e, kb') \<Rightarrow>
                     (let msg = capacity_text tx ''attach CDT to '' capID e
                      in (storeError (if contains_str msg ''unknown capID'' then 404
                                      else if contains_str msg ''empty'' \<or> contains_str msg ''released'' then 400 else 500) msg, kb'))
                 | (Inr res, kb') \<Rightarrow> (answer 200 (Reservation res), kb')))"

definition capacityItemHandler ::
  "texts \<Rightarrow> env \<Rightarrow> capacity_world \<Rightarrow> http_request \<Rightarrow> kb \<Rightarrow> http_response \<times> kb" where
  "capacityItemHandler tx env cw r kb =
     (if hr_Method r = ''OPTIONS'' then (answer 204 Empty, kb)
      else let capID = capIDFromRequest r
      in if capID = '''' then (storeError 400 ''capID missing from path'', kb)
         else if hr_Method r = ''GET'' then
           (case GetCapacity env capID kb of
              (Inl e, kb') \<Rightarrow> (storeError 500 (capacity_text tx '''' capID e), kb')
            | (Inr None, kb') \<Rightarrow>
                (storeError 404 ''capID not found on this agent (it may not have replicated here yet)'', kb')
            | (Inr (Some res), kb') \<Rightarrow>
                (if form_value (hr_Query r) ''cdt_only'' = ''true'' then
                   (if cr_CDTSubmitted res then answer 200 (CDT (cr_CDT res))
                    else storeError 404 ''no CDT submitted for this capID yet'')
                 else answer 200 (ReservationView res (IsExpired (cw_parse cw) (cw_instant cw) res)), kb'))
         else if hr_Method r = ''DELETE'' then
           (case ReleaseCapacity env (cw_now cw) capID kb of
              (Inl e, kb') \<Rightarrow>
                (let msg = capacity_text tx ''release '' capID e
                 in (storeError (if contains_str msg ''unknown capID'' then 404 else 500) msg, kb'))
            | (Inr res, kb') \<Rightarrow> (answer 200 (Reservation res), kb'))
         else (storeError 405 ''method not allowed'', kb))"

definition list_filter :: "http_request \<Rightarrow> (string, string) gomap" where
  "list_filter r =
     filter (\<lambda>(k, v). v \<noteq> '''')
       (map (\<lambda>k. (k, form_value (hr_Query r) k))
          [''provider_id'', ''capacity_type'', ''region'', ''status'', ''expected_ra'', ''issued_by''])"

definition capacityListHandler ::
  "texts \<Rightarrow> env \<Rightarrow> capacity_world \<Rightarrow> http_request \<Rightarrow> kb \<Rightarrow> http_response \<times> kb" where
  "capacityListHandler tx env cw r kb =
     (if hr_Method r = ''OPTIONS'' then (answer 204 Empty, kb)
      else case ListCapacities env (cw_arrange cw) (list_filter r) kb of
        (Inl e, kb') \<Rightarrow> (storeError 500 (capacity_text tx '''' '''' e), kb')
      | (Inr rs, kb') \<Rightarrow> (answer 200 (ReservationList (length rs) (list_filter r) rs), kb'))"

section \<open>Service requests\<close>

definition read_int :: "document \<Rightarrow> string \<Rightarrow> int option" where
  "read_int m k = (case gm_get m k of None \<Rightarrow> Some 0 | Some JNull \<Rightarrow> Some 0
     | Some (JInt i) \<Rightarrow> if - (2 ^ 63) \<le> i \<and> i < 2 ^ 63 then Some i else None | _ \<Rightarrow> None)"

definition read_list :: "(json \<Rightarrow> 'a option) \<Rightarrow> document \<Rightarrow> string \<Rightarrow> 'a list option" where
  "read_list f m k = (case gm_get m k of None \<Rightarrow> Some [] | Some JNull \<Rightarrow> Some []
     | Some (JArr xs) \<Rightarrow> those (map f xs) | _ \<Rightarrow> None)"

definition text_item :: "json \<Rightarrow> string option" where
  "text_item v = (case v of JStr s \<Rightarrow> Some s | JNull \<Rightarrow> Some '''' | _ \<Rightarrow> None)"

definition object_item :: "json \<Rightarrow> document option" where
  "object_item v = (case v of JObj d \<Rightarrow> Some (norm_object d) | JNull \<Rightarrow> Some [] | _ \<Rightarrow> None)"

definition decode_options :: "document \<Rightarrow> request_options option option" where
  "decode_options m =
     (case gm_get m ''options'' of
        None \<Rightarrow> Some None
      | Some JNull \<Rightarrow> Some None
      | Some (JObj q) \<Rightarrow>
          (case (those (map (read_text q) [''strategy'', ''consistency'', ''dstype'']),
                 those (map (read_int q) [''time_budget_ms'', ''quorum_n'', ''min_rows'', ''stale_ok_ttl_ms'', ''max_peers'']),
                 those (map (read_flag q) [''include_local'', ''annotate_source'', ''force_remote''])) of
             (Some [st, co, ds], Some [t, n, mr, stale, mp], Some [il, an, fr]) \<Rightarrow>
               Some (Some \<lparr>qo_Strategy = st, qo_Consistency = co, qo_TimeBudgetMs = t, qo_QuorumN = n, qo_MinRows = mr,
                           qo_MaxPeers = mp, qo_IncludeLocal = il, qo_AnnotateSource = an, qo_ForceRemote = fr, qo_DSType = ds\<rparr>)
           | _ \<Rightarrow> None)
      | _ \<Rightarrow> None)"

text \<open>The decoded request with the argument count of its method and the text of its file.\<close>

definition HTTPRequest :: "json option \<Rightarrow> (request \<times> int \<times> string) option" where
  "HTTPRequest b =
     (case decode_struct b of
        None \<Rightarrow> None
      | Some m \<Rightarrow>
          (case decode_struct (case gm_get m ''method'' of None \<Rightarrow> Some JNull | v \<Rightarrow> v) of
             None \<Rightarrow> None
           | Some me \<Rightarrow>
               (case (read_text me ''cmd'', read_int me ''argcnt'', read_list text_item m ''args'',
                      those (map (read_text m) [''file'', ''dstype'', ''sqldml'']),
                      those (map (read_list object_item m) [''criteria'', ''UpdateData'', ''graph_Traversal'']), decode_options m) of
                  (Some cmd, Some n, Some args, Some [file_text, ds, sql], Some [crit, upd, graph], Some opts) \<Rightarrow>
                    Some (\<lparr>rq_Cmd = cmd, rq_Args = args, rq_DSType = ds, rq_SQLDML = sql, rq_UpdateData = upd,
                           rq_Criteria = crit, rq_Options = opts, rq_RawOK = True\<rparr>, n, file_text)
                | _ \<Rightarrow> None)))"

text \<open>The status of an error is encoded as the function \<open>http.Error\<close>, which has no JSON form: the encoder
  fails and nothing is written.\<close>

definition sendErrorResponse :: "nat \<Rightarrow> string \<Rightarrow> http_response" where
  "sendErrorResponse code msg = answer code Empty"

definition is_error_reply :: "reply \<Rightarrow> bool" where
  "is_error_reply res =
     (case res of
        RFailed \<Rightarrow> True
      | ROther (JObj m) \<Rightarrow> (case gm_get m ''error'' of None \<Rightarrow> False | Some v \<Rightarrow> v \<noteq> JNull)
      | _ \<Rightarrow> False)"

definition writeServiceResult :: "reply \<Rightarrow> http_response" where
  "writeServiceResult res = (if is_error_reply res then sendErrorResponse 400 ''Error processing request'' else answer 200 (Data res))"

text \<open>\<open>None\<close> when no response is ever sent.\<close>

definition serve :: "('d, 'v) surroundings \<Rightarrow> request \<Rightarrow> 'd service \<Rightarrow> (http_response \<times> 'd service) option" where
  "serve sv req st = map_option (\<lambda>(res, st'). (writeServiceResult res, st')) (handleRequest sv req st)"

definition commandHandler :: "(string \<Rightarrow> string option) \<Rightarrow> ('d, 'v) surroundings \<Rightarrow> http_request \<Rightarrow> 'd service
    \<Rightarrow> (http_response \<times> 'd service) option" where
  "commandHandler base64 sv r st =
     (if hr_Method r \<noteq> ''POST'' then Some (sendErrorResponse 405 ''Method not allowed'', st)
      else case HTTPRequest (hr_Body r) of
        None \<Rightarrow> Some (sendErrorResponse 400 ''Invalid JSON payload'', st)
      | Some (req, argcnt, file_text) \<Rightarrow>
          (if rq_Cmd req = ''post'' \<and> argcnt = 1 then
             (case base64 file_text of
                None \<Rightarrow> Some (sendErrorResponse 400 ''Error decoding Base64'', st)
              | Some upl \<Rightarrow> serve sv (req\<lparr>rq_Args := rq_Args req @ [upl]\<rparr>) st)
           else serve sv req st))"

section \<open>One document\<close>

text \<open>\<open>node_doc_raw\<close>: \<open>None\<close> when the raw path does not apply, else the document if there is one.\<close>

definition node_doc_raw :: "('d, 'v) surroundings \<Rightarrow> string \<Rightarrow> string \<Rightarrow> kb \<Rightarrow> string option option \<times> kb" where
  "node_doc_raw sv dstype i kb =
     (case raw_answer sv dstype [[(''_id'', JStr i)]] kb of
        (None, kb') \<Rightarrow> (None, kb')
      | (Some [], kb') \<Rightarrow> (Some None, kb')
      | (Some (d # ds), kb') \<Rightarrow> (Some (Some d), kb'))"

definition doc_request :: "string \<Rightarrow> string \<Rightarrow> string \<Rightarrow> request" where
  "doc_request dstype strategy i =
     \<lparr>rq_Cmd = ''query'', rq_Args = [], rq_DSType = dstype, rq_SQLDML = '''', rq_UpdateData = [],
      rq_Criteria = [[(''_id'', JStr i)]],
      rq_Options = Some \<lparr>qo_Strategy = strategy, qo_Consistency = '''', qo_TimeBudgetMs = 0, qo_QuorumN = 0, qo_MinRows = 0,
        qo_MaxPeers = 0, qo_IncludeLocal = True, qo_AnnotateSource = False, qo_ForceRemote = False, qo_DSType = dstype\<rparr>,
      rq_RawOK = True\<rparr>"

definition trim_prefix :: "string \<Rightarrow> string \<Rightarrow> string" where
  "trim_prefix s p = (if has_prefix s p then drop (length p) s else s)"

definition docHandler :: "('d, 'v) surroundings \<Rightarrow> string \<Rightarrow> http_request \<Rightarrow> 'd service
    \<Rightarrow> (http_response \<times> 'd service) option" where
  "docHandler sv mount r st =
     (let i = trim_prefix (hr_Path r) mount;
          dstype = form_value (hr_Query r) ''dstype'';
          given = form_value (hr_Query r) ''strategy'';
          strategy = (if given = '''' then LOCAL_THEN_REMOTE_MERGE else given);
          (doc, kb1) = (if strategy = LOCAL_ONLY \<or> strategy = LOCAL_THEN_REMOTE_MERGE
                        then node_doc_raw sv dstype i (stores (node st)) else (None, stores (node st)));
          st1 = st\<lparr>node := (node st)\<lparr>stores := kb1\<rparr>\<rparr>
      in if hr_Method r \<noteq> ''GET'' then Some (sendErrorResponse 405 ''Method not allowed'', st)
         else if i = '''' then Some (sendErrorResponse 400 ''missing document id'', st)
         else case doc of
           Some (Some d) \<Rightarrow> Some (answer 200 (Data (RRaw [d])), st1)
         | Some None \<Rightarrow>
             if strategy = LOCAL_ONLY then Some (answer 200 (Data (RRaw [])), st1)
             else serve sv (doc_request dstype strategy i) st1
         | None \<Rightarrow> serve sv (doc_request dstype strategy i) st1)"

end
