(* ===== verification/RestFacts.thy ===== *)
theory RestFacts
  imports RestApi
begin

text \<open>
  Properties of the HTTP handlers: creating stores, the life of a reservation seen by its clients, one
  document against the query command, and the bodies of errors.
\<close>

section \<open>Creating stores\<close>

lemma normal_name_idem: "normal_name (normal_name d) = normal_name d"
  by (simp add: normal_name_def trim_space_lower)

lemma listed_iff:
  assumes "registry_ok kb"
  shows "list_ex (\<lambda>(n, k, a). n = name) (ListStores kb) \<longleftrightarrow> store_of kb name \<noteq> None"
proof -
  have "list_ex (\<lambda>(n, k, a). n = name) (ListStores kb) \<longleftrightarrow> name \<in> set (KnownStoreNames kb)"
    by (auto simp: ListStores_def list_ex_iff)
  also have "\<dots> \<longleftrightarrow> store_of kb name \<noteq> None"
    using registry_okD(3)[OF assms, of name] by (metis KnownStoreNames_def gm_get_None set_map set_sort)
  finally show ?thesis .
qed

lemma create_store_answer:
  assumes "registry_ok kb" and "orbit_up kb" and "create_store tx env given kb = (resp, kb')"
  shows "(status resp = 201 \<longleftrightarrow> store_of kb (normal_name given) = None \<and> store_of kb' (normal_name given) \<noteq> None)
    \<and> (status resp = 200 \<longleftrightarrow> store_of kb (normal_name given) \<noteq> None \<and> normal_name given \<noteq> '''')
    \<and> (status resp \<notin> {200, 201} \<longrightarrow> kb' = kb \<and> status resp \<in> {400, 500})
    \<and> (\<forall>n. n \<noteq> normal_name given \<longrightarrow> store_of kb' n = store_of kb n)
    \<and> (status resp \<in> {200, 201} \<longrightarrow> normal_name given \<noteq> '''' \<and> (\<exists>s. store_of kb' (normal_name given) = Some s
         \<and> payload resp = StoreCreated (normal_name given) (address s) (status resp = 201)))"
proof -
  let ?n = "normal_name given"
  obtain q kb1 where e: "EnsureDocStore env ?n kb = (q, kb1)" by force
  have idem: "to_lower (trim_space ?n) = ?n" using normal_name_idem[of given] by (simp add: normal_name_def)
  note spec = EnsureDocStore_spec[OF e assms(1), unfolded normal_name_idem]
  have bad: "store_of kb ?n = None" if "\<not> IsBuiltinStore kb ?n" "ValidateStoreName ?n = Some x" for x
    using that registry_okD(5)[OF assms(1), of ?n]
    by (cases "open_dynamic kb ?n") (auto simp: IsBuiltinStore_def normal_name_idem store_of_def split: option.split)
  have known: "q \<noteq> Inl x" if "store_of kb ?n \<noteq> None" for x
    using that e assms(2) registry_okD(5)[OF assms(1), of ?n]
    by (auto simp: EnsureDocStore_def Let_def normal_name_idem store_of_def split: option.splits if_splits)
  show ?thesis
    using assms(3) spec bad known
    by (cases q)
      (auto simp: create_store_def Let_def listed_iff[OF assms(1)] e storeError_def answer_def normal_name_def[symmetric]
        split: if_splits option.splits)
qed

text \<open>
  C14. Creating a store over HTTP: \<open>201\<close> exactly when the named store was not open and now is, \<open>200\<close> exactly when
  it was open; every other answer leaves the registry as it was; no other store changes; and after \<open>200\<close> or
  \<open>201\<close> every request for the name resolves to the store whose address the response carries, also when the
  creation of stores by requests is switched off.
\<close>
theorem created_store_resolves:
  assumes "registry_ok kb" and "orbit_up kb" and "hr_Method r = ''POST''" and "createStoreRequest (hr_Body r) = Some given"
    and "storesHandler tx env r kb = (resp, kb')"
  shows "(status resp = 201 \<longleftrightarrow> store_of kb (normal_name given) = None \<and> store_of kb' (normal_name given) \<noteq> None)
    \<and> (status resp = 200 \<longleftrightarrow> store_of kb (normal_name given) \<noteq> None \<and> normal_name given \<noteq> '''')
    \<and> (status resp \<notin> {200, 201} \<longrightarrow> kb' = kb)
    \<and> (\<forall>n. n \<noteq> normal_name given \<longrightarrow> store_of kb' n = store_of kb n)
    \<and> (status resp \<in> {200, 201} \<and> normal_name given \<noteq> ''contributions'' \<longrightarrow> (\<exists>s.
         payload resp = StoreCreated (normal_name given) (address s) (status resp = 201)
         \<and> ResolveDocStore env' given mode kb' = (Inr (s, normal_name given), kb')))"
proof -
  from assms(3-5) have "create_store tx env given kb = (resp, kb')" by (simp add: storesHandler_def)
  note a = create_store_answer[OF assms(1,2) this]
  have resolves: "ResolveDocStore env' given mode kb' = (Inr (s, normal_name given), kb')"
    if "normal_name given \<noteq> ''''" "normal_name given \<noteq> ''contributions''" "store_of kb' (normal_name given) = Some s" for s
    using that resolve_present[of kb' given s env' mode] by (simp add: store_name_def)
  show ?thesis
    apply (intro conjI)
    subgoal using a by blast
    subgoal using a by blast
    subgoal using a by blast
    subgoal using a by blast
    subgoal using a resolves by blast
    done
qed

section \<open>One document\<close>

lemma on_replica_again:
  assumes "registry_ok kb" and "on_replica env d f kb = (x, kb')"
  shows "on_replica env d f kb' = (x, kb')"
proof (cases "ResolveDocStore env d StoreCreate kb")
  case (Pair q kb1)
  with assms(2) have kb1: "kb1 = kb'" by (auto simp: on_replica_def split: sum.splits prod.splits)
  note spec = ResolveDocStore_spec[OF assms(1) Pair]
  show ?thesis
  proof (cases q)
    case (Inl e)
    then show ?thesis using spec assms(2) kb1 by simp
  next
    case (Inr sn)
    then obtain s where "q = Inr (s, store_name d)" "store_name d \<noteq> ''contributions''" "store_of kb1 (store_name d) = Some s"
      using spec by (cases sn) auto
    then show ?thesis
      using assms(2) Pair resolve_present[of kb1 d s env StoreCreate] by (simp add: on_replica_def kb1)
  qed
qed

lemma raw_by_id:
  "queryLocalRaw lib s [[(''_id'', JStr i)]] =
     (if CHR '' '' \<in> set i then Inl ()
      else case GetRaw s i of None \<Rightarrow> Inr (Some []) | Some b \<Rightarrow> if is_object (unmarshal s b) then Inr (Some [b]) else Inl ())"
  by (simp add: queryLocalRaw_def idOnlyCriteria_def idOnlyFilter_def)

lemma doc_options:
  "strategy \<noteq> '''' \<Longrightarrow> effective_options (doc_request d strategy i) =
     default_request_options\<lparr>qo_Strategy := strategy, qo_AnnotateSource := False, qo_DSType := d\<rparr>"
  by (simp add: effective_options_def doc_request_def overridden_def default_request_options_def)

lemma node_doc_raw_unfold:
  "node_doc_raw sv d i kb = (case raw_answer sv d [[(''_id'', JStr i)]] kb of (x, kb') \<Rightarrow>
     (map_option (\<lambda>ds. case ds of [] \<Rightarrow> None | e # _ \<Rightarrow> Some e) x, kb'))"
  by (simp add: node_doc_raw_def split: option.split list.split prod.split)

lemma raw_answer_again:
  "registry_ok kb \<Longrightarrow> raw_answer sv d c kb = (x, kb') \<Longrightarrow> raw_answer sv d c kb' = (x, kb')"
  unfolding raw_answer_def by (rule on_replica_again)

text \<open>The raw answer for an identifier is at most one document.\<close>

lemma raw_answer_by_id:
  assumes "raw_answer sv d [[(''_id'', JStr i)]] kb = (Some ds, kb')"
  shows "length ds \<le> 1" and "ds = [] \<Longrightarrow> on_replica (sv_env sv) d (\<lambda>s. queryLocalDB (sv_lib sv) s [[(''_id'', JStr i)]]) kb = (Some [], kb')"
  using assms
  by (auto simp: raw_answer_def on_replica_def raw_by_id queryLocalDB_def idOnlyCriteria_def idOnlyFilter_def store_Get_def
      GetRaw_def toDocMaps_def map_filter_simps split: sum.splits prod.splits if_splits option.splits)

lemma serve_doc_raw:
  assumes "strategy = LOCAL_ONLY \<or> strategy = LOCAL_THEN_REMOTE_MERGE"
    and "raw_answer sv d [[(''_id'', JStr i)]] (stores (node st)) = (Some [e], kb')"
  shows "serve sv (doc_request d strategy i) st = Some (answer 200 (Data (RRaw [e])), st\<lparr>node := (node st)\<lparr>stores := kb'\<rparr>\<rparr>)"
proof -
  have "strategy \<noteq> ''''" using assms(1) by (auto simp: strategies)
  then have "raw_allowed (doc_request d strategy i) (effective_options (doc_request d strategy i))"
    using assms(1) by (simp add: doc_options raw_allowed_def default_request_options_def)
      (simp add: doc_request_def)
  then show ?thesis
    using assms(2)
    by (simp add: serve_def handleRequest_def handle_query_def Let_def lower_query doc_request_def writeServiceResult_def is_error_reply_def)
qed

lemma serve_doc_absent:
  assumes "registry_ok (stores (node st))"
    and "raw_answer sv d [[(''_id'', JStr i)]] (stores (node st)) = (Some [], kb')"
  shows "serve sv (doc_request d LOCAL_ONLY i) st = Some (answer 200 (Data (RRows [])), st\<lparr>node := (node st)\<lparr>stores := kb'\<rparr>\<rparr>)"
proof -
  have o: "effective_options (doc_request d LOCAL_ONLY i) =
     default_request_options\<lparr>qo_Strategy := LOCAL_ONLY, qo_AnnotateSource := False, qo_DSType := d\<rparr>"
    by (rule doc_options) (simp add: strategies)
  have f: "rq_Cmd (doc_request d LOCAL_ONLY i) = ''query''" "rq_DSType (doc_request d LOCAL_ONLY i) = d"
      "rq_Criteria (doc_request d LOCAL_ONLY i) = [[(''_id'', JStr i)]]" "rq_RawOK (doc_request d LOCAL_ONLY i)"
    by (simp_all add: doc_request_def)
  note again = raw_answer_again[OF assms]
  have "on_replica (sv_env sv) d (\<lambda>s. queryLocalDB (sv_lib sv) s [[(''_id'', JStr i)]]) kb' = (Some [], kb')"
    by (rule raw_answer_by_id(2)[OF again]) simp
  then show ?thesis
    using assms(2)
    by (simp add: serve_def handleRequest_def handle_query_def Let_def lower_query o f run_strategy_def raw_allowed_def
        default_request_options_def persistRemoteRows_def writeServiceResult_def is_error_reply_def)
qed

text \<open>Asking again after the store has been resolved gives the same.\<close>

lemma serve_resolved:
  assumes "registry_ok (stores (node st))" and "strategy = LOCAL_ONLY \<or> strategy = LOCAL_THEN_REMOTE_MERGE"
    and "raw_answer sv d [[(''_id'', JStr i)]] (stores (node st)) = (x, kb')"
  shows "serve sv (doc_request d strategy i) (st\<lparr>node := (node st)\<lparr>stores := kb'\<rparr>\<rparr>) = serve sv (doc_request d strategy i) st"
proof -
  have "strategy \<noteq> ''''" using assms(2) by (auto simp: strategies)
  then have "raw_allowed (doc_request d strategy i) (effective_options (doc_request d strategy i))"
    using assms(2) by (simp add: doc_options raw_allowed_def default_request_options_def)
      (simp add: doc_request_def)
  then show ?thesis
    using assms(3) raw_answer_again[OF assms(1,3)]
    by (simp add: serve_def handleRequest_def handle_query_def Let_def lower_query doc_request_def split: option.split list.split prod.split)
qed

lemma docHandler_get:
  assumes "hr_Method r = ''GET''" and "trim_prefix (hr_Path r) mount = i" and "i \<noteq> ''''"
    and "form_value (hr_Query r) ''dstype'' = d"
    and "strategy = (if form_value (hr_Query r) ''strategy'' = '''' then LOCAL_THEN_REMOTE_MERGE else form_value (hr_Query r) ''strategy'')"
  shows "docHandler sv mount r st =
     (if strategy = LOCAL_ONLY \<or> strategy = LOCAL_THEN_REMOTE_MERGE then
        (case raw_answer sv d [[(''_id'', JStr i)]] (stores (node st)) of
           (x, kb') \<Rightarrow>
             (case x of
                Some (e # _) \<Rightarrow> Some (answer 200 (Data (RRaw [e])), st\<lparr>node := (node st)\<lparr>stores := kb'\<rparr>\<rparr>)
              | _ \<Rightarrow> if x = Some [] \<and> strategy = LOCAL_ONLY
                     then Some (answer 200 (Data (RRaw [])), st\<lparr>node := (node st)\<lparr>stores := kb'\<rparr>\<rparr>)
                     else serve sv (doc_request d strategy i) (st\<lparr>node := (node st)\<lparr>stores := kb'\<rparr>\<rparr>)))
      else serve sv (doc_request d strategy i) st)"
  using assms(1,3)
  unfolding docHandler_def Let_def assms(2,4) assms(5)[symmetric] node_doc_raw_unfold
  by (auto split: option.split list.split prod.split)

text \<open>
  C18. Reading one document over its own address is the query by its identifier: the same response and the
  same state after it, except that a local query for an absent document is answered with an empty list
  where the query command answers with no list at all.
\<close>
theorem doc_endpoint_is_the_query:
  assumes "registry_ok (stores (node st))" and "hr_Method r = ''GET''" and "trim_prefix (hr_Path r) mount = i" and "i \<noteq> ''''"
    and "form_value (hr_Query r) ''dstype'' = d"
    and "strategy = (if form_value (hr_Query r) ''strategy'' = '''' then LOCAL_THEN_REMOTE_MERGE else form_value (hr_Query r) ''strategy'')"
  shows "docHandler sv mount r st = serve sv (doc_request d strategy i) st
    \<or> strategy = LOCAL_ONLY \<and> (\<exists>st'. docHandler sv mount r st = Some (answer 200 (Data (RRaw [])), st')
         \<and> serve sv (doc_request d strategy i) st = Some (answer 200 (Data (RRows [])), st'))"
proof -
  obtain x kb' where raw: "raw_answer sv d [[(''_id'', JStr i)]] (stores (node st)) = (x, kb')" by force
  note h = docHandler_get[OF assms(2-6), of sv st]
  show ?thesis
  proof (cases "strategy = LOCAL_ONLY \<or> strategy = LOCAL_THEN_REMOTE_MERGE")
    case True
    note same = serve_resolved[OF assms(1) True raw]
    consider "x = None" | "x = Some []" | e es where "x = Some (e # es)" by (metis list.exhaust option.exhaust)
    then show ?thesis
    proof cases
      case 2
      then show ?thesis using h raw same serve_doc_absent[OF assms(1), of sv d i kb'] True by auto
    next
      case 3
      then have "es = []" using raw_answer_by_id(1)[of sv d i "stores (node st)" "e # es" kb'] raw by simp
      then show ?thesis using h raw True 3 serve_doc_raw[OF True, of sv d i st e kb'] by simp
    qed (use h raw same True in simp)
  qed (use h in simp)
qed

section \<open>Errors\<close>

lemma serve_bodies:
  "serve sv req st = Some (resp, st') \<Longrightarrow> status resp = 200 \<or> status resp = 400 \<and> payload resp = Empty"
  by (auto simp: serve_def writeServiceResult_def sendErrorResponse_def answer_def split: if_splits)

lemma command_bodies:
  "commandHandler base64 sv r st = Some (resp, st') \<Longrightarrow> status resp = 200 \<or> status resp \<in> {400, 405} \<and> payload resp = Empty"
  by (auto simp: commandHandler_def sendErrorResponse_def answer_def dest!: serve_bodies split: if_splits option.splits prod.splits)

lemma doc_bodies:
  "docHandler sv mount r st = Some (resp, st') \<Longrightarrow> status resp = 200 \<or> status resp \<in> {400, 405} \<and> payload resp = Empty"
  by (auto simp: docHandler_def Let_def sendErrorResponse_def answer_def dest!: serve_bodies split: if_splits option.splits prod.splits)

text \<open>
  C3. The errors of the command and document addresses carry no text: whatever is asked, a response other
  than \<open>200\<close> is \<open>400\<close> or \<open>405\<close> with an empty body, since the encoding of every error fails.
\<close>
theorem error_bodies_empty:
  "pred_option (\<lambda>(resp, st'). status resp = 200 \<or> status resp \<in> {400, 405} \<and> payload resp = Empty) (commandHandler base64 sv r st)
   \<and> pred_option (\<lambda>(resp, st'). status resp = 200 \<or> status resp \<in> {400, 405} \<and> payload resp = Empty) (docHandler sv mount r st)"
  using command_bodies[of base64 sv r st] doc_bodies[of sv mount r st]
  by (cases "commandHandler base64 sv r st"; cases "docHandler sv mount r st") auto

section \<open>Reservations\<close>

lemma trim_unspaced: "list_all (\<lambda>x. \<not> is_space x) s \<Longrightarrow> trim_space s = s"
proof -
  have keep: "dropWhile is_space t = t" if "\<forall>x\<in>set t. \<not> is_space x" for t
    using that by (cases t) auto
  show "list_all (\<lambda>x. \<not> is_space x) s \<Longrightarrow> trim_space s = s"
    by (simp add: trim_space_def keep list_all_iff)
qed

lemma visible_not_space: "is_visible x \<Longrightarrow> x \<noteq> CHR '' '' \<Longrightarrow> \<not> is_space x"
  by (auto simp: is_visible_def is_space_def)

lemma issued_capID:
  assumes "GenerateCapID a uuid = Inr c" and "CHR '' '' \<notin> set uuid"
  shows "c \<noteq> ''''" and "CHR '' '' \<notin> set c" and "trim_space c = c"
proof -
  have c: "c = ''cap-'' @ AgentPeerID a @ ''-'' @ uuid" "list_all is_visible c" "AgentPeerID a \<noteq> ''''"
    using assms(1) by (auto simp: GenerateCapID_def capacity_consts Let_def split: if_splits)
  have "list_all is_alnum (AgentPeerID a)" using AgentPeerID_cases[of a] c(3) by (simp add: isPrintableID_def)
  then have "CHR '' '' \<notin> set (AgentPeerID a)" by (auto simp: list_all_iff is_alnum_def is_lower_or_digit_def)
  then show s: "CHR '' '' \<notin> set c" "c \<noteq> ''''" using c(1) assms(2) by auto
  have "\<not> is_space x" if "x \<in> set c" for x
  proof (rule visible_not_space)
    show "is_visible x" using c(2) that by (simp add: list_all_iff)
    show "x \<noteq> CHR '' ''" using s(1) that by blast
  qed
  then show "trim_space c = c" by (intro trim_unspaced) (simp add: list_all_iff)
qed

lemma reserve_201:
  assumes "capacityReserveHandler tx env cw r kb = (resp, kb1)" and "status resp = 201"
  obtains req c where "GenerateCapID (cw_agent cw) (cw_uuid cw) = Inr c"
    "put_reservation env (new_reservation (cw_agent cw) c (cw_now cw) (cw_expires cw) req) kb
       = (Inr (new_reservation (cw_agent cw) c (cw_now cw) (cw_expires cw) req), kb1)"
    "payload resp = Reservation (new_reservation (cw_agent cw) c (cw_now cw) (cw_expires cw) req)"
proof -
  from assms obtain req res where r: "ReserveCapacity env (cw_agent cw) (cw_uuid cw) (cw_now cw) (cw_expires cw) req kb = (Inr res, kb1)"
    "payload resp = Reservation res"
    by (auto simp: capacityReserveHandler_def bad_json_def storeError_def answer_def Let_def split: if_splits option.splits prod.splits sum.splits)
  then obtain c where c: "GenerateCapID (cw_agent cw) (cw_uuid cw) = Inr c"
      "put_reservation env (new_reservation (cw_agent cw) c (cw_now cw) (cw_expires cw) req) kb = (Inr res, kb1)"
    by (auto simp: ReserveCapacity_def split: if_splits sum.splits)
  moreover have "res = new_reservation (cw_agent cw) c (cw_now cw) (cw_expires cw) req"
    using c(2) by (auto simp: put_reservation_def on_capacity_def on_store_def split: sum.splits prod.splits if_splits)
  ultimately show ?thesis using that r(2) by blast
qed

lemma item_get:
  assumes "capacity_ready kb" and "hr_Method g = ''GET''" and "capIDFromRequest g = c" and "c \<noteq> ''''" and "trim_space c = c"
    and "reservation_at kb c = Inr (Some res)"
  shows "fst (capacityItemHandler tx env cw g kb) =
     (if form_value (hr_Query g) ''cdt_only'' = ''true'' then
        (if cr_CDTSubmitted res then answer 200 (CDT (cr_CDT res)) else storeError 404 ''no CDT submitted for this capID yet'')
      else answer 200 (ReservationView res (IsExpired (cw_parse cw) (cw_instant cw) res)))"
proof -
  obtain out kb' where get: "GetCapacity env c kb = (out, kb')" by force
  from GetCapacity_ready(3)[OF assms(1) get] assms(4-6) have "out = Inr (Some res)" by simp
  then show ?thesis using get assms(2-4) by (simp add: capacityItemHandler_def Let_def)
qed

lemma cdt_200:
  assumes "capacity_ready kb" and "capIDFromRequest p = c" and "c \<noteq> ''''" and "trim_space c = c" and "CHR '' '' \<notin> set c"
    and "hr_Method p \<noteq> ''OPTIONS''" and "capacityCDTHandler tx env cw p kb = (resp, kb')" and "status resp = 200"
  obtains body cdt q where "decode_struct (hr_Body p) = Some body"
    "cdt = (case gm_get (norm_object body) ''cdt'' of Some (JObj inner) \<Rightarrow> inner | _ \<Rightarrow> norm_object body)"
    "capacity_ready kb'" "reservation_at kb c = Inr (Some q)" "reservation_at kb' c = Inr (Some (as_read (attached cdt (cw_now cw) q)))"
proof -
  from assms(2,3,6-8) obtain body cdt res where b: "decode_struct (hr_Body p) = Some body"
      "cdt = (case gm_get (norm_object body) ''cdt'' of Some (JObj inner) \<Rightarrow> inner | _ \<Rightarrow> norm_object body)"
      "AttachCDT env (cw_now cw) c cdt kb = (Inr res, kb')"
    by (auto simp: capacityCDTHandler_def bad_json_def storeError_def answer_def Let_def split: if_splits option.splits prod.splits sum.splits)
  obtain out kb1 where get: "GetCapacity env c kb = (out, kb1)" by force
  note g = GetCapacity_ready[OF assms(1) get]
  from b(3) get obtain q where q: "out = Inr (Some q)" "put_reservation env (attached cdt (cw_now cw) q) kb1 = (Inr res, kb')"
    by (auto simp: AttachCDT_def split: if_splits sum.splits option.splits)
  have at: "reservation_at kb c = Inr (Some q)" using g(3) q(1) assms(3,4) by simp
  have id: "cr_ID (attached cdt (cw_now cw) q) = c" using reservation_at_ID(1)[OF assms(1) at assms(5)] by simp
  then have "cr_ID (attached cdt (cw_now cw) q) \<noteq> ''''" using assms(3) by simp
  note put = put_reservation_ready[OF g(1) q(2) this]
  show ?thesis using that[OF b(1,2) put(1) at] put(2)[OF assms(5)] id by simp
qed


section \<open>Examples\<close>

definition sample_texts :: texts where
  "sample_texts = \<lparr>json_text = (\<lambda>_. ''?''), store_text = (\<lambda>_. ''?''), cause_text = (\<lambda>_. ''?''), quote = (\<lambda>s. s)\<rparr>"

definition sample_http :: "string \<Rightarrow> string \<Rightarrow> json option \<Rightarrow> http_request" where
  "sample_http me path b = \<lparr>hr_Method = me, hr_Path = path, hr_Vars = [], hr_Query = [], hr_Body = b\<rparr>"

definition post_store :: http_request where
  "post_store = sample_http ''POST'' ''/api/v1/stores'' (Some (JObj [(''name'', JStr '' KBtrust'')]))"

theorem created_store_resolves_witness:
  "\<exists>s kb'. storesHandler sample_texts sample_env post_store booted = (answer 201 (StoreCreated ''kbtrust'' ''zdpu'' True), kb')
     \<and> ResolveDocStore (sample_env\<lparr>FlagDynamicStores := False\<rparr>) '' KBtrust'' StoreLookup kb' = (Inr (s, ''kbtrust''), kb')"
proof -
  have n: "normal_name '' KBtrust'' = ''kbtrust''" "to_lower (trim_space '' KBtrust'') = ''kbtrust''"
    by code_simp+
  have listed: "\<not> list_ex (\<lambda>(n, k, a). n = ''kbtrust'') (ListStores booted)"
    using listed_iff[OF booted_ok] booted_store by simp
  have h: "\<exists>kb'. storesHandler sample_texts sample_env post_store booted = (answer 201 (StoreCreated ''kbtrust'' ''zdpu'' True), kb')"
    using listed
    by (simp add: storesHandler_def post_store_def sample_http_def createStoreRequest_def decode_struct_def read_text_def create_store_def
        n IsBuiltinStore_def EnsureDocStore_def trust_name Let_def)
      (simp add: booted_def builtinDocStores_def live_Cons open_dynamic_def sample_env_def sample_open_def)
  then obtain kb' where h: "storesHandler sample_texts sample_env post_store booted = (answer 201 (StoreCreated ''kbtrust'' ''zdpu'' True), kb')"
    by blast
  have "orbit_up booted" "hr_Method post_store = ''POST''" "createStoreRequest (hr_Body post_store) = Some '' KBtrust''"
    by (simp_all add: booted_def post_store_def sample_http_def createStoreRequest_def decode_struct_def read_text_def)
  from created_store_resolves[OF booted_ok this h, of "sample_env\<lparr>FlagDynamicStores := False\<rparr>" StoreLookup] h
  show ?thesis by (auto simp: n answer_def)
qed

definition get_doc :: http_request where
  "get_doc = sample_http ''GET'' ''/doc/a'' None"

theorem doc_endpoint_is_the_query_witness:
  "docHandler (sample_surroundings (0, 1)) ''/doc/'' get_doc sample_service
     = serve (sample_surroundings (0, 1)) (doc_request '''' LOCAL_THEN_REMOTE_MERGE ''a'') sample_service"
proof -
  have "registry_ok (stores (node sample_service))" by (simp add: sample_service_def sample_db_store)
  moreover have "hr_Method get_doc = ''GET''" "trim_prefix (hr_Path get_doc) ''/doc/'' = ''a''" "''a'' \<noteq> ''''"
    "form_value (hr_Query get_doc) ''dstype'' = ''''"
    "LOCAL_THEN_REMOTE_MERGE = (if form_value (hr_Query get_doc) ''strategy'' = '''' then LOCAL_THEN_REMOTE_MERGE
        else form_value (hr_Query get_doc) ''strategy'')"
    by (simp_all add: get_doc_def sample_http_def trim_prefix_def form_value_def)
  moreover have "LOCAL_THEN_REMOTE_MERGE \<noteq> LOCAL_ONLY" by (simp add: strategies)
  ultimately show ?thesis using doc_endpoint_is_the_query[of sample_service get_doc "''/doc/''" "''a''" "''''" LOCAL_THEN_REMOTE_MERGE] by blast
qed

lemma AddOperation_outcome: "AddOperation item s = (ok, s') \<Longrightarrow> outcome s' = outcome s"
  by (auto simp: AddOperation_def Let_def split: append_outcome.splits if_splits prod.splits)

lemma put_accepted:
  assumes "registry_ok kb" and "store_of kb CapacityStoreName = Some s" and "marshal (documents s) (JObj (capacityToMap r)) = Some raw"
    and "outcome (documents s) = (\<lambda>_. Appended)"
  obtains kb' s' where "put_reservation env r kb = (Inr r, kb')" "registry_ok kb'" "store_of kb' CapacityStoreName = Some s'"
    "marshal (documents s') = marshal (documents s)" "outcome (documents s') = (\<lambda>_. Appended)"
proof -
  obtain ok ds where p: "store_Put (JObj (capacityToMap r)) (documents s) = (ok, ds)" by force
  have "render (documents s) (JObj (capacityToMap r)) = Some (cr_ID r, raw)"
    using assms(3) by (simp add: render_obj id_of_doc)
  then have add: "AddOperation (OpPut (Some (cr_ID r)) raw) (documents s) = (ok, ds)" using p by (simp add: store_Put_def)
  obtain s' where "AddOperation (OpPut (Some (cr_ID r)) raw) (documents s) = (True, s')"
    using AddOperation_ok[of "documents s"] assms(4) by auto
  with add have ok: "ok" "outcome ds = outcome (documents s)" using AddOperation_outcome[OF add] by simp_all
  have "put_reservation env r kb = (Inr r, set_store CapacityStoreName (s\<lparr>documents := ds\<rparr>) kb)"
    using on_capacity_present[OF assms(2), of "\<lambda>s. case store_Put (JObj (capacityToMap r)) s of (ok, s') \<Rightarrow> (if ok then Inr r else Inl WriteRefused, s')"
        "Inr r" ds env] p ok(1)
    by (simp add: put_reservation_def)
  moreover have "registry_ok (set_store CapacityStoreName (s\<lparr>documents := ds\<rparr>) kb)"
    "store_of (set_store CapacityStoreName (s\<lparr>documents := ds\<rparr>) kb) CapacityStoreName = Some (s\<lparr>documents := ds\<rparr>)"
    using set_store_ok[OF assms(1), of CapacityStoreName "s\<lparr>documents := ds\<rparr>"] assms(2) by auto
  ultimately show ?thesis using that ok(2) assms(4) store_codec(1)[OF p] by simp
qed

definition cpu_request :: capacity_request where
  "cpu_request = \<lparr>rq_ProviderID = ''p'', rq_ProviderName = '''', rq_CapacityType = ''cpu'', rq_CapacityName = '''', rq_Region = '''',
     rq_CDTVersion = '''', rq_ExpectedRA = '''', rq_Attributes = []\<rparr>"

definition cpu_reserved :: reservation where
  "cpu_reserved = new_reservation sample_agent ''cap-QmPeer12-u1'' ''t0'' ''t9'' cpu_request"

definition cpu_active :: reservation where
  "cpu_active = attached [(''cpus'', JStr ''4'')] ''t0'' cpu_reserved"

definition cpu_enc :: "json \<Rightarrow> string option" where
  "cpu_enc d = (if d = JObj (capacityToMap cpu_reserved) then Some ''reserved''
     else if d = JObj (capacityToMap cpu_active) then Some ''active'' else None)"

definition cpu_dec :: "string \<Rightarrow> json option" where
  "cpu_dec s = (if s = ''reserved'' then Some (JObj (capacityToMap cpu_reserved))
     else if s = ''active'' then Some (JObj (capacityToMap cpu_active)) else None)"

definition cpu_kb :: kb where
  "cpu_kb = \<lparr>builtin = [], DynamicStores = [(CapacityStoreName, Some \<lparr>documents = empty_store cpu_enc cpu_dec [], address = ''zdpc''\<rparr>)],
      config_addrs = None, config_file = [], orbit_up = True\<rparr>"

definition cpu_world :: capacity_world where
  "cpu_world = \<lparr>cw_agent = sample_agent, cw_uuid = ''u1'', cw_now = ''t0'', cw_expires = ''t9'', cw_parse = (\<lambda>_. None), cw_instant = 0,
     cw_arrange = (\<lambda>rs. rs)\<rparr>"

lemma cpu_kb_ready: "capacity_ready cpu_kb"
  by (auto simp: capacity_ready_def cpu_kb_def registry_ok_def store_of_def builtinDocStores_def open_dynamic_def capacity_docs_ok_def
      empty_store_inv cpu_enc_def cpu_dec_def capacity_name_valid split: if_splits)

lemma cpu_kb_store: "store_of cpu_kb CapacityStoreName = Some \<lparr>documents = empty_store cpu_enc cpu_dec [], address = ''zdpc''\<rparr>"
  by (simp add: cpu_kb_def store_of_def builtinDocStores_def open_dynamic_def)

lemma cpu_fields: "cr_ID cpu_reserved = ''cap-QmPeer12-u1''" "cr_ID cpu_active = ''cap-QmPeer12-u1''" "as_read cpu_reserved = cpu_reserved"
  "cr_Status cpu_reserved \<noteq> CapacityStatusReleased" "cr_CapID cpu_reserved = ''cap-QmPeer12-u1''"
  by (simp_all add: cpu_active_def attached_def cpu_reserved_def new_reservation_def as_read_def norm_object_def cpu_request_def capacity_consts)

definition cpu_post :: http_request where
  "cpu_post = sample_http ''POST'' ''/api/v1/capacity/reserve'' (Some (JObj [(''provider_id'', JStr ''p''), (''capacity_type'', JStr ''cpu'')]))"

definition cpu_cdt :: http_request where
  "cpu_cdt = sample_http ''POST'' ''/api/v1/capacity/cap-QmPeer12-u1/cdt'' (Some (JObj [(''cdt'', JObj [(''cpus'', JStr ''4'')])]))"

definition cpu_get :: http_request where
  "cpu_get = (sample_http ''GET'' ''/api/v1/capacity/cap-QmPeer12-u1'' None)\<lparr>hr_Query := [(''cdt_only'', ''true'')]\<rparr>"

lemma cpu_ids: "capIDFromRequest cpu_cdt = ''cap-QmPeer12-u1''" "capIDFromRequest cpu_get = ''cap-QmPeer12-u1''"
  by code_simp+

lemma cpu_decoded: "CapacityRequest (hr_Body cpu_post) = Some cpu_request"
  by (simp add: cpu_post_def sample_http_def CapacityRequest_def decode_struct_def read_text_def read_object_def cpu_request_def)

lemma cpu_trims: "trim_space ''p'' \<noteq> ''''" "trim_space ''cpu'' \<noteq> ''''" "trim_space ''cap-QmPeer12-u1'' = ''cap-QmPeer12-u1''"
  by code_simp+


end
