(* ===== verification/Exchange.thy ===== *)
theory Exchange
  imports RestApi
begin

text \<open>
  Export and import of the state of a node (\<open>backupfunc/exchange.go\<close>): the archive is the sequence of the
  entries of its tar stream, a manifest, a snapshot of the SQLite file and one file of JSON lines per
  document store.  \<open>encoding/json\<close>, SQLite, the file system and the order in which a Go map is traversed
  are arguments; writing the archive to the client is taken to succeed.
\<close>

section \<open>The archive\<close>

type_synonym entries = "(string \<times> string) list"

text \<open>What arrives: whether it is a gzip stream, its entries, and whether the tar stream ends properly.\<close>

record archive =
  gz_ok :: bool
  tar_entries :: entries
  tail_ok :: bool

record manifest =
  m_Version :: string
  m_CreatedAt :: string
  m_SourceNode :: string
  m_Stores :: "string list"
  m_HasSQLite :: bool

text \<open>\<open>encoding/json\<close>: the text of a value (\<open>None\<close> when it has none), the value of a text, the first value
  of a text; and the reading of a time.\<close>

record json_lib =
  json_marshal :: "json \<Rightarrow> string option"
  json_unmarshal :: "string \<Rightarrow> json option"
  json_first :: "string \<Rightarrow> json option"
  json_indent :: "json \<Rightarrow> string option"
  time_ok :: "string \<Rightarrow> bool"

definition manifest_json :: "manifest \<Rightarrow> json" where
  "manifest_json m = JObj [(''version'', JStr (m_Version m)), (''created_at'', JStr (m_CreatedAt m)),
     (''source_node'', JStr (m_SourceNode m)), (''stores'', JArr (map JStr (m_Stores m))), (''has_sqlite'', JBool (m_HasSQLite m))]"

definition read_time :: "json_lib \<Rightarrow> document \<Rightarrow> string \<Rightarrow> string option" where
  "read_time jl m k = (case gm_get m k of None \<Rightarrow> Some '''' | Some JNull \<Rightarrow> Some ''''
     | Some (JStr s) \<Rightarrow> if time_ok jl s then Some s else None | _ \<Rightarrow> None)"

definition decode_manifest :: "json_lib \<Rightarrow> json option \<Rightarrow> manifest option" where
  "decode_manifest jl v =
     (case decode_struct v of
        None \<Rightarrow> None
      | Some m \<Rightarrow>
          (case (read_text m ''version'', read_time jl m ''created_at'', read_text m ''source_node'',
                 read_list text_item m ''stores'', read_flag m ''has_sqlite'') of
             (Some v, Some t, Some n, Some ss, Some b) \<Rightarrow>
               Some \<lparr>m_Version = v, m_CreatedAt = t, m_SourceNode = n, m_Stores = ss, m_HasSQLite = b\<rparr>
           | _ \<Rightarrow> None))"

section \<open>SQLite\<close>

datatype db_handle = NoDB | OpenDB | ClosedDB

record sqlite_node =
  sq_DB :: db_handle
  sq_DBPath :: string
  sq_file :: string

text \<open>\<open>VACUUM INTO\<close> a temporary file, closing the handle, copying to the file of the database, and
  \<open>InitSQLite\<close>, which opens a file and changes it (migrations).\<close>

record sqlite_lib =
  vacuum :: "string \<Rightarrow> string option"
  close_ok :: bool
  copy_ok :: bool
  InitSQLite :: "string \<Rightarrow> string option"

definition vacuumIntoTemp :: "sqlite_lib \<Rightarrow> sqlite_node \<Rightarrow> string option" where
  "vacuumIntoTemp sl q = (if sq_DB q = NoDB then None else if sq_DB q = ClosedDB then None else vacuum sl (sq_file q))"

text \<open>\<open>copyFile\<close> writes a temporary file and renames it: the destination is replaced as a whole or not.\<close>

definition copyFile :: "sqlite_lib \<Rightarrow> string option \<Rightarrow> string \<Rightarrow> bool \<times> string" where
  "copyFile sl src dst = (case src of None \<Rightarrow> (False, dst) | Some b \<Rightarrow> if copy_ok sl then (True, b) else (False, dst))"

definition restoreSQLite :: "sqlite_lib \<Rightarrow> string option \<Rightarrow> sqlite_node \<Rightarrow> bool \<times> sqlite_node" where
  "restoreSQLite sl src q =
     (if sq_DB q = NoDB \<or> sq_DBPath q = '''' then (False, q)
      else if \<not> close_ok sl then (False, q)
      else case copyFile sl src (sq_file q) of
        (False, f) \<Rightarrow> (False, q\<lparr>sq_DB := ClosedDB, sq_file := f\<rparr>)
      | (True, f) \<Rightarrow>
          (case InitSQLite sl f of
             None \<Rightarrow> (False, q\<lparr>sq_DB := ClosedDB, sq_file := f\<rparr>)
           | Some f' \<Rightarrow> (True, q\<lparr>sq_DB := OpenDB, sq_file := f'\<rparr>)))"

section \<open>Export\<close>

definition queryAllDocs :: "docstore \<Rightarrow> json list option" where
  "queryAllDocs s = store_Query s (\<lambda>_. Some True)"

fun docsToJSONL :: "json_lib \<Rightarrow> json list \<Rightarrow> string option" where
  "docsToJSONL jl [] = Some ''''"
| "docsToJSONL jl (d # ds) =
     (case json_marshal jl d of
        None \<Rightarrow> None
      | Some b \<Rightarrow> map_option (\<lambda>rest. b @ CHR 0x0A # rest) (docsToJSONL jl ds))"

definition store_file :: "string \<Rightarrow> string" where
  "store_file name = ''orbitdb/'' @ name @ ''.jsonl''"

text \<open>The entries of the stores, and whether all could be written: the export stops at the first that cannot.\<close>

fun export_stores :: "json_lib \<Rightarrow> kb \<Rightarrow> string list \<Rightarrow> entries \<times> bool" where
  "export_stores jl kb [] = ([], True)"
| "export_stores jl kb (n # ns) =
     (case gm_get (AllDocStores kb) n of
        None \<Rightarrow> ([], False)
      | Some s \<Rightarrow>
          (case queryAllDocs (documents s) of
             None \<Rightarrow> ([], False)
           | Some docs \<Rightarrow>
               (case docsToJSONL jl docs of
                  None \<Rightarrow> ([], False)
                | Some buf \<Rightarrow> (case export_stores jl kb ns of (es, ok) \<Rightarrow> ((store_file n, buf) # es, ok)))))"

text \<open>\<open>Export\<close>: what is sent, and whether it succeeded; \<open>None\<close> when nothing is sent.  The closing of the tar
  and gzip writers is deferred: what is sent after an error is a well-formed archive too.\<close>

definition new_manifest :: "string \<Rightarrow> string \<Rightarrow> string list \<Rightarrow> manifest" where
  "new_manifest ts host names = \<lparr>m_Version = ''1'', m_CreatedAt = ts, m_SourceNode = host, m_Stores = names, m_HasSQLite = True\<rparr>"

definition Export ::
  "json_lib \<Rightarrow> sqlite_lib \<Rightarrow> (string list \<Rightarrow> string list) \<Rightarrow> string \<Rightarrow> string \<Rightarrow> kb \<Rightarrow> sqlite_node \<Rightarrow> archive option \<times> bool" where
  "Export jl sl arrange ts host kb q =
     (let names = arrange (map fst (AllDocStores kb))
      in case vacuumIntoTemp sl q of
           None \<Rightarrow> (None, False)
         | Some snapshot \<Rightarrow>
             (case json_indent jl (manifest_json (new_manifest ts host names)) of
                None \<Rightarrow> (Some \<lparr>gz_ok = True, tar_entries = [], tail_ok = True\<rparr>, False)
              | Some mb \<Rightarrow>
                  (case export_stores jl kb names of
                     (es, ok) \<Rightarrow>
                       (Some \<lparr>gz_ok = True, tar_entries = (''manifest.json'', mb) # (''sqlite/optimusdb.db'', snapshot) # es, tail_ok = True\<rparr>, ok))))"

section \<open>Extraction\<close>

text \<open>\<open>filepath.Clean\<close> on the elements of a path; \<open>acc\<close> holds the elements kept so far, the last one first.\<close>

fun clean_parts :: "bool \<Rightarrow> string list \<Rightarrow> string list \<Rightarrow> string list" where
  "clean_parts rooted acc [] = rev acc"
| "clean_parts rooted acc (p # ps) =
     (if p = '''' \<or> p = ''.'' then clean_parts rooted acc ps
      else if p = ''..'' then
        (case acc of
           a # as \<Rightarrow> if a \<noteq> ''..'' then clean_parts rooted as ps else clean_parts rooted (p # acc) ps
         | [] \<Rightarrow> if rooted then clean_parts rooted [] ps else clean_parts rooted [p] ps)
      else clean_parts rooted (p # acc) ps)"

definition slash :: char where "slash = CHR ''/''"

definition clean_path :: "string \<Rightarrow> string" where
  "clean_path name =
     (let rooted = has_prefix name [slash];
          body = join_with [slash] (clean_parts rooted [] (split_on slash name))
      in if rooted then slash # body else if body = '''' then ''.'' else body)"

text \<open>The path of an entry below the staging directory, as its elements; \<open>None\<close> when it is refused.\<close>

definition entry_target :: "string \<Rightarrow> string list option" where
  "entry_target name =
     (let clean = clean_path name
      in if has_prefix clean ''..'' \<or> contains_str clean ''/../'' then None
         else Some (filter (\<lambda>p. p \<noteq> '''' \<and> p \<noteq> ''.'') (split_on slash clean)))"

type_synonym staging = "string list \<Rightarrow> string option"

text \<open>\<open>creatable\<close>: the directories and the file can be made in the staging directory.\<close>

fun extract_entries :: "(string list \<Rightarrow> staging \<Rightarrow> bool) \<Rightarrow> entries \<Rightarrow> staging \<Rightarrow> staging option" where
  "extract_entries creatable [] fs = Some fs"
| "extract_entries creatable ((name, body) # es) fs =
     (case entry_target name of
        None \<Rightarrow> None
      | Some t \<Rightarrow> if creatable t fs then extract_entries creatable es (fs(t \<mapsto> body)) else None)"

definition extractTarGz :: "(string list \<Rightarrow> staging \<Rightarrow> bool) \<Rightarrow> archive \<Rightarrow> staging option" where
  "extractTarGz creatable a =
     (if \<not> gz_ok a then None
      else case extract_entries creatable (tar_entries a) (\<lambda>_. None) of
        None \<Rightarrow> None
      | Some fs \<Rightarrow> if tail_ok a then Some fs else None)"

definition readManifest :: "json_lib \<Rightarrow> staging \<Rightarrow> manifest option" where
  "readManifest jl fs =
     (case fs [''manifest.json''] of
        None \<Rightarrow> None
      | Some b \<Rightarrow> (case json_first jl b of None \<Rightarrow> None | Some v \<Rightarrow> decode_manifest jl (Some v)))"

section \<open>Import\<close>

text \<open>\<open>bufio.Scanner\<close> with a bound on lines: the lines before the first that is too long, and whether all
  were read.\<close>

definition max_line :: nat where "max_line = 32 * 1024 * 1024"

definition drop_cr :: "string \<Rightarrow> string" where
  "drop_cr l = (if l \<noteq> '''' \<and> last l = CHR 0x0D then butlast l else l)"

definition scan_lines :: "nat \<Rightarrow> string \<Rightarrow> string list \<times> bool" where
  "scan_lines limit b =
     (let parts = split_on (CHR 0x0A) b;
          ls = (if last parts = '''' then butlast parts else parts);
          fitting = takeWhile (\<lambda>l. length l < limit) ls
      in (map drop_cr fitting, length fitting = length ls))"

fun import_lines :: "json_lib \<Rightarrow> string list \<Rightarrow> nat \<Rightarrow> docstore \<Rightarrow> (nat \<times> bool) \<times> docstore" where
  "import_lines jl [] n s = ((n, True), s)"
| "import_lines jl (l # ls) n s =
     (if l = '''' then import_lines jl ls n s
      else case decode_struct (json_unmarshal jl l) of
        None \<Rightarrow> ((n, False), s)
      | Some obj \<Rightarrow>
          (case gm_get (norm_object obj) ''_id'' of
             Some (JStr i) \<Rightarrow>
               (if i = '''' then import_lines jl ls n s
                else case store_Put (JObj (norm_object obj)) s of
                  (False, s') \<Rightarrow> ((n, False), s')
                | (True, s') \<Rightarrow> import_lines jl ls (n + 1) s')
           | _ \<Rightarrow> import_lines jl ls n s))"

text \<open>The number of documents and whether there was no error; a file that is not there is empty.\<close>

definition importStoreJSONL :: "json_lib \<Rightarrow> string option \<Rightarrow> docstore \<Rightarrow> (nat \<times> bool) \<times> docstore" where
  "importStoreJSONL jl b s =
     (case b of
        None \<Rightarrow> ((0, True), s)
      | Some text \<Rightarrow>
          (case scan_lines max_line text of
             (ls, whole) \<Rightarrow> (case import_lines jl ls 0 s of ((n, ok), s') \<Rightarrow> ((n, ok \<and> whole), s'))))"

datatype import_error = CannotCreate string | ImportFailed string | SQLiteFailed

record import_report =
  rp_SQLiteRestored :: bool
  rp_Stores :: "(string, nat) gomap"
  rp_Errors :: "import_error list"

text \<open>One store of the manifest: the open store of that name, or the one created here.\<close>

definition import_store ::
  "json_lib \<Rightarrow> env \<Rightarrow> staging \<Rightarrow> string \<Rightarrow> import_report \<times> kb \<Rightarrow> import_report \<times> kb" where
  "import_store jl env fs name acc =
     (case acc of (rp, kb) \<Rightarrow>
        (case (case gm_get (AllDocStores kb) name of
                 Some s \<Rightarrow> (Inr (s, name), kb)
               | None \<Rightarrow> (case EnsureDocStore env name kb of
                   (Inl e, kb1) \<Rightarrow> (Inl e, kb1) | (Inr s, kb1) \<Rightarrow> (Inr (s, normal_name name), kb1))) of
           (Inl e, kb1) \<Rightarrow> (rp\<lparr>rp_Errors := rp_Errors rp @ [CannotCreate name]\<rparr>, kb1)
         | (Inr (s, local), kb1) \<Rightarrow>
             (case importStoreJSONL jl (fs [''orbitdb'', name @ ''.jsonl'']) (documents s) of
                ((n, ok), ds) \<Rightarrow>
                  (let kb2 = set_store local (s\<lparr>documents := ds\<rparr>) kb1
                   in if ok then (rp\<lparr>rp_Stores := gm_set name n (rp_Stores rp)\<rparr>, kb2)
                      else (rp\<lparr>rp_Errors := rp_Errors rp @ [ImportFailed name]\<rparr>, kb2)))))"

definition empty_report :: import_report where
  "empty_report = \<lparr>rp_SQLiteRestored = False, rp_Stores = [], rp_Errors = []\<rparr>"

text \<open>\<open>Import\<close>: \<open>None\<close> is an error before anything was applied.\<close>

definition Import ::
  "json_lib \<Rightarrow> sqlite_lib \<Rightarrow> env \<Rightarrow> (string list \<Rightarrow> staging \<Rightarrow> bool) \<Rightarrow> archive \<Rightarrow> kb \<Rightarrow> sqlite_node
   \<Rightarrow> import_report option \<times> kb \<times> sqlite_node" where
  "Import jl sl env creatable a kb q =
     (case extractTarGz creatable a of
        None \<Rightarrow> (None, kb, q)
      | Some fs \<Rightarrow>
          (case readManifest jl fs of
             None \<Rightarrow> (None, kb, q)
           | Some m \<Rightarrow>
               (if m_Version m \<noteq> ''1'' then (None, kb, q)
                else case fold (import_store jl env fs) (m_Stores m) (empty_report, kb) of
                  (rp, kb1) \<Rightarrow>
                    (if \<not> m_HasSQLite m then (Some rp, kb1, q)
                     else case restoreSQLite sl (fs [''sqlite'', ''optimusdb.db'']) q of
                       (True, q1) \<Rightarrow> (Some (rp\<lparr>rp_SQLiteRestored := True\<rparr>), kb1, q1)
                     | (False, q1) \<Rightarrow> (Some (rp\<lparr>rp_Errors := rp_Errors rp @ [SQLiteFailed]\<rparr>), kb1, q1)))))"

section \<open>Over HTTP\<close>

text \<open>The uploaded form: whether it parses, and its field \<open>archive\<close>.\<close>

definition HandleImport ::
  "json_lib \<Rightarrow> sqlite_lib \<Rightarrow> env \<Rightarrow> (string list \<Rightarrow> staging \<Rightarrow> bool) \<Rightarrow> bool \<Rightarrow> archive option \<Rightarrow> kb \<Rightarrow> sqlite_node
   \<Rightarrow> (nat \<times> import_report option) \<times> kb \<times> sqlite_node" where
  "HandleImport jl sl env creatable form_ok upload kb q =
     (if \<not> form_ok then ((400, None), kb, q)
      else case upload of
        None \<Rightarrow> ((400, None), kb, q)
      | Some a \<Rightarrow>
          (case Import jl sl env creatable a kb q of
             (None, kb1, q1) \<Rightarrow> ((500, None), kb1, q1)
           | (Some rp, kb1, q1) \<Rightarrow> ((200, Some rp), kb1, q1)))"

end
