(* ===== verification/ExchangeFacts.thy ===== *)
theory ExchangeFacts
  imports Exchange
begin

text \<open>
  Properties of export and import: nothing is extracted outside the staging directory, an archive imported
  on another node restores every store, and an export that failed half-way is taken for a complete one.
\<close>

section \<open>Extraction stays inside\<close>

text \<open>The elements kept by \<open>clean_parts\<close>: the parent directories only at the start of the path.\<close>

definition tidy :: "bool \<Rightarrow> string list \<Rightarrow> bool" where
  "tidy rooted acc \<longleftrightarrow> (\<exists>n rest. acc = rest @ replicate n ''..'' \<and> ''..'' \<notin> set rest \<and> '''' \<notin> set rest \<and> (rooted \<longrightarrow> n = 0))"

lemma tidy_Nil [simp]: "tidy rooted []"
  unfolding tidy_def by (intro exI[of _ 0] exI[of _ "[]"]) simp

lemma tidy_push: "tidy rooted acc \<Longrightarrow> p \<noteq> ''..'' \<Longrightarrow> p \<noteq> '''' \<Longrightarrow> tidy rooted (p # acc)"
  unfolding tidy_def by (metis append_Cons set_ConsD)

lemma tidy_pop: "tidy rooted (a # as) \<Longrightarrow> a \<noteq> ''..'' \<Longrightarrow> tidy rooted as"
proof -
  assume a: "tidy rooted (a # as)" "a \<noteq> ''..''"
  then obtain n rest where r: "a # as = rest @ replicate n ''..''" "''..'' \<notin> set rest" "'''' \<notin> set rest" "rooted \<longrightarrow> n = 0"
    unfolding tidy_def by blast
  with a(2) obtain rest' where "rest = a # rest'" "as = rest' @ replicate n ''..''" by (cases rest; cases n) auto
  with r show "tidy rooted as" unfolding tidy_def by (intro exI[of _ n] exI[of _ rest']) simp
qed

lemma tidy_up: "tidy rooted (''..'' # as) \<Longrightarrow> tidy rooted (''..'' # ''..'' # as)"
proof -
  assume "tidy rooted (''..'' # as)"
  then obtain n rest where r: "''..'' # as = rest @ replicate n ''..''" "''..'' \<notin> set rest" "rooted \<longrightarrow> n = 0"
    unfolding tidy_def by blast
  then have "rest = []" by (cases rest) auto
  with r have "n \<noteq> 0" "\<not> rooted" "''..'' # ''..'' # as = [] @ replicate (Suc n) ''..''" by (cases n; simp)+
  then show ?thesis unfolding tidy_def by (intro exI[of _ "Suc n"] exI[of _ "[]"]) simp
qed

lemma tidy_parent: "tidy False [''..'']"
  unfolding tidy_def by (intro exI[of _ 1] exI[of _ "[]"]) simp

lemma clean_parts_tidy: "tidy rooted acc \<Longrightarrow> \<exists>acc'. clean_parts rooted acc ps = rev acc' \<and> tidy rooted acc'"
proof (induction ps arbitrary: acc)
  case (Cons p ps)
  show ?case
  proof (cases acc)
    case Nil
    then show ?thesis using Cons tidy_push[OF Cons.prems, of p] tidy_parent by auto
  next
    case a: (Cons a as)
    then show ?thesis using Cons tidy_push[OF Cons.prems, of p] tidy_pop[of rooted a as] tidy_up[of rooted as] by auto
  qed
qed auto

lemma split_on_mem: "w \<in> set (split_on c s) \<Longrightarrow> c \<notin> set w"
proof (induction s arbitrary: w)
  case (Cons x xs)
  then show ?case by (cases "split_on c xs") (auto split: if_splits)
qed simp

lemma split_on_join:
  "ws \<noteq> [] \<Longrightarrow> \<forall>w\<in>set ws. c \<notin> set w \<Longrightarrow> split_on c (join_with [c] ws) = ws"
proof (induction ws)
  case (Cons w ws)
  have front: "c \<notin> set w \<Longrightarrow> split_on c (w @ c # s) = w # split_on c s" for w s
    by (induction w) (auto split: list.split)
  show ?case
  proof (cases ws)
    case Nil
    then show ?thesis using Cons.prems by (simp add: join_with_def split_on_single)
  next
    case (Cons v vs)
    have "join_with [c] (w # ws) = w @ c # join_with [c] ws" by (simp add: join_with_def Cons)
    then show ?thesis using Cons.IH Cons.prems front Cons by simp
  qed
qed simp

lemma clean_parts_unslashed:
  "\<forall>w \<in> set acc \<union> set ps. c \<notin> set w \<Longrightarrow> \<forall>w \<in> set (clean_parts rooted acc ps). c \<notin> set w"
  by (induction rooted acc ps rule: clean_parts.induct) (auto split: list.splits if_splits)

text \<open>
  C22. An import writes nothing outside its staging directory: whatever name an entry of the archive has, it is
  refused or written below that directory, through directories none of which is a parent.
\<close>
theorem extraction_stays_inside:
  "case entry_target name of
     None \<Rightarrow> extract_entries creatable ((name, body) # es) fs = None
   | Some t \<Rightarrow> ''..'' \<notin> set t \<and> ''.'' \<notin> set t \<and> '''' \<notin> set t \<and> list_all (\<lambda>p. slash \<notin> set p) t"
proof (cases "entry_target name")
  case (Some t)
  let ?rooted = "has_prefix name [slash]" and ?parts = "split_on slash name"
  let ?ws = "clean_parts ?rooted [] ?parts"
  obtain acc where acc: "?ws = rev acc" "tidy ?rooted acc" using clean_parts_tidy[of ?rooted "[]" ?parts] by auto
  then obtain n rest where ws: "?ws = replicate n ''..'' @ rev rest" "''..'' \<notin> set rest" "?rooted \<longrightarrow> n = 0"
    unfolding tidy_def by (elim exE conjE) (simp add: rev_replicate)
  have unsl: "\<forall>w \<in> set ?ws. slash \<notin> set w" using clean_parts_unslashed[of "[]" ?parts slash ?rooted] split_on_mem by auto
  have t: "t = filter (\<lambda>p. p \<noteq> '''' \<and> p \<noteq> ''.'') (split_on slash (clean_path name))" "\<not> has_prefix (clean_path name) ''..''"
    using Some by (auto simp: entry_target_def Let_def split: if_splits)
  have "''..'' \<notin> set (split_on slash (clean_path name))"
  proof (cases "?ws = []")
    case True
    then have "clean_path name \<in> {[slash], ''.''}"
      by (cases ?rooted) (simp_all add: clean_path_def join_with_def)
    then show ?thesis by (auto simp: slash_def)
  next
    case False
    have body: "split_on slash (join_with [slash] ?ws) = ?ws" using split_on_join[OF False] unsl by blast
    show ?thesis
    proof (cases ?rooted)
      case True
      then have "split_on slash (clean_path name) = [] # ?ws" using body by (simp add: clean_path_def)
      then show ?thesis using ws True by simp
    next
      case unrooted: False
      have "n = 0"
      proof (rule ccontr)
        assume "n \<noteq> 0"
        then obtain vs where "?ws = ''..'' # vs" using ws(1) by (cases n) auto
        then have "has_prefix (clean_path name) ''..''" using unrooted by (simp add: clean_path_def join_with_def Let_def)
        with t(2) show False ..
      qed
      then have "''..'' \<notin> set ?ws" using ws by simp
      moreover have "split_on slash (clean_path name) = (if join_with [slash] ?ws = '''' then [''.''] else ?ws)"
        using body unrooted by (simp add: clean_path_def Let_def slash_def)
      ultimately show ?thesis by auto
    qed
  qed
  then show ?thesis using Some t(1) split_on_mem by (auto simp: list_all_iff)
qed simp

section \<open>The lines of a store\<close>

text \<open>What \<open>encoding/json\<close> promises: a text without line breaks that reads back as the value written, up to the
  reading of numbers.\<close>

definition json_faithful :: "json_lib \<Rightarrow> bool" where
  "json_faithful jl \<longleftrightarrow> (\<forall>d t. json_marshal jl d = Some t \<longrightarrow>
     t \<noteq> '''' \<and> CHR 0x0A \<notin> set t \<and> last t \<noteq> CHR 0x0D \<and> (\<exists>v. json_unmarshal jl t = Some v \<and> json_norm v = json_norm d))
   \<and> (\<forall>m t. json_indent jl (manifest_json m) = Some t \<longrightarrow> (\<exists>v. json_first jl t = Some v \<and> json_norm v = manifest_json m))"

lemma json_faithfulD:
  assumes "json_faithful jl" and "json_marshal jl d = Some t"
  shows "t \<noteq> ''''" "CHR 0x0A \<notin> set t" "last t \<noteq> CHR 0x0D" "\<exists>v. json_unmarshal jl t = Some v \<and> json_norm v = json_norm d"
  using assms unfolding json_faithful_def by blast+

lemma docsToJSONL_texts:
  "docsToJSONL jl ds = Some buf \<Longrightarrow> json_faithful jl \<Longrightarrow>
   \<exists>ts. list_all2 (\<lambda>d t. json_marshal jl d = Some t) ds ts \<and> split_on (CHR 0x0A) buf = ts @ ['''']"
proof (induction ds arbitrary: buf)
  case (Cons d ds)
  then obtain b rest where b: "json_marshal jl d = Some b" "docsToJSONL jl ds = Some rest" "buf = b @ CHR 0x0A # rest"
    by (auto split: option.splits)
  with Cons obtain ts where ts: "list_all2 (\<lambda>d t. json_marshal jl d = Some t) ds ts" "split_on (CHR 0x0A) rest = ts @ ['''']" by blast
  have "CHR 0x0A \<notin> set b" using b(1) Cons.prems(2) by (simp add: json_faithful_def)
  then have "split_on (CHR 0x0A) buf = b # split_on (CHR 0x0A) rest"
    unfolding b(3) by (induction b) (auto split: list.split)
  then show ?case using b(1) ts by (intro exI[of _ "b # ts"]) simp
qed simp

lemma scan_texts:
  assumes "split_on (CHR 0x0A) buf = ts @ ['''']" and "\<forall>t \<in> set ts. t \<noteq> '''' \<and> last t \<noteq> CHR 0x0D"
    and "scan_lines limit buf = (ls, True)"
  shows "ls = ts"
proof -
  have "length (takeWhile (\<lambda>l. length l < limit) ts) = length ts" "ls = map drop_cr (takeWhile (\<lambda>l. length l < limit) ts)"
    using assms(1,3) by (simp_all add: scan_lines_def Let_def)
  then have "takeWhile (\<lambda>l. length l < limit) ts = ts" by (metis takeWhile_eq_take take_all order_refl)
  moreover have "map drop_cr ts = ts" using assms(2) by (intro map_idI) (simp add: drop_cr_def)
  ultimately show ?thesis using \<open>ls = _\<close> by metis
qed

text \<open>A store as it is exported, and one that documents can be put back into.\<close>

definition exportable :: "docstore \<Rightarrow> bool" where
  "exportable s \<longleftrightarrow> sound_store s \<and> (\<forall>k raw. content s k = Some raw \<longrightarrow> norm_object (decoded s raw) = decoded s raw)"

definition receiving :: "docstore \<Rightarrow> bool" where
  "receiving s \<longleftrightarrow> store_inv s \<and> (\<forall>m raw. marshal s (JObj m) = Some raw \<longrightarrow> unmarshal s raw = Some (JObj m))"

definition entry_docs :: "docstore \<Rightarrow> document list" where
  "entry_docs s = map (\<lambda>k. decoded s (the (index_Get (ix s) k))) (Keys (ix s))"

lemma queryAllDocs_docs:
  assumes "well_keyed s" and "queryAllDocs s = Some docs"
  shows "docs = map (JObj \<circ> decoded s) (List.map_filter (index_Get (ix s)) (Keys (ix s)))"
proof -
  have "filterKeys s ks (\<lambda>_. Some True) = Some out \<Longrightarrow> out = map (JObj \<circ> decoded s) (List.map_filter (index_Get (ix s)) ks)" for ks out
  proof (induction ks arbitrary: out)
    case (Cons k ks)
    show ?case
    proof (cases "index_Get (ix s) k")
      case (Some raw)
      then show ?thesis using Cons well_keyed_get(1)[OF assms(1) Some] by (auto simp: map_filter_simps)
    qed (use Cons in \<open>simp add: map_filter_simps\<close>)
  qed (simp add: map_filter_simps)
  then show ?thesis using assms(2) by (simp add: queryAllDocs_def store_Query_def)
qed

lemma json_norm_object: "json_norm v = JObj m \<Longrightarrow> \<exists>m'. v = JObj m' \<and> norm_object m' = m"
  by (cases v) (auto simp: norm_object_def)

definition keyed :: "document \<Rightarrow> bool" where
  "keyed d \<longleftrightarrow> norm_object d = d \<and> (\<exists>k. gm_get d ''_id'' = Some (JStr k) \<and> k \<noteq> '''')"

lemma import_lines_docs:
  "json_faithful jl \<Longrightarrow> list_all2 (\<lambda>d t. json_marshal jl d = Some t) (map JObj ds) ts \<Longrightarrow> list_all keyed ds \<Longrightarrow> receiving s \<Longrightarrow>
   import_lines jl ts n s = ((n', True), s') \<Longrightarrow>
   n' = n + length ds \<and> receiving s' \<and> marshal s' = marshal s \<and> unmarshal s' = unmarshal s
   \<and> list_all (\<lambda>d. marshal s (JObj d) \<noteq> None) ds \<and> content s' = keep_all (render s) (map JObj ds) (content s)"
proof (induction ds arbitrary: ts n s)
  case (Cons d ds)
  then obtain t us where t: "ts = t # us" "json_marshal jl (JObj d) = Some t"
    "list_all2 (\<lambda>d t. json_marshal jl d = Some t) (map JObj ds) us"
    by (auto simp: list_all2_Cons1)
  obtain k where k: "gm_get d ''_id'' = Some (JStr k)" "k \<noteq> ''''" "norm_object d = d"
    using Cons.prems(3) by (auto simp: keyed_def)
  have f: "t \<noteq> ''''" "\<exists>v. json_unmarshal jl t = Some v \<and> json_norm v = JObj d"
    using json_faithfulD[OF Cons.prems(1) t(2)] k(3) by (simp_all add: norm_object_def)
  then obtain v m where "json_unmarshal jl t = Some v" "v = JObj m" and m: "norm_object m = d"
    using json_norm_object[of _ d] by blast
  then have dec: "decode_struct (json_unmarshal jl t) = Some m" by (simp add: decode_struct_def)
  obtain ok s1 where p: "store_Put (JObj d) s = (ok, s1)" by force
  have step: "import_lines jl us (n + 1) s1 = ((n', True), s')" "ok"
    using Cons.prems(5) p f(1) k(1,2) by (auto simp: t(1) dec m split: bool.splits)
  have inv: "store_inv s" using Cons.prems(4) by (simp add: receiving_def)
  note put = store_Put_spec[OF inv p] and codec = store_codec(1)[OF p]
  have r1: "receiving s1" using Cons.prems(4) put codec by (simp add: receiving_def)
  note ih = Cons.IH[OF Cons.prems(1) t(3) _ r1 step(1)]
  obtain raw where "marshal s (JObj d) = Some raw"
    using p step(2) k(1) by (auto simp: store_Put_def render_obj split: option.splits)
  then show ?case using ih Cons.prems(3) put codec step(2) by simp
qed simp

lemma keep_everything_keyed:
  assumes "distinct (map (\<lambda>d. gm_get d ''_id'') ds)" and "list_all keyed ds" and "list_all (\<lambda>d. marshal s (JObj d) \<noteq> None) ds"
  shows "d \<in> set ds \<Longrightarrow> gm_get d ''_id'' = Some (JStr k) \<Longrightarrow> keep_all (render s) (map JObj ds) m k = marshal s (JObj d)"
    and "\<forall>d \<in> set ds. gm_get d ''_id'' \<noteq> Some (JStr k) \<Longrightarrow> keep_all (render s) (map JObj ds) m k = m k"
proof -
  have other: "fst kv \<noteq> k" if "render s (JObj e) = Some kv" "gm_get e ''_id'' \<noteq> Some (JStr k)" for e kv k
    using that by (auto simp: render_obj split: option.splits json.splits)
  show "\<forall>d \<in> set ds. gm_get d ''_id'' \<noteq> Some (JStr k) \<Longrightarrow> keep_all (render s) (map JObj ds) m k = m k"
  proof (intro keep_all_other ballI allI impI)
    fix e kv assume a: "\<forall>d \<in> set ds. gm_get d ''_id'' \<noteq> Some (JStr k)" "e \<in> set (map JObj ds)" "render s e = Some kv"
    then obtain d where "e = JObj d" "d \<in> set ds" by auto
    then show "fst kv \<noteq> k" using a(1,3) other[of d kv k] by blast
  qed
  assume d: "d \<in> set ds" "gm_get d ''_id'' = Some (JStr k)"
  then obtain pre post where ds: "ds = pre @ d # post" by (meson split_list)
  obtain raw where raw: "marshal s (JObj d) = Some raw" using assms(3) d(1) by (auto simp: list_all_iff)
  have "\<forall>e \<in> set (map JObj post). \<forall>kv. render s e = Some kv \<longrightarrow> fst kv \<noteq> k"
  proof (intro ballI allI impI)
    fix e kv assume e: "e \<in> set (map JObj post)" "render s e = Some kv"
    then obtain x where x: "e = JObj x" "x \<in> set post" by auto
    have "gm_get d ''_id'' \<notin> (\<lambda>d. gm_get d ''_id'') ` set post" using assms(1) by (simp add: ds)
    then have "gm_get x ''_id'' \<noteq> Some (JStr k)" using x(2) d(2) by (metis image_eqI)
    then show "fst kv \<noteq> k" using other[of x kv k] e(2) x(1) by blast
  qed
  moreover have "k \<noteq> ''''" using assms(2) d by (auto simp: list_all_iff keyed_def)
  ultimately show "keep_all (render s) (map JObj ds) m k = marshal s (JObj d)"
    using keep_all_last[of "render s" "JObj d" k raw "map JObj post" "map JObj pre" m] d(2) raw by (simp add: ds render_obj)
qed

text \<open>What a store holds after the export of another has been imported into it.\<close>

definition restored :: "docstore \<Rightarrow> docstore \<Rightarrow> docstore \<Rightarrow> bool" where
  "restored src before0 now0 \<longleftrightarrow> (\<forall>k. case content src k of
     Some raw \<Rightarrow> (\<exists>raw'. content now0 k = Some raw' \<and> unmarshal now0 raw' = unmarshal src raw)
   | None \<Rightarrow> content now0 k = content before0 k)"

lemma set_map_filter: "set (List.map_filter f xs) = {y. \<exists>x \<in> set xs. f x = Some y}"
  by (induction xs) (auto simp: map_filter_simps split: option.splits)

lemma exported_docs:
  assumes "exportable s"
  defines "ds \<equiv> map (decoded s) (List.map_filter (index_Get (ix s)) (Keys (ix s)))"
  shows "list_all keyed ds" and "distinct (map (\<lambda>d. gm_get d ''_id'') ds)"
    and "content s k = Some raw \<Longrightarrow> decoded s raw \<in> set ds"
    and "d \<in> set ds \<Longrightarrow> gm_get d ''_id'' = Some (JStr k) \<Longrightarrow> content s k \<noteq> None"
proof -
  have s: "store_inv s" "gm_wf (index (ix s))" "well_keyed s" "content s '''' = None"
    using assms(1) by (auto simp: exportable_def sound_store_def)
  note keys = Keys_complete[OF s(2)]
  have get: "content s = index_Get (ix s)" by (simp add: content_def index_Get_def fun_eq_iff)
  have ids: "map (\<lambda>d. gm_get d ''_id'') ds = map (\<lambda>k. Some (JStr k)) (filter (\<lambda>k. index_Get (ix s) k \<noteq> None) (Keys (ix s)))"
  proof -
    have "map (\<lambda>d. gm_get d ''_id'') (map (decoded s) (List.map_filter (index_Get (ix s)) ks))
        = map (\<lambda>k. Some (JStr k)) (filter (\<lambda>k. index_Get (ix s) k \<noteq> None) ks)" for ks
      by (induction ks) (auto simp: map_filter_simps well_keyed_get(2)[OF s(3)] split: option.splits)
    then show ?thesis by (simp add: ds_def)
  qed
  show "distinct (map (\<lambda>d. gm_get d ''_id'') ds)"
    unfolding ids using keys(1) by (simp add: distinct_map inj_on_def)
  have mem: "d \<in> set ds \<longleftrightarrow> (\<exists>k raw. k \<in> set (Keys (ix s)) \<and> index_Get (ix s) k = Some raw \<and> d = decoded s raw)" for d
    by (auto simp: ds_def set_map_filter)
  show "list_all keyed ds"
    unfolding list_all_iff
  proof
    fix d assume "d \<in> set ds"
    then obtain k raw where kr: "index_Get (ix s) k = Some raw" "d = decoded s raw" by (auto simp: mem)
    then have "k \<noteq> ''''" using s(4) get by auto
    then show "keyed d" using kr well_keyed_get(2)[OF s(3) kr(1)] assms(1) get by (auto simp: keyed_def exportable_def)
  qed
  show "content s k = Some raw \<Longrightarrow> decoded s raw \<in> set ds" using keys(2) get by (auto simp: mem)
  show "d \<in> set ds \<Longrightarrow> gm_get d ''_id'' = Some (JStr k) \<Longrightarrow> content s k \<noteq> None"
    using well_keyed_get(2)[OF s(3)] get by (auto simp: mem)
qed

lemma import_restores:
  assumes "json_faithful jl" and "exportable s" and "receiving t"
    and "queryAllDocs s = Some docs" and "docsToJSONL jl docs = Some buf"
    and "importStoreJSONL jl (Some buf) t = ((n, True), t')"
  shows "n = length docs \<and> receiving t' \<and> restored s t t'"
proof -
  let ?ds = "map (decoded s) (List.map_filter (index_Get (ix s)) (Keys (ix s)))"
  note ex = exported_docs[OF assms(2)]
  have wk: "well_keyed s" using assms(2) by (simp add: exportable_def sound_store_def)
  have docs: "docs = map JObj ?ds" using queryAllDocs_docs[OF wk assms(4)] by simp
  obtain ts where ts: "list_all2 (\<lambda>d t. json_marshal jl d = Some t) docs ts" "split_on (CHR 0x0A) buf = ts @ ['''']"
    using docsToJSONL_texts[OF assms(5,1)] by blast
  obtain ls where ls: "scan_lines max_line buf = (ls, True)" "import_lines jl ls 0 t = ((n, True), t')"
    using assms(6) by (auto simp: importStoreJSONL_def split: prod.splits)
  have "\<forall>t \<in> set ts. t \<noteq> '''' \<and> last t \<noteq> CHR 0x0D"
  proof
    fix t assume "t \<in> set ts"
    then obtain d where "json_marshal jl d = Some t" using ts(1) by (auto simp: list_all2_conv_all_nth in_set_conv_nth)
    then show "t \<noteq> '''' \<and> last t \<noteq> CHR 0x0D" using assms(1) by (simp add: json_faithful_def)
  qed
  from scan_texts[OF ts(2) this ls(1)] have "ls = ts" .
  note im = import_lines_docs[OF assms(1) ts(1)[unfolded docs] ex(1) assms(3) ls(2)[unfolded \<open>ls = ts\<close>]]
  then have c: "content t' = keep_all (render t) (map JObj ?ds) (content t)" "list_all (\<lambda>d. marshal t (JObj d) \<noteq> None) ?ds"
    "unmarshal t' = unmarshal t" by blast+
  note kk = keep_everything_keyed[OF ex(2,1) c(2)]
  have "restored s t t'"
    unfolding restored_def
  proof
    fix k
    show "case content s k of
            Some raw \<Rightarrow> (\<exists>raw'. content t' k = Some raw' \<and> unmarshal t' raw' = unmarshal s raw)
          | None \<Rightarrow> content t' k = content t k"
    proof (cases "content s k")
      case None
      then have "\<forall>d \<in> set ?ds. gm_get d ''_id'' \<noteq> Some (JStr k)" using ex(4) by blast
      then show ?thesis using kk(2) None by (simp add: c(1))
    next
      case (Some raw)
      then have g: "index_Get (ix s) k = Some raw" by (simp add: content_def index_Get_def)
      have mem: "decoded s raw \<in> set ?ds" using ex(3)[OF Some] .
      then obtain raw' where raw': "marshal t (JObj (decoded s raw)) = Some raw'" using c(2) by (auto simp: list_all_iff)
      then have "content t' k = Some raw'" using kk(1)[OF mem well_keyed_get(2)[OF wk g]] by (simp add: c(1))
      moreover have "unmarshal t' raw' = unmarshal s raw"
        using raw' assms(3) c(3) well_keyed_get(1)[OF wk g] by (simp add: receiving_def)
      ultimately show ?thesis using Some by simp
    qed
  qed
  then show ?thesis using im docs by simp
qed

section \<open>Whole archives\<close>

lemma split_on_at: "split_on c (a @ c # r) = split_on c a @ split_on c r"
proof (induction a)
  case (Cons x a)
  then show ?case by (cases "split_on c a") (auto split: list.splits)
qed simp

lemma plain_target:
  assumes "ws \<noteq> []" and "\<forall>w \<in> set ws. slash \<notin> set w \<and> w \<noteq> '''' \<and> w \<noteq> ''.'' \<and> w \<noteq> ''..''" and "\<not> has_prefix (hd ws) ''..''"
  shows "entry_target (join_with [slash] ws) = Some ws"
proof -
  let ?s = "join_with [slash] ws"
  have sp: "split_on slash ?s = ws" using split_on_join assms(1,2) by blast
  obtain w vs where w: "ws = w # vs" using assms(1) by (cases ws) auto
  then obtain c cs where cs: "w = c # cs" "c \<noteq> slash" using assms(2) by (cases w) auto
  have rooted: "\<not> has_prefix ?s [slash]" using cs by (simp add: w join_with_def)
  have keep: "clean_parts False acc us = rev acc @ us" if "\<forall>u \<in> set us. u \<noteq> '''' \<and> u \<noteq> ''.'' \<and> u \<noteq> ''..''" for acc us
    using that by (induction us arbitrary: acc) auto
  have "?s \<noteq> ''''" using cs by (simp add: w join_with_def)
  then have clean: "clean_path ?s = ?s" using rooted sp keep[of ws "[]"] assms(2) by (simp add: clean_path_def)
  have "\<not> has_prefix ?s ''..''"
  proof
    assume "has_prefix ?s ''..''"
    moreover have "?s = w \<or> (\<exists>r. ?s = w @ slash # r)" by (cases vs) (simp_all add: w join_with_def)
    ultimately have "has_prefix w ''..'' \<or> w = ''.'' \<and> slash = CHR ''.''"
      using cs by (cases cs) auto
    then show False using assms(3) by (simp add: w slash_def)
  qed
  moreover have "\<not> contains_str ?s ''/../''"
  proof
    assume "contains_str ?s ''/../''"
    then obtain a b where "?s = a @ slash # ''..'' @ slash # b" by (auto simp: contains_str_iff slash_def)
    then have "ws = split_on slash a @ split_on slash (''..'' @ slash # b)" using sp by (simp add: split_on_at del: append.simps)
    also have "split_on slash (''..'' @ slash # b) = ''..'' # split_on slash b"
      unfolding split_on_at by (simp add: slash_def)
    finally show False using assms(2) by auto
  qed
  ultimately show ?thesis using clean sp assms(2) by (simp add: entry_target_def Let_def)
qed

lemma archive_targets:
  "entry_target ''manifest.json'' = Some [''manifest.json'']"
  "entry_target ''sqlite/optimusdb.db'' = Some [''sqlite'', ''optimusdb.db'']"
  "slash \<notin> set n \<Longrightarrow> entry_target (store_file n) = Some [''orbitdb'', n @ ''.jsonl'']"
proof -
  show "entry_target ''manifest.json'' = Some [''manifest.json'']"
    using plain_target[of "[''manifest.json'']"] by (simp add: join_with_def slash_def)
  show "entry_target ''sqlite/optimusdb.db'' = Some [''sqlite'', ''optimusdb.db'']"
    using plain_target[of "[''sqlite'', ''optimusdb.db'']"] by (simp add: join_with_def slash_def)
  assume n: "slash \<notin> set n"
  have "n @ ''.jsonl'' \<noteq> ''.''" "n @ ''.jsonl'' \<noteq> ''..''" by (cases n; cases "tl n"; simp)+
  moreover have "join_with [slash] [''orbitdb'', n @ ''.jsonl''] = store_file n" by (simp add: join_with_def store_file_def slash_def)
  ultimately show "entry_target (store_file n) = Some [''orbitdb'', n @ ''.jsonl'']"
    using plain_target[of "[''orbitdb'', n @ ''.jsonl'']"] n by (simp add: slash_def)
qed

lemma export_stores_ok:
  "export_stores jl kb names = (es, True) \<Longrightarrow>
   list_all2 (\<lambda>n e. fst e = store_file n \<and> (\<exists>s docs. gm_get (AllDocStores kb) n = Some s \<and> queryAllDocs (documents s) = Some docs
     \<and> docsToJSONL jl docs = Some (snd e))) names es"
  by (induction names arbitrary: es) (auto split: option.splits prod.splits)

lemma extract_stores:
  assumes "list_all2 (\<lambda>n e. fst e = store_file n) names es" and "\<forall>n \<in> set names. slash \<notin> set n" and "distinct names"
    and "extract_entries creatable es fs = Some fs'"
  shows "(\<forall>t. (\<forall>n \<in> set names. t \<noteq> [''orbitdb'', n @ ''.jsonl'']) \<longrightarrow> fs' t = fs t)
    \<and> list_all2 (\<lambda>n e. fs' [''orbitdb'', n @ ''.jsonl''] = Some (snd e)) names es"
  using assms
proof (induction names arbitrary: es fs)
  case (Cons n names)
  then obtain b es' where es: "es = (store_file n, b) # es'" "list_all2 (\<lambda>n e. fst e = store_file n) names es'"
    by (auto simp: list_all2_Cons1)
  have x: "extract_entries creatable es' (fs([''orbitdb'', n @ ''.jsonl''] \<mapsto> b)) = Some fs'"
    using Cons.prems(2,4) archive_targets(3)[of n] by (auto simp: es(1) split: if_splits)
  have "\<forall>m \<in> set names. [''orbitdb'', n @ ''.jsonl''] \<noteq> [''orbitdb'', m @ ''.jsonl'']" using Cons.prems(3) by auto
  with Cons.IH[OF es(2) _ _ x] Cons.prems(2,3) have "fs' [''orbitdb'', n @ ''.jsonl''] = Some b" by simp
  with Cons.IH[OF es(2) _ _ x] Cons.prems(2,3) show ?case by (auto simp: es(1))
qed simp

lemma import_store_live:
  assumes "registry_ok kb" and "store_of kb name = Some t"
    and "importStoreJSONL jl (fs [''orbitdb'', name @ ''.jsonl'']) (documents t) = ((n, ok), ds)"
  shows "import_store jl env fs name (rp, kb) =
     (if ok then rp\<lparr>rp_Stores := gm_set name n (rp_Stores rp)\<rparr> else rp\<lparr>rp_Errors := rp_Errors rp @ [ImportFailed name]\<rparr>,
      set_store name (t\<lparr>documents := ds\<rparr>) kb)"
  using assms(2,3) by (simp add: import_store_def registry_okD(3)[OF assms(1)])

definition store_outcome :: "json_lib \<Rightarrow> staging \<Rightarrow> kb \<Rightarrow> import_report \<times> kb \<Rightarrow> string \<Rightarrow> bool" where
  "store_outcome jl fs kb acc n \<longleftrightarrow> (\<exists>t ds cnt ok. store_of kb n = Some t \<and> store_of (snd acc) n = Some (t\<lparr>documents := ds\<rparr>)
     \<and> importStoreJSONL jl (fs [''orbitdb'', n @ ''.jsonl'']) (documents t) = ((cnt, ok), ds)
     \<and> (ok \<longrightarrow> gm_get (rp_Stores (fst acc)) n = Some cnt) \<and> (ImportFailed n \<in> set (rp_Errors (fst acc)) \<longleftrightarrow> \<not> ok))"

text \<open>Stores are imported independently of each other.\<close>

lemma import_stores_outcome:
  assumes "registry_ok kb" and "\<forall>n \<in> set names. store_of kb n \<noteq> None" and "distinct names" and "rp_Errors rp = []"
  shows "let acc = fold (import_store jl env fs) names (rp, kb)
         in registry_ok (snd acc) \<and> (\<forall>n. n \<notin> set names \<longrightarrow> store_of (snd acc) n = store_of kb n)
          \<and> (\<forall>n \<in> set names. store_outcome jl fs kb acc n) \<and> set (rp_Errors (fst acc)) \<subseteq> ImportFailed ` set names"
  using assms(2,3)
proof (induction names rule: rev_induct)
  case Nil
  then show ?case using assms(1,4) by simp
next
  case (snoc n names)
  define acc where "acc = fold (import_store jl env fs) names (rp, kb)"
  obtain rp1 kb1 where a: "acc = (rp1, kb1)" by force
  have ih: "registry_ok kb1" "\<forall>n. n \<notin> set names \<longrightarrow> store_of kb1 n = store_of kb n"
    "\<forall>n \<in> set names. store_outcome jl fs kb acc n" "set (rp_Errors rp1) \<subseteq> ImportFailed ` set names"
    using snoc a by (simp_all add: acc_def Let_def)
  have n: "n \<notin> set names" using snoc.prems(2) by simp
  obtain t where t: "store_of kb n = Some t" using snoc.prems(1) by auto
  then have t1: "store_of kb1 n = Some t" using ih(2) n by simp
  obtain cnt ok ds where im: "importStoreJSONL jl (fs [''orbitdb'', n @ ''.jsonl'']) (documents t) = ((cnt, ok), ds)"
    by (metis prod.collapse)
  define rp2 where "rp2 = (if ok then rp1\<lparr>rp_Stores := gm_set n cnt (rp_Stores rp1)\<rparr> else rp1\<lparr>rp_Errors := rp_Errors rp1 @ [ImportFailed n]\<rparr>)"
  let ?kb2 = "set_store n (t\<lparr>documents := ds\<rparr>) kb1"
  have step: "fold (import_store jl env fs) (names @ [n]) (rp, kb) = (rp2, ?kb2)"
    using import_store_live[where rp = rp1 and env = env and jl = jl and fs = fs, OF ih(1) t1 im] a by (simp add: acc_def rp2_def)
  have set: "registry_ok ?kb2" "store_of ?kb2 = (store_of kb1)(n \<mapsto> t\<lparr>documents := ds\<rparr>)"
    using set_store_ok[OF ih(1), of n "t\<lparr>documents := ds\<rparr>"] t1 by auto
  have old: "store_outcome jl fs kb (rp2, ?kb2) m" if "m \<in> set names" for m
  proof -
    have "m \<noteq> n" using that n by blast
    then show ?thesis using ih(3) that set(2) by (auto simp: store_outcome_def a rp2_def)
  qed
  have "ImportFailed n \<notin> set (rp_Errors rp1)" using ih(4) n by auto
  then have "store_outcome jl fs kb (rp2, ?kb2) n" using t im set(2) by (simp add: store_outcome_def rp2_def)
  then show ?case using step set ih(2,4) old by (auto simp: Let_def rp2_def)
qed

lemma manifest_read:
  assumes "json_norm v = manifest_json m" and "time_ok jl (m_CreatedAt m)"
  shows "decode_manifest jl (Some v) = Some m"
proof -
  have str: "json_norm u = JStr s \<longleftrightarrow> u = JStr s" "json_norm u = JBool b \<longleftrightarrow> u = JBool b" for u s b by (cases u; simp)+
  have texts: "map json_norm us = map JStr ss \<Longrightarrow> us = map JStr ss" for us ss
    by (induction us arbitrary: ss) (auto simp: str Cons_eq_map_conv)
  have arr: "json_norm u = JArr (map JStr ss) \<longleftrightarrow> u = JArr (map JStr ss)" for u ss
    using texts by (cases u) auto
  have items: "those (map (text_item \<circ> JStr) ss) = Some ss" for ss by (induction ss) (auto simp: text_item_def)
  from assms(1) have "v = manifest_json m"
    by (cases v) (auto simp: manifest_json_def map_eq_Cons_conv str arr)
  then show ?thesis
    using assms(2) items
    by (cases m) (simp add: decode_manifest_def manifest_json_def decode_struct_def read_text_def read_time_def read_list_def read_flag_def)
qed

text \<open>What an archive written by \<open>Export\<close> extracts to: the stores of \<open>written\<close> have a file, those of \<open>rest\<close> have none.\<close>

definition extracted :: "json_lib \<Rightarrow> sqlite_lib \<Rightarrow> string \<Rightarrow> string \<Rightarrow> kb \<Rightarrow> sqlite_node \<Rightarrow> staging \<Rightarrow> bool \<Rightarrow> string list
    \<Rightarrow> string \<Rightarrow> string \<Rightarrow> string list \<Rightarrow> string list \<Rightarrow> entries \<Rightarrow> bool" where
  "extracted jl sl ts host kb q fs whole names snapshot mb written rest es \<longleftrightarrow>
     vacuumIntoTemp sl q = Some snapshot \<and> json_indent jl (manifest_json (new_manifest ts host names)) = Some mb
     \<and> fs [''manifest.json''] = Some mb \<and> fs [''sqlite'', ''optimusdb.db''] = Some snapshot
     \<and> names = written @ rest \<and> (rest = [] \<longleftrightarrow> whole) \<and> (\<forall>n \<in> set rest. fs [''orbitdb'', n @ ''.jsonl''] = None)
     \<and> list_all2 (\<lambda>n e. fs [''orbitdb'', n @ ''.jsonl''] = Some (snd e) \<and> (\<exists>s docs. gm_get (AllDocStores kb) n = Some s
          \<and> queryAllDocs (documents s) = Some docs \<and> docsToJSONL jl docs = Some (snd e))) written es"

lemma exported_archive:
  assumes "Export jl sl arrange ts host kb q = (Some a, whole)" and "tar_entries a \<noteq> []"
    and "\<forall>n \<in> set (arrange (map fst (AllDocStores kb))). slash \<notin> set n" and "distinct (arrange (map fst (AllDocStores kb)))"
    and "extractTarGz creatable a = Some fs"
  shows "\<exists>snapshot mb written rest es. extracted jl sl ts host kb q fs whole (arrange (map fst (AllDocStores kb))) snapshot mb written rest es"
proof -
  let ?names = "arrange (map fst (AllDocStores kb))"
  from assms(1,2) obtain snapshot mb es where e: "vacuumIntoTemp sl q = Some snapshot"
    "json_indent jl (manifest_json (new_manifest ts host ?names)) = Some mb" "export_stores jl kb ?names = (es, whole)"
    "a = \<lparr>gz_ok = True, tar_entries = (''manifest.json'', mb) # (''sqlite/optimusdb.db'', snapshot) # es, tail_ok = True\<rparr>"
    by (auto simp: Export_def Let_def split: option.splits prod.splits)
  have prefix: "\<exists>written rest. ns = written @ rest \<and> (rest = [] \<longleftrightarrow> ok) \<and> list_all2 (\<lambda>n e. fst e = store_file n \<and> (\<exists>s docs. gm_get (AllDocStores kb) n = Some s
        \<and> queryAllDocs (documents s) = Some docs \<and> docsToJSONL jl docs = Some (snd e))) written es0"
    if "export_stores jl kb ns = (es0, ok)" for ns es0 ok
    using that
  proof (induction ns arbitrary: es0)
    case (Cons n ns)
    show ?case
    proof (cases "es0 = []")
      case True
      then have "\<not> ok" using Cons.prems by (auto split: option.splits prod.splits)
      then show ?thesis using True by (intro exI[of _ "[]"] exI[of _ "n # ns"]) simp
    next
      case False
      then obtain s docs buf es1 where x: "gm_get (AllDocStores kb) n = Some s" "queryAllDocs (documents s) = Some docs"
        "docsToJSONL jl docs = Some buf" "export_stores jl kb ns = (es1, ok)" "es0 = (store_file n, buf) # es1"
        using Cons.prems by (auto split: option.splits prod.splits)
      from Cons.IH[OF x(4)] obtain written rest where w: "ns = written @ rest" "rest = [] \<longleftrightarrow> ok" "list_all2 (\<lambda>n e. fst e = store_file n
         \<and> (\<exists>s docs. gm_get (AllDocStores kb) n = Some s \<and> queryAllDocs (documents s) = Some docs \<and> docsToJSONL jl docs = Some (snd e))) written es1" by blast
      then show ?thesis using x by (intro exI[of _ "n # written"] exI[of _ rest]) simp
    qed
  qed simp
  obtain written rest where w: "?names = written @ rest" "rest = [] \<longleftrightarrow> whole"
    "list_all2 (\<lambda>n e. fst e = store_file n \<and> (\<exists>s docs. gm_get (AllDocStores kb) n = Some s
        \<and> queryAllDocs (documents s) = Some docs \<and> docsToJSONL jl docs = Some (snd e))) written es"
    using prefix[OF e(3)] by blast
  let ?fs0 = "(\<lambda>_. None)([''manifest.json''] \<mapsto> mb, [''sqlite'', ''optimusdb.db''] \<mapsto> snapshot)"
  have x: "extract_entries creatable es ?fs0 = Some fs"
    using assms(5) archive_targets(1,2) by (auto simp: e(4) extractTarGz_def split: option.splits if_splits)
  have files: "list_all2 (\<lambda>n e. fst e = store_file n) written es" using w(3) by (rule list_all2_mono) simp
  have ww: "\<forall>n \<in> set written. slash \<notin> set n" "distinct written" using assms(3,4) w(1) by auto
  note fs = extract_stores[OF files ww x]
  have "fs [''orbitdb'', n @ ''.jsonl''] = None" if "n \<in> set rest" for n
  proof -
    have "\<forall>m \<in> set written. [''orbitdb'', n @ ''.jsonl''] \<noteq> [''orbitdb'', m @ ''.jsonl'']"
      using that assms(4) w(1) by auto
    then show ?thesis using fs by simp
  qed
  moreover have "list_all2 (\<lambda>n e. fs [''orbitdb'', n @ ''.jsonl''] = Some (snd e) \<and> (\<exists>s docs. gm_get (AllDocStores kb) n = Some s
        \<and> queryAllDocs (documents s) = Some docs \<and> docsToJSONL jl docs = Some (snd e))) written es"
    using fs w(3) by (auto simp: list_all2_conv_all_nth)
  moreover have "fs [''manifest.json''] = Some mb" "fs [''sqlite'', ''optimusdb.db''] = Some snapshot" using fs by simp_all
  ultimately have "extracted jl sl ts host kb q fs whole ?names snapshot mb written rest es"
    using e(1,2) w(1,2) by (simp add: extracted_def)
  then show ?thesis by blast
qed

lemma list_all2_member: "list_all2 P xs ys \<Longrightarrow> x \<in> set xs \<Longrightarrow> \<exists>y. P x y"
  by (induction rule: list_all2_induct) auto

lemma Import_cases:
  assumes "Import jl sl env creatable a kb q = (Some rp, kb', q')"
  obtains fs m acc where "extractTarGz creatable a = Some fs" "readManifest jl fs = Some m" "m_Version m = ''1''"
    "fold (import_store jl env fs) (m_Stores m) (empty_report, kb) = acc" "kb' = snd acc"
    "rp_Stores rp = rp_Stores (fst acc)"
    "rp_Errors rp = rp_Errors (fst acc) @ (if m_HasSQLite m \<and> \<not> rp_SQLiteRestored rp then [SQLiteFailed] else [])"
    "m_HasSQLite m \<Longrightarrow> restoreSQLite sl (fs [''sqlite'', ''optimusdb.db'']) q = (rp_SQLiteRestored rp, q')"
proof -
  have flag: "rp_SQLiteRestored (fst (fold (import_store jl env fs) ns acc)) = rp_SQLiteRestored (fst acc)" for fs ns acc
  proof (induction ns arbitrary: acc)
    case (Cons n ns)
    have "rp_SQLiteRestored (fst (import_store jl env fs n acc)) = rp_SQLiteRestored (fst acc)"
      by (auto simp: import_store_def Let_def split: prod.split sum.split option.split)
    then show ?case using Cons by simp
  qed simp
  from assms obtain fs m where fm: "extractTarGz creatable a = Some fs" "readManifest jl fs = Some m" "m_Version m = ''1''"
    by (auto simp: Import_def split: option.splits if_splits)
  obtain r kb1 where acc: "fold (import_store jl env fs) (m_Stores m) (empty_report, kb) = (r, kb1)" by force
  have "rp_SQLiteRestored r = False" using flag[of fs "m_Stores m" "(empty_report, kb)"] acc by (simp add: empty_report_def)
  then show ?thesis
    using that[OF fm acc] assms fm acc by (auto simp: Import_def split: prod.splits bool.splits if_splits)
qed

text \<open>A node that can be exported, and one that an archive of it can be imported into.\<close>

definition named_stores :: "(string list \<Rightarrow> string list) \<Rightarrow> kb \<Rightarrow> bool" where
  "named_stores arrange kb \<longleftrightarrow> registry_ok kb \<and> (\<forall>ns. mset (arrange ns) = mset ns) \<and> (\<forall>n. store_of kb n \<noteq> None \<longrightarrow> slash \<notin> set n)"

definition exports :: "(string list \<Rightarrow> string list) \<Rightarrow> kb \<Rightarrow> bool" where
  "exports arrange kb \<longleftrightarrow> named_stores arrange kb \<and> (\<forall>n s. store_of kb n = Some s \<longrightarrow> exportable (documents s))"

definition has_stores_of :: "kb \<Rightarrow> kb \<Rightarrow> bool" where
  "has_stores_of kb kb' \<longleftrightarrow> registry_ok kb' \<and> (\<forall>n. store_of kb n \<noteq> None \<longrightarrow> store_of kb' n \<noteq> None)"

definition imports_from :: "kb \<Rightarrow> kb \<Rightarrow> bool" where
  "imports_from kb kb' \<longleftrightarrow> has_stores_of kb kb' \<and> (\<forall>n t. store_of kb' n = Some t \<longrightarrow> receiving (documents t))"

lemma exported_names:
  assumes "named_stores arrange kb"
  shows "set (arrange (map fst (AllDocStores kb))) = {n. store_of kb n \<noteq> None}" and "distinct (arrange (map fst (AllDocStores kb)))"
    and "\<forall>n \<in> set (arrange (map fst (AllDocStores kb))). slash \<notin> set n"
proof -
  have ok: "registry_ok kb" and perm: "mset (arrange ns) = mset ns" for ns using assms by (auto simp: named_stores_def)
  show names: "set (arrange (map fst (AllDocStores kb))) = {n. store_of kb n \<noteq> None}"
  proof -
    have "n \<in> fst ` set (AllDocStores kb) \<longleftrightarrow> store_of kb n \<noteq> None" for n
      using registry_okD(3)[OF ok, of n] gm_get_None by metis
    then show ?thesis using mset_eq_setD[OF perm, of "map fst (AllDocStores kb)"] by auto
  qed
  show "distinct (arrange (map fst (AllDocStores kb)))"
    using registry_okD(4)[OF ok] mset_eq_imp_distinct_iff[OF perm[of "map fst (AllDocStores kb)"]] by simp
  show "\<forall>n \<in> set (arrange (map fst (AllDocStores kb))). slash \<notin> set n"
    using names assms by (auto simp: named_stores_def)
qed



section \<open>Examples\<close>

text \<open>Codecs that know one document.\<close>

definition card_enc :: "json \<Rightarrow> string option" where
  "card_enc d = (if d = JObj card_doc then Some ''raw'' else None)"

definition one_card :: "(string \<Rightarrow> json option) \<Rightarrow> docstore" where
  "one_card dec = (empty_store card_enc dec [])\<lparr>ix := (newDocumentIndex [])\<lparr>index := [(''a'', ''raw'')], clocks := [''a'' \<mapsto> \<lparr>st_time = 0, st_id = ''peer''\<rparr>]\<rparr>\<rparr>"

definition card_json :: "string list \<Rightarrow> json_lib" where
  "card_json names = \<lparr>json_marshal = (\<lambda>d. if d = JObj card_doc then Some ''x'' else None),
     json_unmarshal = (\<lambda>t. if t = ''x'' then Some (JObj card_doc) else None),
     json_first = (\<lambda>t. if t = ''m'' then Some (manifest_json (new_manifest ''ts'' ''h'' names)) else None),
     json_indent = (\<lambda>v. if v = manifest_json (new_manifest ''ts'' ''h'' names) then Some ''m'' else None), time_ok = (\<lambda>_. True)\<rparr>"

definition plain_sqlite :: sqlite_lib where
  "plain_sqlite = \<lparr>vacuum = Some, close_ok = True, copy_ok = True, InitSQLite = Some\<rparr>"

definition plain_db :: "string \<Rightarrow> sqlite_node" where
  "plain_db f = \<lparr>sq_DB = OpenDB, sq_DBPath = ''db'', sq_file = f\<rparr>"

abbreviation "read_card \<equiv> (\<lambda>_ :: string. Some (JObj card_doc))"
abbreviation "card_names \<equiv> [''dsswres'']"
abbreviation "everywhere \<equiv> (\<lambda>(_ :: string list) (_ :: staging). True)"

lemma card_faithful: "json_faithful (card_json names)"
proof -
  have "map (json_norm \<circ> JStr) ns = map JStr ns" for ns by simp
  then show ?thesis by (simp add: json_faithful_def card_json_def manifest_json_def card_doc_def)
qed

lemma one_card_fields [simp]: "index (ix (one_card dec)) = [(''a'', ''raw'')]" "unmarshal (one_card dec) = dec" "marshal (one_card dec) = card_enc"
  by (simp_all add: one_card_def empty_store_def)

lemma card_norm: "norm_object card_doc = card_doc" by (simp add: norm_object_def card_doc_def)

lemma one_card_exportable: "exportable (one_card read_card)"
proof -
  have e: "store_inv (empty_store card_enc read_card [])" by (rule empty_store_inv)
  have "store_inv (one_card read_card)"
    using e by (auto simp: store_inv_def one_card_def empty_store_def newDocumentIndex_def cells_ok_def)
  then show ?thesis
    by (auto simp: exportable_def sound_store_def well_keyed_def content_def decoded_def card_norm)
      (simp_all add: card_doc_def)
qed

lemma card_db: "AllDocStores (stores (sample_db s)) = [(''dsswres'', \<lparr>documents = s, address = ''zdpa''\<rparr>)]"
  by (simp add: AllDocStores_def sample_db_def builtinDocStores_def live_Cons)

lemma card_live: "store_of (stores (sample_db s)) n = (if n = ''dsswres'' then Some \<lparr>documents = s, address = ''zdpa''\<rparr> else None)"
  by (simp add: sample_db_def store_of_def builtinDocStores_def live_Cons open_dynamic_def)

definition card_archive :: "entries \<Rightarrow> archive" where
  "card_archive es = \<lparr>gz_ok = True, tar_entries = (''manifest.json'', ''m'') # (''sqlite/optimusdb.db'', ''f'') # es, tail_ok = True\<rparr>"

lemma card_exported:
  "Export (card_json card_names) plain_sqlite id ''ts'' ''h'' (stores (sample_db (one_card dec))) (plain_db ''f'') =
     (case dec ''raw'' of
        Some (JObj d) \<Rightarrow> if d = card_doc then (Some (card_archive [(store_file ''dsswres'', [CHR ''x'', CHR 0x0A])]), True)
                         else (Some (card_archive []), False)
      | _ \<Rightarrow> (Some (card_archive []), False))"
  by (auto simp: Export_def card_db vacuumIntoTemp_def plain_sqlite_def plain_db_def card_json_def card_archive_def
      queryAllDocs_def store_Query_def Keys_def index_Get_def split: option.split json.split)

lemma card_extracted:
  "extractTarGz everywhere (card_archive []) = Some ((\<lambda>_. None)([''manifest.json''] \<mapsto> ''m'', [''sqlite'', ''optimusdb.db''] \<mapsto> ''f''))"
  "extractTarGz everywhere (card_archive [(store_file ''dsswres'', b)]) =
     Some ((\<lambda>_. None)([''manifest.json''] \<mapsto> ''m'', [''sqlite'', ''optimusdb.db''] \<mapsto> ''f'', [''orbitdb'', ''dsswres.jsonl''] \<mapsto> b))"
  using archive_targets(1,2) archive_targets(3)[of "''dsswres''"]
  by (simp_all add: extractTarGz_def card_archive_def slash_def)

lemma card_manifest: "fs [''manifest.json''] = Some ''m'' \<Longrightarrow> readManifest (card_json card_names) fs = Some (new_manifest ''ts'' ''h'' card_names)"
  using manifest_read[of "manifest_json (new_manifest ''ts'' ''h'' card_names)" "new_manifest ''ts'' ''h'' card_names" "card_json card_names"]
  by (simp add: readManifest_def card_json_def manifest_json_def new_manifest_def)

lemma card_put:
  "\<exists>ds. importStoreJSONL (card_json names) (Some [CHR ''x'', CHR 0x0A]) (empty_store card_enc read_card []) = ((1, True), ds)"
proof -
  obtain ds where "AddOperation (OpPut (Some ''a'') ''raw'') (empty_store card_enc read_card []) = (True, ds)"
    using AddOperation_ok[of "empty_store card_enc read_card []"] by (auto simp: empty_store_def)
  moreover have "render (empty_store card_enc read_card []) (JObj card_doc) = Some (''a'', ''raw'')"
    by (simp add: render_obj card_doc_def card_enc_def empty_store_def)
  ultimately have "store_Put (JObj card_doc) (empty_store card_enc read_card []) = (True, ds)" by (simp add: store_Put_def)
  moreover have "scan_lines max_line [CHR ''x'', CHR 0x0A] = ([''x''], True)" by (simp add: scan_lines_def max_line_def drop_cr_def Let_def)
  moreover have "gm_get card_doc ''_id'' = Some (JStr ''a'')" by (simp add: card_doc_def)
  ultimately show ?thesis by (simp add: importStoreJSONL_def card_json_def decode_struct_def card_norm)
qed

lemma card_named: "named_stores id (stores (sample_db s))" "has_stores_of (stores (sample_db s)) (stores (sample_db s'))"
  using sample_db_store(1) by (simp_all add: named_stores_def has_stores_of_def card_live slash_def)



end
