(* ===== verification/Terminal.thy ===== *)
theory Terminal
  imports Prelude
begin

text \<open>
  The terminal of the SQL console (\<open>sql/cmd/console/go_terminal.go\<close>): decoding of key sequences, editing of
  the line, the cursor on the screen, the history and the reading of queries.

  Bytes and runes are numbers.  What is written to the terminal is the list of its runes.  The console
  installs no completion callback; the lock is left out, the operations being atomic under it; writing to
  the terminal is taken to succeed.
\<close>

section \<open>Runes\<close>

definition RuneError :: nat where "RuneError = 0xFFFD"

text \<open>\<open>utf8.DecodeRune\<close> and \<open>utf8.FullRune\<close>: the length a first byte announces (0 when it is invalid) and the
  range of the second byte.\<close>

definition utf8_len :: "nat \<Rightarrow> nat" where
  "utf8_len b = (if b < 0x80 then 1 else if b < 0xC2 then 0 else if b < 0xE0 then 2 else if b < 0xF0 then 3
     else if b < 0xF5 then 4 else 0)"

definition second_ok :: "nat \<Rightarrow> nat \<Rightarrow> bool" where
  "second_ok b c \<longleftrightarrow> (if b = 0xE0 then 0xA0 else if b = 0xF0 then 0x90 else 0x80) \<le> c
     \<and> c \<le> (if b = 0xED then 0x9F else if b = 0xF4 then 0x8F else 0xBF)"

definition continuation :: "nat \<Rightarrow> bool" where
  "continuation c \<longleftrightarrow> 0x80 \<le> c \<and> c \<le> 0xBF"

definition FullRune :: "nat list \<Rightarrow> bool" where
  "FullRune b =
     (case b of
        [] \<Rightarrow> False
      | c # cs \<Rightarrow> length b \<ge> utf8_len c
          \<or> (cs \<noteq> [] \<and> \<not> second_ok c (cs ! 0)) \<or> (length cs \<ge> 2 \<and> \<not> continuation (cs ! 1)))"

text \<open>The rune and the number of bytes it takes; an invalid sequence is \<open>RuneError\<close> and one byte.\<close>

definition DecodeRune :: "nat list \<Rightarrow> nat \<times> nat" where
  "DecodeRune b =
     (case b of
        [] \<Rightarrow> (RuneError, 0)
      | c # cs \<Rightarrow>
          (let n = utf8_len c
           in if n = 1 then (c, 1)
              else if n = 0 \<or> length b < n \<or> \<not> second_ok c (cs ! 0) then (RuneError, 1)
              else if n = 2 then ((c mod 0x20) * 0x40 + cs ! 0 mod 0x40, 2)
              else if \<not> continuation (cs ! 1) then (RuneError, 1)
              else if n = 3 then (((c mod 0x10) * 0x40 + cs ! 0 mod 0x40) * 0x40 + cs ! 1 mod 0x40, 3)
              else if \<not> continuation (cs ! 2) then (RuneError, 1)
              else ((((c mod 8) * 0x40 + cs ! 0 mod 0x40) * 0x40 + cs ! 1 mod 0x40) * 0x40 + cs ! 2 mod 0x40, 4)))"

text \<open>Runes to a Go string and back: what is not a character becomes \<open>RuneError\<close>.\<close>

definition through_string :: "nat list \<Rightarrow> nat list" where
  "through_string = map (\<lambda>r. if (0xD800 \<le> r \<and> r \<le> 0xDFFF) \<or> r > 0x10FFFF then RuneError else r)"

definition rune_space :: "nat \<Rightarrow> bool" where
  "rune_space r \<longleftrightarrow> r = 32 \<or> (9 \<le> r \<and> r \<le> 13) \<or> r \<in> {0x85, 0xA0, 0x1680, 0x2028, 0x2029, 0x202F, 0x205F, 0x3000}
     \<or> (0x2000 \<le> r \<and> r \<le> 0x200A)"

definition trim_runes :: "nat list \<Rightarrow> nat list" where
  "trim_runes s = rev (dropWhile rune_space (rev (dropWhile rune_space s)))"

section \<open>Keys\<close>

definition keyCtrlC :: nat where "keyCtrlC = 3"
definition keyCtrlD :: nat where "keyCtrlD = 4"
definition keyCtrlU :: nat where "keyCtrlU = 21"
definition keyEnter :: nat where "keyEnter = 13"
definition keyEscape :: nat where "keyEscape = 27"
definition keyBackspace :: nat where "keyBackspace = 127"
definition keyUnknown :: nat where "keyUnknown = 0xD806"
definition keyUp :: nat where "keyUp = 0xD807"
definition keyDown :: nat where "keyDown = 0xD808"
definition keyLeft :: nat where "keyLeft = 0xD809"
definition keyRight :: nat where "keyRight = 0xD80A"
definition keyAltLeft :: nat where "keyAltLeft = 0xD80B"
definition keyAltRight :: nat where "keyAltRight = 0xD80C"
definition keyHome :: nat where "keyHome = 0xD80D"
definition keyEnd :: nat where "keyEnd = 0xD80E"
definition keyDeleteWord :: nat where "keyDeleteWord = 0xD80F"
definition keyDeleteLine :: nat where "keyDeleteLine = 0xD810"
definition keyClearScreen :: nat where "keyClearScreen = 0xD811"
definition keyPasteStart :: nat where "keyPasteStart = 0xD812"
definition keyPasteEnd :: nat where "keyPasteEnd = 0xD813"

lemmas key_codes = keyCtrlC_def keyCtrlD_def keyCtrlU_def keyEnter_def keyEscape_def keyBackspace_def keyUnknown_def keyUp_def
  keyDown_def keyLeft_def keyRight_def keyAltLeft_def keyAltRight_def keyHome_def keyEnd_def keyDeleteWord_def keyDeleteLine_def
  keyClearScreen_def keyPasteStart_def keyPasteEnd_def

definition control_key :: "nat \<Rightarrow> nat option" where
  "control_key c = map_of [(1, keyHome), (2, keyLeft), (5, keyEnd), (6, keyRight), (8, keyBackspace), (11, keyDeleteLine),
     (12, keyClearScreen), (23, keyDeleteWord), (14, keyDown), (16, keyUp)] c"

definition arrow_key :: "nat \<Rightarrow> nat option" where
  "arrow_key c = map_of [(65, keyUp), (66, keyDown), (67, keyRight), (68, keyLeft), (72, keyHome), (70, keyEnd)] c"

definition ends_sequence :: "nat \<Rightarrow> bool" where
  "ends_sequence c \<longleftrightarrow> (97 \<le> c \<and> c \<le> 122) \<or> (65 \<le> c \<and> c \<le> 90) \<or> c = 126"

definition pasteStart :: "nat list" where "pasteStart = [27, 91, 50, 48, 48, 126]"
definition pasteEnd :: "nat list" where "pasteEnd = [27, 91, 50, 48, 49, 126]"

definition unknown_key :: "nat list \<Rightarrow> nat \<times> nat list" where
  "unknown_key b = (case dropWhile (\<lambda>c. \<not> ends_sequence c) b of [] \<Rightarrow> (RuneError, b) | _ # rest \<Rightarrow> (keyUnknown, rest))"

definition escape_key :: "nat list \<Rightarrow> bool \<Rightarrow> nat \<times> nat list" where
  "escape_key b pasteActive =
     (if \<not> pasteActive \<and> length b \<ge> 3 \<and> b ! 1 = 91 \<and> arrow_key (b ! 2) \<noteq> None then (the (arrow_key (b ! 2)), drop 3 b)
      else if \<not> pasteActive \<and> length b \<ge> 6 \<and> take 5 b = [27, 91, 49, 59, 51] \<and> b ! 5 = 67 then (keyAltRight, drop 6 b)
      else if \<not> pasteActive \<and> length b \<ge> 6 \<and> take 5 b = [27, 91, 49, 59, 51] \<and> b ! 5 = 68 then (keyAltLeft, drop 6 b)
      else if \<not> pasteActive \<and> length b \<ge> 6 \<and> take 6 b = pasteStart then (keyPasteStart, drop 6 b)
      else if pasteActive \<and> length b \<ge> 6 \<and> take 6 b = pasteEnd then (keyPasteEnd, drop 6 b)
      else unknown_key b)"

definition bytesToKey :: "nat list \<Rightarrow> bool \<Rightarrow> nat \<times> nat list" where
  "bytesToKey b pasteActive =
     (case b of
        [] \<Rightarrow> (RuneError, [])
      | c # cs \<Rightarrow>
          if \<not> pasteActive \<and> control_key c \<noteq> None then (the (control_key c), cs)
          else if c \<noteq> keyEscape then
            (if \<not> FullRune b then (RuneError, b) else case DecodeRune b of (r, l) \<Rightarrow> (r, drop l b))
          else escape_key b pasteActive)"

section \<open>History\<close>

record ring =
  ring_entries :: "nat list list"
  ring_max :: nat
  ring_head :: nat
  ring_size :: nat

definition empty_ring :: ring where
  "empty_ring = \<lparr>ring_entries = [], ring_max = 0, ring_head = 0, ring_size = 0\<rparr>"

definition ring_Add :: "nat list \<Rightarrow> ring \<Rightarrow> ring" where
  "ring_Add a s0 =
     (let s = (if ring_entries s0 = [] then s0\<lparr>ring_entries := replicate 100 [], ring_max := 100\<rparr> else s0);
          h = (ring_head s + 1) mod ring_max s
      in s\<lparr>ring_head := h, ring_entries := (ring_entries s)[h := a],
           ring_size := (if ring_size s < ring_max s then ring_size s + 1 else ring_size s)\<rparr>)"

definition NthPreviousEntry :: "int \<Rightarrow> ring \<Rightarrow> nat list option" where
  "NthPreviousEntry n s =
     (if n < 0 \<or> n \<ge> int (ring_size s) then None
      else let i = int (ring_head s) - n
           in Some (ring_entries s ! nat (if i < 0 then i + int (ring_max s) else i)))"

section \<open>The screen\<close>

record terminal =
  prompt :: "nat list"
  line :: "nat list"
  pos :: nat
  echo :: bool
  pasteActive :: bool
  cursorX :: int
  cursorY :: int
  maxLine :: int
  termWidth :: int
  outBuf :: "nat list"
  remainder :: "nat list"
  history :: ring
  historyIndex :: int
  historyPending :: "nat list"
  posLastLF :: int
  written :: "nat list"

definition NewTerminal :: "nat list \<Rightarrow> terminal" where
  "NewTerminal p = \<lparr>prompt = p, line = [], pos = 0, echo = True, pasteActive = False, cursorX = 0, cursorY = 0, maxLine = 0,
     termWidth = 80, outBuf = [], remainder = [], history = empty_ring, historyIndex = -1, historyPending = [], posLastLF = 0,
     written = []\<rparr>"

text \<open>Go's integer division and remainder round towards zero.\<close>

definition go_div :: "int \<Rightarrow> int \<Rightarrow> int" where
  "go_div a b = (if a \<ge> 0 then a div b else - ((- a) div b))"

definition go_mod :: "int \<Rightarrow> int \<Rightarrow> int" where
  "go_mod a b = a - b * go_div a b"

definition queue :: "nat list \<Rightarrow> terminal \<Rightarrow> terminal" where
  "queue data t = t\<lparr>outBuf := outBuf t @ through_string data\<rparr>"

definition isPrintable :: "nat \<Rightarrow> bool" where
  "isPrintable key \<longleftrightarrow> key \<ge> 32 \<and> \<not> (0xD800 \<le> key \<and> key \<le> 0xDBFF)"

fun visible :: "bool \<Rightarrow> nat list \<Rightarrow> nat" where
  "visible esc [] = 0"
| "visible esc (r # rs) =
     (if esc then visible (\<not> ((97 \<le> r \<and> r \<le> 122) \<or> (65 \<le> r \<and> r \<le> 90))) rs
      else if r = 27 then visible True rs
      else Suc (visible False rs))"

definition visualLength :: "nat list \<Rightarrow> int" where
  "visualLength rs = int (visible False rs)"

definition digits_of :: "int \<Rightarrow> nat list" where
  "digits_of n = map of_char (dec_nat (nat n))"

definition move_part :: "int \<Rightarrow> nat \<Rightarrow> nat list" where
  "move_part n c = (if n = 1 then [27, 91, c] else if n > 1 then [27, 91] @ digits_of n @ [c] else [])"

definition move :: "int \<Rightarrow> int \<Rightarrow> int \<Rightarrow> int \<Rightarrow> terminal \<Rightarrow> terminal" where
  "move up down left right = queue (move_part up 65 @ move_part down 66 @ move_part right 67 @ move_part left 68)"

definition moveCursorToPos :: "nat \<Rightarrow> terminal \<Rightarrow> terminal" where
  "moveCursorToPos p t =
     (if \<not> echo t then t
      else let x0 = visualLength (prompt t) + (int p - posLastLF t);
               y = go_div x0 (termWidth t);
               x = go_mod x0 (termWidth t);
               up = (if y < cursorY t then cursorY t - y else 0);
               down0 = (if y > cursorY t then y - cursorY t else 0);
               down = (if posLastLF t > 0 then down0 + visualLength (prompt t) + go_div (int p - posLastLF t) (termWidth t) else down0);
               left = (if x < cursorX t then cursorX t - x else 0);
               right = (if x > cursorX t then x - cursorX t else 0)
           in move up down left right (t\<lparr>cursorX := x, cursorY := y\<rparr>))"

definition clearLineToRight :: "terminal \<Rightarrow> terminal" where
  "clearLineToRight = queue [27, 91, 75]"

definition advanceCursor :: "int \<Rightarrow> terminal \<Rightarrow> terminal" where
  "advanceCursor places t =
     (let x0 = cursorX t + places;
          y = cursorY t + go_div x0 (termWidth t);
          x = go_mod x0 (termWidth t);
          t1 = t\<lparr>cursorX := x, cursorY := y, maxLine := max (maxLine t) y\<rparr>
      in if places > 0 \<and> x = 0 then t1\<lparr>outBuf := outBuf t1 @ [13, 10]\<rparr> else t1)"

text \<open>\<open>writeLine\<close> writes at least one rune per round: the cursor is left of the right margin
  (\<open>screen_ok\<close> below); the case where it is not is never reached.\<close>

function writeLine :: "nat list \<Rightarrow> terminal \<Rightarrow> terminal" where
  "writeLine rs t =
     (if rs = [] then t
      else let todo = min (length rs) (nat (termWidth t - cursorX t))
           in if todo = 0 then t
              else writeLine (drop todo rs) (advanceCursor (visualLength (take todo rs)) (queue (take todo rs) t)))"
  by pat_completeness auto
termination by (relation "measure (\<lambda>(rs, t). length rs)") auto

declare writeLine.simps [simp del]

section \<open>Editing\<close>

definition maxLineLength :: nat where "maxLineLength = 4096"

definition setLine :: "nat list \<Rightarrow> nat \<Rightarrow> terminal \<Rightarrow> terminal" where
  "setLine newLine newPos t =
     (if echo t then
        moveCursorToPos newPos
          (((writeLine [32]) ^^ (length (line t) - length newLine)) (writeLine newLine (moveCursorToPos 0 t)))
      else t)\<lparr>line := newLine, pos := newPos\<rparr>"

definition eraseNPreviousChars :: "nat \<Rightarrow> terminal \<Rightarrow> terminal" where
  "eraseNPreviousChars n0 t =
     (if n0 = 0 then t
      else let n = min n0 (pos t);
               t1 = moveCursorToPos (pos t - n) (t\<lparr>pos := pos t - n\<rparr>);
               t2 = t1\<lparr>line := take (pos t1) (line t1) @ drop (n + pos t1) (line t1)\<rparr>
           in if echo t2 then
                moveCursorToPos (pos t2) (advanceCursor (int n) ((queue [32] ^^ n) (writeLine (drop (pos t2) (line t2)) t2)))
              else t2)"

fun left_spaces :: "nat list \<Rightarrow> nat \<Rightarrow> nat" where
  "left_spaces l 0 = 0"
| "left_spaces l (Suc p) = (if l ! Suc p \<noteq> 32 then Suc p else left_spaces l p)"

fun left_word :: "nat list \<Rightarrow> nat \<Rightarrow> nat" where
  "left_word l 0 = 0"
| "left_word l (Suc p) = (if l ! Suc p = 32 then Suc (Suc p) else left_word l p)"

definition countToLeftWord :: "terminal \<Rightarrow> nat" where
  "countToLeftWord t = (if pos t = 0 then 0 else pos t - left_word (line t) (left_spaces (line t) (pos t - 1)))"

definition countToRightWord :: "terminal \<Rightarrow> nat" where
  "countToRightWord t =
     (let r = drop (pos t) (line t) in length (takeWhile (\<lambda>c. c \<noteq> 32) r) + length (takeWhile (\<lambda>c. c = 32) (dropWhile (\<lambda>c. c \<noteq> 32) r)))"

definition addKeyToLine :: "nat \<Rightarrow> terminal \<Rightarrow> terminal" where
  "addKeyToLine key t =
     (let t1 = t\<lparr>line := take (pos t) (line t) @ key # drop (pos t) (line t)\<rparr>;
          t2 = (if echo t1 then writeLine (drop (pos t1) (line t1)) t1 else t1)
      in moveCursorToPos (pos t2 + 1) (t2\<lparr>pos := pos t2 + 1\<rparr>))"

definition goto_pos :: "nat \<Rightarrow> terminal \<Rightarrow> terminal" where
  "goto_pos p t = moveCursorToPos p (t\<lparr>pos := p\<rparr>)"

text \<open>The queries of a line: what ends with a semicolon, without the spaces around it.\<close>

fun split_queries :: "nat list \<Rightarrow> nat list \<Rightarrow> nat list list" where
  "split_queries acc [] = []"
| "split_queries acc (r # rs) =
     (if r = 59 then trim_runes (through_string (acc @ [r])) # split_queries [] rs else split_queries (acc @ [r]) rs)"

definition complete_line :: "nat list \<Rightarrow> bool" where
  "complete_line l = (let s = trim_runes (through_string l) in s = [] \<or> last s = 59)"

definition enter_key :: "terminal \<Rightarrow> (nat list list \<times> bool) \<times> terminal" where
  "enter_key t =
     (if complete_line (line t) then
        ((split_queries [] (line t), True),
         (queue [13, 10] (moveCursorToPos (length (line t)) t))
           \<lparr>line := [], pos := 0, cursorX := 0, cursorY := 0, maxLine := 0, posLastLF := 0\<rparr>)
      else
        (([], False),
         (queue [32] ^^ nat (visualLength (prompt t)))
           (queue [13, 10] (addKeyToLine 32 (t\<lparr>posLastLF := int (pos t), cursorX := 0\<rparr>)))))"

definition up_key :: "terminal \<Rightarrow> terminal" where
  "up_key t =
     (case NthPreviousEntry (historyIndex t + 1) (history t) of
        None \<Rightarrow> t
      | Some entry \<Rightarrow>
          setLine entry (length entry)
            (t\<lparr>historyPending := (if historyIndex t = -1 then through_string (line t) else historyPending t),
               historyIndex := historyIndex t + 1\<rparr>))"

definition down_key :: "terminal \<Rightarrow> terminal" where
  "down_key t =
     (if historyIndex t = -1 then t
      else if historyIndex t = 0 then (setLine (historyPending t) (length (historyPending t)) t)\<lparr>historyIndex := -1\<rparr>
      else case NthPreviousEntry (historyIndex t - 1) (history t) of
             None \<Rightarrow> t
           | Some entry \<Rightarrow> setLine entry (length entry) (t\<lparr>historyIndex := historyIndex t - 1\<rparr>))"

definition clear_screen :: "terminal \<Rightarrow> terminal" where
  "clear_screen t =
     (let t1 = (queue (prompt t) (queue [27, 91, 50, 74, 27, 91, 72] t))\<lparr>cursorX := 0, cursorY := 0\<rparr>;
          t2 = advanceCursor (visualLength (prompt t1)) t1
      in setLine (line t2) (pos t2) t2)"

definition delete_line :: "terminal \<Rightarrow> terminal" where
  "delete_line t =
     (let t1 = ((\<lambda>t. advanceCursor 1 (queue [32] t)) ^^ (length (line t) - pos t)) t
      in moveCursorToPos (pos t1) (t1\<lparr>line := take (pos t1) (line t1)\<rparr>))"

definition edit_key :: "nat \<Rightarrow> terminal \<Rightarrow> terminal" where
  "edit_key key t =
     (if key = keyBackspace then (if pos t = 0 then t else eraseNPreviousChars 1 t)
      else if key = keyAltLeft then goto_pos (pos t - countToLeftWord t) t
      else if key = keyAltRight then goto_pos (pos t + countToRightWord t) t
      else if key = keyLeft then (if pos t = 0 then t else goto_pos (pos t - 1) t)
      else if key = keyRight then (if pos t = length (line t) then t else goto_pos (pos t + 1) t)
      else if key = keyHome then (if pos t = 0 then t else goto_pos 0 t)
      else if key = keyEnd then (if pos t = length (line t) then t else goto_pos (length (line t)) t)
      else if key = keyUp then up_key t
      else if key = keyDown then down_key t
      else if key = keyDeleteWord then eraseNPreviousChars (countToLeftWord t) t
      else if key = keyDeleteLine then delete_line t
      else if key = keyCtrlD then (if pos t < length (line t) then eraseNPreviousChars 1 (t\<lparr>pos := pos t + 1\<rparr>) else t)
      else if key = keyCtrlU then eraseNPreviousChars (pos t) t
      else if key = keyClearScreen then clear_screen t
      else if \<not> isPrintable key \<or> length (line t) = maxLineLength then t
      else addKeyToLine key t)"

definition handleKey :: "nat \<Rightarrow> terminal \<Rightarrow> (nat list list \<times> bool) \<times> terminal" where
  "handleKey key t =
     (if pasteActive t \<and> key \<noteq> keyEnter then (([], False), addKeyToLine key t)
      else if key = keyEnter then enter_key t
      else (([], False), edit_key key t))"

section \<open>Reading a line\<close>

lemma drop_after_while: "dropWhile P b = c # rest \<Longrightarrow> length rest < length b"
  using length_dropWhile_le[of P b] by simp

lemma unknown_key_shorter: "unknown_key b = (key, rest) \<Longrightarrow> key \<noteq> RuneError \<Longrightarrow> length rest < length b"
  by (auto simp: unknown_key_def split: list.splits dest: drop_after_while)

lemma escape_key_shorter: "escape_key b p = (key, rest) \<Longrightarrow> key \<noteq> RuneError \<Longrightarrow> length rest < length b"
  by (auto simp: escape_key_def dest: unknown_key_shorter split: if_splits)

lemma DecodeRune_taken: "b \<noteq> [] \<Longrightarrow> 0 < snd (DecodeRune b)"
  by (cases b) (simp_all add: DecodeRune_def Let_def)

text \<open>Every key takes at least one byte.\<close>

lemma bytesToKey_shorter: "bytesToKey b p = (key, rest) \<Longrightarrow> key \<noteq> RuneError \<Longrightarrow> length rest < length b"
  using DecodeRune_taken[of b]
  by (cases b) (auto simp: bytesToKey_def split: if_splits prod.splits dest: escape_key_shorter)

datatype key_result = NeedMore | EndOfInput | Queries "nat list list"

text \<open>The keys of the bytes at hand; the flag says whether the line is pasted.\<close>

function process_keys :: "terminal \<Rightarrow> bool \<Rightarrow> nat list \<Rightarrow> key_result \<times> terminal \<times> bool \<times> nat list" where
  "process_keys t pasted b =
     (case bytesToKey b (pasteActive t) of
        (key, rest) \<Rightarrow>
          if key = RuneError then (NeedMore, t, pasted, rest)
          else if \<not> pasteActive t \<and> (key = keyCtrlD \<and> line t = [] \<or> key = keyCtrlC) then (EndOfInput, t, pasted, rest)
          else if \<not> pasteActive t \<and> key = keyPasteStart then
            process_keys (t\<lparr>pasteActive := True\<rparr>) (pasted \<or> line t = []) rest
          else if pasteActive t \<and> key = keyPasteEnd then process_keys (t\<lparr>pasteActive := False\<rparr>) pasted rest
          else (case handleKey key t of
            ((qs, ok), t1) \<Rightarrow>
              (if ok then (Queries qs, t1, pasted \<and> pasteActive t, rest) else process_keys t1 (pasted \<and> pasteActive t) rest)))"
  by pat_completeness auto
termination
  by (relation "measure (\<lambda>(t, pasted, b). length b)") (auto dest: bytesToKey_shorter[OF sym])

declare process_keys.simps [simp del]

definition flush :: "terminal \<Rightarrow> terminal" where
  "flush t = t\<lparr>written := written t @ outBuf t, outBuf := []\<rparr>"

definition remember :: "nat list list \<Rightarrow> terminal \<Rightarrow> terminal" where
  "remember qs t = (if echo t then fold (\<lambda>q t. t\<lparr>historyIndex := -1, history := ring_Add q (history t)\<rparr>) qs t else t)"

datatype line_result =
    Line "nat list list" bool
  | Closed
  | ReadError

text \<open>\<open>readLine\<close>: the input buffer has 256 bytes, part of which a partial key sequence may fill; a read takes what
  fits of the bytes that are there, and nothing, without waiting, when no room is left.  \<open>None\<close> when the fuel is not enough.\<close>

definition inBuf_size :: nat where "inBuf_size = 256"

fun read_loop :: "nat \<Rightarrow> nat list list \<Rightarrow> terminal \<Rightarrow> bool \<Rightarrow> (line_result \<times> terminal \<times> nat list list) option" where
  "read_loop 0 chunks t pasted = None"
| "read_loop (Suc fuel) chunks t pasted =
     (case process_keys t pasted (remainder t) of
        (EndOfInput, t1, p, rest) \<Rightarrow> Some (Closed, t1, chunks)
      | (Queries qs, t1, p, rest) \<Rightarrow>
          Some (Line qs p, remember qs (flush (t1\<lparr>remainder := take inBuf_size rest\<rparr>)), chunks)
      | (NeedMore, t1, p, rest) \<Rightarrow>
          (let t2 = flush (t1\<lparr>remainder := take inBuf_size rest\<rparr>);
               room = inBuf_size - length (remainder t2)
           in if room = 0 then read_loop fuel chunks t2 p
              else case chunks of
                     [] \<Rightarrow> Some (ReadError, t2, [])
                   | c # cs \<Rightarrow>
                       read_loop fuel (if room < length c then drop room c # cs else cs)
                         (t2\<lparr>remainder := remainder t2 @ take room c\<rparr>) p))"

definition readLine :: "nat \<Rightarrow> nat list list \<Rightarrow> terminal \<Rightarrow> (line_result \<times> terminal \<times> nat list list) option" where
  "readLine fuel chunks t =
     (let t1 = (if cursorX t = 0 \<and> cursorY t = 0 then flush (writeLine (prompt t) t) else t)
      in read_loop fuel chunks t1 (pasteActive t1))"

section \<open>Writing beside the line\<close>

definition with_crlf :: "nat list \<Rightarrow> nat list" where
  "with_crlf buf = concat (map (\<lambda>b. if b = 10 then [13, 10] else [b]) buf)"

fun clear_up :: "nat \<Rightarrow> terminal \<Rightarrow> terminal" where
  "clear_up 0 t = t"
| "clear_up (Suc n) t = clear_up n (clearLineToRight ((move 1 0 0 0 t)\<lparr>cursorY := cursorY t - 1\<rparr>))"

definition terminal_Write :: "nat list \<Rightarrow> terminal \<Rightarrow> terminal" where
  "terminal_Write buf t =
     (if cursorX t = 0 \<and> cursorY t = 0 then t\<lparr>written := written t @ with_crlf buf\<rparr>
      else let t1 = clearLineToRight ((move 0 0 (cursorX t) 0 t)\<lparr>cursorX := 0\<rparr>);
               t2 = flush (clear_up (nat (cursorY t1)) t1);
               t3 = writeLine (prompt t2) (t2\<lparr>written := written t2 @ with_crlf buf\<rparr>);
               t4 = (if echo t3 then writeLine (line t3) t3 else t3)
           in flush (moveCursorToPos (pos t4) t4))"

fun clear_down :: "nat \<Rightarrow> terminal \<Rightarrow> terminal" where
  "clear_down 0 t = t"
| "clear_down (Suc n) t = clear_down n (clearLineToRight ((move 0 1 0 0 t)\<lparr>cursorY := cursorY t + 1\<rparr>))"

definition clearAndRepaintLinePlusNPrevious :: "nat \<Rightarrow> terminal \<Rightarrow> terminal" where
  "clearAndRepaintLinePlusNPrevious n t =
     (let t1 = clearLineToRight ((move (cursorY t) 0 (cursorX t) 0 t)\<lparr>cursorX := 0, cursorY := 0\<rparr>);
          t2 = clear_down n t1;
          t3 = (move (cursorY t2) 0 0 0 t2)\<lparr>cursorX := 0, cursorY := 0\<rparr>;
          t4 = advanceCursor (visualLength (prompt t3)) (queue (prompt t3) t3)
      in moveCursorToPos (pos t4) (writeLine (line t4) t4))"

definition SetPrompt :: "nat list \<Rightarrow> terminal \<Rightarrow> terminal" where
  "SetPrompt p t = t\<lparr>prompt := p\<rparr>"

definition SetBracketedPasteMode :: "bool \<Rightarrow> terminal \<Rightarrow> terminal" where
  "SetBracketedPasteMode on t =
     t\<lparr>written := written t @ [27, 91, 63, 50, 48, 48, 52] @ (if on then [104] else [108])\<rparr>"

end
