(* ===== verification/TerminalFacts.thy ===== *)
theory TerminalFacts
  imports Terminal
begin

text \<open>
  Properties of the console's terminal: the cursor stays on the line and on the screen, editing is editing
  of the text left and right of the cursor, the history is a list of the last hundred queries, and the
  queries of a line.
\<close>

section \<open>The cursor stays on the screen\<close>

definition screen_ok :: "terminal \<Rightarrow> bool" where
  "screen_ok t \<longleftrightarrow> 0 < termWidth t \<and> cursorX t < termWidth t \<and> pos t \<le> length (line t)"

text \<open>What moving and writing leave alone.\<close>

definition same_text :: "terminal \<Rightarrow> terminal \<Rightarrow> bool" where
  "same_text t t' \<longleftrightarrow> line t' = line t \<and> pos t' = pos t \<and> termWidth t' = termWidth t \<and> echo t' = echo t \<and> prompt t' = prompt t
     \<and> history t' = history t \<and> historyIndex t' = historyIndex t \<and> historyPending t' = historyPending t
     \<and> pasteActive t' = pasteActive t \<and> remainder t' = remainder t \<and> posLastLF t' = posLastLF t
     \<and> (cursorX t < termWidth t \<and> 0 < termWidth t \<longrightarrow> cursorX t' < termWidth t)"

lemma same_refl [simp]: "same_text t t"
  by (simp add: same_text_def)

lemma same_trans: "same_text t t1 \<Longrightarrow> same_text t1 t2 \<Longrightarrow> same_text t t2"
  by (auto simp: same_text_def)

lemma same_texts: "(\<And>t. same_text t (f t)) \<Longrightarrow> same_text t ((f ^^ n) t)"
  by (induction n) (auto intro: same_trans)

lemma go_mod_less: "0 < b \<Longrightarrow> go_mod a b < b"
proof (cases "a \<ge> 0")
  case True
  assume "0 < b"
  moreover have "a - b * (a div b) = a mod b" by (simp add: minus_mult_div_eq_mod)
  ultimately show ?thesis using True by (simp add: go_mod_def go_div_def)
next
  case False
  assume b: "0 < b"
  have "a + b * ((- a) div b) = - ((- a) mod b)" by (simp add: minus_mult_div_eq_mod[symmetric] algebra_simps)
  then have "go_mod a b \<le> 0" using False b by (simp add: go_mod_def go_div_def)
  then show ?thesis using b by simp
qed

lemma same_queue [simp]: "same_text t (queue d t)"
  by (simp add: same_text_def queue_def)

lemma same_move [simp]: "same_text t (move u d l r t)"
  by (simp add: move_def)

lemma same_moveCursor [simp]: "same_text t (moveCursorToPos p t)"
  by (simp add: same_text_def moveCursorToPos_def Let_def move_def queue_def go_mod_less)

lemma same_advance [simp]: "same_text t (advanceCursor n t)"
  by (simp add: same_text_def advanceCursor_def Let_def go_mod_less)

definition chunk :: "nat list \<Rightarrow> terminal \<Rightarrow> nat" where
  "chunk rs t = min (length rs) (nat (termWidth t - cursorX t))"

lemma writeLine_eq:
  "writeLine rs t = (if rs = [] \<or> chunk rs t = 0 then t
     else writeLine (drop (chunk rs t) rs) (advanceCursor (visualLength (take (chunk rs t) rs)) (queue (take (chunk rs t) rs) t)))"
  by (subst writeLine.simps, simp only: Let_def chunk_def[symmetric], simp)

lemma same_writeLine [simp]: "same_text t (writeLine rs t)"
proof (induction "length rs" arbitrary: rs t rule: less_induct)
  case less
  show ?case
  proof (cases "rs = [] \<or> chunk rs t = 0")
    case True
    then show ?thesis by (subst writeLine_eq) simp
  next
    case False
    let ?n = "chunk rs t"
    have "length (drop ?n rs) < length rs" using False by simp
    from less[OF this, of "advanceCursor (visualLength (take ?n rs)) (queue (take ?n rs) t)"] same_trans[OF same_queue same_advance] False
    show ?thesis by (subst writeLine_eq) (auto intro: same_trans)
  qed
qed

lemma same_flush [simp]: "same_text t (flush t)"
  by (simp add: same_text_def flush_def)

text \<open>On the screen, writing a line writes all of it: the guard of \<open>writeLine\<close> is never reached.\<close>

lemma writeLine_whole:
  "0 < termWidth t \<Longrightarrow> cursorX t < termWidth t \<Longrightarrow>
   filter (\<lambda>r. r \<noteq> 13 \<and> r \<noteq> 10) (outBuf (writeLine rs t))
     = filter (\<lambda>r. r \<noteq> 13 \<and> r \<noteq> 10) (outBuf t @ through_string rs)"
proof (induction "length rs" arbitrary: rs t rule: less_induct)
  case less
  show ?case
  proof (cases "rs = []")
    case True
    then show ?thesis by (simp add: writeLine_eq through_string_def)
  next
    case False
    let ?n = "chunk rs t"
    let ?t = "advanceCursor (visualLength (take ?n rs)) (queue (take ?n rs) t)"
    have n: "?n \<noteq> 0" using False less.prems by (simp add: chunk_def)
    have s: "same_text t ?t" using same_trans[OF same_queue same_advance] by blast
    then have w: "0 < termWidth ?t" "cursorX ?t < termWidth ?t" using less.prems by (simp_all add: same_text_def)
    have out: "filter (\<lambda>r. r \<noteq> 13 \<and> r \<noteq> 10) (outBuf ?t) = filter (\<lambda>r. r \<noteq> 13 \<and> r \<noteq> 10) (outBuf t @ through_string (take ?n rs))"
      by (simp add: advanceCursor_def queue_def Let_def)
    have all: "through_string rs = through_string (take ?n rs) @ through_string (drop ?n rs)"
      unfolding through_string_def map_append[symmetric] by simp
    have eq: "writeLine rs t = writeLine (drop ?n rs) ?t" using False n by (subst writeLine_eq) simp
    have "length (drop ?n rs) < length rs" using False n by simp
    from less.hyps[OF this w] show ?thesis unfolding eq by (simp only: filter_append out all append_assoc)
  qed
qed

section \<open>Editing\<close>

text \<open>The line as the text left of the cursor and the text right of it.\<close>

definition left_of :: "terminal \<Rightarrow> nat list" where "left_of t = take (pos t) (line t)"
definition right_of :: "terminal \<Rightarrow> nat list" where "right_of t = drop (pos t) (line t)"

lemma same_sides: "same_text t t' \<Longrightarrow> left_of t' = left_of t \<and> right_of t' = right_of t"
  by (simp add: same_text_def left_of_def right_of_def)

lemma line_sides: "line t = left_of t @ right_of t"
  by (simp add: left_of_def right_of_def)

lemma addKey_effect:
  "\<exists>t1. same_text (t\<lparr>line := left_of t @ key # right_of t, pos := pos t + 1\<rparr>) t1 \<and> addKeyToLine key t = t1"
proof -
  let ?t1 = "t\<lparr>line := take (pos t) (line t) @ key # drop (pos t) (line t)\<rparr>"
  let ?t2 = "if echo ?t1 then writeLine (drop (pos ?t1) (line ?t1)) ?t1 else ?t1"
  have "same_text ?t1 ?t2" by simp
  then have "same_text (?t1\<lparr>pos := pos t + 1\<rparr>) (?t2\<lparr>pos := pos ?t2 + 1\<rparr>)" by (simp add: same_text_def)
  from same_trans[OF this same_moveCursor] show ?thesis by (auto simp: addKeyToLine_def Let_def left_of_def right_of_def)
qed

lemma setLine_effect: "\<exists>t1. same_text (t\<lparr>line := l, pos := p\<rparr>) t1 \<and> setLine l p t = t1"
proof -
  have a: "same_text t (moveCursorToPos p (((writeLine [32]) ^^ k) (writeLine l (moveCursorToPos 0 t))))" for k
    by (rule same_trans[OF same_trans[OF same_trans[OF same_moveCursor same_writeLine] same_texts] same_moveCursor]) simp
  have "same_text (t\<lparr>line := l, pos := p\<rparr>) (setLine l p t)"
    using a by (auto simp: setLine_def same_text_def)
  then show ?thesis by blast
qed

lemma erase_effect:
  assumes "pos t \<le> length (line t)"
  shows "\<exists>t1. same_text (t\<lparr>line := take (pos t - n) (line t) @ right_of t, pos := pos t - n\<rparr>) t1 \<and> eraseNPreviousChars n t = t1"
proof (cases "n = 0")
  case True
  then show ?thesis by (intro exI[of _ t]) (simp add: eraseNPreviousChars_def same_text_def left_of_def right_of_def)
next
  case False
  let ?n = "min n (pos t)"
  have pn: "pos t - ?n = pos t - n" "?n + (pos t - n) = pos t" by auto
  let ?t1 = "moveCursorToPos (pos t - ?n) (t\<lparr>pos := pos t - ?n\<rparr>)"
  let ?t2 = "?t1\<lparr>line := take (pos ?t1) (line ?t1) @ drop (?n + pos ?t1) (line ?t1)\<rparr>"
  have "same_text (t\<lparr>pos := pos t - ?n\<rparr>) ?t1" by simp
  then have t2: "same_text (t\<lparr>line := take (pos t - n) (line t) @ right_of t, pos := pos t - n\<rparr>) ?t2"
    by (simp add: same_text_def right_of_def pn)
  have "same_text ?t2 (moveCursorToPos (pos ?t2) (advanceCursor (int ?n) ((queue [32] ^^ ?n) (writeLine (drop (pos ?t2) (line ?t2)) ?t2))))"
    by (rule same_trans[OF same_trans[OF same_trans[OF same_writeLine same_texts] same_advance] same_moveCursor]) simp
  then have "same_text ?t2 (eraseNPreviousChars n t)" using False by (simp add: eraseNPreviousChars_def Let_def)
  from same_trans[OF t2 this] show ?thesis by blast
qed

lemma deleteLine_effect:
  assumes "pos t \<le> length (line t)"
  shows "\<exists>t1. same_text (t\<lparr>line := left_of t\<rparr>) t1 \<and> delete_line t = t1"
proof -
  let ?t1 = "((\<lambda>t. advanceCursor 1 (queue [32] t)) ^^ (length (line t) - pos t)) t"
  have "same_text t ?t1" by (rule same_texts) (rule same_trans[OF same_queue same_advance])
  then have "same_text (t\<lparr>line := left_of t\<rparr>) (?t1\<lparr>line := take (pos ?t1) (line ?t1)\<rparr>)" by (simp add: same_text_def left_of_def)
  from same_trans[OF this same_moveCursor] show ?thesis by (auto simp: delete_line_def Let_def)
qed

text \<open>The specification of the keys that edit: a text on both sides of the cursor.  A word is left with the
  spaces before it, except a single space at the start of the line.\<close>

definition word_left :: "nat list \<Rightarrow> nat list" where
  "word_left l =
     (let w = rev (dropWhile (\<lambda>c. c \<noteq> 32) (dropWhile (\<lambda>c. c = 32) (rev l))) in if w = [32] then [] else w)"

fun edit_spec :: "nat \<Rightarrow> nat list \<times> nat list \<Rightarrow> nat list \<times> nat list" where
  "edit_spec key (l, r) =
     (if key = keyBackspace then (butlast l, r)
      else if key = keyLeft then (if l = [] then (l, r) else (butlast l, last l # r))
      else if key = keyRight then (case r of [] \<Rightarrow> (l, r) | c # cs \<Rightarrow> (l @ [c], cs))
      else if key = keyHome then ([], l @ r)
      else if key = keyEnd then (l @ r, [])
      else if key = keyDeleteWord then (word_left l, r)
      else if key = keyAltLeft then (word_left l, drop (length (word_left l)) l @ r)
      else if key = keyAltRight then (l @ takeWhile (\<lambda>c. c \<noteq> 32) r @ takeWhile (\<lambda>c. c = 32) (dropWhile (\<lambda>c. c \<noteq> 32) r),
                                      dropWhile (\<lambda>c. c = 32) (dropWhile (\<lambda>c. c \<noteq> 32) r))
      else if key = keyDeleteLine then (l, [])
      else if key = keyCtrlD then (l, tl r)
      else if key = keyCtrlU then ([], r)
      else if key = keyClearScreen \<or> \<not> isPrintable key \<or> length (l @ r) = maxLineLength then (l, r)
      else (l @ [key], r))"

lemma left_spaces_le: "left_spaces l p \<le> p"
  by (induction l p rule: left_spaces.induct) auto

lemma left_word_le: "left_word l p \<le> Suc p"
  by (induction l p rule: left_word.induct) auto

text \<open>The two loops of \<open>countToLeftWord\<close> on the text left of the cursor.\<close>

definition unspaced :: "nat list \<Rightarrow> nat list" where
  "unspaced w = (if w = [32] then [] else w)"

lemma left_word_prefix:
  "p < length l \<Longrightarrow> take (left_word l p) l = unspaced (rev (dropWhile (\<lambda>c. c \<noteq> 32) (rev (take (Suc p) l))))"
proof (induction p)
  case 0
  then show ?case by (cases l) (auto simp: unspaced_def)
next
  case (Suc p)
  have "length (take (Suc p) l) = Suc p" using Suc.prems by simp
  then have "take (Suc p) l @ [32] \<noteq> [32]" by (metis append_self_conv2 list.size(3) nat.distinct(1))
  then show ?case using Suc by (auto simp: take_Suc_conv_app_nth[of "Suc p"] unspaced_def simp del: take_Suc_Cons split: if_splits)
qed

lemma left_spaces_prefix:
  "p < length l \<Longrightarrow> dropWhile (\<lambda>c. c = 32) (rev (take (Suc p) l)) = rev (take (Suc (left_spaces l p)) l)
     \<or> left_spaces l p = 0 \<and> dropWhile (\<lambda>c. c = 32) (rev (take (Suc p) l)) = []"
proof (induction p)
  case 0
  then show ?case by (cases l) auto
next
  case (Suc p)
  then show ?case by (auto simp: take_Suc_conv_app_nth[of "Suc p"] simp del: take_Suc_Cons)
qed

lemma word_left_loops:
  assumes "p < length l"
  shows "take (left_word l (left_spaces l p)) l = word_left (take (Suc p) l)"
proof -
  have le: "left_spaces l p < length l" using left_spaces_le[of l p] assms by simp
  from left_spaces_prefix[OF assms] show ?thesis
  proof
    assume "dropWhile (\<lambda>c. c = 32) (rev (take (Suc p) l)) = rev (take (Suc (left_spaces l p)) l)"
    then show ?thesis using left_word_prefix[OF le] by (simp add: word_left_def unspaced_def Let_def)
  next
    assume *: "left_spaces l p = 0 \<and> dropWhile (\<lambda>c. c = 32) (rev (take (Suc p) l)) = []"
    then have "word_left (take (Suc p) l) = []" by (simp only: word_left_def dropWhile.simps rev.simps Let_def if_cancel)
    with * show ?thesis by simp
  qed
qed

lemma countToLeftWord_spec:
  assumes "pos t \<le> length (line t)"
  shows "countToLeftWord t \<le> pos t" and "take (pos t - countToLeftWord t) (line t) = word_left (left_of t)"
proof -
  show "countToLeftWord t \<le> pos t" by (simp add: countToLeftWord_def)
  show "take (pos t - countToLeftWord t) (line t) = word_left (left_of t)"
  proof (cases "pos t")
    case 0
    then show ?thesis by (simp add: countToLeftWord_def left_of_def word_left_def)
  next
    case (Suc p)
    have p: "p < length (line t)" using assms Suc by simp
    have "left_word (line t) (left_spaces (line t) p) \<le> Suc p"
      using left_word_le[of "line t" "left_spaces (line t) p"] left_spaces_le[of "line t" p] by simp
    then show ?thesis using word_left_loops[OF p] Suc by (simp add: countToLeftWord_def left_of_def)
  qed
qed

lemma countToRightWord_spec:
  assumes "pos t \<le> length (line t)"
  defines "r \<equiv> right_of t"
  shows "pos t + countToRightWord t \<le> length (line t)"
    and "take (pos t + countToRightWord t) (line t) = left_of t @ takeWhile (\<lambda>c. c \<noteq> 32) r @ takeWhile (\<lambda>c. c = 32) (dropWhile (\<lambda>c. c \<noteq> 32) r)"
    and "drop (pos t + countToRightWord t) (line t) = dropWhile (\<lambda>c. c = 32) (dropWhile (\<lambda>c. c \<noteq> 32) r)"
proof -
  define a where "a = takeWhile (\<lambda>c. c \<noteq> 32) r"
  define b where "b = takeWhile (\<lambda>c. c = 32) (dropWhile (\<lambda>c. c \<noteq> 32) r)"
  define c where "c = dropWhile (\<lambda>c. c = 32) (dropWhile (\<lambda>c. c \<noteq> 32) r)"
  have r: "r = a @ b @ c" by (simp add: a_def b_def c_def)
  have l: "line t = left_of t @ a @ b @ c" using line_sides[of t] r by (simp add: r_def)
  have n: "length (left_of t) = pos t" using assms(1) by (simp add: left_of_def)
  have k: "countToRightWord t = length a + length b" by (simp add: countToRightWord_def Let_def a_def b_def r_def right_of_def)
  show "pos t + countToRightWord t \<le> length (line t)" by (subst l) (simp add: k n)
  have "pos t + countToRightWord t = length (left_of t @ a @ b)" by (simp add: k n)
  then have "take (pos t + countToRightWord t) (line t) = left_of t @ a @ b \<and> drop (pos t + countToRightWord t) (line t) = c"
    using l by (metis append.assoc append_eq_conv_conj)
  then show "take (pos t + countToRightWord t) (line t) = left_of t @ takeWhile (\<lambda>c. c \<noteq> 32) r @ takeWhile (\<lambda>c. c = 32) (dropWhile (\<lambda>c. c \<noteq> 32) r)"
    "drop (pos t + countToRightWord t) (line t) = dropWhile (\<lambda>c. c = 32) (dropWhile (\<lambda>c. c \<noteq> 32) r)"
    by (simp_all add: a_def b_def c_def)
qed

lemma goto_effect: "same_text (t\<lparr>pos := p\<rparr>) (goto_pos p t)"
  by (simp add: goto_pos_def)

text \<open>Any key but enter and the history keys, as a change of the line and the position.\<close>

lemma edit_key_effect:
  assumes "pos t \<le> length (line t)" and "key \<notin> {keyUp, keyDown}"
  shows "\<exists>l p. same_text (t\<lparr>line := l, pos := p\<rparr>) (edit_key key t) \<and> p \<le> length l
    \<and> (take p l, drop p l) = edit_spec key (left_of t, right_of t)"
proof -
  let ?l = "left_of t" and ?r = "right_of t"
  have id: "t = t\<lparr>line := line t, pos := pos t\<rparr>" by simp
  have n: "length ?l = pos t" "line t = ?l @ ?r" using assms(1) by (simp_all add: left_of_def right_of_def)
  have sides: "take (pos t) (line t) = ?l" "drop (pos t) (line t) = ?r" by (simp_all add: left_of_def right_of_def)
  have unchanged: ?thesis if "edit_key key t = t" "edit_spec key (?l, ?r) = (?l, ?r)"
    using that assms(1) by (intro exI[of _ "line t"] exI[of _ "pos t"]) (simp add: sides)
  have moved: ?thesis if "edit_key key t = goto_pos p t" "p \<le> length (line t)" "edit_spec key (?l, ?r) = (take p (line t), drop p (line t))" for p
    using that goto_effect[where t=t and p=p] by (intro exI[of _ "line t"] exI[of _ p]) simp
  have erased: ?thesis if "edit_key key t = eraseNPreviousChars k t" "edit_spec key (?l, ?r) = (take (pos t - k) (line t), ?r)" for k
    using that erase_effect[where t=t and n=k] assms(1)
    by (intro exI[of _ "take (pos t - k) (line t) @ ?r"] exI[of _ "pos t - k"]) auto
  consider "key = keyBackspace" | "key = keyAltLeft" | "key = keyAltRight" | "key = keyLeft" | "key = keyRight" | "key = keyHome"
    | "key = keyEnd" | "key = keyDeleteWord" | "key = keyDeleteLine" | "key = keyCtrlD" | "key = keyCtrlU" | "key = keyClearScreen"
    | "key \<notin> {keyBackspace, keyAltLeft, keyAltRight, keyLeft, keyRight, keyHome, keyEnd, keyDeleteWord, keyDeleteLine, keyCtrlD, keyCtrlU, keyClearScreen}"
    by blast
  then show ?thesis
  proof cases
    case 1
    show ?thesis
    proof (cases "pos t = 0")
      case True
      then show ?thesis using 1 by (intro unchanged) (simp_all add: edit_key_def left_of_def)
    next
      case False
      have "butlast ?l = take (pos t - 1) (line t)" using n(1) by (simp add: butlast_conv_take left_of_def)
      then show ?thesis using 1 False by (intro erased[of 1]) (simp_all add: edit_key_def)
    qed
  next
    case 2
    note w = countToLeftWord_spec[OF assms(1)]
    show ?thesis
    proof (rule moved)
      show "edit_key key t = goto_pos (pos t - countToLeftWord t) t" using 2 by (simp add: edit_key_def key_codes)
      have "length (word_left ?l) = pos t - countToLeftWord t" unfolding w(2)[symmetric] using assms(1) by simp
      then show "edit_spec key (?l, ?r) = (take (pos t - countToLeftWord t) (line t), drop (pos t - countToLeftWord t) (line t))"
        using 2 w(2) n by (simp add: key_codes)
    qed (use assms(1) in simp)
  next
    case 3
    note w = countToRightWord_spec[OF assms(1)]
    show ?thesis
      by (rule moved[OF _ w(1)]) (use 3 w(2,3) in \<open>simp_all add: edit_key_def key_codes\<close>)
  next
    case 4
    show ?thesis
    proof (cases "pos t = 0")
      case True
      then show ?thesis using 4 by (intro unchanged) (simp_all add: edit_key_def key_codes left_of_def)
    next
      case False
      then have "?l \<noteq> []" using n(1) by auto
      then have "line t = butlast ?l @ last ?l # ?r" "length (butlast ?l) = pos t - 1" using n by simp_all
      then have "take (pos t - 1) (line t) = butlast ?l" "drop (pos t - 1) (line t) = last ?l # ?r" by (metis append_eq_conv_conj)+
      then show ?thesis using 4 False \<open>?l \<noteq> []\<close> assms(1) by (intro moved[of "pos t - 1"]) (simp_all add: edit_key_def key_codes)
    qed
  next
    case 5
    show ?thesis
    proof (cases ?r)
      case Nil
      then show ?thesis using 5 n by (intro unchanged) (simp_all add: edit_key_def key_codes)
    next
      case (Cons c cs)
      then have "line t = (?l @ [c]) @ cs" "length (?l @ [c]) = pos t + 1" "pos t \<noteq> length (line t)" "pos t + 1 \<le> length (line t)" using n by simp_all
      moreover from this have "take (pos t + 1) (line t) = ?l @ [c]" "drop (pos t + 1) (line t) = cs" by (metis append_eq_conv_conj)+
      ultimately show ?thesis using 5 Cons by (intro moved[of "pos t + 1"]) (simp_all add: edit_key_def key_codes)
    qed
  next
    case 6
    show ?thesis
    proof (cases "pos t = 0")
      case True
      then show ?thesis using 6 by (intro unchanged) (simp_all add: edit_key_def key_codes left_of_def right_of_def)
    next
      case False
      then show ?thesis using 6 n by (intro moved[of 0]) (simp_all add: edit_key_def key_codes)
    qed
  next
    case 7
    show ?thesis
    proof (cases "pos t = length (line t)")
      case True
      then show ?thesis using 7 by (intro unchanged) (simp_all add: edit_key_def key_codes left_of_def right_of_def)
    next
      case False
      then show ?thesis using 7 n by (intro moved[of "length (line t)"]) (simp_all add: edit_key_def key_codes)
    qed
  next
    case 8
    show ?thesis
      by (rule erased[of "countToLeftWord t"]) (use 8 countToLeftWord_spec[OF assms(1)] in \<open>simp_all add: edit_key_def key_codes\<close>)
  next
    case 9
    have "same_text (t\<lparr>line := ?l\<rparr>) (delete_line t)" using deleteLine_effect[OF assms(1)] by blast
    then show ?thesis using 9 n
      by (intro exI[of _ ?l] exI[of _ "pos t"]) (simp add: edit_key_def key_codes)
  next
    case 10
    show ?thesis
    proof (cases ?r)
      case Nil
      then show ?thesis using 10 n by (intro unchanged) (simp_all add: edit_key_def key_codes)
    next
      case (Cons c cs)
      then have lt: "pos t < length (line t)" using n by simp
      let ?t = "t\<lparr>pos := pos t + 1\<rparr>"
      have "right_of ?t = cs" using Cons by (simp add: right_of_def drop_Suc tl_drop[symmetric])
      then have "same_text (t\<lparr>line := ?l @ cs, pos := pos t\<rparr>) (eraseNPreviousChars 1 ?t)"
        using erase_effect[of ?t 1] lt by (simp add: left_of_def)
      then show ?thesis using 10 lt n Cons
        by (intro exI[of _ "?l @ cs"] exI[of _ "pos t"]) (simp add: edit_key_def key_codes)
    qed
  next
    case 11
    show ?thesis by (rule erased[of "pos t"]) (use 11 in \<open>simp_all add: edit_key_def key_codes\<close>)
  next
    case 12
    let ?t1 = "(queue (prompt t) (queue [27, 91, 50, 74, 27, 91, 72] t))\<lparr>cursorX := 0, cursorY := 0\<rparr>"
    let ?t2 = "advanceCursor (visualLength (prompt ?t1)) ?t1"
    have "same_text t ?t1" by (simp add: same_text_def queue_def)
    from same_trans[OF this same_advance] have t2: "same_text t ?t2" .
    then have "same_text t (?t2\<lparr>line := line ?t2, pos := pos ?t2\<rparr>)" by simp
    moreover have "same_text (?t2\<lparr>line := line ?t2, pos := pos ?t2\<rparr>) (setLine (line ?t2) (pos ?t2) ?t2)" using setLine_effect by blast
    ultimately have "same_text t (clear_screen t)" unfolding clear_screen_def Let_def by (rule same_trans)
    then show ?thesis using 12 assms(1) sides
      by (intro exI[of _ "line t"] exI[of _ "pos t"]) (simp add: edit_key_def key_codes)
  next
    case 13
    then have plain: "edit_key key t = (if \<not> isPrintable key \<or> length (line t) = maxLineLength then t else addKeyToLine key t)"
      "edit_spec key (?l, ?r) = (if \<not> isPrintable key \<or> length (line t) = maxLineLength then (?l, ?r) else (?l @ [key], ?r))"
      using assms(2) n(2) by (simp_all add: edit_key_def)
    show ?thesis
    proof (cases "\<not> isPrintable key \<or> length (line t) = maxLineLength")
      case True
      then show ?thesis using plain by (intro unchanged) simp_all
    next
      case False
      have "same_text (t\<lparr>line := ?l @ key # ?r, pos := pos t + 1\<rparr>) (addKeyToLine key t)" using addKey_effect by blast
      then show ?thesis using plain False n by (intro exI[of _ "?l @ key # ?r"] exI[of _ "pos t + 1"]) simp
    qed
  qed
qed

lemma edit_key_sides:
  assumes "pos t \<le> length (line t)" and "key \<notin> {keyUp, keyDown}"
  shows "pos (edit_key key t) \<le> length (line (edit_key key t))"
    and "(left_of (edit_key key t), right_of (edit_key key t)) = edit_spec key (left_of t, right_of t)"
proof -
  from edit_key_effect[OF assms] obtain l p where lp: "same_text (t\<lparr>line := l, pos := p\<rparr>) (edit_key key t)" "p \<le> length l"
    "(take p l, drop p l) = edit_spec key (left_of t, right_of t)" by blast
  then show "pos (edit_key key t) \<le> length (line (edit_key key t))" by (simp add: same_text_def)
  show "(left_of (edit_key key t), right_of (edit_key key t)) = edit_spec key (left_of t, right_of t)"
    using same_sides[OF lp(1)] lp(3) by (simp add: left_of_def right_of_def)
qed

text \<open>C39. An edited line is two texts.  Every key but enter and the two history keys changes the text left of the
  cursor and the text right of it as the specification \<open>edit_spec\<close> says (within a bracketed paste every key is
  text), hands over no query, and leaves the cursor on the line.\<close>

theorem editing_is_two_sided:
  assumes "pos t \<le> length (line t)" and "key \<notin> {keyEnter, keyUp, keyDown}"
  shows "fst (handleKey key t) = ([], False)
    \<and> pos (snd (handleKey key t)) \<le> length (line (snd (handleKey key t)))
    \<and> (left_of (snd (handleKey key t)), right_of (snd (handleKey key t)))
        = (if pasteActive t then (left_of t @ [key], right_of t) else edit_spec key (left_of t, right_of t))"
proof (cases "pasteActive t")
  case True
  then have h: "handleKey key t = (([], False), addKeyToLine key t)" using assms(2) by (simp add: handleKey_def)
  have s: "same_text (t\<lparr>line := left_of t @ key # right_of t, pos := pos t + 1\<rparr>) (addKeyToLine key t)" using addKey_effect by blast
  have n: "length (left_of t) = pos t" using assms(1) by (simp add: left_of_def)
  then show ?thesis using True h s same_sides[OF s] by (simp add: same_text_def) (simp add: left_of_def right_of_def)
next
  case False
  then have h: "handleKey key t = (([], False), edit_key key t)" using assms(2) by (simp add: handleKey_def)
  have "key \<notin> {keyUp, keyDown}" using assms(2) by simp
  from edit_key_sides[OF assms(1) this] h False show ?thesis by simp
qed

lemma editing_is_two_sided_witness:
  "(let t = (NewTerminal [62])\<lparr>line := [65, 32, 66, 32, 67], pos := 4\<rparr>
    in (left_of (snd (handleKey keyDeleteWord t)), right_of (snd (handleKey keyDeleteWord t))) = ([65, 32], [67]))"
  using editing_is_two_sided[of "(NewTerminal [62])\<lparr>line := [65, 32, 66, 32, 67], pos := 4\<rparr>" keyDeleteWord]
  by (simp add: NewTerminal_def left_of_def right_of_def key_codes word_left_def Let_def)

section \<open>History\<close>

text \<open>The ring is either untouched or holds a hundred entries.\<close>

definition ring_ok :: "ring \<Rightarrow> bool" where
  "ring_ok s \<longleftrightarrow> s = empty_ring \<or> (length (ring_entries s) = 100 \<and> ring_max s = 100 \<and> ring_head s < 100 \<and> ring_size s \<le> 100)"

lemma ring_ok_Add: "ring_ok s \<Longrightarrow> ring_ok (ring_Add a s)"
  by (auto simp: ring_ok_def ring_Add_def empty_ring_def Let_def)

text \<open>After the queries \<open>qs\<close> the ring holds the last hundred, the newest at its head.\<close>

definition ring_holds :: "nat list list \<Rightarrow> ring \<Rightarrow> bool" where
  "ring_holds qs s \<longleftrightarrow> ring_size s = min 100 (length qs)
     \<and> (if qs = [] then s = empty_ring
        else length (ring_entries s) = 100 \<and> ring_max s = 100 \<and> ring_head s = length qs mod 100
          \<and> (\<forall>n < min 100 (length qs). ring_entries s ! ((length qs - n) mod 100) = qs ! (length qs - 1 - n)))"

lemma mod_inj_within: "k \<le> (m::nat) \<Longrightarrow> n < k \<Longrightarrow> m < n + 100 \<Longrightarrow> k \<le> m \<Longrightarrow> n mod 100 \<noteq> k mod 100"
proof
  assume "n < k" "k \<le> m" "m < n + 100" "n mod 100 = k mod 100"
  then have "(k - n) mod 100 = 0" by (metis mod_eq_dvd_iff_nat dvd_imp_mod_0 less_imp_le)
  with \<open>n < k\<close> \<open>k \<le> m\<close> \<open>m < n + 100\<close> show False by simp
qed

lemma ring_holds_Add:
  assumes "ring_holds qs s"
  shows "ring_holds (qs @ [a]) (ring_Add a s)"
proof -
  let ?s = "if ring_entries s = [] then s\<lparr>ring_entries := replicate 100 [], ring_max := 100\<rparr> else s"
  have s: "length (ring_entries ?s) = 100" "ring_max ?s = 100" "ring_head ?s = length qs mod 100" "ring_size ?s = min 100 (length qs)"
    using assms by (auto simp: ring_holds_def empty_ring_def split: if_splits)
  have old: "ring_entries ?s ! ((length qs - n) mod 100) = qs ! (length qs - 1 - n)" if "n < min 100 (length qs)" for n
    using that assms by (auto simp: ring_holds_def split: if_splits)
  have head: "(length qs mod 100 + 1) mod 100 = Suc (length qs) mod 100" by (simp add: mod_Suc_eq)
  have r: "ring_Add a s = ?s\<lparr>ring_head := Suc (length qs) mod 100, ring_entries := (ring_entries ?s)[Suc (length qs) mod 100 := a],
      ring_size := min 100 (Suc (length qs))\<rparr>"
    unfolding ring_Add_def Let_def s head by simp
  have "ring_entries (ring_Add a s) ! ((Suc (length qs) - n) mod 100) = (qs @ [a]) ! (length qs - n)"
    if n: "n < min 100 (Suc (length qs))" for n
  proof (cases n)
    case 0
    then show ?thesis using s(1) by (simp add: r)
  next
    case (Suc m)
    have "(length qs - m) mod 100 \<noteq> Suc (length qs) mod 100" using n Suc by (intro mod_inj_within[of _ "Suc (length qs)"]) auto
    moreover have m: "m < min 100 (length qs)" using n Suc by simp
    moreover have "length qs - Suc m < length qs" using m by auto
    ultimately show ?thesis using old[of m] Suc by (simp add: r nth_append)
  qed
  then show ?thesis using s by (simp add: ring_holds_def r)
qed

lemma ring_holds_fold: "ring_holds qs (fold ring_Add qs empty_ring)"
  by (induction qs rule: rev_induct) (simp_all add: ring_holds_Add, simp add: ring_holds_def empty_ring_def)

lemma ring_holds_nth:
  assumes "ring_holds qs s" and "n < min 100 (length qs)"
  shows "NthPreviousEntry (int n) s = Some (qs ! (length qs - 1 - n))"
proof -
  have h: "ring_head s = length qs mod 100" "ring_max s = 100" "ring_size s = min 100 (length qs)"
    using assms by (auto simp: ring_holds_def split: if_splits)
  have e: "ring_entries s ! ((length qs - n) mod 100) = qs ! (length qs - 1 - n)" using assms by (auto simp: ring_holds_def split: if_splits)
  have pos: "nat (if i < 0 then i + 100 else i) = (length qs - n) mod 100" if i: "i = int (length qs mod 100) - int n" for i
  proof -
    have "i mod 100 = int ((length qs - n) mod 100)"
      using assms(2) by (simp add: i of_nat_mod of_nat_diff mod_diff_left_eq)
    moreover have "i mod 100 = (if i < 0 then i + 100 else i)"
    proof (cases "i < 0")
      case True
      then have "(i + 100) mod 100 = i + 100" using assms(2) i by (intro mod_pos_pos_trivial) auto
      then show ?thesis using True by simp
    next
      case False
      then show ?thesis using i by (simp add: mod_pos_pos_trivial)
    qed
    ultimately show ?thesis by (metis nat_int)
  qed
  have n: "\<not> (int n < 0 \<or> int n \<ge> int (ring_size s))" unfolding h(3) using assms(2) by linarith
  show ?thesis unfolding NthPreviousEntry_def Let_def h(1,2) if_not_P[OF n] of_nat_numeral pos[OF refl] e ..
qed

text \<open>C1. The history is the list of the last hundred queries.  After the queries \<open>qs\<close> were added, the \<open>n\<close>-th previous
  entry is the \<open>n\<close>-th query from the end, for \<open>n\<close> below a hundred, and nothing otherwise.\<close>

theorem history_is_last_hundred:
  "NthPreviousEntry n (fold ring_Add qs empty_ring)
    = (if 0 \<le> n \<and> n < int (min 100 (length qs)) then Some (qs ! (length qs - 1 - nat n)) else None)"
proof (cases "0 \<le> n \<and> n < int (min 100 (length qs))")
  case True
  then have "nat n < min 100 (length qs)" by linarith
  from ring_holds_nth[OF ring_holds_fold this] show ?thesis using True by simp
next
  case False
  moreover have "ring_size (fold ring_Add qs empty_ring) = min 100 (length qs)"
    using ring_holds_fold[of qs] by (simp add: ring_holds_def)
  ultimately show ?thesis by (auto simp: NthPreviousEntry_def)
qed

section \<open>Bounds of the terminal's state\<close>

text \<open>The cursor on the line and left of the margin, the ring well formed, the history index one of its
  entries or before them, and an input that fits its buffer.\<close>

definition term_ok :: "terminal \<Rightarrow> bool" where
  "term_ok t \<longleftrightarrow> screen_ok t \<and> ring_ok (history t) \<and> -1 \<le> historyIndex t \<and> historyIndex t < int (ring_size (history t))
     \<and> length (remainder t) \<le> inBuf_size"

lemma term_ok_same:
  assumes "term_ok t" "same_text (t\<lparr>line := l, pos := p\<rparr>) t'" "p \<le> length l"
  shows "term_ok t'"
  using assms by (simp add: term_ok_def screen_ok_def same_text_def)

lemma term_ok_unchanged: "term_ok t \<Longrightarrow> same_text t t' \<Longrightarrow> term_ok t'"
  by (simp add: term_ok_def screen_ok_def same_text_def)

lemma term_ok_index: "term_ok t \<Longrightarrow> NthPreviousEntry k (history t) = Some e \<Longrightarrow> term_ok (t\<lparr>historyPending := h, historyIndex := k\<rparr>)"
  by (simp add: term_ok_def screen_ok_def NthPreviousEntry_def split: if_splits)

lemma term_ok_setLine: "term_ok t \<Longrightarrow> p \<le> length l \<Longrightarrow> term_ok (setLine l p t)"
  using setLine_effect[where t=t and l=l and p=p] term_ok_same by blast

lemma term_ok_up: "term_ok t \<Longrightarrow> term_ok (up_key t)"
proof (cases "NthPreviousEntry (historyIndex t + 1) (history t)")
  case (Some e)
  assume ok: "term_ok t"
  have "up_key t = setLine e (length e) (t\<lparr>historyPending := (if historyIndex t = -1 then through_string (line t) else historyPending t),
      historyIndex := historyIndex t + 1\<rparr>)" by (simp add: up_key_def Some)
  then show ?thesis using term_ok_setLine[OF term_ok_index[OF ok Some]] by simp
qed (simp add: up_key_def)

lemma term_ok_down: "term_ok t \<Longrightarrow> term_ok (down_key t)"
proof -
  assume ok: "term_ok t"
  have keep: "term_ok (t\<lparr>historyIndex := k\<rparr>)" if "NthPreviousEntry k (history t) = Some e" for k e
    using term_ok_index[OF ok that, of "historyPending t"] by simp
  have before: "term_ok (u\<lparr>historyIndex := -1\<rparr>)" if "term_ok u" for u
    using that by (simp add: term_ok_def screen_ok_def)
  consider "historyIndex t = -1" | "historyIndex t = 0" | "historyIndex t \<noteq> -1" "historyIndex t \<noteq> 0" by blast
  then show ?thesis
  proof cases
    case 1
    then show ?thesis using ok by (simp add: down_key_def)
  next
    case 2
    then have "down_key t = (setLine (historyPending t) (length (historyPending t)) t)\<lparr>historyIndex := -1\<rparr>" by (simp add: down_key_def)
    then show ?thesis using before[OF term_ok_setLine[OF ok]] by simp
  next
    case 3
    show ?thesis
    proof (cases "NthPreviousEntry (historyIndex t - 1) (history t)")
      case None
      then show ?thesis using 3 ok by (simp add: down_key_def)
    next
      case (Some e)
      then show ?thesis using 3 term_ok_setLine[OF keep[OF Some]] by (simp add: down_key_def)
    qed
  qed
qed

lemma term_ok_edit: "term_ok t \<Longrightarrow> term_ok (edit_key key t)"
proof (cases "key \<in> {keyUp, keyDown}")
  case True
  assume ok: "term_ok t"
  from True have "edit_key key t = up_key t \<or> edit_key key t = down_key t"
    by (elim insertE emptyE) (simp_all add: edit_key_def key_codes)
  then show ?thesis using term_ok_up[OF ok] term_ok_down[OF ok] by presburger
next
  case False
  assume ok: "term_ok t"
  then have "pos t \<le> length (line t)" by (simp add: term_ok_def screen_ok_def)
  from edit_key_effect[OF this False] show ?thesis using term_ok_same[OF ok] by blast
qed

lemma term_ok_addKey: "term_ok t \<Longrightarrow> term_ok (addKeyToLine key t)"
  using addKey_effect[where t=t and key=key] term_ok_same[where t=t and l="left_of t @ key # right_of t" and p="pos t + 1"]
  by (auto simp: term_ok_def screen_ok_def left_of_def right_of_def)

lemma term_ok_enter: "term_ok t \<Longrightarrow> term_ok (snd (enter_key t))"
proof (cases "complete_line (line t)")
  case True
  assume ok: "term_ok t"
  have "term_ok (queue [13, 10] (moveCursorToPos (length (line t)) t))"
    by (rule term_ok_unchanged[OF ok same_trans[OF same_moveCursor same_queue]])
  then show ?thesis using True by (simp add: enter_key_def) (simp add: term_ok_def screen_ok_def)
next
  case False
  assume ok: "term_ok t"
  then have "term_ok (t\<lparr>posLastLF := int (pos t), cursorX := 0\<rparr>)" by (simp add: term_ok_def screen_ok_def)
  note a = term_ok_addKey[OF this, of 32]
  show ?thesis using False by (simp add: enter_key_def) (rule term_ok_unchanged[OF a same_trans[OF same_queue same_texts]], simp)
qed

lemma term_ok_handleKey: "term_ok t \<Longrightarrow> term_ok (snd (handleKey key t))"
  using term_ok_addKey term_ok_enter term_ok_edit by (simp add: handleKey_def)

lemma term_ok_remember: "term_ok t \<Longrightarrow> term_ok (remember qs t)"
proof -
  have "term_ok u \<Longrightarrow> term_ok (fold (\<lambda>q t. t\<lparr>historyIndex := -1, history := ring_Add q (history t)\<rparr>) qs u)" for u
    by (induction qs arbitrary: u) (simp_all add: term_ok_def screen_ok_def ring_ok_Add)
  then show "term_ok t \<Longrightarrow> term_ok (remember qs t)" by (simp add: remember_def)
qed

text \<open>What every key keeps of the terminal and of the bytes that wait, a sequence of keys keeps; more input is asked for
  by a key that is not complete.\<close>

lemma process_keys_keeps:
  assumes handle: "\<And>key t. I t \<Longrightarrow> I (snd (handleKey key t))" and paste: "\<And>t v. I t \<Longrightarrow> I (t\<lparr>pasteActive := v\<rparr>)"
    and bytes: "\<And>b p key rest. bytesToKey b p = (key, rest) \<Longrightarrow> J b \<Longrightarrow> J rest"
  shows "process_keys t p b = (r, t', p', rest) \<Longrightarrow> I t \<Longrightarrow> J b \<Longrightarrow>
    I t' \<and> (r = NeedMore \<longrightarrow> (\<exists>b0 q. J b0 \<and> bytesToKey b0 q = (RuneError, rest)))"
proof (induction t p b arbitrary: r t' p' rest rule: process_keys.induct)
  case (1 t p b)
  obtain key b1 where k: "bytesToKey b (pasteActive t) = (key, b1)" by fastforce
  obtain qs ok t1 where h: "handleKey key t = ((qs, ok), t1)" by (metis prod.exhaust)
  have t1: "I t1" using handle[OF "1.prems"(2), of key] h by simp
  have b1: "J b1" using bytes[OF k "1.prems"(3)] .
  note pasted = paste[OF "1.prems"(2)]
  show ?case
  proof (cases "key = RuneError \<or> \<not> pasteActive t \<and> (key = keyCtrlD \<and> line t = [] \<or> key = keyCtrlC)")
    case True
    then show ?thesis using "1.prems" k by (auto simp: process_keys.simps[of t p b] split: if_splits)
  next
    case plain: False
    from plain have a: "\<not> key = RuneError" and b: "\<not> (\<not> pasteActive t \<and> (key = keyCtrlD \<and> line t = [] \<or> key = keyCtrlC))" by blast+
    note step = process_keys.simps[of t p b, unfolded k prod.case if_not_P[OF a] if_not_P[OF b]]
    consider "\<not> pasteActive t \<and> key = keyPasteStart" | "pasteActive t \<and> key = keyPasteEnd"
      | "\<not> (\<not> pasteActive t \<and> key = keyPasteStart)" "\<not> (pasteActive t \<and> key = keyPasteEnd)" by blast
    then show ?thesis
    proof cases
      case 1
      have "process_keys (t\<lparr>pasteActive := True\<rparr>) (p \<or> line t = []) b1 = (r, t', p', rest)" using "1.prems"(1) unfolding step if_P[OF 1] .
      from "1.IH"(1)[OF k[symmetric] _ _ 1 this pasted b1] show ?thesis using plain by blast
    next
      case 2
      then have "process_keys (t\<lparr>pasteActive := False\<rparr>) p b1 = (r, t', p', rest)" using "1.prems"(1) 2 unfolding step by simp
      from "1.IH"(2)[OF k[symmetric] _ _ _ 2 this pasted b1] show ?thesis using plain 2 by blast
    next
      case 3
      show ?thesis
      proof (cases ok)
        case True
        then have "t' = t1" "r = Queries qs" using "1.prems"(1) unfolding step if_not_P[OF 3(1)] if_not_P[OF 3(2)] h prod.case by simp_all
        with t1 show ?thesis by simp
      next
        case False
        then have "process_keys t1 (p \<and> pasteActive t) b1 = (r, t', p', rest)" using "1.prems"(1) unfolding step if_not_P[OF 3(1)] if_not_P[OF 3(2)] h prod.case by simp
        from "1.IH"(3)[OF k[symmetric] _ _ 3 h[symmetric] refl False this t1 b1] show ?thesis using plain by blast
      qed
    qed
  qed
qed

lemma term_ok_keys: "process_keys t p b = (r, t', p', rest) \<Longrightarrow> term_ok t \<Longrightarrow> term_ok t'"
proof -
  have paste: "term_ok u \<Longrightarrow> term_ok (u\<lparr>pasteActive := v\<rparr>)" for u v by (simp add: term_ok_def screen_ok_def)
  show "process_keys t p b = (r, t', p', rest) \<Longrightarrow> term_ok t \<Longrightarrow> term_ok t'"
    using process_keys_keeps[where I=term_ok and J="\<lambda>_. True", OF term_ok_handleKey paste TrueI _ _ TrueI] by blast
qed

lemma term_ok_buffer: "term_ok t \<Longrightarrow> length b \<le> inBuf_size \<Longrightarrow> term_ok (t\<lparr>remainder := b\<rparr>)"
  by (simp add: term_ok_def screen_ok_def)

lemma term_ok_flush: "term_ok t \<Longrightarrow> term_ok (flush t)"
  by (erule term_ok_unchanged) simp

lemma term_ok_taken: "term_ok t \<Longrightarrow> term_ok (flush (t\<lparr>remainder := take inBuf_size b\<rparr>))"
  by (rule term_ok_flush, erule term_ok_buffer) simp

lemma term_ok_loop: "read_loop fuel chunks t p = Some (r, t', cs) \<Longrightarrow> term_ok t \<Longrightarrow> term_ok t'"
proof (induction fuel chunks t p arbitrary: r t' cs rule: read_loop.induct)
  case (2 fuel chunks t p)
  obtain k t1 p1 b where k: "process_keys t p (remainder t) = (k, t1, p1, b)" by (metis prod.exhaust)
  have t1: "term_ok t1" using term_ok_keys[OF k "2.prems"(2)] .
  show ?case
  proof (cases k)
    case EndOfInput
    then show ?thesis using "2.prems"(1) k t1 by simp
  next
    case (Queries qs)
    then show ?thesis using "2.prems"(1) k term_ok_remember[OF term_ok_taken[OF t1]] by auto
  next
    case NeedMore
    define u where "u = flush (t1\<lparr>remainder := take inBuf_size b\<rparr>)"
    define room where "room = inBuf_size - length (remainder u)"
    have u: "term_ok u" using term_ok_taken[OF t1] by (simp add: u_def)
    have fill: "term_ok (u\<lparr>remainder := remainder u @ take room c\<rparr>)" for c
      using u by (intro term_ok_buffer) (auto simp: room_def term_ok_def)
    have step: "read_loop (Suc fuel) chunks t p =
        (if room = 0 then read_loop fuel chunks u p1
         else case chunks of [] \<Rightarrow> Some (ReadError, u, [])
              | c # cs \<Rightarrow> read_loop fuel (if room < length c then drop room c # cs else cs) (u\<lparr>remainder := remainder u @ take room c\<rparr>) p1)"
      using NeedMore by (simp only: read_loop.simps k prod.case key_result.case Let_def u_def[symmetric] room_def[symmetric])
    show ?thesis
    proof (cases "room = 0")
      case True
      then have "read_loop fuel chunks u p1 = Some (r, t', cs)" using "2.prems"(1) step by simp
      from "2.IH"(1)[OF k[symmetric] NeedMore refl refl u_def room_def True this u] show ?thesis .
    next
      case False
      show ?thesis
      proof (cases chunks)
        case Nil
        then show ?thesis using "2.prems"(1) step False u by simp
      next
        case (Cons c cs')
        then have "read_loop fuel (if room < length c then drop room c # cs' else cs') (u\<lparr>remainder := remainder u @ take room c\<rparr>) p1
            = Some (r, t', cs)" using "2.prems"(1) step False by simp
        from "2.IH"(2)[OF k[symmetric] NeedMore refl refl u_def room_def False Cons this fill] show ?thesis .
      qed
    qed
  qed
qed simp


lemma new_terminal_ok: "term_ok (NewTerminal p)"
  by (simp add: term_ok_def screen_ok_def NewTerminal_def ring_ok_def empty_ring_def)


lemmas terminal_eval = process_keys.simps bytesToKey_def control_key_def DecodeRune_def FullRune_def utf8_len_def key_codes
  RuneError_def handleKey_def edit_key_def isPrintable_def enter_key_def complete_line_def trim_runes_def rune_space_def
  through_string_def NewTerminal_def addKeyToLine_def moveCursorToPos_def move_def queue_def writeLine.simps advanceCursor_def
  go_mod_def go_div_def visualLength_def move_part_def maxLineLength_def readLine_def inBuf_size_def flush_def remember_def

lemma typed_query:
  "\<exists>t. readLine (Suc (Suc 0)) [[97, 59, 13, 98]] (NewTerminal [62]) = Some (Line [[97, 59]] False, t, []) \<and> remainder t = [98]"
  by (simp add: terminal_eval Let_def)


section \<open>The queries of a line\<close>

lemma string_semicolon: "through_string (l @ [59]) = through_string l @ [59]"
  by (simp add: through_string_def)

lemma in_string: "59 \<in> set (through_string l) \<Longrightarrow> 59 \<in> set l"
  by (auto simp: through_string_def RuneError_def split: if_splits)

lemma trim_semicolon: "trim_runes (w @ [59]) = dropWhile rune_space w @ [59]"
proof -
  have 59: "\<not> rune_space 59" by (simp add: rune_space_def)
  have "dropWhile rune_space (w @ [59]) = dropWhile rune_space w @ [59]" by (induction w) (simp_all add: 59)
  then show ?thesis by (simp add: trim_runes_def 59)
qed

lemma split_shape: "59 \<notin> set acc \<Longrightarrow> q \<in> set (split_queries acc l) \<Longrightarrow> \<exists>w. q = w @ [59] \<and> 59 \<notin> set w"
proof (induction acc l rule: split_queries.induct)
  case (2 acc r rs)
  show ?case
  proof (cases "r = 59 \<and> q = trim_runes (through_string (acc @ [r]))")
    case True
    then have "q = dropWhile rune_space (through_string acc) @ [59]" by (simp add: string_semicolon trim_semicolon)
    moreover have "59 \<notin> set (dropWhile rune_space (through_string acc))" using "2.prems"(1) in_string set_dropWhileD by metis
    ultimately show ?thesis by blast
  next
    case False
    then show ?thesis using 2 by (auto split: if_splits)
  qed
qed simp

lemma split_count: "length (split_queries acc l) = count_list l 59"
  by (induction acc l rule: split_queries.induct) auto

text \<open>What follows the last semicolon.\<close>

fun leftover :: "nat list \<Rightarrow> nat list \<Rightarrow> nat list" where
  "leftover acc [] = acc"
| "leftover acc (r # rs) = (if r = 59 then leftover [] rs else leftover (acc @ [r]) rs)"

lemma leftover_last: "59 \<notin> set acc \<Longrightarrow> leftover acc l = rev (takeWhile (\<lambda>c. c \<noteq> 59) (rev (acc @ l)))"
proof (induction acc l rule: leftover.induct)
  case (1 acc)
  have "takeWhile (\<lambda>c. c \<noteq> 59) (rev acc) = rev acc" using "1" by (intro takeWhile_eq_all_conv[THEN iffD2]) auto
  then show ?case by (simp only: append_Nil2 leftover.simps(1) rev_rev_ident)
next
  case (2 acc r rs)
  show ?case
  proof (cases "r = 59")
    case True
    then have "takeWhile (\<lambda>c. c \<noteq> 59) (rev rs @ r # rev acc) = takeWhile (\<lambda>c. c \<noteq> 59) (rev rs)"
      by (induction "rev rs") (auto simp: takeWhile_tail)
    then show ?thesis using True 2 by simp
  next
    case False
    then show ?thesis using 2 by simp
  qed
qed

definition inked :: "nat list \<Rightarrow> nat list" where
  "inked = filter (\<lambda>r. \<not> rune_space r)"

lemma inked_drop: "inked (dropWhile rune_space s) = inked s"
  by (induction s) (simp_all add: inked_def)

lemma inked_trim: "inked (trim_runes s) = inked s"
proof -
  have "inked (rev u) = rev (inked u)" for u by (simp add: inked_def rev_filter)
  then show ?thesis by (simp add: trim_runes_def inked_drop)
qed

lemma split_ink: "inked (concat (split_queries acc l)) @ inked (through_string (leftover acc l)) = inked (through_string (acc @ l))"
proof (induction acc l rule: split_queries.induct)
  case (2 acc r rs)
  have join: "inked (u @ v) = inked u @ inked v" for u v by (simp add: inked_def)
  have str: "through_string (u @ v) = through_string u @ through_string v" for u v by (simp add: through_string_def)
  show ?case
  proof (cases "r = 59")
    case True
    then have "split_queries acc (r # rs) = trim_runes (through_string (acc @ [r])) # split_queries [] rs" by simp
    then show ?thesis using 2(1)[OF True] True str[of "[]" rs] str[of "acc @ [r]" rs] by (simp add: join inked_trim)
  next
    case False
    then show ?thesis using 2(2)[OF False] by simp
  qed
qed (simp add: inked_def)

lemma complete_leftover: "complete_line l \<Longrightarrow> inked (through_string (leftover [] l)) = []"
proof -
  let ?s = "through_string l"
  assume "complete_line l"
  then consider "trim_runes ?s = []" | "trim_runes ?s \<noteq> []" "last (trim_runes ?s) = 59" by (auto simp: complete_line_def Let_def)
  then have "\<forall>c \<in> set (takeWhile (\<lambda>c. c \<noteq> 59) (rev ?s)). rune_space c"
  proof cases
    case 1
    then have "inked ?s = []" using inked_trim[of ?s] by (simp add: inked_def)
    then show ?thesis by (auto simp: inked_def filter_empty_conv dest!: set_takeWhileD)
  next
    case 2
    let ?d = "dropWhile rune_space ?s"
    obtain p where p: "dropWhile rune_space (rev ?d) = 59 # p"
      using 2 by (cases "dropWhile rune_space (rev ?d)") (simp_all add: trim_runes_def)
    have "rev ?d = takeWhile rune_space (rev ?d) @ 59 # p" using p takeWhile_dropWhile_id[of rune_space "rev ?d"] by simp
    moreover have "rev ?s = rev ?d @ rev (takeWhile rune_space ?s)" by (metis rev_append takeWhile_dropWhile_id)
    ultimately have r: "rev ?s = takeWhile rune_space (rev ?d) @ 59 # p @ rev (takeWhile rune_space ?s)" by simp
    have "set (takeWhile (\<lambda>c. c \<noteq> 59) (w @ 59 # v)) \<subseteq> set w" for w v :: "nat list"
      by (induction w) auto
    then show ?thesis unfolding r by (meson set_takeWhileD subsetD)
  qed
  moreover have "through_string (leftover [] l) = rev (takeWhile (\<lambda>c. c \<noteq> 59) (rev ?s))"
  proof -
    let ?f = "\<lambda>r. if (0xD800 \<le> r \<and> r \<le> 0xDFFF) \<or> r > 0x10FFFF then RuneError else r"
    have "((\<lambda>c. c \<noteq> 59) \<circ> ?f) = (\<lambda>c. c \<noteq> 59)" by (auto simp: fun_eq_iff RuneError_def)
    then have "takeWhile (\<lambda>c. c \<noteq> 59) (map ?f (rev l)) = map ?f (takeWhile (\<lambda>c. c \<noteq> 59) (rev l))" by (simp only: takeWhile_map)
    moreover have "leftover [] l = rev (takeWhile (\<lambda>c. c \<noteq> 59) (rev l))" by (simp add: leftover_last)
    ultimately show ?thesis by (simp only: through_string_def rev_map)
  qed
  ultimately show ?thesis by (simp add: inked_def filter_empty_conv)
qed

text \<open>A complete line is its queries.  Every query ends with a semicolon and has no other, there is one for each
  semicolon of the line (in quotes or not), and together they hold all of the line's text but white space.\<close>

theorem line_is_its_queries:
  assumes "complete_line (line t)"
  shows "fst (enter_key t) = (split_queries [] (line t), True)
    \<and> length (split_queries [] (line t)) = count_list (line t) 59
    \<and> (\<forall>q. q \<in> set (split_queries [] (line t)) \<longrightarrow> (\<exists>w. q = w @ [59] \<and> 59 \<notin> set w))
    \<and> inked (concat (split_queries [] (line t))) = inked (through_string (line t))"
  using assms split_count split_shape[of "[]"] split_ink[of "[]" "line t"] complete_leftover[OF assms]
  by (simp add: enter_key_def)

lemma line_is_its_queries_witness:
  "(let t = (NewTerminal [62])\<lparr>line := [97, 39, 59, 39, 59, 32]\<rparr>
    in fst (enter_key t) = ([[97, 39, 59], [39, 59]], True) \<and> length (split_queries [] (line t)) = 2)"
  using line_is_its_queries[of "(NewTerminal [62])\<lparr>line := [97, 39, 59, 39, 59, 32]\<rparr>"]
  by (simp add: complete_line_def trim_runes_def rune_space_def through_string_def NewTerminal_def)

section \<open>Reading ends\<close>

lemma FullRune_short: "\<not> FullRune b \<Longrightarrow> length b < 4"
  by (cases b) (auto simp: FullRune_def utf8_len_def split: if_splits)

text \<open>What a key leaves is the end of what was there.\<close>

lemma suffix_after_while: "dropWhile P b = c # rest \<Longrightarrow> \<exists>k. rest = drop k b"
  by (metis append_eq_conv_conj drop_Suc_Cons list.size(4) takeWhile_dropWhile_id append_Cons append_assoc drop_drop drop0)

lemma unknown_key_rest: "\<exists>k. snd (unknown_key b) = drop k b"
  by (auto simp: unknown_key_def split: list.splits intro: exI[of _ 0] dest: suffix_after_while)

lemma escape_key_rest: "\<exists>k. snd (escape_key b p) = drop k b"
  using unknown_key_rest[of b] by (simp add: escape_key_def) blast

lemma plain_key_rest: "\<exists>k. snd (if \<not> FullRune b then (RuneError, b) else case DecodeRune b of (r, l) \<Rightarrow> (r, drop l b)) = drop k b"
proof (cases "FullRune b")
  case False
  then show ?thesis by (intro exI[of _ 0]) simp
qed (auto split: prod.splits)

lemma bytesToKey_rest: "bytesToKey b p = (key, rest) \<Longrightarrow> \<exists>k. rest = drop k b"
proof -
  assume k: "bytesToKey b p = (key, rest)"
  show ?thesis
  proof (cases b)
    case Nil
    then show ?thesis using k by (simp add: bytesToKey_def)
  next
    case (Cons c cs)
    consider "\<not> p \<and> control_key c \<noteq> None" | "\<not> (\<not> p \<and> control_key c \<noteq> None)" "c \<noteq> keyEscape"
      | "\<not> (\<not> p \<and> control_key c \<noteq> None)" "\<not> c \<noteq> keyEscape" by blast
    then show ?thesis
    proof cases
      case 1
      then have "rest = drop 1 b" using k Cons by (simp add: bytesToKey_def)
      then show ?thesis by blast
    next
      case 2
      have e: "(if \<not> FullRune b then (RuneError, b) else case DecodeRune b of (r, l) \<Rightarrow> (r, drop l b)) = (key, rest)"
        using k unfolding bytesToKey_def Cons list.case if_not_P[OF 2(1)] if_P[OF 2(2)] .
      from plain_key_rest[of b] show ?thesis unfolding e snd_conv .
    next
      case 3
      have e: "escape_key b p = (key, rest)"
        using k unfolding bytesToKey_def Cons list.case if_not_P[OF 3(1)] if_not_P[OF 3(2)] .
      from escape_key_rest[of b p] show ?thesis unfolding e snd_conv .
    qed
  qed
qed

text \<open>Without an escape, what waits is shorter than the buffer.\<close>

lemma waiting_short:
  assumes "bytesToKey b p = (RuneError, rest)" and "27 \<notin> set b" and "length b \<le> inBuf_size"
  shows "length rest < inBuf_size"
proof (cases b)
  case (Cons c cs)
  have c: "c \<noteq> keyEscape" using assms(2) Cons by (auto simp: keyEscape_def)
  show ?thesis
  proof (cases "\<not> p \<and> control_key c \<noteq> None")
    case True
    then show ?thesis using assms Cons by (simp add: bytesToKey_def)
  next
    case False
    then have k: "(if \<not> FullRune b then (RuneError, b) else case DecodeRune b of (r, l) \<Rightarrow> (r, drop l b)) = (RuneError, rest)"
      using assms(1) c unfolding bytesToKey_def Cons list.case if_not_P[OF False] if_P[OF c] by simp
    show ?thesis
    proof (cases "FullRune b")
      case True
      then have "rest = drop (snd (DecodeRune b)) b" using k by (simp add: case_prod_beta)
      then show ?thesis using DecodeRune_taken[of b] assms(3) Cons by simp
    next
      case False
      then show ?thesis using k FullRune_short[OF False] by (simp add: inBuf_size_def)
    qed
  qed
qed (use assms in \<open>simp add: bytesToKey_def inBuf_size_def\<close>)

lemma waiting_after_keys:
  assumes "process_keys t p b = (NeedMore, t', p', rest)" and "27 \<notin> set b" and "length b \<le> inBuf_size"
  shows "length rest < inBuf_size \<and> 27 \<notin> set rest"
proof -
  let ?J = "\<lambda>b. 27 \<notin> set b \<and> length b \<le> inBuf_size"
  have keeps: "?J rest" if "bytesToKey b p = (key, rest)" "?J b" for b p key rest
    using bytesToKey_rest[OF that(1)] that(2) by (auto dest: in_set_dropD)
  have "True \<and> (NeedMore = NeedMore \<longrightarrow> (\<exists>b0 q. ?J b0 \<and> bytesToKey b0 q = (RuneError, rest)))"
    by (rule process_keys_keeps[where I="\<lambda>_. True" and J="?J", OF _ _ _ assms(1)]) (use keeps assms(2,3) in blast)+
  then obtain b0 q where "?J b0" "bytesToKey b0 q = (RuneError, rest)" by blast
  then show ?thesis using waiting_short[of b0 q rest] keeps[of b0 q RuneError rest] by simp
qed

lemma read_loop_ends:
  "27 \<notin> set (remainder t) \<Longrightarrow> length (remainder t) \<le> inBuf_size \<Longrightarrow> \<forall>c \<in> set chunks. 27 \<notin> set c
   \<Longrightarrow> length chunks + length (concat chunks) < fuel \<Longrightarrow> read_loop fuel chunks t p \<noteq> None"
proof (induction fuel arbitrary: chunks t p)
  case (Suc fuel)
  obtain k t1 p1 b where k: "process_keys t p (remainder t) = (k, t1, p1, b)" by (metis prod.exhaust)
  show ?case
  proof (cases k)
    case NeedMore
    define u where "u = flush (t1\<lparr>remainder := take inBuf_size b\<rparr>)"
    define room where "room = inBuf_size - length (remainder u)"
    have b: "length b < inBuf_size" "27 \<notin> set b" using waiting_after_keys[OF k[unfolded NeedMore] Suc.prems(1,2)] by simp_all
    then have u: "remainder u = b" by (simp add: u_def flush_def)
    have room: "room \<noteq> 0" using b by (simp add: room_def u)
    have step: "read_loop (Suc fuel) chunks t p =
        (case chunks of [] \<Rightarrow> Some (ReadError, u, [])
              | c # cs \<Rightarrow> read_loop fuel (if room < length c then drop room c # cs else cs) (u\<lparr>remainder := remainder u @ take room c\<rparr>) p1)"
      using NeedMore by (simp only: read_loop.simps k prod.case key_result.case Let_def u_def[symmetric] room_def[symmetric] if_not_P[OF room])
    show ?thesis
    proof (cases chunks)
      case Nil
      then show ?thesis unfolding step by simp
    next
      case (Cons c cs)
      have "read_loop fuel (if room < length c then drop room c # cs else cs) (u\<lparr>remainder := remainder u @ take room c\<rparr>) p1 \<noteq> None"
      proof (rule Suc.IH)
        show "27 \<notin> set (remainder (u\<lparr>remainder := remainder u @ take room c\<rparr>))" using b Suc.prems(3) Cons by (auto simp: u dest: in_set_takeD)
        show "length (remainder (u\<lparr>remainder := remainder u @ take room c\<rparr>)) \<le> inBuf_size" using b by (simp add: u room_def)
        show "\<forall>c \<in> set (if room < length c then drop room c # cs else cs). 27 \<notin> set c" using Suc.prems(3) Cons by (auto dest: in_set_dropD)
        show "length (if room < length c then drop room c # cs else cs) + length (concat (if room < length c then drop room c # cs else cs)) < fuel"
          using Suc.prems(4) Cons room by (auto split: if_splits)
      qed
      then show ?thesis unfolding step unfolding Cons list.case .
    qed
  qed (simp_all add: k)
qed simp

text \<open>C1. Reading a line ends.  For every input without an escape sequence, on a terminal in its bounds with no escape
  waiting, \<open>readLine\<close> returns a line, an end of input or a read error after at most one round per read and byte.\<close>

theorem reading_ends:
  assumes "term_ok t" and "27 \<notin> set (remainder t)" and "27 \<notin> set (concat chunks)"
  shows "readLine (Suc (length chunks + length (concat chunks))) chunks t \<noteq> None"
proof -
  let ?t = "if cursorX t = 0 \<and> cursorY t = 0 then flush (writeLine (prompt t) t) else t"
  have s: "same_text t ?t" using same_trans[OF same_writeLine same_flush] by simp
  have r: "remainder ?t = remainder t" using s by (simp only: same_text_def)
  have "read_loop (Suc (length chunks + length (concat chunks))) chunks ?t (pasteActive ?t) \<noteq> None"
  proof (rule read_loop_ends)
    show "length (remainder ?t) \<le> inBuf_size" unfolding r using assms(1) by (simp add: term_ok_def)
  qed (use assms r in auto)
  then show ?thesis unfolding readLine_def Let_def .
qed

lemma reading_ends_witness: "readLine (Suc (length [replicate 300 (120 :: nat)] + length (concat [replicate 300 (120 :: nat)]))) [replicate 300 120] (NewTerminal [62]) \<noteq> None"
  by (rule reading_ends[OF new_terminal_ok]) (simp_all add: NewTerminal_def)

lemma stuck_keys: "length w = 255 \<Longrightarrow> \<forall>c \<in> set w. 48 \<le> c \<and> c \<le> 57 \<Longrightarrow> process_keys t p (27 # w) = (NeedMore, t, p, 27 # w)"
proof -
  assume w: "length w = 255" "\<forall>c \<in> set w. 48 \<le> c \<and> c \<le> 57"
  then obtain a v where av: "w = a # v" by (cases w) auto
  have a: "48 \<le> a" "a \<le> 57" using w(2) av by auto
  have "dropWhile (\<lambda>c. \<not> ends_sequence c) (27 # w) = []" using w(2) by (auto simp: dropWhile_eq_Nil_conv ends_sequence_def)
  then have "unknown_key (27 # w) = (RuneError, 27 # w)" by (simp add: unknown_key_def)
  then have "escape_key (27 # w) q = (RuneError, 27 # w)" for q using a by (auto simp: escape_key_def av pasteStart_def pasteEnd_def)
  then have "bytesToKey (27 # w) q = (RuneError, 27 # w)" for q by (simp add: bytesToKey_def control_key_def keyEscape_def)
  then show ?thesis by (subst process_keys.simps) simp
qed

text \<open>C1. With an escape it may not: when the buffer is full of the start of a key sequence, no byte is read any more and
  \<open>readLine\<close> never returns, whatever is typed.\<close>

theorem full_buffer_hangs:
  "length w = 255 \<Longrightarrow> \<forall>c \<in> set w. 48 \<le> c \<and> c \<le> 57 \<Longrightarrow> remainder t = 27 # w \<Longrightarrow> readLine fuel chunks t = None"
proof -
  assume w: "length w = 255" "\<forall>c \<in> set w. 48 \<le> c \<and> c \<le> 57" "remainder t = 27 # w"
  have loop: "remainder u = 27 # w \<Longrightarrow> read_loop fuel chunks u p = None" for u p
  proof (induction fuel arbitrary: u p)
    case (Suc fuel)
    let ?u = "flush (u\<lparr>remainder := take inBuf_size (27 # w)\<rparr>)"
    have r: "remainder ?u = 27 # w" using w(1) by (simp add: flush_def inBuf_size_def)
    have room: "inBuf_size - length (remainder ?u) = 0" unfolding r using w(1) by (simp add: inBuf_size_def)
    have "read_loop (Suc fuel) chunks u p = read_loop fuel chunks ?u p"
      by (simp only: read_loop.simps Suc.prems stuck_keys[OF w(1,2)] prod.case key_result.case Let_def room if_True simp_thms)
    then show ?case using Suc.IH[OF r] by simp
  qed simp
  let ?t = "if cursorX t = 0 \<and> cursorY t = 0 then flush (writeLine (prompt t) t) else t"
  have "same_text t ?t" using same_trans[OF same_writeLine same_flush] by simp
  then have "remainder ?t = 27 # w" using w(3) by (simp only: same_text_def)
  then show ?thesis unfolding readLine_def Let_def using loop by blast
qed

lemma full_buffer_hangs_witness:
  "\<forall>fuel chunks. readLine fuel chunks ((NewTerminal [62])\<lparr>remainder := 27 # replicate 255 49\<rparr>) = None"
  by (intro allI, rule full_buffer_hangs[of "replicate 255 49"]) simp_all

end
