(* ===== verification/Validation.thy ===== *)
theory Validation
  imports RestApi "HOL-Library.Word"
begin

text \<open>
  Contributions and their validation (\<open>app/service.go\<close>): files posted to IPFS, the log of contributions, the
  votes of peers on their validity, and the store of the results.

  The store of validations maps a path to the document read back for it; a \<open>Put\<close> that fails leaves it alone.
  IPFS, pubsub, base64, \<open>encoding/json\<close> and the event log are arguments.
\<close>

section \<open>Records\<close>

record validation =
  v_Path :: string
  v_IsValid :: bool
  v_VoteCnt :: "32 word"

record contribution =
  c_AgentName :: string
  c_Path :: string
  c_Contributor :: string
  c_CreationTS :: string
  c_LocalIP :: string
  c_NodeIP :: string
  c_RemoteIPs :: "string list"

record validation_node =
  vn_PeerID :: string
  vn_Contributions :: "(string \<times> string list) option"
  vn_ContributionsStoreAddr :: string
  vn_Validations :: "(string, document) gomap"
  vn_ValidationsMtx :: bool
  vn_ContributionsMtx :: bool

text \<open>The world of one operation: files in IPFS, whether a vote can be announced, the peers of the swarm,
  whether a store accepts a write, and the encodings.\<close>

record ipfs_world =
  fetch_ok :: "string \<Rightarrow> bool"
  add_file :: "string \<Rightarrow> string option"
  announce_ok :: bool
  swarm_peers :: "nat option"
  put_ok :: "string \<Rightarrow> bool"
  append_ok :: bool
  open_ok :: "string \<Rightarrow> bool"
  encode_contribution :: "contribution \<Rightarrow> string option"
  decode_contribution :: "string \<Rightarrow> contribution \<times> bool"
  base64_text :: "string \<Rightarrow> string option"
  json_value :: "string \<Rightarrow> json option"

datatype 'a outcome = Returns 'a | Fails | Blocks | Panics

section \<open>Validations\<close>

text \<open>\<open>Get\<close> with the default options on the store keyed by \<open>path\<close>.\<close>

definition validations_Get :: "string \<Rightarrow> validation_node \<Rightarrow> document list" where
  "validations_Get pth st =
     (let multi = (CHR '' '' \<in> set pth); key = (if multi then dots_to_spaces pth else pth)
      in case gm_get (vn_Validations st) key of None \<Rightarrow> [] | Some d \<Rightarrow> [d])"

text \<open>The document that is put, as it is read back: numbers are \<open>float64\<close>.\<close>

definition validation_doc :: "validation \<Rightarrow> document" where
  "validation_doc v = [(''path'', JStr (v_Path v)), (''isValid'', JBool (v_IsValid v)), (''voteCnt'', JNum (real (unat (v_VoteCnt v))))]"

text \<open>A type assertion that panics is \<open>None\<close>; a float is converted through \<open>int64\<close>.\<close>

definition validationMapToStruct :: "document \<Rightarrow> validation option" where
  "validationMapToStruct m =
     (case (gm_get m ''path'', gm_get m ''isValid'', gm_get m ''voteCnt'') of
        (Some (JStr p), Some (JBool b), Some (JNum x)) \<Rightarrow>
          Some \<lparr>v_Path = p, v_IsValid = b, v_VoteCnt = word_of_int (if x \<ge> 0 then \<lfloor>x\<rfloor> else \<lceil>x\<rceil>)\<rparr>
      | _ \<Rightarrow> None)"

definition validateStub :: "string \<Rightarrow> bool" where
  "validateStub f = True"

text \<open>The result is put under the mutex, which is not released when \<open>Put\<close> fails.\<close>

definition put_validation :: "ipfs_world \<Rightarrow> validation \<Rightarrow> validation_node \<Rightarrow> unit outcome \<times> validation_node" where
  "put_validation w v st =
     (if vn_ValidationsMtx st then (Blocks, st)
      else if put_ok w (v_Path v) then (Returns (), st\<lparr>vn_Validations := gm_set (v_Path v) (validation_doc v) (vn_Validations st)\<rparr>)
      else (Fails, st\<lparr>vn_ValidationsMtx := True\<rparr>))"

text \<open>The votes received before the deadline, as the values of the messages.\<close>

definition vote_of :: "json option \<Rightarrow> bool option" where
  "vote_of msg = (case decode_struct msg of None \<Rightarrow> None | Some m \<Rightarrow> read_flag m ''vote'')"

fun count_votes :: "json option list \<Rightarrow> nat \<times> nat \<Rightarrow> nat \<times> nat" where
  "count_votes [] acc = acc"
| "count_votes (msg # msgs) (valid, invalid) =
     count_votes msgs (case vote_of msg of None \<Rightarrow> (valid, invalid) | Some b \<Rightarrow> if b then (valid + 1, invalid) else (valid, invalid + 1))"

definition accValidations :: "ipfs_world \<Rightarrow> string \<Rightarrow> json option list \<Rightarrow> validation option" where
  "accValidations w pth msgs =
     (if \<not> announce_ok w then None
      else case count_votes msgs (0, 0) of (valid, invalid) \<Rightarrow>
        (case swarm_peers w of
           None \<Rightarrow> None
         | Some n \<Rightarrow>
             (let v = \<lparr>v_Path = pth, v_IsValid = False, v_VoteCnt = word_of_nat (valid + invalid)\<rparr>
              in if 2 * valid > n then Some (v\<lparr>v_IsValid := True\<rparr>)
                 else if fetch_ok w pth then Some (v\<lparr>v_IsValid := validateStub pth\<rparr>)
                 else None)))"

definition isValid :: "ipfs_world \<Rightarrow> string \<Rightarrow> json option list \<Rightarrow> validation_node \<Rightarrow> bool outcome \<times> validation_node" where
  "isValid w pth msgs st =
     (case validations_Get pth st of
        d # _ \<Rightarrow> ((case gm_get d ''isValid'' of Some (JBool b) \<Rightarrow> Returns b | _ \<Rightarrow> Panics), st)
      | [] \<Rightarrow>
          (case accValidations w pth msgs of
             None \<Rightarrow> (Fails, st)
           | Some v \<Rightarrow>
               (case put_validation w v st of
                  (Returns _, st') \<Rightarrow> (Returns (v_IsValid v), st')
                | (Fails, st') \<Rightarrow> (Fails, st')
                | (Blocks, st') \<Rightarrow> (Blocks, st')
                | (Panics, st') \<Rightarrow> (Panics, st'))))"

text \<open>\<open>awaitValidationReq\<close>: one request; the topic and the vote that are published for it.\<close>

definition validation_request :: "json option \<Rightarrow> (string \<times> string) option" where
  "validation_request msg =
     (case decode_struct msg of
        None \<Rightarrow> None
      | Some m \<Rightarrow> (case (read_text m ''path'', read_text m ''peerId'') of (Some p, Some i) \<Rightarrow> Some (p, i) | _ \<Rightarrow> None))"

definition awaitValidationReq_step :: "json option \<Rightarrow> validation_node \<Rightarrow> (string \<times> bool) option outcome" where
  "awaitValidationReq_step msg st =
     (case validation_request msg of
        None \<Rightarrow> Returns None
      | Some (pth, peer) \<Rightarrow>
          (case validations_Get pth st of
             [] \<Rightarrow> Returns None
           | d # _ \<Rightarrow>
               (case validationMapToStruct d of
                  None \<Rightarrow> Panics
                | Some e \<Rightarrow> if v_VoteCnt e \<noteq> 0 then Returns None else Returns (Some (peer @ pth, v_IsValid e)))))"

section \<open>Contributions\<close>

text \<open>\<open>awaitWriteEvent\<close>: one write event, with the path of the written store and the operation's JSON.\<close>

definition op_value :: "ipfs_world \<Rightarrow> json option \<Rightarrow> string option" where
  "op_value w payload_json =
     (case decode_struct payload_json of
        None \<Rightarrow> None
      | Some m \<Rightarrow> (case read_text m ''value'' of None \<Rightarrow> None | Some t \<Rightarrow> base64_text w t))"

definition awaitWriteEvent_step :: "ipfs_world \<Rightarrow> string \<Rightarrow> json option \<Rightarrow> validation_node \<Rightarrow> unit outcome \<times> validation_node" where
  "awaitWriteEvent_step w addr payload_json st =
     (case vn_Contributions st of
        None \<Rightarrow> (Returns (), st)
      | Some (own, es) \<Rightarrow>
          (if addr \<noteq> own then (Returns (), st)
           else case op_value w payload_json of
             None \<Rightarrow> (Returns (), st)
           | Some bytes \<Rightarrow>
               (case decode_contribution w bytes of
                  (c, ok) \<Rightarrow>
                    (if \<not> ok \<or> \<not> fetch_ok w (c_Path c) then (Returns (), st)
                     else put_validation w \<lparr>v_Path = c_Path c, v_IsValid = validateStub (c_Path c), v_VoteCnt = 0\<rparr> st))))"

text \<open>\<open>awaitStoreExchange\<close>: one message, the address of a peer's store.  A store that cannot be opened is logged
  and then converted, which panics.\<close>

definition awaitStoreExchange_step :: "ipfs_world \<Rightarrow> string \<Rightarrow> validation_node \<Rightarrow> unit outcome \<times> validation_node" where
  "awaitStoreExchange_step w addr st =
     (if vn_Contributions st \<noteq> None then (Returns (), st)
      else if open_ok w addr then (Returns (), st\<lparr>vn_Contributions := Some (addr, []), vn_ContributionsStoreAddr := addr\<rparr>)
      else (Panics, st))"

text \<open>\<open>awaitConnected\<close>: the topic and the address sent to a peer that has connected.  The store is the one at the
  start of the loop.\<close>

definition awaitConnected_step :: "(string \<times> string list) option \<Rightarrow> bool \<Rightarrow> string \<Rightarrow> (string \<times> string) option" where
  "awaitConnected_step at_start up peer =
     (case at_start of None \<Rightarrow> None | Some (addr, es) \<Rightarrow> if up then Some (peer, addr) else None)"

text \<open>\<open>post\<close>: the entry of the log is the JSON of the contribution.\<close>

definition post :: "ipfs_world \<Rightarrow> string \<Rightarrow> string \<Rightarrow> string \<Rightarrow> string \<Rightarrow> string \<Rightarrow> validation_node
    \<Rightarrow> string outcome \<times> validation_node" where
  "post w agent ts own_ip public_ip f st =
     (case vn_Contributions st of
        None \<Rightarrow> (Fails, st)
      | Some (addr, es) \<Rightarrow>
          (case add_file w f of
             None \<Rightarrow> (Fails, st)
           | Some pth \<Rightarrow>
               (case encode_contribution w \<lparr>c_AgentName = agent, c_Path = pth, c_Contributor = vn_PeerID st, c_CreationTS = ts,
                       c_LocalIP = own_ip, c_NodeIP = public_ip, c_RemoteIPs = []\<rparr> of
                  None \<Rightarrow> (Fails, st)
                | Some dataJSON \<Rightarrow>
                    (if vn_ContributionsMtx st then (Blocks, st)
                     else if append_ok w then (Returns ''File uploaded'', st\<lparr>vn_Contributions := Some (addr, es @ [dataJSON])\<rparr>)
                     else (Fails, st\<lparr>vn_ContributionsMtx := True\<rparr>)))))"

text \<open>\<open>query\<close> (and \<open>queryKeyValue\<close>): the contributions of the log, each of which is validated; the votes arrive in
  a list per contribution.  The answer is not filtered.\<close>

fun query_entries :: "ipfs_world \<Rightarrow> string list \<Rightarrow> json option list list \<Rightarrow> validation_node
    \<Rightarrow> contribution list outcome \<times> validation_node" where
  "query_entries w [] votes st = (Returns [], st)"
| "query_entries w (e # es) votes st =
     (case decode_contribution w e of
        (c, False) \<Rightarrow>
          (case query_entries w es (tl votes) st of
             (Returns cs, st') \<Rightarrow> (Returns (c # cs), st')
           | r \<Rightarrow> r)
      | (c, True) \<Rightarrow>
          (case isValid w (c_Path c) (if votes = [] then [] else hd votes) st of
             (Blocks, st1) \<Rightarrow> (Blocks, st1)
           | (Panics, st1) \<Rightarrow> (Panics, st1)
           | (_, st1) \<Rightarrow>
               (case query_entries w es (tl votes) st1 of
                  (Returns cs, st') \<Rightarrow> (Returns (c # cs), st')
                | r \<Rightarrow> r)))"

definition query_contributions :: "ipfs_world \<Rightarrow> json option list list \<Rightarrow> validation_node
    \<Rightarrow> contribution list outcome \<times> validation_node" where
  "query_contributions w votes st =
     (case vn_Contributions st of None \<Rightarrow> (Returns [], st) | Some (addr, es) \<Rightarrow> query_entries w es votes st)"

text \<open>\<open>getContri\<close>: the entries as JSON objects, with their base64 value decoded.\<close>

definition contribution_record :: "ipfs_world \<Rightarrow> json option \<Rightarrow> document option" where
  "contribution_record w entry_json =
     (case decode_struct entry_json of
        None \<Rightarrow> None
      | Some m \<Rightarrow>
          (case gm_get m ''value'' of
             Some (JStr encoded) \<Rightarrow>
               (case base64_text w encoded of
                  None \<Rightarrow> None
                | Some bytes \<Rightarrow>
                    (case json_value w bytes of
                       Some (JObj o1) \<Rightarrow> Some (gm_set ''value'' (JObj o1) m)
                     | Some JNull \<Rightarrow> Some (gm_set ''value'' JNull m)
                     | _ \<Rightarrow> Some (gm_set ''value'' (JStr bytes) m)))
           | _ \<Rightarrow> Some m))"

definition getContri :: "ipfs_world \<Rightarrow> json option list option \<Rightarrow> validation_node \<Rightarrow> document list option" where
  "getContri w listed st =
     (if vn_Contributions st = None then None
      else case listed of None \<Rightarrow> None | Some ents \<Rightarrow> Some (List.map_filter (contribution_record w) ents))"

end
