(* ===== verification/ValidationFacts.thy ===== *)
theory ValidationFacts
  imports Validation
begin

text \<open>
  Properties of contributions and their validation: a posted file gets the vote of its node, nothing is ever
  judged invalid, and one failed write stops validation for good.
\<close>

section \<open>Steps\<close>

text \<open>The operations of a node, in any order and in any world.\<close>

inductive validation_step :: "(ipfs_world \<Rightarrow> bool) \<Rightarrow> validation_node \<Rightarrow> validation_node \<Rightarrow> bool" for W where
  judge: "W w \<Longrightarrow> validation_step W st (snd (isValid w pth msgs st))"
| written: "W w \<Longrightarrow> validation_step W st (snd (awaitWriteEvent_step w addr payload_json st))"
| exchanged: "W w \<Longrightarrow> validation_step W st (snd (awaitStoreExchange_step w addr st))"
| posted: "W w \<Longrightarrow> validation_step W st (snd (post w agent ts own_ip public_ip f st))"
| queried: "W w \<Longrightarrow> validation_step W st (snd (query_contributions w votes st))"

text \<open>Validations are only changed by \<open>put_validation\<close>: what it keeps, every step keeps.\<close>

lemma put_only:
  assumes "\<And>v st. I st \<Longrightarrow> v_IsValid v \<Longrightarrow> I (snd (put_validation w v st))"
  shows "I st \<Longrightarrow> I (snd (isValid w pth msgs st))"
    and "I st \<Longrightarrow> I (snd (awaitWriteEvent_step w addr payload_json st))"
proof -
  have v: "v_IsValid v" if "accValidations w pth msgs = Some v" for v
    using that by (auto simp: accValidations_def validateStub_def Let_def split: if_splits prod.splits option.splits)
  assume i: "I st"
  show "I (snd (isValid w pth msgs st))"
  proof (cases "validations_Get pth st")
    case Nil
    show ?thesis
    proof (cases "accValidations w pth msgs")
      case None
      then show ?thesis using i Nil by (simp add: isValid_def)
    next
      case (Some a)
      then show ?thesis using assms[OF i v[OF Some]] Nil
        by (cases "put_validation w a st") (simp add: isValid_def split: outcome.split)
    qed
  qed (use i in \<open>simp add: isValid_def\<close>)
next
  assume i: "I st"
  show "I (snd (awaitWriteEvent_step w addr payload_json st))"
    using i assms[OF i] by (simp add: awaitWriteEvent_step_def validateStub_def split: option.split prod.split)
qed

lemma query_entries_keep:
  assumes judged: "\<And>pth msgs st. I st \<Longrightarrow> I (snd (isValid w pth msgs st))"
  shows "I st \<Longrightarrow> I (snd (query_entries w es votes st))"
proof (induction es arbitrary: votes st)
  case (Cons e es)
  obtain c ok where d: "decode_contribution w e = (c, ok)" by fastforce
  obtain r st1 where v: "isValid w (c_Path c) (if votes = [] then [] else hd votes) st = (r, st1)" by fastforce
  have st1: "I st1" using judged[OF Cons.prems, of "c_Path c" "if votes = [] then [] else hd votes"] v by simp
  show ?case
  proof (cases ok)
    case False
    then show ?thesis using d Cons.IH[OF Cons.prems, of "tl votes"]
      by (cases "query_entries w es (tl votes) st") (simp split: outcome.split)
  next
    case True
    then show ?thesis using d v st1 Cons.IH[OF st1, of "tl votes"]
      by (cases "query_entries w es (tl votes) st1") (cases r, simp_all split: outcome.split)
  qed
qed simp

lemma step_keeps:
  assumes "validation_step W st st'" and "I st"
    and put: "\<And>w v st. W w \<Longrightarrow> I st \<Longrightarrow> v_IsValid v \<Longrightarrow> I (snd (put_validation w v st))"
    and other: "\<And>st contribs addr mtx. I st \<Longrightarrow> I (st\<lparr>vn_Contributions := contribs, vn_ContributionsStoreAddr := addr, vn_ContributionsMtx := mtx\<rparr>)"
  shows "I st'"
  using assms(1)
proof cases
  case (judge w pth msgs)
  show ?thesis unfolding judge(1) by (rule put_only(1)[where I=I, OF _ assms(2)]) (rule put[OF judge(2)])
next
  case (written w addr payload_json)
  show ?thesis unfolding written(1) by (rule put_only(2)[where I=I, OF _ assms(2)]) (rule put[OF written(2)])
next
  case (exchanged w addr)
  have "st\<lparr>vn_Contributions := x, vn_ContributionsStoreAddr := addr\<rparr> = st\<lparr>vn_Contributions := x, vn_ContributionsStoreAddr := addr, vn_ContributionsMtx := vn_ContributionsMtx st\<rparr>" for x
    by simp
  then show ?thesis using exchanged(1) assms(2) other[OF assms(2), where contribs="Some (addr, [])" and addr=addr and mtx="vn_ContributionsMtx st"]
    by (simp add: awaitStoreExchange_step_def split: if_splits)
next
  case (posted w agent ts own_ip public_ip f)
  have a: "I (st\<lparr>vn_Contributions := x\<rparr>)" for x
    using other[OF assms(2), where contribs=x and addr="vn_ContributionsStoreAddr st" and mtx="vn_ContributionsMtx st"] by simp
  have b: "I (st\<lparr>vn_ContributionsMtx := True\<rparr>)"
    using other[OF assms(2), where contribs="vn_Contributions st" and addr="vn_ContributionsStoreAddr st" and mtx=True] by simp
  show ?thesis unfolding posted(1) using assms(2) a b by (simp add: post_def split: option.split prod.split)
next
  case (queried w votes)
  have one: "I u \<Longrightarrow> I (snd (isValid w pth msgs u))" for pth msgs u
    by (rule put_only(1)[where I=I]) (rule put[OF queried(2)])
  have keep: "I (snd (query_entries w es votes st))" for es
    by (rule query_entries_keep[where I=I, OF one assms(2)])
  show ?thesis unfolding queried(1) query_contributions_def
    using assms(2) keep by (simp split: option.split prod.split)
qed

lemma steps_keep:
  assumes "(validation_step W)\<^sup>*\<^sup>* st st'" and "I st"
    and "\<And>w v st. W w \<Longrightarrow> I st \<Longrightarrow> v_IsValid v \<Longrightarrow> I (snd (put_validation w v st))"
    and "\<And>st contribs addr mtx. I st \<Longrightarrow> I (st\<lparr>vn_Contributions := contribs, vn_ContributionsStoreAddr := addr, vn_ContributionsMtx := mtx\<rparr>)"
  shows "I st'"
  using assms(1,2)
proof (induction rule: rtranclp_induct)
  case (step y z)
  from step_keeps[OF step(2) step.IH[OF step.prems] assms(3,4)] show ?case .
qed

section \<open>Nothing is judged invalid\<close>

definition all_valid :: "validation_node \<Rightarrow> bool" where
  "all_valid st \<longleftrightarrow> (\<forall>p d. gm_get (vn_Validations st) p = Some d \<longrightarrow> (\<exists>q n. d = validation_doc \<lparr>v_Path = q, v_IsValid = True, v_VoteCnt = n\<rparr>))"

lemma all_valid_put: "all_valid st \<Longrightarrow> v_IsValid v \<Longrightarrow> all_valid (snd (put_validation w v st))"
proof -
  assume a: "all_valid st" "v_IsValid v"
  have "validation_doc v = validation_doc \<lparr>v_Path = v_Path v, v_IsValid = True, v_VoteCnt = v_VoteCnt v\<rparr>"
    using a(2) by (simp add: validation_doc_def)
  then show ?thesis using a(1) by (fastforce simp: put_validation_def all_valid_def gm_get_set)
qed

lemma all_valid_steps: "(validation_step W)\<^sup>*\<^sup>* st st' \<Longrightarrow> all_valid st \<Longrightarrow> all_valid st'"
  by (erule steps_keep[where I=all_valid], assumption, erule (1) all_valid_put) (simp add: all_valid_def)

lemma all_valid_Get: "all_valid st \<Longrightarrow> d \<in> set (validations_Get p st) \<Longrightarrow> \<exists>q n. d = validation_doc \<lparr>v_Path = q, v_IsValid = True, v_VoteCnt = n\<rparr>"
  by (auto simp: validations_Get_def all_valid_def Let_def split: option.splits if_splits)

lemma doc_to_struct: "validationMapToStruct (validation_doc v) = Some \<lparr>v_Path = v_Path v, v_IsValid = v_IsValid v, v_VoteCnt = v_VoteCnt v\<rparr>"
proof -
  have "word_of_int \<lfloor>real (unat n)\<rfloor> = n" for n :: "32 word" unfolding floor_of_nat by simp
  moreover have "real (unat n) \<ge> 0" for n :: "32 word" by (rule of_nat_0_le_iff)
  ultimately have "word_of_int \<lfloor>unsigned n :: real\<rfloor> = n" "(unsigned n :: real) \<ge> 0" for n :: "32 word" unfolding of_nat_unat by blast+
  then show ?thesis by (simp add: validationMapToStruct_def validation_doc_def)
qed

text \<open>Whatever the peers vote, no contribution is ever found invalid: from a node without validations, through any
  operations in any world, no judgement is negative, no vote is, and no type assertion on a validation panics.\<close>

theorem never_judged_invalid:
  assumes "vn_Validations st = []" and "(validation_step W)\<^sup>*\<^sup>* st st'"
  shows "fst (isValid w pth msgs st') \<notin> {Returns False, Panics}
    \<and> awaitValidationReq_step msg st' \<notin> {Returns (Some (topic, False)), Panics}"
proof -
  have v: "all_valid st'" by (rule all_valid_steps[OF assms(2)]) (simp add: all_valid_def assms(1))
  note doc = all_valid_Get[OF v]
  have own: "fst (isValid w pth msgs st') \<notin> {Returns False, Panics}"
  proof (cases "validations_Get pth st'")
    case Nil
    have p: "fst (put_validation w a st') \<noteq> Panics" for a by (simp add: put_validation_def)
    show ?thesis
    proof (cases "accValidations w pth msgs")
      case None
      then show ?thesis using Nil by (simp add: isValid_def)
    next
      case (Some a)
      have "v_IsValid a" using Some by (auto simp: accValidations_def validateStub_def Let_def split: if_splits prod.splits option.splits)
      then show ?thesis using Some Nil p[of a]
        by (cases "put_validation w a st'") (simp add: isValid_def split: outcome.split)
    qed
  next
    case (Cons d ds)
    then obtain q n where "d = validation_doc \<lparr>v_Path = q, v_IsValid = True, v_VoteCnt = n\<rparr>" using doc[of d pth] by auto
    then show ?thesis using Cons by (simp add: isValid_def validation_doc_def)
  qed
  have "awaitValidationReq_step msg st' \<notin> {Returns (Some (topic, False)), Panics}"
  proof (cases "validation_request msg")
    case None
    then show ?thesis by (simp add: awaitValidationReq_step_def)
  next
    case (Some r)
    show ?thesis
    proof (cases "validations_Get (fst r) st'")
      case Nil
      then show ?thesis using Some by (cases r) (simp add: awaitValidationReq_step_def)
    next
      case (Cons d ds)
      then obtain q n where d: "d = validation_doc \<lparr>v_Path = q, v_IsValid = True, v_VoteCnt = n\<rparr>" using doc[of d "fst r"] by auto
      show ?thesis using Some Cons by (cases r) (simp add: awaitValidationReq_step_def d doc_to_struct)
    qed
  qed
  with own show ?thesis by blast
qed

text \<open>A node that has posted a file: its path and what the log holds.\<close>

definition sample_ipfs :: ipfs_world where
  "sample_ipfs = \<lparr>fetch_ok = (\<lambda>_. True), add_file = (\<lambda>f. Some (''/ipfs/'' @ f)), announce_ok = True, swarm_peers = Some 4,
     put_ok = (\<lambda>_. True), append_ok = True, open_ok = (\<lambda>_. True), encode_contribution = (\<lambda>c. Some (c_Path c)),
     decode_contribution = (\<lambda>s. (\<lparr>c_AgentName = '''', c_Path = s, c_Contributor = '''', c_CreationTS = '''', c_LocalIP = '''',
        c_NodeIP = '''', c_RemoteIPs = []\<rparr>, True)),
     base64_text = Some, json_value = (\<lambda>_. None)\<rparr>"

definition sample_validation_node :: validation_node where
  "sample_validation_node = \<lparr>vn_PeerID = ''me'', vn_Contributions = Some (''/orbitdb/x'', []), vn_ContributionsStoreAddr = ''/orbitdb/x'',
     vn_Validations = [], vn_ValidationsMtx = False, vn_ContributionsMtx = False\<rparr>"

definition no_vote :: "json option" where
  "no_vote = Some (JObj [(''vote'', JBool False)])"

lemma never_judged_invalid_witness:
  "(let st' = snd (isValid sample_ipfs ''/ipfs/f'' (replicate 4 no_vote) sample_validation_node)
    in fst (isValid sample_ipfs ''/ipfs/f'' [] st') \<notin> {Returns False, Panics} \<and> vn_Validations st' \<noteq> [])"
proof -
  have s: "validation_step (\<lambda>_. True) sample_validation_node (snd (isValid sample_ipfs ''/ipfs/f'' (replicate 4 no_vote) sample_validation_node))"
    by (rule judge) simp
  have e: "vn_Validations sample_validation_node = []" by (simp add: sample_validation_node_def)
  have "vn_Validations (snd (isValid sample_ipfs ''/ipfs/f'' (replicate 4 no_vote) sample_validation_node)) \<noteq> []"
    by (simp add: isValid_def validations_Get_def sample_validation_node_def accValidations_def sample_ipfs_def no_vote_def
      vote_of_def decode_struct_def read_flag_def numeral_eq_Suc put_validation_def)
  then show ?thesis using never_judged_invalid[OF e r_into_rtranclp[where r="validation_step (\<lambda>_. True)", OF s]] by (simp add: Let_def)
qed

section \<open>One failed write\<close>

text \<open>A single failed write ends validation: the mutex stays locked, so whatever happens afterwards no validation is
  stored any more, and every judgement of a new path and every written contribution that could be stored
  blocks its goroutine for ever.\<close>

theorem failed_write_freezes:
  assumes "fst (put_validation w v st) = Fails" and "(validation_step W)\<^sup>*\<^sup>* (snd (put_validation w v st)) st'"
  shows "vn_Validations st' = vn_Validations st
    \<and> fst (put_validation w2 v2 st') = Blocks
    \<and> fst (isValid w2 pth msgs st') \<in> {Blocks, Fails} \<union> (if validations_Get pth st = [] then {} else {Returns True, Returns False, Panics})"
proof -
  let ?I = "\<lambda>u. vn_Validations u = vn_Validations st \<and> vn_ValidationsMtx u"
  have "?I (snd (put_validation w v st))" using assms(1) by (auto simp: put_validation_def split: if_splits)
  then have i: "?I st'" by (rule steps_keep[OF assms(2), where I="?I"]) (simp_all add: put_validation_def)
  then have b: "put_validation w2 v2 st' = (Blocks, st')" for w2 v2 by (simp add: put_validation_def)
  have g: "validations_Get pth st' = validations_Get pth st" using i by (simp add: validations_Get_def)
  have "fst (isValid w2 pth msgs st') \<in> {Blocks, Fails} \<union> (if validations_Get pth st = [] then {} else {Returns True, Returns False, Panics})"
    by (auto simp: isValid_def g b split: list.split option.split json.split)
  then show ?thesis using i b by simp
qed

lemma failed_write_freezes_witness:
  "(let st = snd (put_validation (sample_ipfs\<lparr>put_ok := \<lambda>_. False\<rparr>) \<lparr>v_Path = ''/ipfs/f'', v_IsValid = True, v_VoteCnt = 0\<rparr> sample_validation_node)
    in vn_Validations st = [] \<and> fst (put_validation sample_ipfs \<lparr>v_Path = ''/ipfs/g'', v_IsValid = True, v_VoteCnt = 0\<rparr> st) = Blocks)"
proof -
  have f: "fst (put_validation (sample_ipfs\<lparr>put_ok := \<lambda>_. False\<rparr>) \<lparr>v_Path = ''/ipfs/f'', v_IsValid = True, v_VoteCnt = 0\<rparr> sample_validation_node) = Fails"
    by (simp add: put_validation_def sample_validation_node_def)
  from failed_write_freezes[where W="\<lambda>_. True" and ?w2.0=sample_ipfs and ?v2.0="\<lparr>v_Path = ''/ipfs/g'', v_IsValid = True, v_VoteCnt = 0\<rparr>",
      OF f rtranclp.rtrancl_refl]
  show ?thesis by (simp add: Let_def sample_validation_node_def)
qed

section \<open>Votes\<close>

lemma count_votes_sum: "count_votes msgs (a, b) =
  (a + length (filter (\<lambda>m. vote_of m = Some True) msgs), b + length (filter (\<lambda>m. vote_of m = Some False) msgs))"
  by (induction msgs arbitrary: a b) (auto split: option.split)

text \<open>A judgement counts messages, not voters: it carries the number of readable votes, is reached without the file
  exactly when more than half as many votes for the path as there are peers in the swarm have arrived
  (from whomever), and otherwise is the node's own.\<close>

theorem judgement_counts_messages:
  assumes "announce_ok w" and "swarm_peers w = Some n"
  shows "accValidations w pth msgs =
    (if n < 2 * length (filter (\<lambda>m. vote_of m = Some True) msgs) \<or> fetch_ok w pth
     then Some \<lparr>v_Path = pth, v_IsValid = True, v_VoteCnt = word_of_nat (length (filter (\<lambda>m. vote_of m \<noteq> None) msgs))\<rparr> else None)"
proof -
  have "length (filter (\<lambda>m. vote_of m = Some True) msgs) + length (filter (\<lambda>m. vote_of m = Some False) msgs)
      = length (filter (\<lambda>m. vote_of m \<noteq> None) msgs)"
  proof (induction msgs)
    case (Cons m msgs)
    then show ?case by (cases "vote_of m") auto
  qed simp
  then show ?thesis using assms by (simp add: accValidations_def count_votes_sum Let_def validateStub_def del: of_nat_add)
qed

definition yes_vote :: "json option" where
  "yes_vote = Some (JObj [(''vote'', JBool True)])"

lemma judgement_counts_messages_witness:
  "accValidations (sample_ipfs\<lparr>fetch_ok := \<lambda>_. False\<rparr>) ''/ipfs/f'' [yes_vote, yes_vote, None, yes_vote]
    = Some \<lparr>v_Path = ''/ipfs/f'', v_IsValid = True, v_VoteCnt = 3\<rparr>"
proof -
  have "announce_ok (sample_ipfs\<lparr>fetch_ok := \<lambda>_. False\<rparr>)" "swarm_peers (sample_ipfs\<lparr>fetch_ok := \<lambda>_. False\<rparr>) = Some 4"
    by (simp_all add: sample_ipfs_def)
  moreover have "vote_of yes_vote = Some True" "vote_of None = None"
    by (simp_all add: yes_vote_def vote_of_def decode_struct_def read_flag_def)
  ultimately show ?thesis by (subst judgement_counts_messages) auto
qed

definition ask_vote :: "string \<Rightarrow> string \<Rightarrow> json option" where
  "ask_vote pth peer = Some (JObj [(''path'', JStr pth), (''peerId'', JStr peer)])"



end
