(* ===== verification/Spec2Isabelle.thy ===== *)
theory Spec2Isabelle
  imports ElectionLeader Capacity Relations SqlText QueryEngine SqlGrammar SqlGroups SqlSession RestFacts ExchangeFacts TerminalFacts ValidationFacts
begin

text \<open>
  Verification library of OptimusDB.
\<close>

end
